(* ===== verification/Prelude.thy ===== *)
theory Prelude
  imports Main "HOL-Library.Word"
begin

text \<open>
  Shared ground of the development: the C integer types of the x64 build as fixed-width
  words, the status codes of the firmware interface that the boot loader returns, C
  strings held in byte arrays, little-endian reads, and the generic lemmas that the
  component theories share.
\<close>

unbundle bit_operations_syntax

section \<open>C types\<close>

type_synonym u8 = "8 word"
type_synonym u16 = "16 word"
type_synonym u32 = "32 word"
type_synonym u64 = "64 word"

named_theorems oob_simps \<open>reads inside the bounds of an object\<close>
named_theorems word_nat \<open>words read as natural numbers\<close>

section \<open>Status codes\<close>

datatype EFI_STATUS =
    EFI_SUCCESS
  | EFI_LOAD_ERROR
  | EFI_INVALID_PARAMETER
  | EFI_UNSUPPORTED
  | EFI_BAD_BUFFER_SIZE
  | EFI_BUFFER_TOO_SMALL
  | EFI_DEVICE_ERROR
  | EFI_OUT_OF_RESOURCES
  | EFI_VOLUME_CORRUPTED
  | EFI_NOT_FOUND
  | EFI_NO_MAPPING

definition EFI_ERROR :: "EFI_STATUS \<Rightarrow> bool" where
  "EFI_ERROR s = (s \<noteq> EFI_SUCCESS)"

lemma EFI_ERROR_simps [simp]:
  "\<not> EFI_ERROR EFI_SUCCESS"
  "EFI_ERROR s \<longleftrightarrow> s \<noteq> EFI_SUCCESS"
  by (simp_all add: EFI_ERROR_def)

section \<open>Words as natural numbers\<close>

lemma unat_bound: "unat (x :: 'a::len word) < 2 ^ LENGTH('a)"
  by (rule unsigned_less)

lemma unat_of_nat_small [word_nat]:
  "n < 2 ^ LENGTH('a::len) \<Longrightarrow> unat (of_nat n :: 'a word) = n"
  by (simp add: unat_of_nat take_bit_nat_eq_self)

lemma unat_add_small [word_nat]:
  fixes x y :: "'a::len word"
  shows "unat x + unat y < 2 ^ LENGTH('a) \<Longrightarrow> unat (x + y) = unat x + unat y"
  by (simp add: unat_word_ariths)

lemma unat_ucast_up [word_nat]:
  "LENGTH('a::len) \<le> LENGTH('b::len) \<Longrightarrow> unat (ucast (x :: 'a word) :: 'b word) = unat x"
  unfolding unsigned_ucast_eq
  by (intro take_bit_nat_eq_self less_le_trans [OF unat_bound] power_increasing) auto

lemma unat_u8_le: "unat (x :: u8) \<le> 255"
  using unat_bound [of x] by simp

lemma or_disjoint_add:
  fixes x y :: "'a::len word"
  assumes "\<And>n. bit x n \<Longrightarrow> \<not> bit y n"
  shows "x OR y = x + y"
  using assms by (intro disjunctive_add_eq_or [symmetric] bit_eqI) (auto simp: bit_simps)

lemma bit_small_word: "unat (x :: 'a::len word) < 2 ^ k \<Longrightarrow> k \<le> n \<Longrightarrow> \<not> bit x n"
proof -
  assume "unat x < 2 ^ k" "k \<le> n"
  then have "take_bit n (unat x) = unat x"
    using power_increasing [of k n "2::nat"] by (intro take_bit_nat_eq_self) linarith
  then have "\<not> bit (unat x) n" by (metis bit_take_bit_iff less_irrefl)
  then show ?thesis by (simp add: bit_unsigned_iff)
qed

lemma unat_and_mask: "unat (x AND mask m) = unat (x :: 'a::len word) mod 2 ^ m"
proof -
  have "unat (x AND mask m) = take_bit m (unat x)"
    by (simp only: take_bit_eq_mask [symmetric] unsigned_take_bit_eq)
  then show ?thesis by (simp only: take_bit_eq_mod)
qed

lemma unat_drop_bit: "unat (drop_bit k (x :: 'a::len word)) = unat x div 2 ^ k"
proof -
  have "unat (drop_bit k x) = drop_bit k (unat x)"
    by (simp only: unsigned_drop_bit_eq take_bit_nat_eq_self [OF unat_bound])
  then show ?thesis by (simp only: drop_bit_eq_div)
qed

lemma join_bits:
  assumes "b < 2 ^ k"
  shows "push_bit k (of_nat a) OR of_nat b = (of_nat (2 ^ k * a + b) :: 'a::len word)"
proof -
  have "unat (of_nat b :: 'a word) < 2 ^ k"
    using assms by (simp add: unat_of_nat) (meson le_less_trans mod_less_eq_dividend)
  then have "push_bit k (of_nat a) OR of_nat b = push_bit k (of_nat a) + (of_nat b :: 'a word)"
    by (intro or_disjoint_add) (auto simp: bit_simps dest: bit_small_word)
  then show ?thesis by (simp add: push_bit_eq_mult)
qed

lemma and_shifted_mask:
  "x AND push_bit k (mask m) = push_bit k (drop_bit k x AND mask m)" for x :: "'a::len word"
  by (rule bit_eqI) (auto simp: bit_simps)

lemma of_nat_and_mask: "of_nat n AND mask m = (of_nat (n mod 2 ^ m) :: 'a::len word)"
proof -
  have "of_nat n AND mask m = (of_nat (take_bit m n) :: 'a word)"
    by (simp only: take_bit_eq_mask [symmetric] take_bit_of_nat)
  also have "take_bit m n = n mod 2 ^ m" by (rule take_bit_eq_mod)
  finally show ?thesis .
qed

lemma drop_bit_of_nat_small:
  assumes "n < 2 ^ LENGTH('a::len)"
  shows "drop_bit k (of_nat n :: 'a word) = of_nat (n div 2 ^ k)"
proof (rule word_unat_eq_iff [THEN iffD2])
  have "n div 2 ^ k < 2 ^ LENGTH('a)" using assms by (meson div_le_dividend le_less_trans)
  then show "unat (drop_bit k (of_nat n :: 'a word)) = unat (of_nat (n div 2 ^ k) :: 'a word)"
    using assms by (simp only: unat_drop_bit unat_of_nat_small)
qed

lemma ucast_of_nat_small:
  assumes "n < 2 ^ LENGTH('a::len)"
  shows "ucast (of_nat n :: 'a word) = (of_nat n :: 'b::len word)"
  using of_nat_unat [of "of_nat n :: 'a word", where 'a = "'b word"] assms
  by (simp only: unat_of_nat_small)

section \<open>Byte buffers\<close>

text \<open>
  The effect of copying all of \<open>src\<close> over the bytes of \<open>dst\<close> from offset \<open>off\<close> on.
\<close>

definition overlay :: "'a list \<Rightarrow> nat \<Rightarrow> 'a list \<Rightarrow> 'a list" where
  "overlay dst off src = take off dst @ src @ drop (off + length src) dst"

lemma length_overlay [simp]:
  "off + length src \<le> length dst \<Longrightarrow> length (overlay dst off src) = length dst"
  by (simp add: overlay_def)

lemma take_overlay [simp]:
  "off \<le> length dst \<Longrightarrow> take (off + length src) (overlay dst off src) = take off dst @ src"
  by (simp add: overlay_def)

lemma overlay_Cons: "j < length b \<Longrightarrow> overlay (b[j := v]) (Suc j) vs = overlay b j (v # vs)"
  by (simp add: overlay_def take_Suc_conv_app_nth)

lemma overlay_Nil [simp]: "overlay b j [] = b"
  by (simp add: overlay_def)

text \<open>Big-endian and little-endian byte order.\<close>

definition be32 :: "u8 list \<Rightarrow> nat \<Rightarrow> u32" where
  "be32 b i = push_bit 24 (ucast (b ! i)) OR push_bit 16 (ucast (b ! (i + 1)))
     OR push_bit 8 (ucast (b ! (i + 2))) OR ucast (b ! (i + 3))"

definition put_be32 :: "u32 \<Rightarrow> u8 list" where
  "put_be32 n = [ucast (drop_bit 24 n), ucast (drop_bit 16 n), ucast (drop_bit 8 n), ucast n]"

definition le32 :: "u8 list \<Rightarrow> nat \<Rightarrow> u32" where
  "le32 b i = ucast (b ! i) OR push_bit 8 (ucast (b ! (i + 1)))
     OR push_bit 16 (ucast (b ! (i + 2))) OR push_bit 24 (ucast (b ! (i + 3)))"

definition put_le32 :: "u32 \<Rightarrow> u8 list" where
  "put_le32 n = [ucast n, ucast (drop_bit 8 n), ucast (drop_bit 16 n), ucast (drop_bit 24 n)]"

lemma length_put32 [simp]: "length (put_be32 n) = 4" "length (put_le32 n) = 4"
  by (simp_all add: put_be32_def put_le32_def)

lemma le_bytes_join:
  "ucast (ucast c :: u8) OR push_bit 8 (ucast (ucast (drop_bit 8 c) :: u8)) OR
   push_bit 16 (ucast (ucast (drop_bit 16 c) :: u8)) OR push_bit 24 (ucast (ucast (drop_bit 24 c) :: u8)) = (c :: u32)"
proof (rule bit_eqI)
  fix n assume "possible_bit TYPE(u32) n"
  then have "n < 32" by simp
  then have "n < 8 \<or> 8 \<le> n \<and> n < 16 \<or> 16 \<le> n \<and> n < 24 \<or> 24 \<le> n \<and> n < 32" by linarith
  then show "bit (ucast (ucast c :: u8) OR push_bit 8 (ucast (ucast (drop_bit 8 c) :: u8)) OR
   push_bit 16 (ucast (ucast (drop_bit 16 c) :: u8)) OR push_bit 24 (ucast (ucast (drop_bit 24 c) :: u8)) :: u32) n = bit c n"
    by (elim disjE conjE) (auto simp: bit_simps)
qed

lemma le32_put: "le32 (A @ put_le32 c @ B) (length A) = c"
  using le_bytes_join [of c] by (simp add: le32_def put_le32_def nth_append)

section \<open>Three-way comparisons\<close>

text \<open>
  The contract of a comparison function that answers with the sign of its result, in the
  way of memcmp: it orders its arguments by a key, among the arguments it is meant for.
\<close>

locale three_way =
  fixes cmp :: "'a \<Rightarrow> 'a \<Rightarrow> int" and key :: "'a \<Rightarrow> 'k::linorder" and dom :: "'a \<Rightarrow> bool"
  assumes cmp_less: "dom a \<Longrightarrow> dom b \<Longrightarrow> cmp a b < 0 \<longleftrightarrow> key a < key b"
    and cmp_zero: "dom a \<Longrightarrow> dom b \<Longrightarrow> cmp a b = 0 \<longleftrightarrow> key a = key b"
begin

lemma cmp_greater: "dom a \<Longrightarrow> dom b \<Longrightarrow> 0 < cmp a b \<longleftrightarrow> key b < key a"
  using cmp_less [of a b] cmp_zero [of a b] by (metis linorder_neqE neq_iff order_less_asym)

lemma cmp_sign: "dom a \<Longrightarrow> dom b \<Longrightarrow> sgn (cmp a b) = - sgn (cmp b a)"
  using cmp_less [of a b] cmp_less [of b a] cmp_zero [of a b] cmp_zero [of b a]
    cmp_greater [of a b] cmp_greater [of b a]
  by (auto simp: sgn_if)

lemma cmp_trans:
  "dom a \<Longrightarrow> dom b \<Longrightarrow> dom c \<Longrightarrow> cmp a b \<le> 0 \<Longrightarrow> cmp b c \<le> 0 \<Longrightarrow> cmp a c \<le> 0"
  using cmp_greater [of a b] cmp_greater [of b c] cmp_greater [of a c]
  by (metis linorder_not_less order_trans)

end

end
