(* ===== verification/Checksums.thy ===== *)
theory Checksums
  imports Prelude
begin

text \<open>
  The two running checksums: BlCrc32 (Crc32.c), a table-driven CRC-32, and BlAdler32
  (MiscUtils.c), Adler-32 with its modulo reduction delayed to every 5000th byte. Both
  are proved equal to their textbook definitions. A buffer and its length are one list
  of bytes.
\<close>

section \<open>The interface of a running checksum\<close>

text \<open>
  A checksum that is fed piece by piece: what a caller that splits its data relies on.
\<close>

locale running_checksum =
  fixes sum_from :: "'s \<Rightarrow> u8 list \<Rightarrow> 's"
  assumes sum_nil: "sum_from s [] = s"
    and sum_append: "sum_from s (xs @ ys) = sum_from (sum_from s xs) ys"
begin

lemma sum_pieces: "sum_from s (concat xss) = foldl sum_from s xss"
  by (induction xss arbitrary: s) (simp_all add: sum_nil sum_append)

lemma sum_split: "sum_from s xs = sum_from (sum_from s (take n xs)) (drop n xs)"
  using sum_append [of s "take n xs" "drop n xs"] by simp

end

section \<open>CRC-32\<close>

definition BlpCrc32Table :: "u32 list" where
  "BlpCrc32Table = [
   0x00000000, 0x77073096, 0xee0e612c, 0x990951ba, 0x076dc419, 0x706af48f,
   0xe963a535, 0x9e6495a3, 0x0edb8832, 0x79dcb8a4, 0xe0d5e91e, 0x97d2d988,
   0x09b64c2b, 0x7eb17cbd, 0xe7b82d07, 0x90bf1d91, 0x1db71064, 0x6ab020f2,
   0xf3b97148, 0x84be41de, 0x1adad47d, 0x6ddde4eb, 0xf4d4b551, 0x83d385c7,
   0x136c9856, 0x646ba8c0, 0xfd62f97a, 0x8a65c9ec, 0x14015c4f, 0x63066cd9,
   0xfa0f3d63, 0x8d080df5, 0x3b6e20c8, 0x4c69105e, 0xd56041e4, 0xa2677172,
   0x3c03e4d1, 0x4b04d447, 0xd20d85fd, 0xa50ab56b, 0x35b5a8fa, 0x42b2986c,
   0xdbbbc9d6, 0xacbcf940, 0x32d86ce3, 0x45df5c75, 0xdcd60dcf, 0xabd13d59,
   0x26d930ac, 0x51de003a, 0xc8d75180, 0xbfd06116, 0x21b4f4b5, 0x56b3c423,
   0xcfba9599, 0xb8bda50f, 0x2802b89e, 0x5f058808, 0xc60cd9b2, 0xb10be924,
   0x2f6f7c87, 0x58684c11, 0xc1611dab, 0xb6662d3d, 0x76dc4190, 0x01db7106,
   0x98d220bc, 0xefd5102a, 0x71b18589, 0x06b6b51f, 0x9fbfe4a5, 0xe8b8d433,
   0x7807c9a2, 0x0f00f934, 0x9609a88e, 0xe10e9818, 0x7f6a0dbb, 0x086d3d2d,
   0x91646c97, 0xe6635c01, 0x6b6b51f4, 0x1c6c6162, 0x856530d8, 0xf262004e,
   0x6c0695ed, 0x1b01a57b, 0x8208f4c1, 0xf50fc457, 0x65b0d9c6, 0x12b7e950,
   0x8bbeb8ea, 0xfcb9887c, 0x62dd1ddf, 0x15da2d49, 0x8cd37cf3, 0xfbd44c65,
   0x4db26158, 0x3ab551ce, 0xa3bc0074, 0xd4bb30e2, 0x4adfa541, 0x3dd895d7,
   0xa4d1c46d, 0xd3d6f4fb, 0x4369e96a, 0x346ed9fc, 0xad678846, 0xda60b8d0,
   0x44042d73, 0x33031de5, 0xaa0a4c5f, 0xdd0d7cc9, 0x5005713c, 0x270241aa,
   0xbe0b1010, 0xc90c2086, 0x5768b525, 0x206f85b3, 0xb966d409, 0xce61e49f,
   0x5edef90e, 0x29d9c998, 0xb0d09822, 0xc7d7a8b4, 0x59b33d17, 0x2eb40d81,
   0xb7bd5c3b, 0xc0ba6cad, 0xedb88320, 0x9abfb3b6, 0x03b6e20c, 0x74b1d29a,
   0xead54739, 0x9dd277af, 0x04db2615, 0x73dc1683, 0xe3630b12, 0x94643b84,
   0x0d6d6a3e, 0x7a6a5aa8, 0xe40ecf0b, 0x9309ff9d, 0x0a00ae27, 0x7d079eb1,
   0xf00f9344, 0x8708a3d2, 0x1e01f268, 0x6906c2fe, 0xf762575d, 0x806567cb,
   0x196c3671, 0x6e6b06e7, 0xfed41b76, 0x89d32be0, 0x10da7a5a, 0x67dd4acc,
   0xf9b9df6f, 0x8ebeeff9, 0x17b7be43, 0x60b08ed5, 0xd6d6a3e8, 0xa1d1937e,
   0x38d8c2c4, 0x4fdff252, 0xd1bb67f1, 0xa6bc5767, 0x3fb506dd, 0x48b2364b,
   0xd80d2bda, 0xaf0a1b4c, 0x36034af6, 0x41047a60, 0xdf60efc3, 0xa867df55,
   0x316e8eef, 0x4669be79, 0xcb61b38c, 0xbc66831a, 0x256fd2a0, 0x5268e236,
   0xcc0c7795, 0xbb0b4703, 0x220216b9, 0x5505262f, 0xc5ba3bbe, 0xb2bd0b28,
   0x2bb45a92, 0x5cb36a04, 0xc2d7ffa7, 0xb5d0cf31, 0x2cd99e8b, 0x5bdeae1d,
   0x9b64c2b0, 0xec63f226, 0x756aa39c, 0x026d930a, 0x9c0906a9, 0xeb0e363f,
   0x72076785, 0x05005713, 0x95bf4a82, 0xe2b87a14, 0x7bb12bae, 0x0cb61b38,
   0x92d28e9b, 0xe5d5be0d, 0x7cdcefb7, 0x0bdbdf21, 0x86d3d2d4, 0xf1d4e242,
   0x68ddb3f8, 0x1fda836e, 0x81be16cd, 0xf6b9265b, 0x6fb077e1, 0x18b74777,
   0x88085ae6, 0xff0f6a70, 0x66063bca, 0x11010b5c, 0x8f659eff, 0xf862ae69,
   0x616bffd3, 0x166ccf45, 0xa00ae278, 0xd70dd2ee, 0x4e048354, 0x3903b3c2,
   0xa7672661, 0xd06016f7, 0x4969474d, 0x3e6e77db, 0xaed16a4a, 0xd9d65adc,
   0x40df0b66, 0x37d83bf0, 0xa9bcae53, 0xdebb9ec5, 0x47b2cf7f, 0x30b5ffe9,
   0xbdbdf21c, 0xcabac28a, 0x53b39330, 0x24b4a3a6, 0xbad03605, 0xcdd70693,
   0x54de5729, 0x23d967bf, 0xb3667a2e, 0xc4614ab8, 0x5d681b02, 0x2a6f2b94,
   0xb40bbe37, 0xc30c8ea1, 0x5a05df1b, 0x2d02ef8d
   ]"

fun BlCrc32_loop :: "u32 \<Rightarrow> u8 list \<Rightarrow> u32" where
  "BlCrc32_loop crcValue [] = crcValue"
| "BlCrc32_loop crcValue (b # theBuffer) =
     BlCrc32_loop
       (BlpCrc32Table ! unat ((crcValue XOR ucast b) AND 0xff) XOR drop_bit 8 crcValue)
       theBuffer"

definition BlCrc32 :: "u32 \<Rightarrow> u8 list \<Rightarrow> u32" where
  "BlCrc32 crcValue inputBuffer = NOT (BlCrc32_loop (NOT crcValue) inputBuffer)"

text \<open>
  The reference: one shift of a reflected polynomial per bit, eight per byte. The polynomial of CRC-32
  is 0xedb88320.
\<close>

definition crc_bit :: "u32 \<Rightarrow> u32 \<Rightarrow> u32" where
  "crc_bit p c = (if bit c 0 then drop_bit 1 c XOR p else drop_bit 1 c)"

definition crc_byte :: "u32 \<Rightarrow> u32 \<Rightarrow> u8 \<Rightarrow> u32" where
  "crc_byte p c b = (crc_bit p ^^ 8) (c XOR ucast b)"

definition crc32_spec :: "u32 \<Rightarrow> u8 list \<Rightarrow> u32" where
  "crc32_spec c bs = NOT (foldl (crc_byte 0xedb88320) (NOT c) bs)"

lemma crc_bit_xor: "crc_bit p (x XOR y) = crc_bit p x XOR crc_bit p y"
  by (auto simp: crc_bit_def bit_xor_iff drop_bit_xor ac_simps)

lemma crc_bits_xor: "(crc_bit p ^^ n) (x XOR y) = (crc_bit p ^^ n) x XOR (crc_bit p ^^ n) y"
  by (induction n) (simp_all add: crc_bit_xor)

lemma crc_bits_high: "(\<And>k. k < n \<Longrightarrow> \<not> bit x k) \<Longrightarrow> (crc_bit p ^^ n) x = drop_bit n x"
proof (induction n arbitrary: x)
  case (Suc n)
  have "(crc_bit p ^^ n) (drop_bit 1 x) = drop_bit n (drop_bit 1 x)"
    by (rule Suc.IH) (use Suc.prems in \<open>simp add: bit_drop_bit_eq\<close>)
  moreover have "crc_bit p x = drop_bit 1 x"
    using Suc.prems [of 0] by (simp add: crc_bit_def)
  ultimately show ?case by (simp add: funpow_swap1 drop_bit_drop_bit)
qed simp

lemma length_crc_table [simp]: "length BlpCrc32Table = 256"
  by (simp add: BlpCrc32Table_def)

text \<open>
  A table doubles eight times: each half is the half before it, exclusive-ored with the
  row of the next power of two.
\<close>

lemma xor_pow2_add:
  assumes "j < 2 ^ k"
  shows "2 ^ k + j = (2 ^ k XOR j :: nat)"
proof (rule disjunctive_add_eq_xor)
  from assms have "take_bit k j = j" by (simp add: take_bit_nat_eq_self_iff)
  then have "\<not> bit j k" by (metis bit_take_bit_iff less_irrefl)
  then show "2 ^ k AND j = 0"
    by (intro bit_eqI) (auto simp: bit_and_iff bit_exp_iff)
qed

definition crc_row :: "u32 \<Rightarrow> nat \<Rightarrow> u32" where
  "crc_row p i = (crc_bit p ^^ 8) (of_nat i)"

lemma crc_row_add: "j < 2 ^ k \<Longrightarrow> crc_row p (2 ^ k + j) = crc_row p j XOR crc_row p (2 ^ k)"
  by (simp only: crc_row_def xor_pow2_add of_nat_xor_eq crc_bits_xor xor.commute)

definition crc_double :: "u32 \<Rightarrow> u32 list \<Rightarrow> u32 list" where
  "crc_double t xs = xs @ map (\<lambda>r. r XOR t) xs"

lemma crc_rows_double:
  "map (crc_row p) [0..<2 ^ Suc k] = crc_double (crc_row p (2 ^ k)) (map (crc_row p) [0..<2 ^ k])"
proof -
  have "[0..<2 ^ Suc k] = [0..<2 ^ k] @ map (\<lambda>j. 2 ^ k + j) [0..<2 ^ k]"
    using map_add_upt [of "2 ^ k" "2 ^ k"] upt_add_eq_append [of 0 "2 ^ k" "2 ^ k"]
    by (simp add: mult_2 add.commute)
  then show ?thesis by (simp add: crc_row_add crc_double_def)
qed

lemma crc_rows_fold:
  "map (crc_row p) [0..<2 ^ n] = foldl (\<lambda>xs k. crc_double (crc_row p (2 ^ k)) xs) [crc_row p 0] [0..<n]"
  by (induction n) (simp_all add: crc_rows_double del: power_Suc)

lemma crc_rows_256:
  "map (crc_row p) [0..<256] = crc_double (crc_row p 128) (crc_double (crc_row p 64) (crc_double (crc_row p 32)
     (crc_double (crc_row p 16) (crc_double (crc_row p 8) (crc_double (crc_row p 4) (crc_double (crc_row p 2)
     (crc_double (crc_row p (Suc 0)) [crc_row p 0])))))))"
proof -
  have "[0..<8] = [0, 1, 2, 3, 4, 5, 6, 7::nat]" by code_simp
  then show ?thesis using crc_rows_fold [of p 8] by simp
qed

text \<open>
  The interface of a CRC table, whatever its polynomial. One table step is eight shifts: the low byte goes
  through the table, the rest of the register only moves down, and the shifts are linear over exclusive or.
\<close>

locale crc_table =
  fixes poly :: u32 and table :: "u32 list"
  assumes table_rows: "map (crc_row poly) [0..<256] = table"
begin

lemma table_step: "table ! unat (x AND 0xff) XOR drop_bit 8 x = (crc_bit poly ^^ 8) x"
proof -
  have m: "(0xff :: u32) = mask 8" by (simp add: mask_eq_exp_minus_1)
  have low: "unat (x AND mask 8) < 256"
    using word_and_le1 [of x "mask 8"] by (simp add: word_le_nat_alt flip: m)
  have split: "x = (x AND mask 8) XOR (x AND NOT (mask 8))"
    by (rule bit_word_eqI) (auto simp: bit_simps)
  have high: "(crc_bit poly ^^ 8) (x AND NOT (mask 8)) = drop_bit 8 (x AND NOT (mask 8))"
    by (rule crc_bits_high) (simp add: bit_simps)
  have drop: "drop_bit 8 (x AND NOT (mask 8)) = drop_bit 8 x"
    by (rule bit_word_eqI) (auto simp: bit_simps dest: bit_imp_le_length)
  have "table ! unat (x AND mask 8) = crc_row poly (unat (x AND mask 8))"
    using low by (simp flip: table_rows)
  then have "table ! unat (x AND mask 8) = (crc_bit poly ^^ 8) (x AND mask 8)"
    by (simp add: crc_row_def)
  then have "table ! unat (x AND mask 8) XOR drop_bit 8 x
      = (crc_bit poly ^^ 8) ((x AND mask 8) XOR (x AND NOT (mask 8)))"
    by (simp only: crc_bits_xor high drop)
  then show ?thesis using split by (simp only: m)
qed

lemma table_byte: "table ! unat ((c XOR ucast b) AND 0xff) XOR drop_bit 8 c = crc_byte poly c b" for b :: u8
proof -
  have "drop_bit 8 (c XOR ucast b) = drop_bit 8 c"
    by (rule bit_word_eqI) (auto simp: bit_simps dest: bit_imp_le_length)
  then show ?thesis using table_step [of "c XOR ucast b"] by (simp add: crc_byte_def)
qed

end

lemma crc_row_basis:
  "crc_row 0xedb88320 0 = 0" "crc_row 0xedb88320 (Suc 0) = 0x77073096" "crc_row 0xedb88320 2 = 0xee0e612c"
  "crc_row 0xedb88320 4 = 0x076dc419" "crc_row 0xedb88320 8 = 0x0edb8832" "crc_row 0xedb88320 16 = 0x1db71064"
  "crc_row 0xedb88320 32 = 0x3b6e20c8" "crc_row 0xedb88320 64 = 0x76dc4190" "crc_row 0xedb88320 128 = 0xedb88320"
  by code_simp+

interpretation crc32: crc_table "0xedb88320" BlpCrc32Table
  by unfold_locales (simp add: crc_rows_256 crc_row_basis crc_double_def BlpCrc32Table_def)

lemma crc_loop_spec: "BlCrc32_loop c bs = foldl (crc_byte 0xedb88320) c bs"
  by (induction bs arbitrary: c) (simp_all add: crc32.table_byte)

interpretation crc: running_checksum BlCrc32
  by unfold_locales (simp_all add: BlCrc32_def crc_loop_spec)

text \<open>
  the table-driven BlCrc32 computes the CRC-32 of the reflected polynomial 0xedb88320,
  bit by bit, from any starting value and over any buffer.
\<close>

theorem BlCrc32_correct: "BlCrc32 crcValue inputBuffer = crc32_spec crcValue inputBuffer"
  by (simp add: BlCrc32_def crc32_spec_def crc_loop_spec)

lemma BlCrc32_check: "BlCrc32 0 [0x31, 0x32, 0x33, 0x34, 0x35, 0x36, 0x37, 0x38, 0x39] = 0xcbf43926"
  by code_simp

section \<open>Adler-32\<close>

text \<open>
  The loop counter is a 32-bit integer compared with the full-width length, so the buffer
  is taken to be shorter than 4 GiB (a longer one never ends the loop in the code).
\<close>

fun BlAdler32_loop :: "u32 \<Rightarrow> u32 \<Rightarrow> u32 \<Rightarrow> u8 list \<Rightarrow> u32 \<times> u32" where
  "BlAdler32_loop i lowHalf highHalf [] = (lowHalf, highHalf)"
| "BlAdler32_loop i lowHalf highHalf (b # theBuffer) =
     (let (lowHalf, highHalf) =
            (if i mod 5000 = 0 then (lowHalf mod 65521, highHalf mod 65521)
             else (lowHalf, highHalf));
          lowHalf = lowHalf + ucast b;
          highHalf = highHalf + lowHalf
      in BlAdler32_loop (i + 1) lowHalf highHalf theBuffer)"

definition BlAdler32 :: "u8 list \<Rightarrow> u32" where
  "BlAdler32 inputBuffer =
     (let (lowHalf, highHalf) = BlAdler32_loop 0 1 0 inputBuffer;
          lowHalf = lowHalf mod 65521;
          highHalf = highHalf mod 65521
      in push_bit 16 highHalf OR lowHalf)"

text \<open>
  The reference reduces both sums modulo 65521 after every byte, over the natural numbers.
\<close>

fun adler_spec :: "nat \<times> nat \<Rightarrow> u8 list \<Rightarrow> nat \<times> nat" where
  "adler_spec (a, b) [] = (a, b)"
| "adler_spec (a, b) (x # xs) =
     (let a' = (a + unat x) mod 65521 in adler_spec (a', (b + a') mod 65521) xs)"

definition adler32_spec :: "u8 list \<Rightarrow> nat" where
  "adler32_spec bs = (let (a, b) = adler_spec (1, 0) bs in b * 65536 + a)"

text \<open>
  What the loop keeps, \<open>k\<close> bytes after a reduction: both halves agree with the reference
  modulo 65521, and neither can reach 2 to the 32 before the next reduction, since
  \<open>k\<close> is at most 5000.
\<close>

definition adler_inv :: "nat \<Rightarrow> u32 \<Rightarrow> u32 \<Rightarrow> nat \<Rightarrow> nat \<Rightarrow> bool" where
  "adler_inv k low high a b \<longleftrightarrow>
     unat low \<le> 65520 + 255 * k \<and>
     2 * unat high \<le> 131040 * (k + 1) + 255 * (k * (k + 1)) \<and>
     unat low mod 65521 = a mod 65521 \<and> unat high mod 65521 = b mod 65521"

lemma adler_inv_reduce:
  "adler_inv k low high a b \<Longrightarrow> adler_inv 0 (low mod 65521) (high mod 65521) a b"
  using mod_less_divisor [of 65521 a] mod_less_divisor [of 65521 b]
  unfolding adler_inv_def unat_mod by auto

lemma adler_inv_byte:
  fixes x :: u8
  assumes inv: "adler_inv k low high a b" and k: "k < 5000"
  shows "adler_inv (Suc k) (low + ucast x) (high + (low + ucast x)) (a + unat x) (b + (a + unat x))"
proof -
  have x: "unat (ucast x :: u32) = unat x" and "unat x \<le> 255"
    by (rule unat_ucast_up, simp) (rule unat_u8_le)
  moreover have "k * (k + 1) \<le> 4999 * 5000" using k by (intro mult_le_mono) auto
  ultimately have low: "unat (low + ucast x) = unat low + unat x"
    using inv k by (subst unat_add_small) (auto simp: adler_inv_def)
  have high: "unat (high + (low + ucast x)) = unat high + (unat low + unat x)"
    using inv k \<open>k * (k + 1) \<le> _\<close> \<open>unat x \<le> 255\<close>
    by (subst unat_add_small) (auto simp: adler_inv_def low)
  have "(unat low + unat x) mod 65521 = (a + unat x) mod 65521"
    "(unat high + (unat low + unat x)) mod 65521 = (b + (a + unat x)) mod 65521"
    using inv by (auto simp: adler_inv_def intro!: mod_add_cong)
  then show ?thesis
    using inv \<open>unat x \<le> 255\<close> by (auto simp: adler_inv_def low high algebra_simps)
qed

lemma adler_inv_cong:
  "adler_inv k low high a b \<Longrightarrow> adler_inv k low high (a mod 65521) (b mod 65521)"
  by (simp add: adler_inv_def)

lemma adler_loop_sim:
  assumes "adler_inv k low high a b" and "k \<le> 5000" and "i mod 5000 \<noteq> 0 \<longrightarrow> k = i mod 5000"
    and "i + length bs < 2 ^ 32"
    and "BlAdler32_loop (of_nat i) low high bs = (l, h)" and "adler_spec (a, b) bs = (a', b')"
  shows "\<exists>k. adler_inv k l h a' b'"
  using assms
proof (induction bs arbitrary: i k low high a b)
  case Nil
  then show ?case by auto
next
  case (Cons x bs)
  define low0 high0 k0 where "low0 = (if i mod 5000 = 0 then low mod 65521 else low)"
    and "high0 = (if i mod 5000 = 0 then high mod 65521 else high)"
    and "k0 = i mod 5000"
  have "unat (of_nat i :: u32) = i"
    using Cons.prems(4) by (simp add: unat_of_nat_small)
  then have guard: "(of_nat i :: u32) mod 5000 = 0 \<longleftrightarrow> i mod 5000 = 0"
    by (simp add: word_unat_eq_iff unat_mod)
  have "adler_inv k0 low0 high0 a b"
    using Cons.prems(1,3) adler_inv_reduce [OF Cons.prems(1)]
    by (auto simp: low0_def high0_def k0_def)
  then have "adler_inv (Suc k0) (low0 + ucast x) (high0 + (low0 + ucast x))
      (a + unat x) (b + (a + unat x))"
    by (rule adler_inv_byte) (simp add: k0_def)
  then have inv: "adler_inv (Suc k0) (low0 + ucast x) (high0 + (low0 + ucast x))
      ((a + unat x) mod 65521) ((b + (a + unat x) mod 65521) mod 65521)"
    by (drule_tac adler_inv_cong) (simp add: mod_add_right_eq)
  have "Suc k0 \<le> 5000" and "Suc i mod 5000 \<noteq> 0 \<longrightarrow> Suc k0 = Suc i mod 5000"
    by (auto simp: k0_def mod_Suc)
  moreover have "BlAdler32_loop (of_nat (Suc i)) (low0 + ucast x) (high0 + (low0 + ucast x)) bs = (l, h)"
    using Cons.prems(5) guard by (auto simp: Let_def low0_def high0_def add.commute split: if_splits)
  moreover have "adler_spec ((a + unat x) mod 65521, (b + (a + unat x) mod 65521) mod 65521) bs = (a', b')"
    using Cons.prems(6) by (simp add: Let_def)
  ultimately show ?case
    using Cons.IH [OF inv, of "Suc i"] Cons.prems(4) by simp
qed

lemma adler_spec_bound: "a < 65521 \<Longrightarrow> b < 65521 \<Longrightarrow> adler_spec (a, b) bs = (a', b') \<Longrightarrow>
    a' < 65521 \<and> b' < 65521"
proof (induction bs arbitrary: a b)
  case (Cons x bs)
  show ?case
    by (rule Cons.IH [OF _ _ Cons.prems(3) [unfolded adler_spec.simps Let_def]]) simp_all
qed simp

text \<open>
  delaying the modulo reduction to every 5000th byte never lets a 32-bit half
  overflow, so BlAdler32 equals Adler-32 with a reduction after every byte.
\<close>

theorem BlAdler32_correct:
  assumes "length inputBuffer < 2 ^ 32"
  shows "unat (BlAdler32 inputBuffer) = adler32_spec inputBuffer"
proof -
  obtain l h where lh: "BlAdler32_loop 0 1 0 inputBuffer = (l, h)" by fastforce
  obtain a b where ab: "adler_spec (1, 0) inputBuffer = (a, b)" by fastforce
  have "adler_inv 0 1 0 1 0" by (simp add: adler_inv_def)
  then obtain k where "adler_inv k l h a b"
    using adler_loop_sim [of 0 1 0 1 0 0 inputBuffer l h a b] lh ab assms by auto
  moreover have bnd: "a < 65521" "b < 65521" using adler_spec_bound [OF _ _ ab] by auto
  ultimately have l: "unat (l mod 65521) = a" and h: "unat (h mod 65521) = b"
    by (auto simp: adler_inv_def unat_mod)
  have "\<not> bit (l mod 65521) n" if "16 \<le> n" for n
    by (rule bit_small_word [of _ 16]) (use l bnd that in auto)
  then have "BlAdler32 inputBuffer = push_bit 16 (h mod 65521) + (l mod 65521)"
    by (auto simp: BlAdler32_def lh bit_simps intro!: or_disjoint_add)
  moreover have "unat (push_bit 16 (h mod 65521)) = b * 65536"
    using h bnd by (simp add: push_bit_eq_mult unat_word_ariths)
  ultimately show ?thesis
    using l h bnd by (simp add: adler32_spec_def ab [simplified] unat_word_ariths)
qed

theorem BlAdler32_correct_witness:
  "length [0x57, 0x69, 0x6b, 0x69 :: u8] < 2 ^ 32 \<and>
   unat (BlAdler32 [0x57, 0x69, 0x6b, 0x69]) = adler32_spec [0x57, 0x69, 0x6b, 0x69]"
  using BlAdler32_correct [of "[0x57, 0x69, 0x6b, 0x69]"] by simp

end
