(* ===== verification/Digest.thy ===== *)
theory Digest
  imports Prelude
begin

text \<open>
  The two message digests, SHA-256 (SHA256.c) and MD5 (MD5.c). Each keeps a running state
  and a buffer of 64 bytes and is fed piece by piece. The locale \<open>block_hash\<close> holds
  what both share, the meaning of feeding a message in blocks; each digest's update
  function is proved to implement it, and each unrolled compression function is proved
  equal to the published round function.
\<close>

section \<open>Block hashes\<close>

text \<open>
  \<open>absorb compress s msg\<close> compresses the complete 64-byte blocks of \<open>msg\<close>; the bytes that
  do not fill a block are left over.
\<close>

function absorb :: "(u8 list \<Rightarrow> 's \<Rightarrow> 's) \<Rightarrow> 's \<Rightarrow> u8 list \<Rightarrow> 's \<times> u8 list" where
  "absorb compress s msg = (if length msg < 64 then (s, msg)
     else absorb compress (compress (take 64 msg) s) (drop 64 msg))"
  by pat_completeness auto
termination
  by (relation "measure (\<lambda>(c, s, msg). length msg)") auto

declare absorb.simps [simp del]

text \<open>
  The interface: a compression function that reads the first 64 bytes it is pointed at.
\<close>

locale block_hash =
  fixes compress :: "u8 list \<Rightarrow> 's \<Rightarrow> 's"
  assumes compress_prefix: "64 \<le> length b \<Longrightarrow> compress (take 64 b) s = compress b s"
begin

lemma absorb_short: "length msg < 64 \<Longrightarrow> absorb compress s msg = (s, msg)"
  by (simp add: absorb.simps)

lemma absorb_step:
  "64 \<le> length msg \<Longrightarrow> absorb compress s msg = absorb compress (compress msg s) (drop 64 msg)"
  by (simp add: absorb.simps [of compress s msg] compress_prefix)

lemma absorb_block:
  "length b = 64 \<Longrightarrow> absorb compress s (b @ msg) = absorb compress (compress b s) msg"
  by (simp add: absorb.simps [of compress s "b @ msg"])

lemma absorb_append:
  "absorb compress s (xs @ ys) = (let (s', rest) = absorb compress s xs in absorb compress s' (rest @ ys))"
proof (induction "length xs" arbitrary: s xs rule: less_induct)
  case less
  show ?case
  proof (cases "length xs < 64")
    case False
    have "absorb compress s (xs @ ys) = absorb compress (compress (take 64 xs) s) (drop 64 xs @ ys)"
      using False absorb_block [of "take 64 xs" s "drop 64 xs @ ys"]
      by (simp flip: append_assoc)
    then show ?thesis using False less [of "drop 64 xs"] by (simp add: absorb.simps [of compress s xs])
  qed (simp add: absorb_short)
qed

lemma length_absorb_rest: "length (snd (absorb compress s msg)) = length msg mod 64"
  by (induction "length msg" arbitrary: s msg rule: less_induct)
    (subst absorb.simps, simp add: le_mod_geq)

lemma absorb_whole: "64 dvd length msg \<Longrightarrow> snd (absorb compress s msg) = []"
  using length_absorb_rest [of s msg] by simp

end

text \<open>
  The interface of a digest that is fed piece by piece: \<open>rep c msg\<close> says that the context
  \<open>c\<close> stands for the message \<open>msg\<close> fed so far.
\<close>

locale stream_digest =
  fixes start :: "'c"
    and update :: "u8 list \<Rightarrow> 'c \<Rightarrow> 'c"
    and finish :: "'c \<Rightarrow> u8 list"
    and rep :: "'c \<Rightarrow> u8 list \<Rightarrow> bool"
    and limit :: nat
  assumes rep_start: "rep start []"
    and rep_update: "rep c msg \<Longrightarrow> length d < limit \<Longrightarrow> rep (update d c) (msg @ d)"
    and rep_finish: "rep c msg \<Longrightarrow> rep c' msg \<Longrightarrow> finish c = finish c'"
begin

lemma rep_pieces:
  "rep c msg \<Longrightarrow> \<forall>d \<in> set ds. length d < limit \<Longrightarrow> rep (foldl (\<lambda>c d. update d c) c ds) (msg @ concat ds)"
proof (induction ds arbitrary: c msg)
  case (Cons d ds)
  then have "rep (foldl (\<lambda>c d. update d c) (update d c) ds) ((msg @ d) @ concat ds)"
    using Cons.IH [of "update d c" "msg @ d"] rep_update [of c msg d] by simp
  then show ?case by simp
qed simp

lemma pieces:
  assumes "length (concat ds) < limit"
  shows "finish (foldl (\<lambda>c d. update d c) start ds) = finish (update (concat ds) start)"
proof (rule rep_finish)
  have "length d < limit" if "d \<in> set ds" for d
    using that assms member_le_sum_list [of "length d" "map length ds"] by (simp add: length_concat)
  then show "rep (foldl (\<lambda>c d. update d c) start ds) (concat ds)"
    using rep_pieces [OF rep_start] by simp
  show "rep (update (concat ds) start) (concat ds)"
    using rep_update [OF rep_start assms] by simp
qed

end

section \<open>SHA-256\<close>

record SHA256_CONTEXT =
  TotalLength_0 :: u32
  TotalLength_1 :: u32
  State :: "u32 list"
  Buffer :: "u8 list"

type_synonym sha_regs = "u32 \<times> u32 \<times> u32 \<times> u32 \<times> u32 \<times> u32 \<times> u32 \<times> u32"

definition SHR :: "u32 \<Rightarrow> nat \<Rightarrow> u32" where
  "SHR x n = drop_bit n (x AND 0xffffffff)"

definition ROTR :: "u32 \<Rightarrow> nat \<Rightarrow> u32" where
  "ROTR x n = SHR x n OR push_bit (32 - n) x"

definition S0 :: "u32 \<Rightarrow> u32" where "S0 x = ROTR x 7 XOR ROTR x 18 XOR SHR x 3"
definition S1 :: "u32 \<Rightarrow> u32" where "S1 x = ROTR x 17 XOR ROTR x 19 XOR SHR x 10"
definition S2 :: "u32 \<Rightarrow> u32" where "S2 x = ROTR x 2 XOR ROTR x 13 XOR ROTR x 22"
definition S3 :: "u32 \<Rightarrow> u32" where "S3 x = ROTR x 6 XOR ROTR x 11 XOR ROTR x 25"

definition F0 :: "u32 \<Rightarrow> u32 \<Rightarrow> u32 \<Rightarrow> u32" where
  "F0 x y z = (x AND y) OR (z AND (x OR y))"

definition F1 :: "u32 \<Rightarrow> u32 \<Rightarrow> u32 \<Rightarrow> u32" where
  "F1 x y z = z XOR (x AND (y XOR z))"

definition sha_R :: "nat \<Rightarrow> u32 list \<Rightarrow> u32 list" where
  "sha_R t W = W[t := S1 (W ! (t - 2)) + W ! (t - 7) + S0 (W ! (t - 15)) + W ! (t - 16)]"

definition sha_P ::
  "u32 \<Rightarrow> u32 \<Rightarrow> u32 \<Rightarrow> u32 \<Rightarrow> u32 \<Rightarrow> u32 \<Rightarrow> u32 \<Rightarrow> u32 \<Rightarrow> u32 \<Rightarrow> u32 \<Rightarrow> u32 \<times> u32" where
  "sha_P a b c d e f g h x K =
     (let temp1 = h + S3 e + F1 e f g + K + x; temp2 = S2 a + F0 a b c
      in (d + temp1, temp1 + temp2))"

definition sha_K :: "u32 list" where
  "sha_K = concat [
     [0x428a2f98, 0x71374491, 0xb5c0fbcf, 0xe9b5dba5, 0x3956c25b, 0x59f111f1, 0x923f82a4, 0xab1c5ed5],
     [0xd807aa98, 0x12835b01, 0x243185be, 0x550c7dc3, 0x72be5d74, 0x80deb1fe, 0x9bdc06a7, 0xc19bf174],
     [0xe49b69c1, 0xefbe4786, 0x0fc19dc6, 0x240ca1cc, 0x2de92c6f, 0x4a7484aa, 0x5cb0a9dc, 0x76f988da],
     [0x983e5152, 0xa831c66d, 0xb00327c8, 0xbf597fc7, 0xc6e00bf3, 0xd5a79147, 0x06ca6351, 0x14292967],
     [0x27b70a85, 0x2e1b2138, 0x4d2c6dfc, 0x53380d13, 0x650a7354, 0x766a0abb, 0x81c2c92e, 0x92722c85],
     [0xa2bfe8a1, 0xa81a664b, 0xc24b8b70, 0xc76c51a3, 0xd192e819, 0xd6990624, 0xf40e3585, 0x106aa070],
     [0x19a4c116, 0x1e376c08, 0x2748774c, 0x34b0bcb5, 0x391c0cb3, 0x4ed8aa4a, 0x5b9cca4f, 0x682e6ff3],
     [0x748f82ee, 0x78a5636f, 0x84c87814, 0x8cc70208, 0x90befffa, 0xa4506ceb, 0xbef9a3f7, 0xc67178f2]]"

text \<open>
  The 64 unrolled calls of the macro \<open>P\<close> repeat one pattern of register names every eight
  calls; \<open>sha_rounds8\<close> is that pattern, for the calls \<open>t\<close> to \<open>t + 7\<close>.
\<close>

definition sha_rounds8 :: "u32 list \<Rightarrow> nat \<Rightarrow> sha_regs \<Rightarrow> sha_regs" where
  "sha_rounds8 W t = (\<lambda>(A, B, C, D, E, F, G, H).
     let (D, H) = sha_P A B C D E F G H (W ! t) (sha_K ! t);
         (C, G) = sha_P H A B C D E F G (W ! (t + 1)) (sha_K ! (t + 1));
         (B, F) = sha_P G H A B C D E F (W ! (t + 2)) (sha_K ! (t + 2));
         (A, E) = sha_P F G H A B C D E (W ! (t + 3)) (sha_K ! (t + 3));
         (H, D) = sha_P E F G H A B C D (W ! (t + 4)) (sha_K ! (t + 4));
         (G, C) = sha_P D E F G H A B C (W ! (t + 5)) (sha_K ! (t + 5));
         (F, B) = sha_P C D E F G H A B (W ! (t + 6)) (sha_K ! (t + 6));
         (E, A) = sha_P B C D E F G H A (W ! (t + 7)) (sha_K ! (t + 7))
     in (A, B, C, D, E, F, G, H))"

text \<open>
  From the sixteenth call on, \<open>R(t)\<close> fills \<open>W[t]\<close> as it is read; here a group of eight is
  filled before its eight calls, which read no other entry.
\<close>

definition sha_group :: "u32 list \<times> sha_regs \<Rightarrow> nat \<Rightarrow> u32 list \<times> sha_regs" where
  "sha_group Wr t =
     (let W = (if t < 16 then fst Wr else foldl (\<lambda>W t. sha_R t W) (fst Wr) [t..<t + 8])
      in (W, sha_rounds8 W t (snd Wr)))"

definition SHA256_Transform :: "u8 list \<Rightarrow> SHA256_CONTEXT \<Rightarrow> SHA256_CONTEXT" where
  "SHA256_Transform dataBuffer ctx =
     (let W = map (\<lambda>i. be32 dataBuffer (4 * i)) [0..<16] @ replicate 48 0;
          s = State ctx;
          (W, (A, B, C, D, E, F, G, H)) =
            foldl sha_group (W, (s ! 0, s ! 1, s ! 2, s ! 3, s ! 4, s ! 5, s ! 6, s ! 7))
              [0, 8, 16, 24, 32, 40, 48, 56]
      in ctx\<lparr>State := [s ! 0 + A, s ! 1 + B, s ! 2 + C, s ! 3 + D,
                       s ! 4 + E, s ! 5 + F, s ! 6 + G, s ! 7 + H]\<rparr>)"

definition SHA256_Init :: "SHA256_CONTEXT \<Rightarrow> SHA256_CONTEXT" where
  "SHA256_Init ctx = ctx\<lparr>TotalLength_0 := 0, TotalLength_1 := 0,
     State := [0x6a09e667, 0xbb67ae85, 0x3c6ef372, 0xa54ff53a,
               0x510e527f, 0x9b05688c, 0x1f83d9ab, 0x5be0cd19]\<rparr>"

function SHA256_blocks :: "u8 list \<Rightarrow> SHA256_CONTEXT \<Rightarrow> u8 list \<times> SHA256_CONTEXT" where
  "SHA256_blocks dataBuffer ctx =
     (if 64 \<le> length dataBuffer
      then SHA256_blocks (drop 64 dataBuffer) (SHA256_Transform dataBuffer ctx)
      else (dataBuffer, ctx))"
  by pat_completeness auto
termination
  by (relation "measure (\<lambda>(d, c). length d)") auto

declare SHA256_blocks.simps [simp del]

definition SHA256_Update :: "u8 list \<Rightarrow> SHA256_CONTEXT \<Rightarrow> SHA256_CONTEXT" where
  "SHA256_Update dataBuffer ctx =
     (if dataBuffer = [] then ctx
      else
        let dataLength = length dataBuffer;
            left = unat (TotalLength_0 ctx AND 0x3f);
            fill = 64 - left;
            ctx = ctx\<lparr>TotalLength_0 := (TotalLength_0 ctx + of_nat dataLength) AND 0xffffffff\<rparr>;
            ctx = (if unat (TotalLength_0 ctx) < dataLength
                   then ctx\<lparr>TotalLength_1 := TotalLength_1 ctx + 1\<rparr> else ctx);
            (left, dataBuffer, ctx) =
              (if left \<noteq> 0 \<and> fill \<le> dataLength
               then let ctx = ctx\<lparr>Buffer := overlay (Buffer ctx) left (take fill dataBuffer)\<rparr>
                    in (0, drop fill dataBuffer, SHA256_Transform (Buffer ctx) ctx)
               else (left, dataBuffer, ctx));
            (dataBuffer, ctx) = SHA256_blocks dataBuffer ctx
        in if dataBuffer \<noteq> [] then ctx\<lparr>Buffer := overlay (Buffer ctx) left dataBuffer\<rparr> else ctx)"

definition sha_padding :: "u8 list" where
  "sha_padding = 0x80 # replicate 63 0"

definition SHA256_Final :: "SHA256_CONTEXT \<Rightarrow> u8 list \<times> SHA256_CONTEXT" where
  "SHA256_Final ctx =
     (let high = drop_bit 29 (TotalLength_0 ctx) OR push_bit 3 (TotalLength_1 ctx);
          low = push_bit 3 (TotalLength_0 ctx);
          messageLength = put_be32 high @ put_be32 low;
          last = unat (TotalLength_0 ctx AND 0x3f);
          padCount = (if last < 56 then 56 - last else 120 - last);
          ctx = SHA256_Update (take padCount sha_padding) ctx;
          ctx = SHA256_Update messageLength ctx
      in (concat (map (\<lambda>i. put_be32 (State ctx ! i)) [0..<8]), ctx))"

definition SHA256 :: "SHA256_CONTEXT \<Rightarrow> u8 list \<Rightarrow> u8 list" where
  "SHA256 sha256Context dataBuffer =
     fst (SHA256_Final (SHA256_Update dataBuffer (SHA256_Init sha256Context)))"

subsection \<open>The compression function is the published one\<close>

definition Ch :: "u32 \<Rightarrow> u32 \<Rightarrow> u32 \<Rightarrow> u32" where
  "Ch x y z = (x AND y) XOR (NOT x AND z)"

definition Maj :: "u32 \<Rightarrow> u32 \<Rightarrow> u32 \<Rightarrow> u32" where
  "Maj x y z = (x AND y) XOR (x AND z) XOR (y AND z)"

definition fips_Sigma0 :: "u32 \<Rightarrow> u32" where
  "fips_Sigma0 x = word_rotr 2 x XOR word_rotr 13 x XOR word_rotr 22 x"

definition fips_Sigma1 :: "u32 \<Rightarrow> u32" where
  "fips_Sigma1 x = word_rotr 6 x XOR word_rotr 11 x XOR word_rotr 25 x"

definition fips_sigma0 :: "u32 \<Rightarrow> u32" where
  "fips_sigma0 x = word_rotr 7 x XOR word_rotr 18 x XOR drop_bit 3 x"

definition fips_sigma1 :: "u32 \<Rightarrow> u32" where
  "fips_sigma1 x = word_rotr 17 x XOR word_rotr 19 x XOR drop_bit 10 x"

fun fips_W :: "u8 list \<Rightarrow> nat \<Rightarrow> u32" where
  "fips_W M t = (if t < 16 then be32 M (4 * t)
     else fips_sigma1 (fips_W M (t - 2)) + fips_W M (t - 7)
        + fips_sigma0 (fips_W M (t - 15)) + fips_W M (t - 16))"

declare fips_W.simps [simp del]

definition fips_round :: "u8 list \<Rightarrow> sha_regs \<Rightarrow> nat \<Rightarrow> sha_regs" where
  "fips_round M = (\<lambda>(a, b, c, d, e, f, g, h) t.
     let T1 = h + fips_Sigma1 e + Ch e f g + sha_K ! t + fips_W M t;
         T2 = fips_Sigma0 a + Maj a b c
     in (T1 + T2, a, b, c, d + T1, e, f, g))"

definition fips_compress :: "u8 list \<Rightarrow> u32 list \<Rightarrow> u32 list" where
  "fips_compress M s =
     (let (a, b, c, d, e, f, g, h) =
        foldl (fips_round M) (s ! 0, s ! 1, s ! 2, s ! 3, s ! 4, s ! 5, s ! 6, s ! 7) [0..<64]
      in [s ! 0 + a, s ! 1 + b, s ! 2 + c, s ! 3 + d, s ! 4 + e, s ! 5 + f, s ! 6 + g, s ! 7 + h])"

lemma SHR_eq: "SHR x n = drop_bit n x"
proof -
  have "x AND 0xffffffff = x AND mask 32" by (simp add: mask_eq_exp_minus_1)
  then show ?thesis unfolding SHR_def
    by (intro bit_word_eqI) (auto simp: bit_simps dest: bit_imp_le_length)
qed

lemma ROTR_eq:
  assumes "0 < n" and "n < 32"
  shows "ROTR x n = word_rotr n x"
proof (rule bit_word_eqI)
  fix k assume "k < LENGTH(32)"
  then have k: "k < 32" by simp
  show "bit (ROTR x n) k = bit (word_rotr n x) k"
  proof (cases "k + n < 32")
    case True
    then have "\<not> 32 - n \<le> k" by simp
    then show ?thesis using True k by (simp add: ROTR_def SHR_eq bit_simps add.commute)
  next
    case False
    then have "(k + n) mod 32 = k + n - 32" and "k - (32 - n) = k + n - 32" and "32 - n \<le> k"
      using k assms by (simp_all add: le_mod_geq)
    moreover have "\<not> bit x (n + k)"
      using False by (auto dest: bit_imp_le_length)
    ultimately show ?thesis using k by (simp add: ROTR_def SHR_eq bit_simps)
  qed
qed

lemma F0_eq: "F0 x y z = Maj x y z"
  by (rule bit_word_eqI) (auto simp: F0_def Maj_def bit_simps)

lemma F1_eq: "F1 x y z = Ch x y z"
  by (rule bit_word_eqI) (auto simp: F1_def Ch_def bit_simps)

lemma S_eq:
  "S0 x = fips_sigma0 x" "S1 x = fips_sigma1 x" "S2 x = fips_Sigma0 x" "S3 x = fips_Sigma1 x"
  by (simp_all add: S0_def S1_def S2_def S3_def fips_sigma0_def fips_sigma1_def
      fips_Sigma0_def fips_Sigma1_def ROTR_eq SHR_eq)

lemma sha_P_round:
  assumes "sha_P a b c d e f g h (fips_W M t) (sha_K ! t) = (d', h')"
  shows "fips_round M (a, b, c, d, e, f, g, h) t = (h', a, b, c, d', e, f, g)"
  using assms by (auto simp: sha_P_def fips_round_def Let_def S_eq F0_eq F1_eq)

lemma sha_rounds8_eq:
  assumes W: "\<And>i. t \<le> i \<Longrightarrow> i < t + 8 \<Longrightarrow> W ! i = fips_W M i"
  shows "sha_rounds8 W t r = foldl (fips_round M) r [t..<t + 8]"
proof -
  obtain A B C D E F G H where r: "r = (A, B, C, D, E, F, G, H)" by (cases r) auto
  have upt: "[t..<t + 8] = [t, t + 1, t + 2, t + 3, t + 4, t + 5, t + 6, t + 7]"
    by (simp add: upt_rec numeral_eq_Suc)
  obtain D1 H1 where 1: "sha_P A B C D E F G H (fips_W M t) (sha_K ! t) = (D1, H1)" by fastforce
  obtain C1 G1 where 2: "sha_P H1 A B C D1 E F G (fips_W M (t + 1)) (sha_K ! (t + 1)) = (C1, G1)" by fastforce
  obtain B1 F1 where 3: "sha_P G1 H1 A B C1 D1 E F (fips_W M (t + 2)) (sha_K ! (t + 2)) = (B1, F1)" by fastforce
  obtain A1 E1 where 4: "sha_P F1 G1 H1 A B1 C1 D1 E (fips_W M (t + 3)) (sha_K ! (t + 3)) = (A1, E1)" by fastforce
  obtain H2 D2 where 5: "sha_P E1 F1 G1 H1 A1 B1 C1 D1 (fips_W M (t + 4)) (sha_K ! (t + 4)) = (H2, D2)" by fastforce
  obtain G2 C2 where 6: "sha_P D2 E1 F1 G1 H2 A1 B1 C1 (fips_W M (t + 5)) (sha_K ! (t + 5)) = (G2, C2)" by fastforce
  obtain F2 B2 where 7: "sha_P C2 D2 E1 F1 G2 H2 A1 B1 (fips_W M (t + 6)) (sha_K ! (t + 6)) = (F2, B2)" by fastforce
  obtain E2 A2 where 8: "sha_P B2 C2 D2 E1 F2 G2 H2 A1 (fips_W M (t + 7)) (sha_K ! (t + 7)) = (E2, A2)" by fastforce
  note steps = 1 2 3 4 5 6 7 8
  have Ws: "W ! t = fips_W M t" "W ! (t + 1) = fips_W M (t + 1)" "W ! (t + 2) = fips_W M (t + 2)"
    "W ! (t + 3) = fips_W M (t + 3)" "W ! (t + 4) = fips_W M (t + 4)"
    "W ! (t + 5) = fips_W M (t + 5)" "W ! (t + 6) = fips_W M (t + 6)"
    "W ! (t + 7) = fips_W M (t + 7)"
    by (rule W; simp)+
  have "foldl (fips_round M) r [t..<t + 8] = (A2, B2, C2, D2, E2, F2, G2, H2)"
    unfolding r upt by (simp only: foldl.simps steps [THEN sha_P_round])
  moreover have "sha_rounds8 W t r = (A2, B2, C2, D2, E2, F2, G2, H2)"
    unfolding r sha_rounds8_def Let_def case_prod_conv
    by (simp only: Ws steps case_prod_conv)
  ultimately show ?thesis by simp
qed

lemma fips_W_low: "t < 16 \<Longrightarrow> fips_W M t = be32 M (4 * t)"
  by (simp add: fips_W.simps)

lemma sha_R_eq:
  assumes "16 \<le> t" and "t < length W" and "\<And>i. i < t \<Longrightarrow> W ! i = fips_W M i"
  shows "i < Suc t \<Longrightarrow> sha_R t W ! i = fips_W M i"
  using assms by (auto simp: sha_R_def less_Suc_eq fips_W.simps [of M t] S_eq)

lemma sha_R_fill:
  assumes "16 \<le> t" and "t + n \<le> length W" and "\<And>i. i < t \<Longrightarrow> W ! i = fips_W M i"
  shows "length (foldl (\<lambda>W t. sha_R t W) W [t..<t + n]) = length W \<and>
    (\<forall>i < t + n. foldl (\<lambda>W t. sha_R t W) W [t..<t + n] ! i = fips_W M i)"
  using assms(2)
proof (induction n)
  case 0
  then show ?case using assms(3) by simp
next
  case (Suc n)
  let ?W = "foldl (\<lambda>W t. sha_R t W) W [t..<t + n]"
  have "sha_R (t + n) ?W ! i = fips_W M i" if "i < Suc (t + n)" for i
    using sha_R_eq [of "t + n" ?W M i] Suc assms(1) that by simp
  then show ?case using Suc by (simp add: sha_R_def)
qed

definition sha_inv :: "u8 list \<Rightarrow> nat \<Rightarrow> sha_regs \<Rightarrow> u32 list \<times> sha_regs \<Rightarrow> bool" where
  "sha_inv M t r0 Wr \<longleftrightarrow> length (fst Wr) = 64 \<and> (\<forall>i < max 16 t. fst Wr ! i = fips_W M i) \<and>
     snd Wr = foldl (fips_round M) r0 [0..<t]"

lemma sha_group_inv:
  assumes inv: "sha_inv M t r0 Wr" and t: "t \<in> {0, 8} \<or> 16 \<le> t" "t + 8 \<le> 64"
  shows "sha_inv M (t + 8) r0 (sha_group Wr t)"
proof -
  define W where "W = (if t < 16 then fst Wr else foldl (\<lambda>W t. sha_R t W) (fst Wr) [t..<t + 8])"
  have W: "length W = 64 \<and> (\<forall>i < max 16 (t + 8). W ! i = fips_W M i)"
  proof (cases "t < 16")
    case True
    then show ?thesis using inv t by (auto simp: W_def sha_inv_def)
  next
    case False
    then show ?thesis
      using inv t sha_R_fill [of t 8 "fst Wr" M] by (auto simp: W_def sha_inv_def)
  qed
  then have "sha_rounds8 W t (snd Wr) = foldl (fips_round M) (snd Wr) [t..<t + 8]"
    by (intro sha_rounds8_eq) auto
  then have "sha_rounds8 W t (snd Wr) = foldl (fips_round M) r0 [0..<t + 8]"
    using inv upt_add_eq_append [of 0 t 8] by (simp add: sha_inv_def)
  then show ?thesis using W by (simp add: sha_inv_def sha_group_def W_def [symmetric])
qed

definition sha_W0 :: "u8 list \<Rightarrow> u32 list" where
  "sha_W0 M = map (\<lambda>i. be32 M (4 * i)) [0..<16] @ replicate 48 0"

lemma sha_inv_groups:
  "sha_inv M 64 r0 (foldl sha_group (sha_W0 M, r0) [0, 8, 16, 24, 32, 40, 48, 56])"
proof -
  have "sha_inv M 0 r0 (sha_W0 M, r0)"
    by (simp add: sha_inv_def sha_W0_def fips_W_low nth_append)
  from sha_group_inv [OF this] have "sha_inv M 8 r0 (foldl sha_group (sha_W0 M, r0) [0])" by simp
  from sha_group_inv [OF this] have "sha_inv M 16 r0 (foldl sha_group (sha_W0 M, r0) [0, 8])" by simp
  from sha_group_inv [OF this] have "sha_inv M 24 r0 (foldl sha_group (sha_W0 M, r0) [0, 8, 16])" by simp
  from sha_group_inv [OF this] have "sha_inv M 32 r0 (foldl sha_group (sha_W0 M, r0) [0, 8, 16, 24])" by simp
  from sha_group_inv [OF this] have "sha_inv M 40 r0 (foldl sha_group (sha_W0 M, r0) [0, 8, 16, 24, 32])" by simp
  from sha_group_inv [OF this] have "sha_inv M 48 r0 (foldl sha_group (sha_W0 M, r0) [0, 8, 16, 24, 32, 40])" by simp
  from sha_group_inv [OF this] have "sha_inv M 56 r0 (foldl sha_group (sha_W0 M, r0) [0, 8, 16, 24, 32, 40, 48])" by simp
  from sha_group_inv [OF this] show ?thesis by simp
qed

lemma SHA256_Transform_eq:
  "SHA256_Transform M ctx = ctx\<lparr>State := fips_compress M (State ctx)\<rparr>"
proof -
  let ?r = "(State ctx ! 0, State ctx ! 1, State ctx ! 2, State ctx ! 3,
      State ctx ! 4, State ctx ! 5, State ctx ! 6, State ctx ! 7)"
  have "snd (foldl sha_group (sha_W0 M, ?r) [0, 8, 16, 24, 32, 40, 48, 56])
      = foldl (fips_round M) ?r [0..<64]"
    using sha_inv_groups by (simp only: sha_inv_def)
  then show ?thesis
    unfolding SHA256_Transform_def fips_compress_def sha_W0_def [symmetric] Let_def case_prod_beta
    by (simp only:)
qed

subsection \<open>Feeding a message\<close>

lemma be32_take: "i + 3 < n \<Longrightarrow> be32 (take n M) i = be32 M i"
  by (simp add: be32_def)

lemma fips_W_take: "fips_W (take 64 M) t = fips_W M t"
proof (induction t rule: less_induct)
  case (less t)
  then show ?case
    by (cases "t < 16") (simp_all add: fips_W.simps [of _ t] be32_take)
qed

interpretation sha: block_hash fips_compress
proof
  fix b :: "u8 list" and s
  have "fips_round (take 64 b) = fips_round b"
    by (simp add: fips_round_def fips_W_take fun_eq_iff)
  then show "fips_compress (take 64 b) s = fips_compress b s"
    by (simp add: fips_compress_def)
qed

lemma SHA256_blocks_eq:
  "SHA256_blocks d ctx =
     (snd (absorb fips_compress (State ctx) d), ctx\<lparr>State := fst (absorb fips_compress (State ctx) d)\<rparr>)"
proof (induction d ctx rule: SHA256_blocks.induct)
  case (1 d ctx)
  show ?case
  proof (cases "64 \<le> length d")
    case True
    then show ?thesis
      using 1 by (simp add: SHA256_blocks.simps [of d] SHA256_Transform_eq sha.absorb_step [of d])
  next
    case False
    then show ?thesis by (simp add: SHA256_blocks.simps [of d] sha.absorb_short)
  qed
qed

definition sha_H0 :: "u32 list" where
  "sha_H0 = [0x6a09e667, 0xbb67ae85, 0x3c6ef372, 0xa54ff53a, 0x510e527f, 0x9b05688c, 0x1f83d9ab, 0x5be0cd19]"

definition sha_rep :: "SHA256_CONTEXT \<Rightarrow> u8 list \<Rightarrow> bool" where
  "sha_rep ctx msg \<longleftrightarrow> length (Buffer ctx) = 64 \<and>
     absorb fips_compress sha_H0 msg = (State ctx, take (length msg mod 64) (Buffer ctx)) \<and>
     TotalLength_0 ctx = of_nat (length msg) \<and> TotalLength_1 ctx = of_nat (length msg div 2 ^ 32)"

lemma and_mask_low: "unat (x AND 0x3f :: u32) = unat x mod 64"
proof -
  have "x AND 0x3f = take_bit 6 x" by (simp add: take_bit_eq_mask mask_eq_exp_minus_1)
  then show ?thesis by (simp add: take_bit_eq_mod unat_mod)
qed

lemma and_ffffffff: "(x :: u32) AND 0xffffffff = x"
proof -
  have "x AND 0xffffffff = x AND mask 32" by (simp add: mask_eq_exp_minus_1)
  then show ?thesis by (intro bit_word_eqI) (auto simp: bit_simps)
qed

lemma div_carry:
  fixes m n K :: nat
  assumes "n < K"
  shows "(m + n) div K = (if (m + n) mod K < n then m div K + 1 else m div K)"
proof -
  define a b where "a = m div K" and "b = m mod K"
  then have m: "m = a * K + b" and b: "b < K" using assms by (simp_all add: mod_less_divisor)
  show ?thesis
  proof (cases "b + n < K")
    case True
    then have "(m + n) div K = a" "(m + n) mod K = b + n"
      by (simp_all add: m add.assoc)
    then show ?thesis by (simp add: a_def)
  next
    case False
    then have "m + n = (a + 1) * K + (b + n - K)" and "b + n - K < K" using b assms by (auto simp: m)
    then have "(m + n) div K = a + 1" "(m + n) mod K = b + n - K"
      by (simp_all only: div_mult_self3 mod_mult_self3 div_less mod_less)
    then show ?thesis using False b by (simp add: a_def)
  qed
qed

lemma length_carry:
  assumes "n < 2 ^ 32"
  shows "unat (of_nat m + of_nat n :: u32) < n \<longleftrightarrow> (m + n) div 2 ^ 32 = m div 2 ^ 32 + 1"
    and "\<not> unat (of_nat m + of_nat n :: u32) < n \<longleftrightarrow> (m + n) div 2 ^ 32 = m div 2 ^ 32"
proof -
  have "unat (of_nat m + of_nat n :: u32) = (m + n) mod 2 ^ 32"
    by (simp add: unat_of_nat flip: of_nat_add)
  with div_carry [OF assms, of m] show "unat (of_nat m + of_nat n :: u32) < n \<longleftrightarrow> (m + n) div 2 ^ 32 = m div 2 ^ 32 + 1"
    "\<not> unat (of_nat m + of_nat n :: u32) < n \<longleftrightarrow> (m + n) div 2 ^ 32 = m div 2 ^ 32"
    by (auto split: if_splits)
qed

lemma sha_rep_fields:
  assumes "sha_rep ctx msg"
  shows "length (Buffer ctx) = 64" and "unat (TotalLength_0 ctx AND 0x3f) = length msg mod 64"
proof -
  have "(64 :: nat) dvd 2 ^ 32" by simp
  then show "unat (TotalLength_0 ctx AND 0x3f) = length msg mod 64"
    using assms by (simp add: sha_rep_def and_mask_low unat_of_nat mod_mod_cancel)
qed (use assms in \<open>simp add: sha_rep_def\<close>)

text \<open>The counters after an update, and the data path of an update, apart.\<close>

definition sha_count :: "nat \<Rightarrow> SHA256_CONTEXT \<Rightarrow> SHA256_CONTEXT" where
  "sha_count n ctx =
     (let ctx = ctx\<lparr>TotalLength_0 := (TotalLength_0 ctx + of_nat n) AND 0xffffffff\<rparr>
      in if unat (TotalLength_0 ctx) < n
         then ctx\<lparr>TotalLength_1 := TotalLength_1 ctx + 1\<rparr> else ctx)"

definition sha_feed :: "nat \<Rightarrow> u8 list \<Rightarrow> SHA256_CONTEXT \<Rightarrow> SHA256_CONTEXT" where
  "sha_feed left d ctx =
     (let (left, d, ctx) =
            (if left \<noteq> 0 \<and> 64 - left \<le> length d
             then let ctx = ctx\<lparr>Buffer := overlay (Buffer ctx) left (take (64 - left) d)\<rparr>
                  in (0, drop (64 - left) d, SHA256_Transform (Buffer ctx) ctx)
             else (left, d, ctx));
          (d, ctx) = SHA256_blocks d ctx
      in if d \<noteq> [] then ctx\<lparr>Buffer := overlay (Buffer ctx) left d\<rparr> else ctx)"

lemma SHA256_Update_split:
  "d \<noteq> [] \<Longrightarrow> SHA256_Update d ctx =
     sha_feed (unat (TotalLength_0 ctx AND 0x3f)) d (sha_count (length d) ctx)"
  unfolding SHA256_Update_def sha_feed_def sha_count_def Let_def by (simp only: if_False)

lemma sha_count_rep:
  assumes rep: "sha_rep ctx msg" and d: "n < 2 ^ 32"
  shows "sha_count n ctx = ctx\<lparr>TotalLength_0 := of_nat (length msg + n),
    TotalLength_1 := of_nat ((length msg + n) div 2 ^ 32)\<rparr>"
proof -
  have T: "TotalLength_0 ctx = of_nat (length msg)" "TotalLength_1 ctx = of_nat (length msg div 2 ^ 32)"
    using rep by (simp_all add: sha_rep_def)
  show ?thesis
  proof (cases "unat (of_nat (length msg) + of_nat n :: u32) < n")
    case True
    with length_carry(1) [OF d] have "(length msg + n) div 2 ^ 32 = length msg div 2 ^ 32 + 1" by blast
    with T True show ?thesis by (cases ctx) (simp add: sha_count_def and_ffffffff)
  next
    case False
    with length_carry(2) [OF d] have "(length msg + n) div 2 ^ 32 = length msg div 2 ^ 32" by blast
    with T False show ?thesis by (cases ctx) (simp add: sha_count_def and_ffffffff)
  qed
qed

lemma sha_feed_rep:
  assumes buf: "length (Buffer ctx) = 64" and left: "left < 64"
    and rest: "rest = take left (Buffer ctx)"
    and ab: "absorb fips_compress (State ctx) (rest @ d) = (s, r)"
  shows "length (Buffer (sha_feed left d ctx)) = 64 \<and> State (sha_feed left d ctx) = s \<and>
    take (length r) (Buffer (sha_feed left d ctx)) = r \<and>
    TotalLength_0 (sha_feed left d ctx) = TotalLength_0 ctx \<and>
    TotalLength_1 (sha_feed left d ctx) = TotalLength_1 ctx"
proof -
  have lrest: "length rest = left" using buf left rest by simp
  have lr: "length r = (left + length d) mod 64"
    using sha.length_absorb_rest [of "State ctx" "rest @ d"] ab lrest by simp
  then have "length r < 64" by simp
  consider (fill) "left \<noteq> 0" "64 - left \<le> length d" | (short) "left \<noteq> 0" "length d < 64 - left"
    | (empty) "left = 0" by linarith
  then show ?thesis
  proof cases
    case fill
    define b where "b = overlay (Buffer ctx) left (take (64 - left) d)"
    have b: "b = rest @ take (64 - left) d" "length b = 64"
      using buf left fill lrest by (simp_all add: b_def overlay_def rest)
    have "rest @ d = b @ drop (64 - left) d" by (simp add: b)
    then have "absorb fips_compress (fips_compress b (State ctx)) (drop (64 - left) d) = (s, r)"
      using ab sha.absorb_block [OF b(2)] by metis
    then have "sha_feed left d ctx = (if r = [] then ctx\<lparr>Buffer := b, State := s\<rparr>
        else ctx\<lparr>State := s, Buffer := overlay b 0 r\<rparr>)"
      using fill unfolding b_def sha_feed_def
      by (simp add: Let_def SHA256_blocks_eq SHA256_Transform_eq)
    then show ?thesis using b(2) \<open>length r < 64\<close> by (auto simp: overlay_def)
  next
    case short
    then have "s = State ctx" "r = rest @ d" "absorb fips_compress (State ctx) d = (State ctx, d)"
      using ab lrest by (simp_all add: sha.absorb_short)
    then show ?thesis using short buf left
      by (auto simp: sha_feed_def SHA256_blocks_eq Let_def overlay_def rest)
  next
    case empty
    then show ?thesis using ab buf \<open>length r < 64\<close>
      by (auto simp: sha_feed_def SHA256_blocks_eq Let_def overlay_def rest)
  qed
qed

lemma sha_rep_Update:
  assumes rep: "sha_rep ctx msg" and d: "length d < 2 ^ 32"
  shows "sha_rep (SHA256_Update d ctx) (msg @ d)"
proof (cases "d = []")
  case True
  then show ?thesis using rep by (simp add: SHA256_Update_def)
next
  case False
  let ?c = "sha_count (length d) ctx"
  note c = sha_count_rep [OF rep d]
  obtain s r where sr: "absorb fips_compress sha_H0 (msg @ d) = (s, r)" by fastforce
  have "absorb fips_compress (State ctx) (take (length msg mod 64) (Buffer ctx) @ d) = (s, r)"
    using rep sr sha.absorb_append [of sha_H0 msg d] by (simp add: sha_rep_def)
  then have "absorb fips_compress (State ?c) (take (length msg mod 64) (Buffer ?c) @ d) = (s, r)"
    by (simp add: c)
  from sha_feed_rep [OF _ _ refl this] sha.length_absorb_rest [of sha_H0 "msg @ d"] sr rep
  show ?thesis
    unfolding SHA256_Update_split [OF False] sha_rep_fields(2) [OF rep]
    by (auto simp: sha_rep_def c)
qed

subsection \<open>The digest of a message\<close>

text \<open>
  The published padding: a one bit, zeros up to eight bytes short of a block, and the
  length in bits as a 64-bit big-endian number.
\<close>

definition fips_pad :: "u8 list \<Rightarrow> u8 list" where
  "fips_pad msg = msg @ 0x80 # replicate ((119 - length msg mod 64) mod 64) 0
     @ put_be32 (of_nat (8 * length msg div 2 ^ 32)) @ put_be32 (of_nat (8 * length msg))"

definition sha256_spec :: "u8 list \<Rightarrow> u8 list" where
  "sha256_spec msg =
     (let s = fst (absorb fips_compress sha_H0 (fips_pad msg))
      in concat (map (\<lambda>i. put_be32 (s ! i)) [0..<8]))"

lemma pad_zeros: "x < 64 \<Longrightarrow> (119 - x) mod 64 = (if x < 56 then 55 - x else 119 - x :: nat)"
  by (simp add: le_mod_geq)

lemma pad_count_eq:
  fixes l :: nat
  assumes "x = l mod 64"
  shows "take (if x < 56 then 56 - x else 120 - x) sha_padding = 0x80 # replicate ((119 - x) mod 64) 0"
proof -
  have "x < 64" using assms by simp
  define k where "k = (if x < 56 then 55 - x else 119 - x)"
  have "k \<le> 63" and "(if x < 56 then 56 - x else 120 - x) = Suc k" and "(119 - x) mod 64 = k"
    using \<open>x < 64\<close> by (auto simp: k_def pad_zeros)
  then show ?thesis by (simp add: sha_padding_def min_absorb2)
qed

lemma length_in_bits: "l mod 2 ^ 32 div 2 ^ 29 + 8 * (l div 2 ^ 32) = 8 * l div (2 ^ 32 :: nat)"
proof -
  define q r where "q = l div 2 ^ 32" and "r = l mod 2 ^ 32"
  have "l = q * 2 ^ 32 + r" unfolding q_def r_def by (rule div_mult_mod_eq [symmetric])
  then have "8 * l = (8 * q) * 2 ^ 32 + 8 * r" by simp
  then have "8 * l div 2 ^ 32 = 8 * q + 8 * r div 2 ^ 32"
    by (simp only: div_mult_self3 power_not_zero zero_neq_numeral not_False_eq_True)
  also have "8 * r div 2 ^ 32 = 8 * r div (8 * 2 ^ 29)" by simp
  also have "\<dots> = r div 2 ^ 29" by (rule div_mult_mult1) simp
  finally show ?thesis by (simp add: q_def r_def)
qed

lemma of_unat_eq: "unat x = n \<Longrightarrow> (x :: u32) = of_nat n"
  by auto

lemma high_word:
  "drop_bit 29 (of_nat l) OR push_bit 3 (of_nat (l div 2 ^ 32)) = (of_nat (8 * l div 2 ^ 32) :: u32)"
proof -
  have d: "unat (drop_bit 29 (of_nat l :: u32)) = l mod 2 ^ 32 div 2 ^ 29"
    by (simp add: drop_bit_eq_div unat_div unat_of_nat)
  have "l mod 2 ^ 32 div 2 ^ 29 < (2 :: nat) ^ 3" by (simp add: less_mult_imp_div_less)
  then have "\<not> bit (drop_bit 29 (of_nat l :: u32)) n" if "3 \<le> n" for n
    using bit_small_word [of "drop_bit 29 (of_nat l :: u32)" 3 n] that by (simp add: d)
  then have "drop_bit 29 (of_nat l) OR push_bit 3 (of_nat (l div 2 ^ 32))
      = drop_bit 29 (of_nat l) + (push_bit 3 (of_nat (l div 2 ^ 32)) :: u32)"
    by (intro or_disjoint_add) (auto simp: bit_push_bit_iff)
  also have "\<dots> = of_nat (l mod 2 ^ 32 div 2 ^ 29) + of_nat (8 * (l div 2 ^ 32))"
    unfolding of_unat_eq [OF d] by (simp add: push_bit_eq_mult)
  also have "\<dots> = of_nat (l mod 2 ^ 32 div 2 ^ 29 + 8 * (l div 2 ^ 32))" by simp
  also have "l mod 2 ^ 32 div 2 ^ 29 + 8 * (l div 2 ^ 32) = 8 * l div 2 ^ 32"
    by (rule length_in_bits)
  finally show ?thesis .
qed

lemma SHA256_Final_rep:
  assumes rep: "sha_rep ctx msg"
  shows "fst (SHA256_Final ctx) = sha256_spec msg"
proof -
  define pad where "pad = 0x80 # replicate ((119 - length msg mod 64) mod 64) (0 :: u8)"
  define len :: "u8 list" where "len = put_be32 (of_nat (8 * length msg div 2 ^ 32)) @ put_be32 (of_nat (8 * length msg))"
  have T: "TotalLength_0 ctx = of_nat (length msg)" "TotalLength_1 ctx = of_nat (length msg div 2 ^ 32)"
    using rep by (simp_all add: sha_rep_def)
  have low: "push_bit 3 (of_nat (length msg) :: u32) = of_nat (8 * length msg)"
    by (simp add: push_bit_eq_mult)
  let ?c = "SHA256_Update len (SHA256_Update pad ctx)"
  have "sha_rep ?c ((msg @ pad) @ len)"
    by (intro sha_rep_Update rep) (simp_all add: pad_def len_def)
  moreover have "(msg @ pad) @ len = fips_pad msg" by (simp add: pad_def len_def fips_pad_def)
  ultimately have "State ?c = fst (absorb fips_compress sha_H0 (fips_pad msg))"
    by (simp add: sha_rep_def)
  moreover have "fst (SHA256_Final ctx) = concat (map (\<lambda>i. put_be32 (State ?c ! i)) [0..<8])"
    unfolding SHA256_Final_def sha_rep_fields(2) [OF rep] pad_count_eq [OF refl] Let_def
      pad_def len_def fst_conv unfolding T high_word low ..
  ultimately show ?thesis by (simp add: sha256_spec_def)
qed

lemma sha_rep_Init: "length (Buffer ctx) = 64 \<Longrightarrow> sha_rep (SHA256_Init ctx) []"
  by (simp add: sha_rep_def SHA256_Init_def sha_H0_def sha.absorb_short)

definition sha_blank :: SHA256_CONTEXT where
  "sha_blank = \<lparr>TotalLength_0 = 0, TotalLength_1 = 0, State = [], Buffer = replicate 64 0\<rparr>"

interpretation sha_stream: stream_digest "SHA256_Init sha_blank" SHA256_Update
    "\<lambda>c. fst (SHA256_Final c)" sha_rep "2 ^ 32"
  by unfold_locales
    (simp_all add: sha_rep_Init sha_blank_def sha_rep_Update SHA256_Final_rep)

section \<open>The round constants\<close>

text \<open>
  The specification and the code share the table of constants. It is the published one: its entries are the first 32 bits of the fractional parts of
  the cube roots of the first 64 primes.
\<close>

definition first_primes :: "int list" where
  "first_primes = filter (\<lambda>p. \<forall>q \<in> set [2, 3, 5, 7, 11, 13, 17]. q < p \<longrightarrow> p mod q \<noteq> 0) [2..311]"

definition cube_root_fraction :: "int \<Rightarrow> int \<Rightarrow> bool" where
  "cube_root_fraction p k \<longleftrightarrow> 0 \<le> k \<and> k < 2 ^ 32 \<and>
     (let a = (if p < 8 then 1 else if p < 27 then 2 else if p < 64 then 3 else if p < 125 then 4 else if p < 216 then 5 else 6);
          x = a * 2 ^ 32 + k
      in x * x * x \<le> p * 2 ^ 96 \<and> p * 2 ^ 96 < (x + 1) * (x + 1) * (x + 1))"

lemma first_primes_64: "length first_primes = 64"
  by (simp add: first_primes_def)

lemma sha_K_cube_roots: "list_all2 cube_root_fraction first_primes (map uint sha_K)"
  by (simp add: first_primes_def sha_K_def cube_root_fraction_def)

section \<open>Properties\<close>

text \<open>
  C26. SHA256 computes the published SHA-256 digest (padding, message schedule with shifting
  registers, big-endian output) of any buffer shorter than 4 GiB, whatever the context on
  the stack held before.
\<close>

theorem SHA256_correct:
  assumes "length dataBuffer < 2 ^ 32" and "length (Buffer sha256Context) = 64"
  shows "SHA256 sha256Context dataBuffer = sha256_spec dataBuffer"
  using sha_rep_Update [OF sha_rep_Init [OF assms(2)] assms(1)]
  by (simp add: SHA256_def SHA256_Final_rep)

theorem SHA256_correct_witness:
  "length [0x61, 0x62, 0x63 :: u8] < 2 ^ 32 \<and> length (Buffer sha_blank) = 64 \<and>
   SHA256 sha_blank [0x61, 0x62, 0x63] = sha256_spec [0x61, 0x62, 0x63]"
  using SHA256_correct [of "[0x61, 0x62, 0x63]" sha_blank] by (simp add: sha_blank_def)

text \<open>
  C27. feeding a message to SHA256_Update in any pieces gives the digest of the whole
  message: the buffering of partial blocks and the two-word length counter lose nothing.
\<close>

theorem SHA256_pieces:
  assumes "length (concat ds) < 2 ^ 32"
  shows "fst (SHA256_Final (foldl (\<lambda>c d. SHA256_Update d c) (SHA256_Init sha_blank) ds))
    = SHA256 sha_blank (concat ds)"
  unfolding SHA256_def by (rule sha_stream.pieces [OF assms])

theorem SHA256_pieces_witness:
  "length (concat [[0x61], [0x62, 0x63 :: u8]]) < 2 ^ 32 \<and>
   fst (SHA256_Final (foldl (\<lambda>c d. SHA256_Update d c) (SHA256_Init sha_blank) [[0x61], [0x62, 0x63]]))
     = SHA256 sha_blank (concat [[0x61], [0x62, 0x63]])"
  using SHA256_pieces [of "[[0x61], [0x62, 0x63]]"] by simp

end
