(* ===== verification/Md5.thy ===== *)
theory Md5
  imports Digest
begin

text \<open>
  MD5 (MD5.c): the unrolled transform, the update with its bit counter in two words, and
  the finishing step, proved equal to the published algorithm. The lemmas on feeding a
  message in blocks are those of \<open>block_hash\<close>, and piecewise feeding is an instance
  of \<open>stream_digest\<close>.
\<close>

record MD5_CONTEXT =
  md5_State :: "u32 list"
  md5_Count0 :: u32
  md5_Count1 :: u32
  md5_InputBuffer :: "u8 list"

type_synonym md5_regs = "u32 \<times> u32 \<times> u32 \<times> u32"

definition md5_F :: "u32 \<Rightarrow> u32 \<Rightarrow> u32 \<Rightarrow> u32" where
  "md5_F X Y Z = ((Y XOR Z) AND X) XOR Z"

definition md5_G :: "u32 \<Rightarrow> u32 \<Rightarrow> u32 \<Rightarrow> u32" where
  "md5_G X Y Z = ((X XOR Y) AND Z) XOR Y"

definition md5_H :: "u32 \<Rightarrow> u32 \<Rightarrow> u32 \<Rightarrow> u32" where
  "md5_H X Y Z = X XOR Y XOR Z"

definition md5_I :: "u32 \<Rightarrow> u32 \<Rightarrow> u32 \<Rightarrow> u32" where
  "md5_I X Y Z = (NOT Z OR X) XOR Y"

definition ROTATE_LEFT :: "u32 \<Rightarrow> nat \<Rightarrow> u32" where
  "ROTATE_LEFT x n = push_bit n x OR drop_bit (32 - n) x"

text \<open>The macros FF, GG, HH and II differ in the mixing function only.\<close>

definition md5_step ::
  "(u32 \<Rightarrow> u32 \<Rightarrow> u32 \<Rightarrow> u32) \<Rightarrow> u32 \<Rightarrow> u32 \<Rightarrow> u32 \<Rightarrow> u32 \<Rightarrow> u32 \<Rightarrow> nat \<Rightarrow> u32 \<Rightarrow> u32" where
  "md5_step f A B C D X S AC =
     (let A = A + (f B C D + X + AC); A = ROTATE_LEFT A S in A + B)"

definition md5_x :: "nat list" where
  "md5_x = [
     0, 1, 2, 3, 4, 5, 6, 7, 8, 9, 10, 11, 12, 13, 14, 15,
     1, 6, 11, 0, 5, 10, 15, 4, 9, 14, 3, 8, 13, 2, 7, 12,
     5, 8, 11, 14, 1, 4, 7, 10, 13, 0, 3, 6, 9, 12, 15, 2,
     0, 7, 14, 5, 12, 3, 10, 1, 8, 15, 6, 13, 4, 11, 2, 9]"

definition md5_ac :: "u32 list" where
  "md5_ac = [
     0xd76aa478, 0xe8c7b756, 0x242070db, 0xc1bdceee,
     0xf57c0faf, 0x4787c62a, 0xa8304613, 0xfd469501,
     0x698098d8, 0x8b44f7af, 0xffff5bb1, 0x895cd7be,
     0x6b901122, 0xfd987193, 0xa679438e, 0x49b40821,
     0xf61e2562, 0xc040b340, 0x265e5a51, 0xe9b6c7aa,
     0xd62f105d, 0x02441453, 0xd8a1e681, 0xe7d3fbc8,
     0x21e1cde6, 0xc33707d6, 0xf4d50d87, 0x455a14ed,
     0xa9e3e905, 0xfcefa3f8, 0x676f02d9, 0x8d2a4c8a,
     0xfffa3942, 0x8771f681, 0x6d9d6122, 0xfde5380c,
     0xa4beea44, 0x4bdecfa9, 0xf6bb4b60, 0xbebfbc70,
     0x289b7ec6, 0xeaa127fa, 0xd4ef3085, 0x04881d05,
     0xd9d4d039, 0xe6db99e5, 0x1fa27cf8, 0xc4ac5665,
     0xf4292244, 0x432aff97, 0xab9423a7, 0xfc93a039,
     0x655b59c3, 0x8f0ccc92, 0xffeff47d, 0x85845dd1,
     0x6fa87e4f, 0xfe2ce6e0, 0xa3014314, 0x4e0811a1,
     0xf7537e82, 0xbd3af235, 0x2ad7d2bb, 0xeb86d391]"

definition md5_fun :: "nat \<Rightarrow> u32 \<Rightarrow> u32 \<Rightarrow> u32 \<Rightarrow> u32" where
  "md5_fun t = (if t < 16 then md5_F else if t < 32 then md5_G else if t < 48 then md5_H else md5_I)"

definition md5_S :: "nat \<Rightarrow> nat list" where
  "md5_S t = (if t < 16 then [7, 12, 17, 22] else if t < 32 then [5, 9, 14, 20]
     else if t < 48 then [4, 11, 16, 23] else [6, 10, 15, 21])"

text \<open>
  The 64 unrolled calls repeat one pattern of register names every four calls;
  \<open>md5_rounds4\<close> is that pattern, for the calls \<open>t\<close> to \<open>t + 3\<close>.
\<close>

definition md5_rounds4 :: "u8 list \<Rightarrow> md5_regs \<Rightarrow> nat \<Rightarrow> md5_regs" where
  "md5_rounds4 block = (\<lambda>(a, b, c, d) t.
     let f = md5_fun t; s = md5_S t; x = (\<lambda>i. le32 block (4 * md5_x ! (t + i)));
         a = md5_step f a b c d (x 0) (s ! 0) (md5_ac ! t);
         d = md5_step f d a b c (x 1) (s ! 1) (md5_ac ! (t + 1));
         c = md5_step f c d a b (x 2) (s ! 2) (md5_ac ! (t + 2));
         b = md5_step f b c d a (x 3) (s ! 3) (md5_ac ! (t + 3))
     in (a, b, c, d))"

definition MD5pTransform :: "u8 list \<Rightarrow> MD5_CONTEXT \<Rightarrow> MD5_CONTEXT" where
  "MD5pTransform block ctx =
     (let s = md5_State ctx;
          (a, b, c, d) = foldl (md5_rounds4 block) (s ! 0, s ! 1, s ! 2, s ! 3)
            [0, 4, 8, 12, 16, 20, 24, 28, 32, 36, 40, 44, 48, 52, 56, 60]
      in ctx\<lparr>md5_State := [s ! 0 + a, s ! 1 + b, s ! 2 + c, s ! 3 + d]\<rparr>)"

definition MD5Init :: "MD5_CONTEXT \<Rightarrow> MD5_CONTEXT" where
  "MD5Init ctx = ctx\<lparr>md5_Count0 := 0, md5_Count1 := 0,
     md5_State := [0x67452301, 0xefcdab89, 0x98badcfe, 0x10325476]\<rparr>"

text \<open>
  The buffer from offset \<open>i\<close> on is the list itself; the loop test \<open>i + 63 < bufferLength\<close> on
  32-bit values does not wrap for buffers of at most 2 to the 32 minus 64 bytes.
\<close>

function MD5_blocks :: "u8 list \<Rightarrow> MD5_CONTEXT \<Rightarrow> u8 list \<times> MD5_CONTEXT" where
  "MD5_blocks byteBuffer ctx =
     (if 63 < length byteBuffer
      then MD5_blocks (drop 64 byteBuffer) (MD5pTransform byteBuffer ctx)
      else (byteBuffer, ctx))"
  by pat_completeness auto
termination
  by (relation "measure (\<lambda>(d, c). length d)") auto

declare MD5_blocks.simps [simp del]

definition MD5Update :: "u8 list \<Rightarrow> MD5_CONTEXT \<Rightarrow> MD5_CONTEXT" where
  "MD5Update inputBuffer ctx =
     (let bufferLength = of_nat (length inputBuffer) :: u32;
          index = unat (drop_bit 3 (md5_Count0 ctx) AND 0x3f);
          ctx = ctx\<lparr>md5_Count0 := md5_Count0 ctx + push_bit 3 bufferLength\<rparr>;
          ctx = (if md5_Count0 ctx < push_bit 3 bufferLength
                 then ctx\<lparr>md5_Count1 := md5_Count1 ctx + 1\<rparr> else ctx);
          ctx = ctx\<lparr>md5_Count1 := md5_Count1 ctx + drop_bit 29 bufferLength\<rparr>;
          partLen = 64 - index
      in if partLen \<le> length inputBuffer
         then let (byteBuffer, ctx) =
                    (if index \<noteq> 0
                     then let ctx = ctx\<lparr>md5_InputBuffer :=
                                overlay (md5_InputBuffer ctx) index (take partLen inputBuffer)\<rparr>
                          in (drop partLen inputBuffer, MD5pTransform (md5_InputBuffer ctx) ctx)
                     else (inputBuffer, ctx));
                  (byteBuffer, ctx) = MD5_blocks byteBuffer ctx
              in if byteBuffer = [] then ctx
                 else ctx\<lparr>md5_InputBuffer := overlay (md5_InputBuffer ctx) 0 byteBuffer\<rparr>
         else ctx\<lparr>md5_InputBuffer := overlay (md5_InputBuffer ctx) index inputBuffer\<rparr>)"

definition md5_paddingBuffer :: "u8 list" where
  "md5_paddingBuffer = 0x80 # replicate 63 0"

definition MD5Final :: "MD5_CONTEXT \<Rightarrow> u8 list \<times> MD5_CONTEXT" where
  "MD5Final ctx =
     (let index = unat (drop_bit 3 (md5_Count0 ctx) AND 0x3f);
          bits = put_le32 (md5_Count0 ctx) @ put_le32 (md5_Count1 ctx);
          ctx = MD5Update (take ((if index < 56 then 56 else 120) - index) md5_paddingBuffer) ctx;
          ctx = MD5Update bits ctx
      in (concat (map (\<lambda>i. put_le32 (md5_State ctx ! i)) [0..<4]),
          \<lparr>md5_State = replicate 4 0, md5_Count0 = 0, md5_Count1 = 0,
           md5_InputBuffer = replicate 64 0\<rparr>))"

section \<open>The transform is the published one\<close>

definition rfc_fun :: "nat \<Rightarrow> u32 \<Rightarrow> u32 \<Rightarrow> u32 \<Rightarrow> u32" where
  "rfc_fun i x y z =
     (if i < 16 then (x AND y) OR (NOT x AND z)
      else if i < 32 then (x AND z) OR (y AND NOT z)
      else if i < 48 then x XOR y XOR z
      else y XOR (x OR NOT z))"

definition rfc_index :: "nat \<Rightarrow> nat" where
  "rfc_index i =
     (if i < 16 then i else if i < 32 then (5 * i + 1) mod 16
      else if i < 48 then (3 * i + 5) mod 16 else 7 * i mod 16)"

definition rfc_round :: "u8 list \<Rightarrow> md5_regs \<Rightarrow> nat \<Rightarrow> md5_regs" where
  "rfc_round M = (\<lambda>(a, b, c, d) i.
     (d, b + word_rotl (md5_S i ! (i mod 4))
            (a + rfc_fun i b c d + le32 M (4 * rfc_index i) + md5_ac ! i), b, c))"

definition rfc_compress :: "u8 list \<Rightarrow> u32 list \<Rightarrow> u32 list" where
  "rfc_compress M s =
     (let (a, b, c, d) = foldl (rfc_round M) (s ! 0, s ! 1, s ! 2, s ! 3) [0..<64]
      in [s ! 0 + a, s ! 1 + b, s ! 2 + c, s ! 3 + d])"

lemma md5_fun_eq: "md5_fun t = rfc_fun t"
  by (intro ext bit_word_eqI)
    (auto simp: md5_fun_def rfc_fun_def md5_F_def md5_G_def md5_H_def md5_I_def bit_simps)

lemma md5_x_rows: "md5_x = map rfc_index [0..<64]"
  by code_simp

lemma md5_x_eq: "t < 64 \<Longrightarrow> md5_x ! t = rfc_index t"
  unfolding md5_x_rows by (simp only: nth_map_upt diff_zero add_0)

lemma ROTATE_LEFT_eq:
  assumes "0 < n" and "n < 32"
  shows "ROTATE_LEFT x n = word_rotl n x"
proof -
  have "ROTATE_LEFT x n = ROTR x (32 - n)"
    using assms by (simp add: ROTATE_LEFT_def ROTR_def SHR_eq or.commute)
  also have "\<dots> = word_rotr (32 - n) x" using assms by (simp add: ROTR_eq)
  also have "\<dots> = word_rotl n x"
    using assms by (intro bit_word_eqI) (auto simp: bit_simps)
  finally show ?thesis .
qed

lemma md5_S_range: "j < 4 \<Longrightarrow> 0 < md5_S t ! j \<and> md5_S t ! j < 32"
proof -
  assume "j < 4"
  then have "j = 0 \<or> j = 1 \<or> j = 2 \<or> j = 3" by arith
  then show ?thesis by (elim disjE) (simp_all add: md5_S_def)
qed

lemma md5_step_eq:
  assumes "t < 64" and "t mod 4 = j"
    and "md5_step (md5_fun t) a b c d (le32 M (4 * md5_x ! t)) (md5_S t ! j) (md5_ac ! t) = a'"
  shows "rfc_round M (a, b, c, d) t = (d, a', b, c)"
proof -
  have "j < 4" using assms(2) by auto
  then show ?thesis
    using assms md5_S_range [of j t]
    by (auto simp: md5_step_def rfc_round_def ROTATE_LEFT_eq md5_fun_eq md5_x_eq Let_def add_ac)
qed

lemma md5_group_const:
  assumes "4 dvd t" and "i < 4"
  shows "md5_fun t = md5_fun (t + i)" and "md5_S t = md5_S (t + i)" and "(t + i) mod 4 = i"
proof -
  from assms(1) obtain k where t: "t = 4 * k" by (rule dvdE)
  have "t + i < 16 \<longleftrightarrow> t < 16" "t + i < 32 \<longleftrightarrow> t < 32" "t + i < 48 \<longleftrightarrow> t < 48"
    using assms(2) by (auto simp: t)
  then show "md5_fun t = md5_fun (t + i)" "md5_S t = md5_S (t + i)"
    by (simp_all add: md5_fun_def md5_S_def)
  show "(t + i) mod 4 = i" using assms(2) by (simp add: t)
qed

lemma md5_rounds4_eq:
  assumes t: "4 dvd t" "t + 4 \<le> 64"
  shows "md5_rounds4 M r t = foldl (rfc_round M) r [t..<t + 4]"
proof -
  obtain a b c d where r: "r = (a, b, c, d)" by (cases r) auto
  let ?x = "\<lambda>i. le32 M (4 * md5_x ! (t + i))"
  define a1 where "a1 = md5_step (md5_fun t) a b c d (?x 0) (md5_S t ! 0) (md5_ac ! t)"
  define d1 where "d1 = md5_step (md5_fun t) d a1 b c (?x 1) (md5_S t ! 1) (md5_ac ! (t + 1))"
  define c1 where "c1 = md5_step (md5_fun t) c d1 a1 b (?x 2) (md5_S t ! 2) (md5_ac ! (t + 2))"
  define b1 where "b1 = md5_step (md5_fun t) b c1 d1 a1 (?x 3) (md5_S t ! 3) (md5_ac ! (t + 3))"
  have upt: "[t..<t + 4] = [t, t + 1, t + 2, t + 3]"
    by (simp add: upt_rec numeral_eq_Suc)
  note const = md5_group_const [OF t(1)]
  have "rfc_round M (a, b, c, d) t = (d, a1, b, c)"
    using t const(3) [of 0] by (intro md5_step_eq [where j = 0]) (simp_all add: a1_def)
  moreover have "rfc_round M (d, a1, b, c) (t + 1) = (c, d1, a1, b)"
    using t const [of 1] by (intro md5_step_eq [where j = 1]) (simp_all add: d1_def)
  moreover have "rfc_round M (c, d1, a1, b) (t + 2) = (b, c1, d1, a1)"
    using t const [of 2] by (intro md5_step_eq [where j = 2]) (simp_all add: c1_def)
  moreover have "rfc_round M (b, c1, d1, a1) (t + 3) = (a1, b1, c1, d1)"
    using t const [of 3] by (intro md5_step_eq [where j = 3]) (simp_all add: b1_def)
  ultimately have "foldl (rfc_round M) r [t..<t + 4] = (a1, b1, c1, d1)"
    unfolding r upt by (simp only: foldl.simps)
  moreover have "md5_rounds4 M r t = (a1, b1, c1, d1)"
    unfolding r md5_rounds4_def Let_def case_prod_conv a1_def b1_def c1_def d1_def ..
  ultimately show ?thesis by simp
qed

lemma md5_groups:
  "n \<le> 16 \<Longrightarrow> foldl (md5_rounds4 M) r (map (\<lambda>i. 4 * i) [0..<n]) = foldl (rfc_round M) r [0..<4 * n]"
proof (induction n)
  case (Suc n)
  have "[0..<4 * Suc n] = [0..<4 * n] @ [4 * n..<4 * n + 4]"
    using upt_add_eq_append [of 0 "4 * n" 4] by (simp add: add.commute)
  then show ?case using Suc by (simp add: md5_rounds4_eq)
qed simp

lemma MD5pTransform_eq:
  "MD5pTransform M ctx = ctx\<lparr>md5_State := rfc_compress M (md5_State ctx)\<rparr>"
proof -
  have "[0, 4, 8, 12, 16, 20, 24, 28, 32, 36, 40, 44, 48, 52, 56, 60] = map (\<lambda>i. 4 * i) [0..<16::nat]"
    by code_simp
  then have "foldl (md5_rounds4 M) r [0, 4, 8, 12, 16, 20, 24, 28, 32, 36, 40, 44, 48, 52, 56, 60]
      = foldl (rfc_round M) r [0..<64]" for r
    using md5_groups [of 16 M r] by (simp only: order_refl) simp
  then show ?thesis
    unfolding MD5pTransform_def rfc_compress_def Let_def by (simp only: split_def)
qed

section \<open>Feeding a message\<close>

lemma le32_take: "i + 3 < n \<Longrightarrow> le32 (take n M) i = le32 M i"
  by (simp add: le32_def)

lemma rfc_index_less: "rfc_index t < 16"
  by (simp add: rfc_index_def)

interpretation md5: block_hash rfc_compress
proof
  fix b :: "u8 list" and s
  have "le32 (take 64 b) (4 * rfc_index t) = le32 b (4 * rfc_index t)" for t
    using rfc_index_less [of t] by (intro le32_take) linarith
  then have "rfc_round (take 64 b) = rfc_round b"
    by (simp add: rfc_round_def fun_eq_iff)
  then show "rfc_compress (take 64 b) s = rfc_compress b s"
    by (simp add: rfc_compress_def)
qed

lemma MD5_blocks_eq:
  "MD5_blocks d ctx =
     (snd (absorb rfc_compress (md5_State ctx) d), ctx\<lparr>md5_State := fst (absorb rfc_compress (md5_State ctx) d)\<rparr>)"
proof (induction d ctx rule: MD5_blocks.induct)
  case (1 d ctx)
  show ?case
  proof (cases "64 \<le> length d")
    case True
    then show ?thesis
      using 1 by (simp add: MD5_blocks.simps [of d] MD5pTransform_eq md5.absorb_step [of d])
  next
    case False
    then show ?thesis by (simp add: MD5_blocks.simps [of d] md5.absorb_short)
  qed
qed

definition md5_H0 :: "u32 list" where
  "md5_H0 = [0x67452301, 0xefcdab89, 0x98badcfe, 0x10325476]"

definition md5_rep :: "MD5_CONTEXT \<Rightarrow> u8 list \<Rightarrow> bool" where
  "md5_rep ctx msg \<longleftrightarrow> length (md5_InputBuffer ctx) = 64 \<and>
     absorb rfc_compress md5_H0 msg = (md5_State ctx, take (length msg mod 64) (md5_InputBuffer ctx)) \<and>
     md5_Count0 ctx = of_nat (8 * length msg) \<and> md5_Count1 ctx = of_nat (8 * length msg div 2 ^ 32)"

definition md5_count :: "nat \<Rightarrow> MD5_CONTEXT \<Rightarrow> MD5_CONTEXT" where
  "md5_count n ctx =
     (let bufferLength = of_nat n :: u32;
          ctx = ctx\<lparr>md5_Count0 := md5_Count0 ctx + push_bit 3 bufferLength\<rparr>;
          ctx = (if md5_Count0 ctx < push_bit 3 bufferLength
                 then ctx\<lparr>md5_Count1 := md5_Count1 ctx + 1\<rparr> else ctx)
      in ctx\<lparr>md5_Count1 := md5_Count1 ctx + drop_bit 29 bufferLength\<rparr>)"

definition md5_feed :: "nat \<Rightarrow> u8 list \<Rightarrow> MD5_CONTEXT \<Rightarrow> MD5_CONTEXT" where
  "md5_feed index d ctx =
     (if 64 - index \<le> length d
      then let (byteBuffer, ctx) =
                 (if index \<noteq> 0
                  then let ctx = ctx\<lparr>md5_InputBuffer := overlay (md5_InputBuffer ctx) index (take (64 - index) d)\<rparr>
                       in (drop (64 - index) d, MD5pTransform (md5_InputBuffer ctx) ctx)
                  else (d, ctx));
               (byteBuffer, ctx) = MD5_blocks byteBuffer ctx
           in if byteBuffer = [] then ctx
              else ctx\<lparr>md5_InputBuffer := overlay (md5_InputBuffer ctx) 0 byteBuffer\<rparr>
      else ctx\<lparr>md5_InputBuffer := overlay (md5_InputBuffer ctx) index d\<rparr>)"

lemma MD5Update_split:
  "MD5Update d ctx = md5_feed (unat (drop_bit 3 (md5_Count0 ctx) AND 0x3f)) d (md5_count (length d) ctx)"
  unfolding MD5Update_def md5_feed_def md5_count_def Let_def ..

lemma md5_index_rep:
  assumes "md5_rep ctx msg"
  shows "unat (drop_bit 3 (md5_Count0 ctx) AND 0x3f) = length msg mod 64"
proof -
  have "8 * length msg mod 2 ^ 32 = 8 * (length msg mod 2 ^ 29)"
    using mult_mod_right [of 8 "length msg" "2 ^ 29"] by simp
  then have "8 * length msg mod 2 ^ 32 div 8 mod 64 = length msg mod 2 ^ 29 mod 64" by simp
  also have "\<dots> = length msg mod 64" by (simp add: mod_mod_cancel)
  finally show ?thesis
    using assms by (simp add: md5_rep_def and_mask_low drop_bit_eq_div unat_div unat_of_nat
        del: of_nat_mult)
qed

lemma of_nat_mod_u32: "of_nat (k mod 2 ^ 32) = (of_nat k :: u32)"
  by (simp add: word_of_nat_eq_iff take_bit_eq_mod)

lemma md5_count_rep:
  assumes rep: "md5_rep ctx msg" and n: "n < 2 ^ 32"
  shows "md5_count n ctx = ctx\<lparr>md5_Count0 := of_nat (8 * (length msg + n)),
    md5_Count1 := of_nat (8 * (length msg + n) div 2 ^ 32)\<rparr>"
proof -
  define m lo hi where "m = 8 * length msg" and "lo = 8 * n mod 2 ^ 32" and "hi = 8 * n div 2 ^ 32"
  have C: "md5_Count0 ctx = of_nat m" "md5_Count1 ctx = of_nat (m div 2 ^ 32)"
    using rep by (simp_all add: md5_rep_def m_def)
  have less: "lo < 2 ^ 32" by (simp add: lo_def)
  have "(of_nat lo :: u32) = of_nat (8 * n)" unfolding lo_def by (rule of_nat_mod_u32)
  then have lo: "push_bit 3 (of_nat n :: u32) = of_nat lo" by (simp add: push_bit_eq_mult)
  have "hi = n div 2 ^ 29" using div_mult_mult1 [of 8 n "2 ^ 29"] by (simp add: hi_def)
  then have hi: "drop_bit 29 (of_nat n :: u32) = of_nat hi"
    using n by (intro of_unat_eq) (simp add: drop_bit_eq_div unat_div unat_of_nat_small)
  have "8 * n = hi * 2 ^ 32 + lo" unfolding lo_def hi_def by (rule div_mult_mod_eq [symmetric])
  then have sum: "8 * (length msg + n) = hi * 2 ^ 32 + (m + lo)" by (simp add: m_def)
  then have q: "8 * (length msg + n) div 2 ^ 32 = hi + (m + lo) div 2 ^ 32"
    by (simp only: div_mult_self3 power_not_zero zero_neq_numeral not_False_eq_True)
  have low: "(of_nat (8 * (length msg + n)) :: u32) = of_nat m + of_nat lo"
    unfolding sum of_nat_mod_u32 [symmetric, of "hi * 2 ^ 32 + (m + lo)"] mod_mult_self3
    unfolding of_nat_mod_u32 by simp
  have "of_nat m + of_nat lo < (of_nat lo :: u32) \<longleftrightarrow> unat (of_nat m + of_nat lo :: u32) < lo"
    using less by (simp add: word_less_nat_alt unat_of_nat_small)
  then have carry: "(m + lo) div 2 ^ 32 = m div 2 ^ 32 + (if of_nat m + of_nat lo < (of_nat lo :: u32) then 1 else 0)"
    using length_carry [OF less, of m]
    by (cases "unat (of_nat m + of_nat lo :: u32) < lo") (simp_all only: if_True if_False add_0_right simp_thms)
  show ?thesis
    unfolding q low carry using C
    by (cases ctx) (simp add: md5_count_def lo hi Let_def add_ac)
qed

lemma md5_feed_rep:
  assumes buf: "length (md5_InputBuffer ctx) = 64" and left: "left < 64"
    and rest: "rest = take left (md5_InputBuffer ctx)"
    and ab: "absorb rfc_compress (md5_State ctx) (rest @ d) = (s, r)"
  shows "length (md5_InputBuffer (md5_feed left d ctx)) = 64 \<and> md5_State (md5_feed left d ctx) = s \<and>
    take (length r) (md5_InputBuffer (md5_feed left d ctx)) = r \<and>
    md5_Count0 (md5_feed left d ctx) = md5_Count0 ctx \<and>
    md5_Count1 (md5_feed left d ctx) = md5_Count1 ctx"
proof -
  have lrest: "length rest = left" using buf left rest by simp
  have "length r = (left + length d) mod 64"
    using md5.length_absorb_rest [of "md5_State ctx" "rest @ d"] ab lrest by simp
  then have "length r < 64" by simp
  consider (fill) "left \<noteq> 0" "64 - left \<le> length d" | (short) "length d < 64 - left"
    | (empty) "left = 0" "64 \<le> length d" by linarith
  then show ?thesis
  proof cases
    case fill
    define b where "b = overlay (md5_InputBuffer ctx) left (take (64 - left) d)"
    have b: "b = rest @ take (64 - left) d" "length b = 64"
      using buf left fill lrest by (simp_all add: b_def overlay_def rest)
    have "rest @ d = b @ drop (64 - left) d" by (simp add: b)
    then have "absorb rfc_compress (rfc_compress b (md5_State ctx)) (drop (64 - left) d) = (s, r)"
      using ab md5.absorb_block [OF b(2)] by metis
    then have "md5_feed left d ctx = (if r = [] then ctx\<lparr>md5_InputBuffer := b, md5_State := s\<rparr>
        else ctx\<lparr>md5_State := s, md5_InputBuffer := overlay b 0 r\<rparr>)"
      using fill unfolding b_def md5_feed_def
      by (simp add: Let_def MD5_blocks_eq MD5pTransform_eq)
    then show ?thesis using b(2) \<open>length r < 64\<close> by (auto simp: overlay_def)
  next
    case short
    then have "s = md5_State ctx" "r = rest @ d"
      using ab lrest by (simp_all add: md5.absorb_short)
    then show ?thesis using short buf left
      by (auto simp: md5_feed_def overlay_def rest)
  next
    case empty
    then show ?thesis using ab buf \<open>length r < 64\<close>
      by (auto simp: md5_feed_def MD5_blocks_eq Let_def overlay_def rest)
  qed
qed

lemma md5_rep_Update:
  assumes rep: "md5_rep ctx msg" and d: "length d < 2 ^ 32"
  shows "md5_rep (MD5Update d ctx) (msg @ d)"
proof -
  let ?c = "md5_count (length d) ctx"
  note c = md5_count_rep [OF rep d]
  obtain s r where sr: "absorb rfc_compress md5_H0 (msg @ d) = (s, r)" by fastforce
  have "absorb rfc_compress (md5_State ctx) (take (length msg mod 64) (md5_InputBuffer ctx) @ d) = (s, r)"
    using rep sr md5.absorb_append [of md5_H0 msg d] by (simp add: md5_rep_def)
  then have "absorb rfc_compress (md5_State ?c) (take (length msg mod 64) (md5_InputBuffer ?c) @ d) = (s, r)"
    by (simp add: c)
  from md5_feed_rep [OF _ _ refl this] md5.length_absorb_rest [of md5_H0 "msg @ d"] sr rep
  show ?thesis
    unfolding MD5Update_split md5_index_rep [OF rep]
    by (auto simp: md5_rep_def c)
qed

section \<open>The digest of a message\<close>

definition rfc_pad :: "u8 list \<Rightarrow> u8 list" where
  "rfc_pad msg = msg @ 0x80 # replicate ((119 - length msg mod 64) mod 64) 0
     @ put_le32 (of_nat (8 * length msg)) @ put_le32 (of_nat (8 * length msg div 2 ^ 32))"

definition md5_spec :: "u8 list \<Rightarrow> u8 list" where
  "md5_spec msg =
     (let s = fst (absorb rfc_compress md5_H0 (rfc_pad msg))
      in concat (map (\<lambda>i. put_le32 (s ! i)) [0..<4]))"

lemma MD5Final_rep:
  assumes rep: "md5_rep ctx msg"
  shows "fst (MD5Final ctx) = md5_spec msg"
proof -
  let ?x = "length msg mod 64"
  define pad where "pad = 0x80 # replicate ((119 - ?x) mod 64) (0 :: u8)"
  define len :: "u8 list" where "len = put_le32 (of_nat (8 * length msg)) @ put_le32 (of_nat (8 * length msg div 2 ^ 32))"
  have C: "put_le32 (md5_Count0 ctx) @ put_le32 (md5_Count1 ctx) = len"
    using rep by (simp add: md5_rep_def len_def)
  have "(if ?x < 56 then 56 else 120) - ?x = (if ?x < 56 then 56 - ?x else 120 - ?x)" by simp
  then have P: "take ((if ?x < 56 then 56 else 120) - ?x) md5_paddingBuffer = pad"
    using pad_count_eq [OF refl, of "length msg"]
    by (simp add: pad_def md5_paddingBuffer_def sha_padding_def)
  let ?c = "MD5Update len (MD5Update pad ctx)"
  have "md5_rep ?c ((msg @ pad) @ len)"
    by (intro md5_rep_Update rep) (simp_all add: pad_def len_def)
  moreover have "(msg @ pad) @ len = rfc_pad msg" by (simp add: pad_def len_def rfc_pad_def)
  ultimately have "md5_State ?c = fst (absorb rfc_compress md5_H0 (rfc_pad msg))"
    by (simp add: md5_rep_def)
  moreover have "fst (MD5Final ctx) = concat (map (\<lambda>i. put_le32 (md5_State ?c ! i)) [0..<4])"
    unfolding MD5Final_def md5_index_rep [OF rep] C P Let_def fst_conv ..
  ultimately show ?thesis by (simp add: md5_spec_def)
qed

definition md5_blank :: MD5_CONTEXT where
  "md5_blank = \<lparr>md5_State = [], md5_Count0 = 0, md5_Count1 = 0, md5_InputBuffer = replicate 64 0\<rparr>"

lemma md5_rep_Init: "length (md5_InputBuffer ctx) = 64 \<Longrightarrow> md5_rep (MD5Init ctx) []"
  by (simp add: md5_rep_def MD5Init_def md5_H0_def md5.absorb_short)

interpretation md5_stream: stream_digest "MD5Init md5_blank" MD5Update
    "\<lambda>c. fst (MD5Final c)" md5_rep "2 ^ 32 - 63"
  by unfold_locales
    (simp_all add: md5_rep_Init md5_blank_def md5_rep_Update MD5Final_rep)

text \<open>
  C33. feeding a message to MD5Update in any pieces and finishing gives the published MD5
  digest of the whole message, as long as the pieces together stay within the range of the
  32-bit loop index.
\<close>

theorem MD5_pieces_correct:
  assumes "length (concat ds) < 2 ^ 32 - 63"
  shows "fst (MD5Final (foldl (\<lambda>c d. MD5Update d c) (MD5Init md5_blank) ds)) = md5_spec (concat ds)"
  unfolding md5_stream.pieces [OF assms]
  using md5_rep_Update [OF md5_stream.rep_start, of "concat ds"] assms
  by (simp add: MD5Final_rep)

theorem MD5_pieces_correct_witness:
  "length (concat [[0x61], [0x62, 0x63 :: u8]]) < 2 ^ 32 - 63 \<and>
   fst (MD5Final (foldl (\<lambda>c d. MD5Update d c) (MD5Init md5_blank) [[0x61], [0x62, 0x63]]))
     = md5_spec (concat [[0x61], [0x62, 0x63]])"
  using MD5_pieces_correct [of "[[0x61], [0x62, 0x63]]"] by simp

end
