(* ===== verification/Unicode.thy ===== *)
theory Unicode
  imports Prelude
begin

text \<open>
  The character conversions of MiscUtils.c: UCS-2 to UTF-8 (BlUnicodeToUtf8), UCS-2 to
  ANSI (BlUnicodeToAnsi), UTF-8 to UCS-2 (BlUtf8ToUnicode), and the two functions that
  allocate a buffer for them. A destination buffer is a list of its elements and its length
  is the length of the list; a conversion returns its status and the buffer it leaves. A
  conversion is called with a buffer of at least one element. BlUnicodeToUtf8 counts
  characters and bytes in 32 bits where the lengths have 64: its counters are words that
  wrap, and None stands for a conversion that never returns. The other conversions
  count in 64 bits, which no buffer in memory exhausts.
\<close>

section \<open>The interface of a variable-length code\<close>

locale var_code =
  fixes enc :: "'a \<Rightarrow> 'b list"
    and next_of :: "'b list \<Rightarrow> 'e + ('a \<times> 'b list)"
    and ok :: "'a \<Rightarrow> bool"
  assumes next_enc: "ok c \<Longrightarrow> next_of (enc c @ rest) = Inr (c, rest)"
    and enc_nonempty: "enc c \<noteq> []"
begin

lemma enc_prefix_free: "ok c \<Longrightarrow> ok d \<Longrightarrow> enc c @ r = enc d @ r' \<Longrightarrow> c = d \<and> r = r'"
  by (metis next_enc sum.inject(2) prod.inject)

lemma enc_all_inj:
  "\<forall>c \<in> set cs. ok c \<Longrightarrow> \<forall>d \<in> set ds. ok d \<Longrightarrow>
   concat (map enc cs) = concat (map enc ds) \<Longrightarrow> cs = ds"
proof (induction cs arbitrary: ds)
  case Nil
  then show ?case using enc_nonempty by (cases ds) auto
next
  case (Cons c cs)
  then obtain d ds' where ds: "ds = d # ds'" using enc_nonempty [of c] by (cases ds) auto
  with Cons.prems have "c = d" and "concat (map enc cs) = concat (map enc ds')"
    using enc_prefix_free [of c d "concat (map enc cs)" "concat (map enc ds')"] by simp_all
  then show ?case using Cons.IH [of ds'] Cons.prems ds by simp
qed

end

section \<open>Bounded writes\<close>

text \<open>The macro WRITE_BUFFER: the last element of the buffer is kept for the terminator.\<close>

definition WRITE_BUFFER ::
  "'a \<Rightarrow> 'a list \<times> nat \<Rightarrow> (EFI_STATUS \<times> 'a list) + ('a list \<times> nat)" where
  "WRITE_BUFFER v = (\<lambda>(b, i).
     if length b - 1 \<le> i then Inl (EFI_BUFFER_TOO_SMALL, b) else Inr (b[i := v], i + 1))"

fun write_all ::
  "'a list \<Rightarrow> 'a list \<times> nat \<Rightarrow> (EFI_STATUS \<times> 'a list) + ('a list \<times> nat)" where
  "write_all [] st = Inr st"
| "write_all (v # vs) st =
     (case WRITE_BUFFER v st of Inl e \<Rightarrow> Inl e | Inr st' \<Rightarrow> write_all vs st')"

text \<open>The common end of the three conversions: a terminator where there is room for one.\<close>

definition write_end ::
  "'a \<Rightarrow> (EFI_STATUS \<times> 'a list) + ('a list \<times> nat) \<Rightarrow> EFI_STATUS \<times> 'a list" where
  "write_end z r = (case r of Inl e \<Rightarrow> e
     | Inr (b, j) \<Rightarrow> if j < length b - 1 then (EFI_SUCCESS, b[j := z]) else (EFI_SUCCESS, b))"

text \<open>The same macro with a counter of 32 bits, as BlUnicodeToUtf8 has it.\<close>

definition WRITE_BUFFER32 ::
  "'a \<Rightarrow> 'a list \<times> u32 \<Rightarrow> (EFI_STATUS \<times> 'a list) + ('a list \<times> u32)" where
  "WRITE_BUFFER32 v = (\<lambda>(b, j).
     if length b - 1 \<le> unat j then Inl (EFI_BUFFER_TOO_SMALL, b) else Inr (b[unat j := v], j + 1))"

fun write_all32 ::
  "'a list \<Rightarrow> 'a list \<times> u32 \<Rightarrow> (EFI_STATUS \<times> 'a list) + ('a list \<times> u32)" where
  "write_all32 [] st = Inr st"
| "write_all32 (v # vs) st =
     (case WRITE_BUFFER32 v st of Inl e \<Rightarrow> Inl e | Inr st' \<Rightarrow> write_all32 vs st')"

definition write_end32 ::
  "'a \<Rightarrow> (EFI_STATUS \<times> 'a list) + ('a list \<times> u32) \<Rightarrow> EFI_STATUS \<times> 'a list" where
  "write_end32 z r = (case r of Inl e \<Rightarrow> e
     | Inr (b, j) \<Rightarrow> if unat j < length b - 1 then (EFI_SUCCESS, b[unat j := z]) else (EFI_SUCCESS, b))"

lemma write_all_append:
  "write_all (vs @ ws) st = (case write_all vs st of Inl e \<Rightarrow> Inl e | Inr st' \<Rightarrow> write_all ws st')"
  by (induction vs arbitrary: st) (auto split: sum.split)

lemma write_all_fits:
  "j + length vs \<le> length b - 1 \<Longrightarrow> write_all vs (b, j) = Inr (overlay b j vs, j + length vs)"
proof (induction vs arbitrary: b j)
  case Nil
  then show ?case by (simp add: overlay_def)
next
  case (Cons v vs)
  then have "j < length b" by simp
  then show ?case using Cons by (simp add: WRITE_BUFFER_def overlay_Cons)
qed

lemma write_all_full:
  "length b - 1 < j + length vs \<Longrightarrow> j \<le> length b - 1 \<Longrightarrow>
   \<exists>b'. write_all vs (b, j) = Inl (EFI_BUFFER_TOO_SMALL, b') \<and> length b' = length b"
proof (induction vs arbitrary: b j)
  case (Cons v vs)
  show ?case
  proof (cases "length b - 1 \<le> j")
    case True
    then show ?thesis by (simp add: WRITE_BUFFER_def)
  next
    case False
    then show ?thesis using Cons.IH [of "b[j := v]" "Suc j"] Cons.prems
      by (auto simp: WRITE_BUFFER_def)
  qed
qed simp

lemma write_all_Inr:
  "write_all vs (b, j) = Inr (b', j') \<Longrightarrow>
   j' = j + length vs \<and> length b' = length b \<and> (j \<le> length b - 1 \<longrightarrow> j' \<le> length b - 1)"
proof (induction vs arbitrary: b j)
  case (Cons v vs)
  then have "j < length b - 1" "write_all vs (b[j := v], j + 1) = Inr (b', j')"
    by (auto simp: WRITE_BUFFER_def split: if_splits)
  with Cons.IH [of "b[j := v]" "j + 1"] show ?case by auto
qed simp

text \<open>The counter does not wrap when the buffer or the bytes to write stay below four gigabytes.\<close>

lemma write_all32_eq:
  assumes "length b \<le> 2 ^ 32 \<or> j + length vs < 2 ^ 32" and "j < 2 ^ 32"
  shows "write_all32 vs (b, of_nat j) = map_sum id (apsnd of_nat) (write_all vs (b, j))"
  using assms
proof (induction vs arbitrary: b j)
  case (Cons v vs)
  have j: "unat (of_nat j :: u32) = j" using Cons.prems(2) by (simp add: unat_of_nat_small)
  show ?case
  proof (cases "length b - 1 \<le> j")
    case False
    then have "j + 1 < 2 ^ 32" using Cons.prems(1) by auto
    moreover have "length (b[j := v]) \<le> 2 ^ 32 \<or> j + 1 + length vs < 2 ^ 32" using Cons.prems(1) by auto
    ultimately show ?thesis using False j Cons.IH [of "b[j := v]" "j + 1"]
      by (simp add: WRITE_BUFFER_def WRITE_BUFFER32_def add.commute)
  qed (simp add: WRITE_BUFFER_def WRITE_BUFFER32_def j)
qed simp

lemma write_end32_eq:
  "(\<And>b j. r = Inr (b, j) \<Longrightarrow> j < 2 ^ 32) \<Longrightarrow> write_end32 z (map_sum id (apsnd of_nat) r) = write_end z r"
  by (cases r) (auto simp: write_end_def write_end32_def unat_of_nat_small split: prod.splits)

section \<open>Encoding\<close>

definition utf8_bytes :: "u16 \<Rightarrow> u8 list" where
  "utf8_bytes c =
     (if c < 0x80 then [ucast c]
      else if c < 0x800 then
        [ucast ((drop_bit 6 c AND 0x0f) OR 0xc0), ucast ((c AND 0x3f) OR 0x80)]
      else
        [ucast ((drop_bit 12 c AND 0x0f) OR 0xe0), ucast ((drop_bit 6 c AND 0x3f) OR 0x80),
         ucast ((c AND 0x3f) OR 0x80)])"

text \<open>The loop over the characters; the counters \<open>i\<close> and \<open>j\<close> have 32 bits.\<close>

partial_function (option) BlUnicodeToUtf8_loop ::
  "u16 list \<Rightarrow> u32 \<Rightarrow> u8 list \<times> u32 \<Rightarrow> ((EFI_STATUS \<times> u8 list) + (u8 list \<times> u32)) option" where
  "BlUnicodeToUtf8_loop unicodeBuffer i st =
     (if unat i < length unicodeBuffer then
        (case write_all32 (utf8_bytes (unicodeBuffer ! unat i)) st of
           Inl e \<Rightarrow> Some (Inl e)
         | Inr st' \<Rightarrow> BlUnicodeToUtf8_loop unicodeBuffer (i + 1) st')
      else Some (Inr st))"

declare BlUnicodeToUtf8_loop.simps [code]

definition BlUnicodeToUtf8 :: "u16 list \<Rightarrow> u8 list \<Rightarrow> (EFI_STATUS \<times> u8 list) option" where
  "BlUnicodeToUtf8 unicodeBuffer utf8Buffer =
     map_option (write_end32 0) (BlUnicodeToUtf8_loop unicodeBuffer 0 (utf8Buffer[length utf8Buffer - 1 := 0], 0))"

definition BlUnicodeToAnsi :: "u16 list \<Rightarrow> u8 list \<Rightarrow> EFI_STATUS \<times> u8 list" where
  "BlUnicodeToAnsi unicodeBuffer ansiBuffer =
     write_end 0 (write_all (map (\<lambda>c. ucast (c AND 0xff)) unicodeBuffer)
       (ansiBuffer[length ansiBuffer - 1 := 0], 0))"

section \<open>Decoding\<close>

text \<open>
  The bytes not read yet are the list; the macro READ_BUFFER fails on the empty one.
\<close>

fun utf8_next :: "u8 list \<Rightarrow> EFI_STATUS + (u16 \<times> u8 list)" where
  "utf8_next [] = Inl EFI_BAD_BUFFER_SIZE"
| "utf8_next (utf8Char1 # rest) =
     (if utf8Char1 < 0x80 then Inr (ucast utf8Char1, rest)
      else if utf8Char1 < 0xe0 then
        (case rest of [] \<Rightarrow> Inl EFI_BAD_BUFFER_SIZE
         | utf8Char2 # rest \<Rightarrow>
             Inr (push_bit 6 (ucast (utf8Char1 AND 0x0f)) OR ucast (utf8Char2 AND 0x3f), rest))
      else
        (case rest of [] \<Rightarrow> Inl EFI_BAD_BUFFER_SIZE
         | [utf8Char2] \<Rightarrow> Inl EFI_BAD_BUFFER_SIZE
         | utf8Char2 # utf8Char3 # rest \<Rightarrow>
             Inr (push_bit 12 (ucast (utf8Char1 AND 0x0f)) OR push_bit 6 (ucast (utf8Char2 AND 0x3f))
                  OR ucast (utf8Char3 AND 0x3f), rest)))"

lemma utf8_next_shorter: "utf8_next bs = Inr (c, rest) \<Longrightarrow> length rest < length bs"
  by (cases bs) (auto split: if_splits list.splits)

function BlUtf8ToUnicode_loop ::
  "u8 list \<Rightarrow> u16 list \<times> nat \<Rightarrow> (EFI_STATUS \<times> u16 list) + (u16 list \<times> nat)" where
  "BlUtf8ToUnicode_loop bs st =
     (if bs = [] then Inr st
      else case utf8_next bs of Inl e \<Rightarrow> Inl (e, fst st)
        | Inr (c, rest) \<Rightarrow>
            (case WRITE_BUFFER c st of Inl e \<Rightarrow> Inl e
             | Inr st' \<Rightarrow> BlUtf8ToUnicode_loop rest st'))"
  by pat_completeness auto
termination
  by (relation "measure (\<lambda>(bs, st). length bs)") (auto dest: utf8_next_shorter)

declare BlUtf8ToUnicode_loop.simps [simp del]

definition BlUtf8ToUnicode :: "u8 list \<Rightarrow> u16 list \<Rightarrow> EFI_STATUS \<times> u16 list" where
  "BlUtf8ToUnicode utf8Buffer unicodeBuffer =
     write_end 0 (BlUtf8ToUnicode_loop utf8Buffer (unicodeBuffer[length unicodeBuffer - 1 := 0], 0))"

text \<open>
  The allocating callers. \<open>pool n\<close> is the buffer that MmAllocatePool returns for \<open>n\<close>
  elements, with whatever it holds, or None. The outer None of the first one is a conversion
  that never returns, the inner one is NULL.
\<close>

definition BlAllocateUtf8FromUnicode :: "(nat \<Rightarrow> u8 list option) \<Rightarrow> u16 list \<Rightarrow> u8 list option option" where
  "BlAllocateUtf8FromUnicode pool unicodeString =
     (case pool (length unicodeString * 3 + 1) of None \<Rightarrow> Some None
      | Some utf8NameBuffer \<Rightarrow>
          map_option (\<lambda>(status, b). if \<not> EFI_ERROR status then Some b else None)
            (BlUnicodeToUtf8 unicodeString utf8NameBuffer))"

definition BlAllocateUnicodeFromUtf8 :: "(nat \<Rightarrow> u16 list option) \<Rightarrow> u8 list \<Rightarrow> u16 list option" where
  "BlAllocateUnicodeFromUtf8 pool utf8String =
     (case pool (length utf8String + 1) of None \<Rightarrow> None
      | Some unicodeBuffer \<Rightarrow>
          (let (status, b) = BlUtf8ToUnicode utf8String unicodeBuffer
           in if \<not> EFI_ERROR status then Some b else None))"

section \<open>What the conversions do\<close>

definition utf8_ok :: "u16 \<Rightarrow> bool" where
  "utf8_ok c \<longleftrightarrow> c < 0x400 \<or> 0x800 \<le> c"

text \<open>
  A byte of the code is a tag in the high bits and a payload in the low bits: both sides
  of the code as arithmetic on natural numbers.
\<close>

lemma tag_byte:
  fixes x :: u16
  assumes "m \<le> k" and "2 ^ m + 2 ^ k * t \<le> 256"
  shows "ucast ((x AND mask m) OR push_bit k (of_nat t)) = (of_nat (unat x mod 2 ^ m + 2 ^ k * t) :: u8)"
    (is "ucast ?w = of_nat ?n")
proof -
  have lo: "unat (x AND mask m) = unat x mod 2 ^ m" "unat x mod 2 ^ m < 2 ^ m"
    by (simp_all add: unat_and_mask)
  have "push_bit k (of_nat t :: u16) = of_nat (2 ^ k * t)"
    by (simp add: push_bit_eq_mult)
  then have hi: "unat (push_bit k (of_nat t) :: u16) = 2 ^ k * t"
    using assms(2) by (simp only: unat_of_nat_small) (simp add: unat_of_nat_small del: of_nat_mult)
  have "?w = (x AND mask m) + push_bit k (of_nat t)"
    using assms(1) by (intro or_disjoint_add) (auto simp: bit_simps)
  moreover have "unat x mod 2 ^ m + 2 ^ k * t < 65536" using lo(2) assms(2) by linarith
  ultimately have "unat ?w = ?n" using lo(1) hi unat_add_small [of "x AND mask m" "push_bit k (of_nat t)"]
    by (simp only:) simp
  then have "of_nat ?n = (of_nat (unat ?w) :: u8)" by (simp only:)
  also have "\<dots> = ucast ?w" by (rule of_nat_unat)
  finally show ?thesis ..
qed

lemma utf8_bytes_nat:
  "utf8_bytes c = (let n = unat c in
     if n < 128 then [of_nat n]
     else if n < 2048 then [of_nat (n div 64 mod 16 + 192), of_nat (n mod 64 + 128)]
     else [of_nat (n div 4096 + 224), of_nat (n div 64 mod 64 + 128), of_nat (n mod 64 + 128)])"
proof -
  have t: "ucast ((x AND 0x0f) OR 0xc0) = (of_nat (unat x mod 16 + 192) :: u8)"
    "ucast ((x AND 0x0f) OR 0xe0) = (of_nat (unat x mod 16 + 224) :: u8)"
    "ucast ((x AND 0x3f) OR 0x80) = (of_nat (unat x mod 64 + 128) :: u8)" for x :: u16
    using tag_byte [of 4 5 6 x] tag_byte [of 4 5 7 x] tag_byte [of 6 7 1 x]
    by (simp_all add: mask_eq_exp_minus_1 push_bit_eq_mult)
  have "unat c div 4096 < 16" using unat_bound [of c] by simp
  then show ?thesis
    by (simp add: utf8_bytes_def Let_def t unat_drop_bit word_less_nat_alt del: of_nat_add)
qed

lemma payload_byte:
  assumes "n < 256"
  shows "ucast ((of_nat n :: u8) AND 0x0f) = (of_nat (n mod 16) :: u16)"
    and "ucast ((of_nat n :: u8) AND 0x3f) = (of_nat (n mod 64) :: u16)"
proof -
  have "unat ((of_nat n :: u8) AND mask k) = n mod 2 ^ k" for k
    using assms by (simp add: unat_and_mask unat_of_nat_small)
  then have *: "ucast ((of_nat n :: u8) AND mask k) = (of_nat (n mod 2 ^ k) :: u16)" for k
    by (metis of_nat_unat)
  show "ucast ((of_nat n :: u8) AND 0x0f) = (of_nat (n mod 16) :: u16)"
    "ucast ((of_nat n :: u8) AND 0x3f) = (of_nat (n mod 64) :: u16)"
    using * [of 4] * [of 6] by (simp_all add: mask_eq_exp_minus_1)
qed

lemma utf8_next_two:
  assumes "192 \<le> a" "a < 224" "b < 256"
  shows "utf8_next (of_nat a # of_nat b # rest) = Inr (of_nat (64 * (a mod 16) + b mod 64), rest)"
  using assms join_bits [of "b mod 64" 6 "a mod 16", where 'a = 16]
  by (simp add: payload_byte word_less_nat_alt unat_of_nat_small)

lemma utf8_next_three:
  assumes "224 \<le> a" "a < 256" "b < 256" "c < 256"
  shows "utf8_next (of_nat a # of_nat b # of_nat c # rest) =
     Inr (of_nat (4096 * (a mod 16) + 64 * (b mod 64) + c mod 64), rest)"
proof -
  have "push_bit 12 (of_nat (a mod 16)) OR push_bit 6 (of_nat (b mod 64)) OR of_nat (c mod 64)
     = (of_nat (4096 * (a mod 16) + (64 * (b mod 64) + c mod 64)) :: u16)"
    using join_bits [of "c mod 64" 6 "b mod 64", where 'a = 16]
      join_bits [of "64 * (b mod 64) + c mod 64" 12 "a mod 16", where 'a = 16]
    by (simp del: of_nat_add of_nat_mult add: or.assoc)
  then show ?thesis using assms
    by (simp add: payload_byte word_less_nat_alt unat_of_nat_small add.assoc
        del: of_nat_add of_nat_mult)
qed

lemma untag:
  "(x + 192) mod 16 = x mod (16 :: nat)" "(x + 224) mod 16 = x mod (16 :: nat)"
  "(x + 128) mod 64 = x mod (64 :: nat)"
  using mod_mult_self2 [of x 16 12] mod_mult_self2 [of x 16 14] mod_mult_self2 [of x 64 2]
  by simp_all

lemma utf8_next_bytes_nat:
  "utf8_next (utf8_bytes c @ rest) =
     Inr (if 0x400 \<le> c \<and> c < 0x800 then c - 0x400 else c, rest)"
proof -
  define n where "n = unat c"
  have n: "n < 65536" "c = of_nat n" using unat_bound [of c] by (simp_all add: n_def)
  consider "n < 128" | "128 \<le> n" "n < 1024" | "1024 \<le> n" "n < 2048" | "2048 \<le> n" by linarith
  then show ?thesis
  proof cases
    case 1
    then have "ucast (of_nat n :: u8) = (of_nat n :: u16)"
      using of_nat_unat [of "of_nat n :: u8", where 'a = "16 word"] by (simp add: unat_of_nat_small)
    then show ?thesis using n 1
      by (simp add: utf8_bytes_nat word_less_nat_alt word_le_nat_alt unat_of_nat_small
          n_def [symmetric] Let_def)
  next
    case 2
    then have "64 * ((n div 64 mod 16 + 192) mod 16) + (n mod 64 + 128) mod 64 = n"
      by (simp add: untag)
    then show ?thesis using n 2
      by (simp add: utf8_bytes_nat utf8_next_two word_less_nat_alt word_le_nat_alt
          unat_of_nat_small n_def [symmetric] Let_def del: of_nat_add of_nat_mult utf8_next.simps)
  next
    case 3
    then obtain m where m: "n = m + 16 * 64" "m < 1024"
      using that [of "n - 1024"] by simp
    then have "n div 64 = m div 64 + 16" "n mod 64 = m mod 64" "m div 64 < 16"
      using mod_mult_self2 [of m 64 16] by auto
    then have "64 * ((n div 64 mod 16 + 192) mod 16) + (n mod 64 + 128) mod 64 = n - 1024"
      using m by (simp add: untag)
    then show ?thesis using n 3
      by (simp add: utf8_bytes_nat utf8_next_two word_less_nat_alt word_le_nat_alt
          unat_of_nat_small n_def [symmetric] Let_def of_nat_diff
          del: of_nat_add of_nat_mult utf8_next.simps)
  next
    case 4
    then have "4096 * ((n div 4096 + 224) mod 16) + 64 * ((n div 64 mod 64 + 128) mod 64)
       + (n mod 64 + 128) mod 64 = n"
    proof -
      have "n div 4096 = n div 64 div 64" by (simp add: div_mult2_eq [symmetric])
      moreover have "4096 * (n div 64 div 64) + 64 * (n div 64 mod 64) + n mod 64 = n"
        using mult_div_mod_eq [of 64 "n div 64"] mult_div_mod_eq [of 64 n] by linarith
      ultimately show ?thesis using n(1) by (simp add: untag)
    qed
    then show ?thesis using n 4
      by (simp add: utf8_bytes_nat utf8_next_three word_less_nat_alt word_le_nat_alt
          unat_of_nat_small n_def [symmetric] Let_def del: of_nat_add of_nat_mult utf8_next.simps)
  qed
qed


text \<open>
  The two-byte form keeps four bits of the lead byte on both sides, so the code is exact
  outside U+0400..U+07FF.
\<close>

lemma utf8_next_ok: "utf8_ok c \<Longrightarrow> utf8_next (utf8_bytes c @ rest) = Inr (c, rest)"
  by (auto simp: utf8_next_bytes_nat utf8_ok_def)

interpretation utf8: var_code utf8_bytes utf8_next utf8_ok
proof unfold_locales
  show "utf8_bytes c \<noteq> []" for c by (simp add: utf8_bytes_def)
qed (rule utf8_next_ok)

lemma length_utf8_bytes: "length (utf8_bytes c) \<le> 3"
  by (simp add: utf8_bytes_def)

lemma length_utf8_all: "length (concat (map utf8_bytes cs)) \<le> 3 * length cs"
  by (induction cs) (auto intro: add_mono [OF length_utf8_bytes, simplified])

definition utf8_fold :: "u16 \<Rightarrow> u16" where
  "utf8_fold c = (if 0x400 \<le> c \<and> c < 0x800 then c - 0x400 else c)"

lemma utf8_next_fold: "utf8_next (utf8_bytes c @ rest) = Inr (utf8_fold c, rest)"
  by (simp only: utf8_next_bytes_nat utf8_fold_def)

lemma utf8_fold_ok: "utf8_fold c = c \<longleftrightarrow> utf8_ok c"
proof -
  have "c - 0x400 \<noteq> c" by simp
  then show ?thesis by (auto simp: utf8_fold_def utf8_ok_def)
qed

lemma BlUtf8ToUnicode_loop_enc:
  "BlUtf8ToUnicode_loop (concat (map utf8_bytes cs)) st = write_all (map utf8_fold cs) st"
proof (induction cs arbitrary: st)
  case Nil
  then show ?case by (simp add: BlUtf8ToUnicode_loop.simps)
next
  case (Cons c cs)
  have "utf8_bytes c \<noteq> []" by (rule utf8.enc_nonempty)
  then show ?case using Cons
    by (subst BlUtf8ToUnicode_loop.simps) (auto simp: utf8_next_fold split: sum.split)
qed

text \<open>
  UTF-8 itself, as RFC 3629 has it for the code points below U+10000: the payload is the code
  point in base 64. A surrogate (U+D800..U+DFFF) is not a character and has no code.
\<close>

definition rfc3629 :: "nat \<Rightarrow> nat list" where
  "rfc3629 n =
     (if n < 0x80 then [n]
      else if n < 0x800 then [0xc0 + n div 64, 0x80 + n mod 64]
      else [0xe0 + n div 4096, 0x80 + n div 64 mod 64, 0x80 + n mod 64])"

definition utf8_string :: "u16 list \<Rightarrow> u8 list" where
  "utf8_string cs = map of_nat (concat (map (\<lambda>c. rfc3629 (unat c)) cs))"

definition utf8_exact :: "u16 \<Rightarrow> bool" where
  "utf8_exact c \<longleftrightarrow> utf8_ok c \<and> \<not> (0xd800 \<le> c \<and> c < 0xe000)"

lemma utf8_bytes_rfc3629:
  assumes "utf8_ok c"
  shows "utf8_bytes c = map of_nat (rfc3629 (unat c))"
proof -
  have "unat c < 1024 \<or> 2048 \<le> unat c"
    using assms by (auto simp: utf8_ok_def word_less_nat_alt word_le_nat_alt)
  then have "unat c < 2048 \<Longrightarrow> unat c div 64 mod 16 = unat c div 64" by auto
  then show ?thesis by (auto simp: utf8_bytes_nat rfc3629_def Let_def add.commute simp del: of_nat_add)
qed

lemma utf8_string_bytes: "\<forall>c \<in> set cs. utf8_exact c \<Longrightarrow> concat (map utf8_bytes cs) = utf8_string cs"
  by (induction cs) (simp_all add: utf8_string_def utf8_exact_def utf8_bytes_rfc3629)

text \<open>A finished conversion: the elements, a terminator, and the end of the buffer untouched.\<close>

lemma write_end_all:
  assumes "length vs < length b"
  shows "write_end z (write_all vs (b[length b - 1 := z], 0)) =
     (EFI_SUCCESS, overlay (b[length b - 1 := z]) 0 (vs @ [z]))"
proof -
  have len: "length vs \<le> length b - 1" using assms by simp
  show ?thesis
  proof (cases "length vs < length b - 1")
    case True
    then have "drop (length vs) (b[length b - 1 := z]) \<noteq> []" by simp
    then obtain y ys where "drop (length vs) (b[length b - 1 := z]) = y # ys"
      by (cases "drop (length vs) (b[length b - 1 := z])") auto
    moreover from this have "drop (Suc (length vs)) (b[length b - 1 := z]) = ys"
      by (metis drop_Suc list.sel(3) tl_drop)
    moreover have "ys \<noteq> []"
      using True arg_cong [OF calculation(1), of length] by auto
    ultimately show ?thesis using True
      by (simp add: write_end_def write_all_fits overlay_def list_update_append)
  next
    case False
    with len assms obtain b' y where "b = b' @ [y]" "length vs = length b'"
      by (cases b rule: rev_cases) auto
    then show ?thesis by (simp add: write_end_def write_all_fits overlay_def)
  qed
qed

lemma write_end_full:
  assumes "length b \<le> length vs" and "b \<noteq> []"
  shows "\<exists>b'. write_end z (write_all vs (b[length b - 1 := z], 0)) = (EFI_BUFFER_TOO_SMALL, b')
     \<and> length b' = length b"
proof -
  have "length b - 1 < length vs" using assms by (cases b) auto
  then show ?thesis using write_all_full [of "b[length b - 1 := z]" 0 vs] by (auto simp: write_end_def)
qed


text \<open>The condition under which the counters of BlUnicodeToUtf8 do not wrap.\<close>

definition utf8_counts :: "u16 list \<Rightarrow> u8 list \<Rightarrow> bool" where
  "utf8_counts s b \<longleftrightarrow> length b \<le> 2 ^ 32 \<or> length (concat (map utf8_bytes s)) < 2 ^ 32"

lemma BlUnicodeToUtf8_loop_eq:
  assumes "i \<le> j" and "j \<le> length b - 1 \<and> length b \<le> 2 ^ 32 \<or> j + length (concat (map utf8_bytes (drop i s))) < 2 ^ 32" (is "?small")
    and "j < 2 ^ 32"
  shows "BlUnicodeToUtf8_loop s (of_nat i) (b, of_nat j) =
    Some (map_sum id (apsnd of_nat) (write_all (concat (map utf8_bytes (drop i s))) (b, j)))"
  using assms
proof (induction "length s - i" arbitrary: i j b)
  case 0
  have "unat (of_nat i :: u32) = i" using 0(2,4) by (simp add: unat_of_nat_small)
  then show ?case using 0(1) by (subst BlUnicodeToUtf8_loop.simps) simp
next
  case (Suc n)
  let ?c = "utf8_bytes (s ! i)" and ?r = "concat (map utf8_bytes (drop (Suc i) s))"
  have i: "unat (of_nat i :: u32) = i" "i < length s" using Suc(2,3,5) by (simp_all add: unat_of_nat_small)
  have d: "concat (map utf8_bytes (drop i s)) = ?c @ ?r" using i(2) by (simp add: Cons_nth_drop_Suc [symmetric])
  have w: "write_all32 ?c (b, of_nat j) = map_sum id (apsnd of_nat) (write_all ?c (b, j))"
    using Suc(4,5) by (intro write_all32_eq) (auto simp: d)
  show ?case
  proof (cases "write_all ?c (b, j)")
    case (Inl e)
    then show ?thesis using i w by (subst BlUnicodeToUtf8_loop.simps) (simp add: d write_all_append)
  next
    case (Inr st)
    obtain b' j' where st: "st = (b', j')" by (cases st)
    then have f: "j' = j + length ?c" "length b' = length b" "j \<le> length b - 1 \<longrightarrow> j' \<le> length b - 1"
      using write_all_Inr Inr by blast+
    have ne: "?c \<noteq> []" by (simp add: utf8_bytes_def)
    have c: "i + 1 \<le> j'" using f(1) Suc(3) ne by (cases ?c) auto
    have sm: "j' \<le> length b' - 1 \<and> length b' \<le> 2 ^ 32 \<or> j' + length ?r < 2 ^ 32" using Suc(4) f by (auto simp: d)
    have "j \<le> length b - 1 \<and> length b \<le> 2 ^ 32 \<Longrightarrow> b \<noteq> []" using Inr ne by (cases ?c) (auto simp: WRITE_BUFFER_def)
    then have lt: "j' < 2 ^ 32" using sm f(2) by (cases b) auto
    have "BlUnicodeToUtf8_loop s (of_nat (i + 1)) (b', of_nat j') = Some (map_sum id (apsnd of_nat) (write_all ?r (b', j')))"
      using Suc(1) [of "i + 1" j' b'] Suc(2) c sm lt by simp
    then show ?thesis using i w Inr st by (subst BlUnicodeToUtf8_loop.simps) (simp add: d write_all_append add.commute)
  qed
qed

lemma BlUnicodeToUtf8_eq:
  assumes "utf8_counts s b" and "b \<noteq> []"
  shows "BlUnicodeToUtf8 s b = Some (write_end 0 (write_all (concat (map utf8_bytes s)) (b[length b - 1 := 0], 0)))"
proof -
  let ?b = "b[length b - 1 := 0]" and ?e = "concat (map utf8_bytes s)"
  have "BlUnicodeToUtf8_loop s (of_nat 0) (?b, of_nat 0) = Some (map_sum id (apsnd of_nat) (write_all (concat (map utf8_bytes (drop 0 s))) (?b, 0)))"
    using assms(1) by (intro BlUnicodeToUtf8_loop_eq) (auto simp: utf8_counts_def)
  moreover have "j < 2 ^ 32" if "write_all ?e (?b, 0) = Inr (c, j)" for c j
  proof -
    have "j = length ?e" "j \<le> length b - 1" using write_all_Inr [OF that] by simp_all
    then show ?thesis using assms by (cases b) (auto simp: utf8_counts_def)
  qed
  ultimately show ?thesis by (simp add: BlUnicodeToUtf8_def write_end32_eq)
qed

text \<open>
  From four gigabytes on the counters wrap: with that many characters and a longer buffer the
  loop does not end.
\<close>

lemma write_all32_wide:
  "2 ^ 32 < length b \<Longrightarrow> \<exists>b' j'. write_all32 vs (b, j) = Inr (b', j') \<and> length b' = length b"
proof (induction vs arbitrary: b j)
  case (Cons v vs)
  have "unat j < 2 ^ 32" using unat_bound [of j] by simp
  then have "\<not> length b - 1 \<le> unat j" using Cons.prems by linarith
  then show ?case using Cons.IH [of "b[unat j := v]" "j + 1"] Cons.prems by (auto simp: WRITE_BUFFER32_def)
qed simp

lemma BlUnicodeToUtf8_loop_endless:
  assumes "2 ^ 32 \<le> length s"
  shows "2 ^ 32 < length b \<Longrightarrow> BlUnicodeToUtf8_loop s i (b, j) = None"
proof -
  have "BlUnicodeToUtf8_loop s i st = Some y \<Longrightarrow> \<not> (2 ^ 32 \<le> length s \<and> 2 ^ 32 < length (fst st))" for s i st y
  proof (erule BlUnicodeToUtf8_loop.raw_induct [rotated], rule notI)
    fix loop s and i :: u32 and st :: "u8 list \<times> u32" and y
    assume IH: "\<And>s i st y. loop s i st = Some y \<Longrightarrow> \<not> (2 ^ 32 \<le> length s \<and> 2 ^ 32 < length (fst st))"
      and run: "(if unat i < length s then case write_all32 (utf8_bytes (s ! unat i)) st of Inl e \<Rightarrow> Some (Inl e)
        | Inr st' \<Rightarrow> loop s (i + 1) st' else Some (Inr st)) = Some y"
      and long: "2 ^ 32 \<le> length s \<and> 2 ^ 32 < length (fst st)"
    have "unat i < 2 ^ 32" using unat_bound [of i] by simp
    then have "unat i < length s" using long by linarith
    moreover obtain b' j' where "write_all32 (utf8_bytes (s ! unat i)) st = Inr (b', j')" "length b' = length (fst st)"
      using write_all32_wide [of "fst st" "utf8_bytes (s ! unat i)" "snd st"] long by auto
    ultimately show False using IH [of s "i + 1" "(b', j')" y] run long by simp
  qed
  then show "2 ^ 32 < length b \<Longrightarrow> BlUnicodeToUtf8_loop s i (b, j) = None"
    using assms by (cases "BlUnicodeToUtf8_loop s i (b, j)") fastforce+
qed

theorem BlUnicodeToUtf8_endless:
  "2 ^ 32 \<le> length s \<Longrightarrow> 2 ^ 32 < length b \<Longrightarrow> BlUnicodeToUtf8 s b = None"
  by (simp add: BlUnicodeToUtf8_def BlUnicodeToUtf8_loop_endless)

lemma length_write_end_all:
  "b \<noteq> [] \<Longrightarrow> length (snd (write_end z (write_all vs (b[length b - 1 := z], 0)))) = length b"
  using write_end_full [of b vs z] write_end_all [of vs b z]
  by (cases "length vs < length b") (auto simp: not_less)

section \<open>Properties\<close>

lemma BlUnicodeToUtf8_facts:
  fixes s b
  assumes "b \<noteq> []" and "utf8_counts s b"
  defines "enc \<equiv> concat (map utf8_bytes s)"
  shows "\<exists>status b'. BlUnicodeToUtf8 s b = Some (status, b') \<and> length b' = length b \<and>
      (length enc < length b \<longrightarrow> status = EFI_SUCCESS \<and> take (length enc + 1) b' = enc @ [0]) \<and>
      (\<not> length enc < length b \<longrightarrow> status = EFI_BUFFER_TOO_SMALL)"
    and "3 * length s < length b \<Longrightarrow> length enc < length b"
proof -
  have e: "BlUnicodeToUtf8 s b = Some (write_end 0 (write_all enc (b[length b - 1 := 0], 0)))"
    unfolding enc_def by (rule BlUnicodeToUtf8_eq [OF assms(2,1)])
  show "\<exists>status b'. BlUnicodeToUtf8 s b = Some (status, b') \<and> length b' = length b \<and>
      (length enc < length b \<longrightarrow> status = EFI_SUCCESS \<and> take (length enc + 1) b' = enc @ [0]) \<and>
      (\<not> length enc < length b \<longrightarrow> status = EFI_BUFFER_TOO_SMALL)"
    using e write_end_all [of enc b 0] write_end_full [of b enc 0] assms(1)
    by (cases "length enc < length b") (auto simp: overlay_def)
  show "3 * length s < length b \<Longrightarrow> length enc < length b"
    using length_utf8_all [of s] by (simp only: enc_def)
qed

text \<open>
  C40. BlUnicodeToUtf8, where its 32-bit counters do not wrap (the buffer has at most 4 GiB, or the
  encoded string has less): it returns, never writes past the end of its buffer (the buffer keeps its
  length), succeeds exactly when the encoded string and its terminator fit, then leaves the
  encoded bytes followed by a NUL at the start of the buffer, and otherwise answers
  EFI_BUFFER_TOO_SMALL; three bytes for each character and one more are always enough. The encoded
  string is the UTF-8 of RFC 3629 when no character is a surrogate or in U+0400..U+07FF. With 4 Gi characters or
  more and a buffer beyond 4 GiB it never returns.
\<close>

theorem BlUnicodeToUtf8_correct:
  assumes "b \<noteq> []"
  shows "(length b \<le> 2 ^ 32 \<or> length (concat (map utf8_bytes s)) < 2 ^ 32 \<longrightarrow>
      (\<exists>status b'. BlUnicodeToUtf8 s b = Some (status, b') \<and> length b' = length b \<and>
        (length (concat (map utf8_bytes s)) < length b \<longrightarrow> status = EFI_SUCCESS \<and>
          take (length (concat (map utf8_bytes s)) + 1) b' = concat (map utf8_bytes s) @ [0]) \<and>
        (\<not> length (concat (map utf8_bytes s)) < length b \<longrightarrow> status = EFI_BUFFER_TOO_SMALL))) \<and>
    (3 * length s < length b \<longrightarrow> length (concat (map utf8_bytes s)) < length b) \<and>
    ((\<forall>c \<in> set s. utf8_exact c) \<longrightarrow> concat (map utf8_bytes s) = utf8_string s) \<and>
    (2 ^ 32 \<le> length s \<and> 2 ^ 32 < length b \<longrightarrow> BlUnicodeToUtf8 s b = None)"
  using BlUnicodeToUtf8_facts(1) [OF assms, of s] length_utf8_all [of s] utf8_string_bytes [of s]
    BlUnicodeToUtf8_endless [of s b]
  unfolding utf8_counts_def by (intro conjI impI) auto

theorem BlUnicodeToUtf8_correct_witness:
  "(\<exists>b'. BlUnicodeToUtf8 [0x41, 0x20ac] (replicate 7 0xff) = Some (EFI_SUCCESS, b') \<and> take 5 b' = [0x41, 0xe2, 0x82, 0xac, 0]) \<and>
   (\<exists>b'. BlUnicodeToUtf8 [0x41, 0x20ac] (replicate 4 0xff) = Some (EFI_BUFFER_TOO_SMALL, b'))"
proof -
  have enc: "concat (map utf8_bytes [0x41, 0x20ac]) = [0x41, 0xe2, 0x82, 0xac]"
    by (simp add: utf8_bytes_def)
  have five: "5 = Suc (Suc (Suc (Suc (Suc 0))))" by simp
  show ?thesis
    using BlUnicodeToUtf8_correct [of "replicate 7 0xff" "[0x41, 0x20ac]"]
      BlUnicodeToUtf8_correct [of "replicate 4 0xff" "[0x41, 0x20ac]"]
    unfolding enc five by auto
qed

text \<open>
  C39. Decoding what BlUnicodeToUtf8 wrote: for any string whose encoding has less than 4 GiB and any two buffers
  that are large enough both conversions succeed and the string comes back, terminated, with bit 10 lost
  from every character of U+0400..U+07FF, and with no other change; so it comes back as it
  was exactly when it has no such character.
\<close>

theorem BlUtf8ToUnicode_roundtrip:
  assumes "3 * length s < length b" and "length s < length u" and "length (concat (map utf8_bytes s)) < 2 ^ 32"
  shows "(\<exists>n b'. BlUnicodeToUtf8 s b = Some (EFI_SUCCESS, b') \<and>
     fst (BlUtf8ToUnicode (take n b') u) = EFI_SUCCESS \<and>
     take (length s + 1) (snd (BlUtf8ToUnicode (take n b') u)) = map utf8_fold s @ [0] \<and>
     length b' = length b \<and> take (n + 1) b' = concat (map utf8_bytes s) @ [0]) \<and>
    (map utf8_fold s = s \<longleftrightarrow> (\<forall>c \<in> set s. c < 0x400 \<or> 0x800 \<le> c))"
proof
  let ?e = "concat (map utf8_bytes s)"
  have b: "b \<noteq> []" "utf8_counts s b" using assms(1,3) by (auto simp: utf8_counts_def)
  have "length ?e < length b" using length_utf8_all [of s] assms(1) by linarith
  then obtain b' where e: "BlUnicodeToUtf8 s b = Some (EFI_SUCCESS, b')" "length b' = length b" "take (length ?e + 1) b' = ?e @ [0]"
    using BlUnicodeToUtf8_facts(1) [OF b] by blast
  moreover have "BlUtf8ToUnicode ?e u =
     (EFI_SUCCESS, overlay (u[length u - 1 := 0]) 0 (map utf8_fold s @ [0]))"
    using assms(2) by (simp only: BlUtf8ToUnicode_def BlUtf8ToUnicode_loop_enc write_end_all length_map)
  moreover have "take (length ?e) b' = ?e"
    using arg_cong [OF e(3), of "take (length ?e)"] by (simp add: min_def)
  ultimately show "\<exists>n b'. BlUnicodeToUtf8 s b = Some (EFI_SUCCESS, b') \<and>
     fst (BlUtf8ToUnicode (take n b') u) = EFI_SUCCESS \<and>
     take (length s + 1) (snd (BlUtf8ToUnicode (take n b') u)) = map utf8_fold s @ [0] \<and>
     length b' = length b \<and> take (n + 1) b' = concat (map utf8_bytes s) @ [0]"
    by (intro exI [of _ "length ?e"]) (simp add: overlay_def)
next
  show "map utf8_fold s = s \<longleftrightarrow> (\<forall>c \<in> set s. c < 0x400 \<or> 0x800 \<le> c)"
    by (simp add: map_idI map_eq_conv [of utf8_fold s id, simplified] utf8_fold_ok utf8_ok_def)
qed

theorem BlUtf8ToUnicode_roundtrip_witness:
  "\<exists>n b'. BlUnicodeToUtf8 [0x41, 0x20ac, 0x416] (replicate 10 0xff) = Some (EFI_SUCCESS, b') \<and>
     fst (BlUtf8ToUnicode (take n b') [1, 2, 3, 4]) = EFI_SUCCESS \<and>
     take 4 (snd (BlUtf8ToUnicode (take n b') [1, 2, 3, 4])) = [0x41, 0x20ac, 0x16, 0]"
proof -
  have four: "4 = Suc (Suc (Suc (Suc 0)))" by simp
  have "length (concat (map utf8_bytes [0x41, 0x20ac, 0x416])) < 2 ^ 32"
    using length_utf8_all [of "[0x41, 0x20ac, 0x416]"] by simp
  then show ?thesis
    using BlUtf8ToUnicode_roundtrip [of "[0x41, 0x20ac, 0x416]" "replicate 10 0xff" "[1, 2, 3, 4]"]
    unfolding four by (auto simp: utf8_fold_def)
qed

end
