(* ===== verification/EfiTime.thy ===== *)
theory EfiTime
  imports Prelude "HOL-Library.Product_Lexorder"
begin

text \<open>
  Calendar time (MiscUtils.c): comparison of two EFI times, the step to the next second,
  and the conversion to seconds since 1970. The specification counts days and seconds as
  natural numbers; the code's 32-bit sums are shown never to wrap in the range it accepts.
\<close>

record EFI_TIME =
  Year :: u16
  Month :: u8
  Day :: u8
  Hour :: u8
  Minute :: u8
  Second :: u8
  Nanosecond :: u32
  TimeZone :: u16
  Daylight :: u8

section \<open>The code\<close>

definition IS_LEAP_YEAR :: "u16 \<Rightarrow> bool" where
  "IS_LEAP_YEAR y = ((y mod 4 = 0 \<and> y mod 100 \<noteq> 0) \<or> y mod 400 = 0)"

definition BlCompareTime :: "EFI_TIME \<Rightarrow> EFI_TIME \<Rightarrow> int" where
  "BlCompareTime time1 time2 =
    (if Year time1 < Year time2 then - 1
     else if Year time1 > Year time2 then 1
     else if Month time1 < Month time2 then - 1
     else if Month time1 > Month time2 then 1
     else if Day time1 < Day time2 then - 1
     else if Day time1 > Day time2 then 1
     else if Hour time1 < Hour time2 then - 1
     else if Hour time1 > Hour time2 then 1
     else if Minute time1 < Minute time2 then - 1
     else if Minute time1 > Minute time2 then 1
     else if Second time1 < Second time2 then - 1
     else if Second time1 > Second time2 then 1
     else 0)"

definition daysOfMonth :: "EFI_TIME \<Rightarrow> u32" where
  "daysOfMonth theTime =
    (let d = (if push_bit (unat (Month theTime)) 1 AND (0x15aa :: u32) \<noteq> 0 then 31 else 30)
     in if Month theTime = 2 then (if IS_LEAP_YEAR (Year theTime) then 29 else 28) else d)"

definition BlAddOneSecond :: "EFI_TIME \<Rightarrow> EFI_TIME" where
  "BlAddOneSecond t0 =
    (let theTime = t0\<lparr>Second := Second t0 + 1\<rparr> in
     if \<not> Second theTime > 59 then theTime else
     let theTime = theTime\<lparr>Second := 0, Minute := Minute theTime + 1\<rparr> in
     if \<not> Minute theTime > 59 then theTime else
     let theTime = theTime\<lparr>Minute := 0, Hour := Hour theTime + 1\<rparr> in
     if \<not> Hour theTime > 23 then theTime else
     let theTime = theTime\<lparr>Hour := 0, Day := Day theTime + 1\<rparr> in
     if \<not> ucast (Day theTime) > daysOfMonth theTime then theTime else
     let theTime = theTime\<lparr>Day := 1, Month := Month theTime + 1\<rparr> in
     if \<not> Month theTime > 12 then theTime else
     theTime\<lparr>Month := 1, Year := Year theTime + 1\<rparr>)"

definition cumulativeDays :: "bool \<Rightarrow> u32 list" where
  "cumulativeDays leap =
    (if \<not> leap then
      [0, 0,
       31,
       31 + 28,
       31 + 28 + 31,
       31 + 28 + 31 + 30,
       31 + 28 + 31 + 30 + 31,
       31 + 28 + 31 + 30 + 31 + 30,
       31 + 28 + 31 + 30 + 31 + 30 + 31,
       31 + 28 + 31 + 30 + 31 + 30 + 31 + 31,
       31 + 28 + 31 + 30 + 31 + 30 + 31 + 31 + 30,
       31 + 28 + 31 + 30 + 31 + 30 + 31 + 31 + 30 + 31,
       31 + 28 + 31 + 30 + 31 + 30 + 31 + 31 + 30 + 31 + 30,
       31 + 28 + 31 + 30 + 31 + 30 + 31 + 31 + 30 + 31 + 30 + 31]
     else
      [0, 0,
       31,
       31 + 29,
       31 + 29 + 31,
       31 + 29 + 31 + 30,
       31 + 29 + 31 + 30 + 31,
       31 + 29 + 31 + 30 + 31 + 30,
       31 + 29 + 31 + 30 + 31 + 30 + 31,
       31 + 29 + 31 + 30 + 31 + 30 + 31 + 31,
       31 + 29 + 31 + 30 + 31 + 30 + 31 + 31 + 30,
       31 + 29 + 31 + 30 + 31 + 30 + 31 + 31 + 30 + 31,
       31 + 29 + 31 + 30 + 31 + 30 + 31 + 31 + 30 + 31 + 30,
       31 + 29 + 31 + 30 + 31 + 30 + 31 + 31 + 30 + 31 + 30 + 31])"

definition efi_time_range :: "EFI_TIME \<Rightarrow> bool" where
  "efi_time_range t \<longleftrightarrow> \<not> (Year t < 1998 \<or> Year t > 2099 \<or> Month t = 0 \<or> Month t > 12 \<or>
     Day t = 0 \<or> Day t > 31 \<or> Hour t > 23 \<or> Minute t > 59 \<or> Second t > 59)"

definition EFI_UNSPECIFIED_TIMEZONE :: int where
  "EFI_UNSPECIFIED_TIMEZONE = 0x07ff"

definition efi_zone_range :: "EFI_TIME \<Rightarrow> bool" where
  "efi_zone_range t \<longleftrightarrow> \<not> (sint (TimeZone t) < -1440 \<or>
     (sint (TimeZone t) > 1440 \<and> sint (TimeZone t) \<noteq> EFI_UNSPECIFIED_TIMEZONE))"

text \<open>The loop over the years from 1970 on, and the rest of the sum.\<close>

definition unix_years :: "u16 \<Rightarrow> u32" where
  "unix_years y = foldl (\<lambda>retValue year. retValue + cumulativeDays (IS_LEAP_YEAR year) ! 13 * 60 * 60 * 24)
     0 (map of_nat [1970..<unat y])"

definition BlEfiTimeToUnixTime :: "EFI_TIME \<Rightarrow> u32" where
  "BlEfiTimeToUnixTime efiTime =
    (if \<not> efi_time_range efiTime then 0
     else if \<not> efi_zone_range efiTime then 0
     else
       let retValue = unix_years (Year efiTime);
           retValue = retValue + cumulativeDays (IS_LEAP_YEAR (Year efiTime)) ! unat (Month efiTime) * 60 * 60 * 24;
           retValue = retValue + (if Day efiTime > 0 then (ucast (Day efiTime) - 1) * 60 * 60 * 24 else 0);
           retValue = retValue + ucast (Hour efiTime) * 60 * 60;
           retValue = retValue + ucast (Minute efiTime) * 60;
           retValue = retValue + ucast (Second efiTime)
       in if sint (TimeZone efiTime) \<noteq> EFI_UNSPECIFIED_TIMEZONE
          then retValue + of_int (sint (TimeZone efiTime) * 60) else retValue)"

definition BlGetCurrentUnixTime :: "EFI_TIME option \<Rightarrow> u32" where
  "BlGetCurrentUnixTime getTime =
     (case getTime of None \<Rightarrow> 0 | Some efiTime \<Rightarrow> BlEfiTimeToUnixTime efiTime)"

section \<open>The calendar\<close>

definition leap :: "nat \<Rightarrow> bool" where
  "leap y \<longleftrightarrow> 4 dvd y \<and> (\<not> 100 dvd y \<or> 400 dvd y)"

definition month_days :: "nat \<Rightarrow> nat \<Rightarrow> nat" where
  "month_days y m = (if m = 2 then if leap y then 29 else 28
     else if m \<in> {4, 6, 9, 11} then 30 else 31)"

definition days_before :: "nat \<Rightarrow> nat \<Rightarrow> nat" where
  "days_before y m = (\<Sum>i = 1..<m. month_days y i)"

definition year_days :: "nat \<Rightarrow> nat" where
  "year_days y = (if leap y then 366 else 365)"

definition valid_time :: "EFI_TIME \<Rightarrow> bool" where
  "valid_time t \<longleftrightarrow> unat (Year t) \<in> {1998..2099} \<and> unat (Month t) \<in> {1..12} \<and>
     unat (Day t) \<in> {1..month_days (unat (Year t)) (unat (Month t))} \<and>
     unat (Hour t) < 24 \<and> unat (Minute t) < 60 \<and> unat (Second t) < 60"

definition local_days :: "EFI_TIME \<Rightarrow> nat" where
  "local_days t = (\<Sum>y = 1970..<unat (Year t). year_days y) +
     days_before (unat (Year t)) (unat (Month t)) + (unat (Day t) - 1)"

definition local_seconds :: "EFI_TIME \<Rightarrow> nat" where
  "local_seconds t = ((local_days t * 24 + unat (Hour t)) * 60 + unat (Minute t)) * 60 + unat (Second t)"

lemma unat_mod_numeral: "unat ((y :: u16) mod 4) = unat y mod 4"
  "unat ((y :: u16) mod 100) = unat y mod 100" "unat ((y :: u16) mod 400) = unat y mod 400"
  by (simp_all add: unat_mod)

lemma leap_correct: "IS_LEAP_YEAR y = leap (unat y)"
proof -
  have "y mod 4 = 0 \<longleftrightarrow> 4 dvd unat y" "y mod 100 = 0 \<longleftrightarrow> 100 dvd unat y" "y mod 400 = 0 \<longleftrightarrow> 400 dvd unat y"
    by (metis unat_mod_numeral unat_eq_zero dvd_eq_mod_eq_0)+
  moreover have "400 dvd unat y \<Longrightarrow> 4 dvd unat y" by (rule dvd_trans [of 4 400]) simp_all
  ultimately show ?thesis by (auto simp: IS_LEAP_YEAR_def leap_def)
qed

lemma less_13_cases:
  assumes "1 \<le> m" "m \<le> 12"
  obtains "m = 1" | "m = 2" | "m = 3" | "m = 4" | "m = 5" | "m = 6" | "m = 7" | "m = 8"
    | "m = 9" | "m = 10" | "m = 11" | "m = (12 :: nat)"
proof -
  have "m \<in> {1..12}" using assms by simp
  also have "{1..12} = {1, 2, 3, 4, 5, 6, 7, 8, 9, 10, 11, 12 :: nat}"
    by (simp add: atLeastAtMost_insertL [symmetric, of 1] numeral_eq_Suc atLeastAtMostSuc_conv) auto
  finally show thesis using that by fastforce
qed

lemma days_before_Suc: "1 \<le> m \<Longrightarrow> days_before y (Suc m) = days_before y m + month_days y m"
  by (simp add: days_before_def)

lemma days_before_1 [simp]: "days_before y (Suc 0) = 0"
  by (simp add: days_before_def)

lemma days_before_list:
  "map (days_before y) [1, 2, 3, 4, 5, 6, 7, 8, 9, 10, 11, 12, 13] =
     (if leap y then [0, 31, 60, 91, 121, 152, 182, 213, 244, 274, 305, 335, 366]
      else [0, 31, 59, 90, 120, 151, 181, 212, 243, 273, 304, 334, 365])"
proof -
  have "days_before y 2 = days_before y 1 + month_days y 1"
    "days_before y 3 = days_before y 2 + month_days y 2"
    "days_before y 4 = days_before y 3 + month_days y 3"
    "days_before y 5 = days_before y 4 + month_days y 4"
    "days_before y 6 = days_before y 5 + month_days y 5"
    "days_before y 7 = days_before y 6 + month_days y 6"
    "days_before y 8 = days_before y 7 + month_days y 7"
    "days_before y 9 = days_before y 8 + month_days y 8"
    "days_before y 10 = days_before y 9 + month_days y 9"
    "days_before y 11 = days_before y 10 + month_days y 10"
    "days_before y 12 = days_before y 11 + month_days y 11"
    "days_before y 13 = days_before y 12 + month_days y 12"
    by (simp_all add: days_before_Suc [symmetric] eval_nat_numeral del: days_before_1)
  then show ?thesis by (simp add: month_days_def)
qed

lemma days_before_13: "days_before y 13 = year_days y"
  using days_before_list [of y] by (simp add: year_days_def split: if_splits)

lemma days_before_table:
  assumes "1 \<le> m" "m \<le> 12"
  shows "cumulativeDays (leap y) ! m = of_nat (days_before y m)"
  using assms by (cases rule: less_13_cases)
    (use days_before_list [of y] in \<open>auto simp: cumulativeDays_def split: if_splits\<close>)

lemma year_days_table: "cumulativeDays (leap y) ! 13 = of_nat (year_days y)"
  by (simp add: cumulativeDays_def year_days_def)

lemma daysOfMonth_correct:
  "1 \<le> unat (Month t) \<Longrightarrow> unat (Month t) \<le> 12 \<Longrightarrow>
   unat (daysOfMonth t) = month_days (unat (Year t)) (unat (Month t))"
  by (cases rule: less_13_cases [of "unat (Month t)"])
    (simp_all add: daysOfMonth_def month_days_def leap_correct word_unat_eq_iff)

lemma unix_years_correct: "unix_years y = of_nat ((\<Sum>i = 1970..<unat y. year_days i) * 86400)"
proof -
  have "foldl (\<lambda>r i. r + cumulativeDays (IS_LEAP_YEAR i) ! 13 * 60 * 60 * 24) 0 (map of_nat [1970..<n])
     = (of_nat ((\<Sum>i = 1970..<n. year_days i) * 86400) :: u32)" if "n \<le> 65536" for n
    using that
  proof (induction n)
    case (Suc n)
    have "unat (of_nat n :: u16) = n" using Suc.prems by (simp add: unat_of_nat_small)
    then show ?case using Suc
      by (cases "1970 \<le> n") (simp_all add: leap_correct year_days_table algebra_simps)
  qed simp
  then show ?thesis using unat_bound [of y] by (simp add: unix_years_def)
qed


lemma month_days_bounds: "28 \<le> month_days y m" "month_days y m \<le> 31"
  by (simp_all add: month_days_def)

lemma year_days_bounds: "365 \<le> year_days y" "year_days y \<le> 366"
  by (simp_all add: year_days_def)

lemma valid_time_range: "valid_time t \<Longrightarrow> efi_time_range t"
  using month_days_bounds(2) [of "unat (Year t)" "unat (Month t)"]
  by (auto simp: valid_time_def efi_time_range_def word_less_nat_alt word_unat_eq_iff)

section \<open>Seconds since 1970\<close>

definition unix_seconds :: "EFI_TIME \<Rightarrow> int" where
  "unix_seconds t = int (local_seconds t) +
     (if sint (TimeZone t) = EFI_UNSPECIFIED_TIMEZONE then 0 else sint (TimeZone t) * 60)"

lemma years_mono: "a \<le> b \<Longrightarrow> (\<Sum>y = 1970..<a. year_days y) \<le> (\<Sum>y = 1970..<b. year_days y)"
  by (rule sum_mono2) auto

lemma days_before_mono: "a \<le> b \<Longrightarrow> days_before y a \<le> days_before y b"
  unfolding days_before_def by (rule sum_mono2) auto

lemma day_in_month:
  assumes "valid_time t"
  shows "days_before (unat (Year t)) (unat (Month t)) + (unat (Day t) - 1)
     < days_before (unat (Year t)) (Suc (unat (Month t)))"
  using assms by (auto simp: valid_time_def days_before_Suc)

lemma day_in_year:
  assumes "valid_time t"
  shows "local_days t < (\<Sum>y = 1970..<Suc (unat (Year t)). year_days y)"
proof -
  have "days_before (unat (Year t)) (Suc (unat (Month t))) \<le> days_before (unat (Year t)) 13"
    using assms by (intro days_before_mono) (simp add: valid_time_def)
  with day_in_month [OF assms] assms show ?thesis
    by (simp add: local_days_def days_before_13 valid_time_def)
qed

lemma local_days_bounds:
  assumes "valid_time t"
  shows "2 \<le> local_days t" and "local_days t < 47580"
proof -
  have "(\<Sum>y = 1970..<1998. year_days y) \<le> (\<Sum>y = 1970..<unat (Year t). year_days y)"
    using assms by (intro years_mono) (simp add: valid_time_def)
  moreover have "(\<Sum>y = 1970..<1998 :: nat. 365 :: nat) \<le> (\<Sum>y = 1970..<1998. year_days y)"
    by (rule sum_mono) (rule year_days_bounds)
  ultimately show "2 \<le> local_days t" by (simp add: local_days_def)
  have "(\<Sum>y = 1970..<Suc (unat (Year t)). year_days y) \<le> (\<Sum>y = 1970..<2100. year_days y)"
    using assms by (intro years_mono) (simp add: valid_time_def)
  moreover have "(\<Sum>y = 1970..<2100. year_days y) \<le> (\<Sum>y = 1970..<2100 :: nat. 366 :: nat)"
    by (rule sum_mono) (rule year_days_bounds)
  ultimately show "local_days t < 47580" using day_in_year [OF assms] by simp
qed

lemma local_seconds_bounds:
  assumes "valid_time t"
  shows "172800 \<le> local_seconds t" and "local_seconds t < 4110912000"
  using local_days_bounds [OF assms] assms
  by (simp_all add: local_seconds_def valid_time_def)

lemma unix_seconds_bounds:
  assumes "valid_time t" and "efi_zone_range t"
  shows "0 \<le> unix_seconds t" and "unix_seconds t < 4294967296"
  using local_seconds_bounds [OF assms(1)] assms(2)
  by (auto simp: unix_seconds_def efi_zone_range_def)

lemma unix_word:
  assumes "valid_time t" and "efi_zone_range t"
  shows "BlEfiTimeToUnixTime t = of_int (unix_seconds t)"
proof -
  have m: "cumulativeDays (IS_LEAP_YEAR (Year t)) ! unat (Month t)
      = of_nat (days_before (unat (Year t)) (unat (Month t)))"
    using assms(1) by (simp add: leap_correct days_before_table valid_time_def)
  obtain k where k: "unat (Day t) = Suc k" using assms(1) by (cases "unat (Day t)") (auto simp: valid_time_def)
  then have d: "0 < Day t" "ucast (Day t) = (of_nat (Suc k) :: u32)"
    by (simp add: word_less_nat_alt, metis of_nat_unat)
  have "(ucast (Hour t) :: u32) = of_nat (unat (Hour t))" "(ucast (Minute t) :: u32) = of_nat (unat (Minute t))"
    "(ucast (Second t) :: u32) = of_nat (unat (Second t))" by simp_all
  then show ?thesis
    using assms valid_time_range [OF assms(1)] d k
    by (simp add: BlEfiTimeToUnixTime_def unix_years_correct m unix_seconds_def local_seconds_def
        local_days_def algebra_simps Let_def del: of_nat_unat)
qed


lemma unix_int: "valid_time t \<Longrightarrow> efi_zone_range t \<Longrightarrow> uint (BlEfiTimeToUnixTime t) = unix_seconds t"
  using unix_seconds_bounds [of t] by (simp add: unix_word uint_word_of_int)

section \<open>Order\<close>

definition time_key :: "EFI_TIME \<Rightarrow> nat \<times> nat \<times> nat \<times> nat \<times> nat \<times> nat" where
  "time_key t = (unat (Year t), unat (Month t), unat (Day t), unat (Hour t), unat (Minute t), unat (Second t))"

interpretation efi_time: three_way BlCompareTime time_key "\<lambda>t. True"
  by unfold_locales
    (auto simp: BlCompareTime_def time_key_def less_prod_def word_less_nat_alt word_unat_eq_iff)

lemma local_days_less:
  assumes "valid_time t" "valid_time u"
    and "(unat (Year t), unat (Month t), unat (Day t)) < (unat (Year u), unat (Month u), unat (Day u))"
  shows "local_days t < local_days u"
proof -
  consider "unat (Year t) < unat (Year u)"
    | "Year t = Year u" "unat (Month t) < unat (Month u)"
    | "Year t = Year u" "Month t = Month u" "unat (Day t) < unat (Day u)"
    using assms(3) by (auto simp: word_unat_eq_iff le_less)
  then show ?thesis
  proof cases
    case 1
    then show ?thesis
      using day_in_year [OF assms(1)] years_mono [of "Suc (unat (Year t))" "unat (Year u)"]
      by (simp add: local_days_def)
  next
    case 2
    then show ?thesis
      using day_in_month [OF assms(1)] days_before_mono [of "Suc (unat (Month t))" "unat (Month u)" "unat (Year t)"]
      by (simp add: local_days_def)
  next
    case 3
    then have "unat (Day t) - 1 < unat (Day u) - 1" using assms(1) by (auto simp: valid_time_def)
    then show ?thesis unfolding local_days_def 3(1,2) by (rule add_strict_left_mono)
  qed
qed

lemma local_seconds_less:
  assumes "valid_time t" "valid_time u" and "time_key t < time_key u"
  shows "local_seconds t < local_seconds u"
proof -
  consider "(unat (Year t), unat (Month t), unat (Day t)) < (unat (Year u), unat (Month u), unat (Day u))"
    | "Year t = Year u" "Month t = Month u" "Day t = Day u"
      "(unat (Hour t), unat (Minute t), unat (Second t)) < (unat (Hour u), unat (Minute u), unat (Second u))"
    using assms(3) by (auto simp: time_key_def word_unat_eq_iff le_less)
  then show ?thesis
  proof cases
    case 1
    then show ?thesis using local_days_less [OF assms(1,2)] assms(1)
      by (simp add: local_seconds_def valid_time_def)
  next
    case 2
    then have "local_days t = local_days u" by (simp add: local_days_def)
    then show ?thesis using 2(4) assms(1) by (auto simp: local_seconds_def valid_time_def)
  qed
qed

lemma local_seconds_order:
  assumes "valid_time t" "valid_time u"
  shows "local_seconds t < local_seconds u \<longleftrightarrow> time_key t < time_key u"
    and "local_seconds t = local_seconds u \<longleftrightarrow> time_key t = time_key u"
proof -
  have "local_seconds t = local_seconds u" if "time_key t = time_key u"
    using that by (simp add: time_key_def local_seconds_def local_days_def)
  then show "local_seconds t < local_seconds u \<longleftrightarrow> time_key t < time_key u"
    "local_seconds t = local_seconds u \<longleftrightarrow> time_key t = time_key u"
    using local_seconds_less [of t u] local_seconds_less [of u t] assms
    by (metis less_irrefl linorder_neqE order_less_asym)+
qed

lemma BlAddOneSecond_zone: "TimeZone (BlAddOneSecond t) = TimeZone t"
  by (simp add: BlAddOneSecond_def Let_def)


lemmas word_small = word_less_nat_alt word_le_nat_alt unat_add_small unat_ucast_up

lemma BlAddOneSecond_step:
  assumes "valid_time t" and "time_key t \<noteq> (2099, 12, 31, 23, 59, 59)"
  shows "valid_time (BlAddOneSecond t) \<and> local_seconds (BlAddOneSecond t) = local_seconds t + 1"
proof -
  note v = assms(1) [unfolded valid_time_def]
  have md: "unat (daysOfMonth (t\<lparr>Second := s, Minute := m, Hour := h, Day := d\<rparr>)) = month_days (unat (Year t)) (unat (Month t))"
    for h m s d using v by (simp add: daysOfMonth_correct)
  have mb: "month_days (unat (Year t)) (unat (Month t)) \<le> 31" by (rule month_days_bounds)
  have "unat (Second t) < 59 \<or> unat (Second t) = 59" "unat (Minute t) < 59 \<or> unat (Minute t) = 59"
    "unat (Hour t) < 23 \<or> unat (Hour t) = 23" "unat (Month t) < 12 \<or> unat (Month t) = 12"
    "unat (Day t) < month_days (unat (Year t)) (unat (Month t)) \<or>
     unat (Day t) = month_days (unat (Year t)) (unat (Month t))"
    using v by auto
  then consider (sec) "unat (Second t) < 59"
    | (min) "unat (Second t) = 59" "unat (Minute t) < 59"
    | (hour) "unat (Second t) = 59" "unat (Minute t) = 59" "unat (Hour t) < 23"
    | (day) "unat (Second t) = 59" "unat (Minute t) = 59" "unat (Hour t) = 23"
        "unat (Day t) < month_days (unat (Year t)) (unat (Month t))"
    | (month) "unat (Second t) = 59" "unat (Minute t) = 59" "unat (Hour t) = 23"
        "unat (Day t) = month_days (unat (Year t)) (unat (Month t))" "unat (Month t) < 12"
    | (year) "unat (Second t) = 59" "unat (Minute t) = 59" "unat (Hour t) = 23"
        "unat (Day t) = month_days (unat (Year t)) (unat (Month t))" "unat (Month t) = 12"
    by blast
  moreover obtain k where k: "unat (Day t) = Suc k" using v by (cases "unat (Day t)") auto
  moreover note [simp] = Let_def BlAddOneSecond_def word_small valid_time_def local_seconds_def local_days_def
  ultimately show ?thesis
  proof cases
    case sec
    then show ?thesis using v
      by simp
  next
    case min
    then show ?thesis using v
      by simp
  next
    case hour
    then show ?thesis using v
      by simp
  next
    case day
    then show ?thesis using v mb md k
      by simp
  next
    case month
    moreover have "1 \<le> month_days (unat (Year t)) (Suc (unat (Month t)))"
      using month_days_bounds(1) [of "unat (Year t)" "Suc (unat (Month t))"] by simp
    ultimately show ?thesis using v mb md k
      by (simp add: days_before_Suc)
  next
    case year
    have m12: "month_days (unat (Year t)) 12 = 31" "month_days y (Suc 0) = 31" for y
      by (simp_all add: month_days_def)
    have "unat (Year t) \<noteq> 2099" using year assms(2) m12 by (auto simp: time_key_def)
    moreover have "year_days (unat (Year t)) = days_before (unat (Year t)) 12 + 31"
      using days_before_Suc [of 12 "unat (Year t)"] m12 by (simp add: days_before_13)
    ultimately show ?thesis using v md year m12 by simp
  qed
qed

section \<open>Properties\<close>

text \<open>
  C36. For a date and time of the calendar in 1998..2099 with an admissible time zone the
  result is the number of seconds from 1970-01-01 00:00:00 UTC, counting the length of
  every year and month, with no wrap-around of the 32-bit sum; outside the ranges that the
  code checks it is 0.
\<close>

theorem BlEfiTimeToUnixTime_correct:
  "(valid_time t \<and> efi_zone_range t \<longrightarrow> uint (BlEfiTimeToUnixTime t) = unix_seconds t) \<and>
   (\<not> efi_time_range t \<or> \<not> efi_zone_range t \<longrightarrow> BlEfiTimeToUnixTime t = 0)"
  using unix_int [of t] by (auto simp: BlEfiTimeToUnixTime_def)

definition leap_day :: EFI_TIME where
  "leap_day = \<lparr>Year = 2000, Month = 2, Day = 29, Hour = 23, Minute = 59, Second = 59,
     Nanosecond = 0, TimeZone = - 60, Daylight = 0\<rparr>"

lemma leap_day_valid: "valid_time leap_day" "efi_zone_range leap_day"
  by (simp_all add: valid_time_def leap_day_def month_days_def leap_def efi_zone_range_def)

theorem BlEfiTimeToUnixTime_correct_witness:
  "uint (BlEfiTimeToUnixTime leap_day) = unix_seconds leap_day \<and>
   BlEfiTimeToUnixTime (leap_day\<lparr>Hour := 24\<rparr>) = 0"
proof -
  have "\<not> efi_time_range (leap_day\<lparr>Hour := 24\<rparr>)" by (simp add: efi_time_range_def leap_day_def)
  then show ?thesis
    using BlEfiTimeToUnixTime_correct [of leap_day] leap_day_valid
      BlEfiTimeToUnixTime_correct [of "leap_day\<lparr>Hour := 24\<rparr>"] by blast
qed

text \<open>
  BlCompareTime orders the valid times of one time zone as their UNIX times: its result
  has the sign of their difference.
\<close>

theorem BlCompareTime_chronological:
  assumes "valid_time t" "valid_time u" "efi_zone_range t" "TimeZone t = TimeZone u"
  shows "sgn (BlCompareTime t u) = sgn (uint (BlEfiTimeToUnixTime t) - uint (BlEfiTimeToUnixTime u))"
proof -
  have "efi_zone_range u" using assms(3,4) by (simp add: efi_zone_range_def)
  then have "uint (BlEfiTimeToUnixTime t) - uint (BlEfiTimeToUnixTime u)
      = int (local_seconds t) - int (local_seconds u)"
    using assms by (simp add: unix_int unix_seconds_def)
  then show ?thesis
    using efi_time.cmp_less [of t u] efi_time.cmp_zero [of t u] local_seconds_order [OF assms(1,2)]
    by (auto simp: sgn_if)
qed

theorem BlCompareTime_chronological_witness:
  "sgn (BlCompareTime leap_day (leap_day\<lparr>Second := 58\<rparr>)) = 1 \<and>
   uint (BlEfiTimeToUnixTime (leap_day\<lparr>Second := 58\<rparr>)) < uint (BlEfiTimeToUnixTime leap_day)"
proof -
  have "valid_time (leap_day\<lparr>Second := 58\<rparr>)"
    by (simp add: valid_time_def leap_day_def month_days_def leap_def)
  moreover have "BlCompareTime leap_day (leap_day\<lparr>Second := 58\<rparr>) = 1"
    by (simp add: BlCompareTime_def leap_day_def)
  ultimately show ?thesis
    using BlCompareTime_chronological [of leap_day "leap_day\<lparr>Second := 58\<rparr>"] leap_day_valid
    by (simp add: sgn_if split: if_splits)
qed

text \<open>
  The step to the next second: for every valid time but the last second of 2099 the
  result is a valid time in the same zone, its UNIX time is one more (carries through
  minutes, hours, month ends, leap days and years included), and it compares as later.
\<close>

theorem BlAddOneSecond_correct:
  assumes "valid_time t" and "efi_zone_range t" and "time_key t \<noteq> (2099, 12, 31, 23, 59, 59)"
  shows "valid_time (BlAddOneSecond t) \<and> TimeZone (BlAddOneSecond t) = TimeZone t \<and>
    uint (BlEfiTimeToUnixTime (BlAddOneSecond t)) = uint (BlEfiTimeToUnixTime t) + 1 \<and>
    BlCompareTime t (BlAddOneSecond t) < 0"
proof -
  note step = BlAddOneSecond_step [OF assms(1,3)]
  have "efi_zone_range (BlAddOneSecond t)"
    using assms(2) by (simp add: efi_zone_range_def BlAddOneSecond_zone)
  with step have "uint (BlEfiTimeToUnixTime (BlAddOneSecond t)) = uint (BlEfiTimeToUnixTime t) + 1"
    using assms by (simp add: unix_int unix_seconds_def BlAddOneSecond_zone)
  moreover have "time_key t < time_key (BlAddOneSecond t)"
    using step local_seconds_order(1) [of t "BlAddOneSecond t"] assms(1) by simp
  ultimately show ?thesis using step by (simp add: efi_time.cmp_less BlAddOneSecond_zone)
qed

theorem BlAddOneSecond_correct_witness:
  "uint (BlEfiTimeToUnixTime (BlAddOneSecond leap_day)) = uint (BlEfiTimeToUnixTime leap_day) + 1 \<and>
   Month (BlAddOneSecond leap_day) = 3 \<and> Day (BlAddOneSecond leap_day) = 1"
proof -
  have "time_key leap_day \<noteq> (2099, 12, 31, 23, 59, 59)" by (simp add: time_key_def leap_day_def)
  moreover have "Month (BlAddOneSecond leap_day) = 3 \<and> Day (BlAddOneSecond leap_day) = 1"
    by (simp add: BlAddOneSecond_def leap_day_def daysOfMonth_def IS_LEAP_YEAR_def)
  ultimately show ?thesis using BlAddOneSecond_correct [of leap_day] leap_day_valid by blast
qed

end
