(* ===== verification/Lzss.thy ===== *)
theory Lzss
  imports Prelude
begin

text \<open>
  The LZSS decompressor of MiscUtils.c (BlDecompressLZSS), used on prelinked kernels: the
  ring buffer of 4096 bytes, the flag byte for each group of eight tokens, literals and
  matches. The specification expands literals and back references over the whole text
  written so far, with no ring.
\<close>

section \<open>The code\<close>

record lzss =
  textBuffer :: "u8 list"
  ring_pos :: nat
  dstBuffer :: "u8 list"

definition lzss_N :: nat where "lzss_N = 4096"
definition lzss_F :: nat where "lzss_F = 18"
definition lzss_THRESHOLD :: nat where "lzss_THRESHOLD = 2"

lemmas lzss_params = lzss_N_def lzss_F_def lzss_THRESHOLD_def

definition lzss_init :: lzss where
  "lzss_init = \<lparr>textBuffer = replicate (lzss_N - lzss_F) 0x20 @ replicate (2 * lzss_F - 1) 0,
     ring_pos = lzss_N - lzss_F, dstBuffer = []\<rparr>"

definition lzss_put :: "u8 \<Rightarrow> lzss \<Rightarrow> lzss" where
  "lzss_put c st = st\<lparr>dstBuffer := dstBuffer st @ [c], textBuffer := (textBuffer st)[ring_pos st := c],
     ring_pos := (ring_pos st + 1) mod lzss_N\<rparr>"

fun lzss_copy :: "nat \<Rightarrow> nat \<Rightarrow> nat \<Rightarrow> lzss \<Rightarrow> lzss" where
  "lzss_copy i k 0 st = st"
| "lzss_copy i k (Suc n) st =
     lzss_copy i (k + 1) n (lzss_put (textBuffer st ! ((i + k) mod lzss_N)) st)"

text \<open>One pass of the loop after the flags are refilled; None is the break at the end of the input.\<close>

definition lzss_body :: "u8 list \<Rightarrow> u32 \<Rightarrow> lzss \<Rightarrow> (u8 list \<times> lzss) option" where
  "lzss_body src flags st =
     (if flags AND 1 \<noteq> 0 then
        (case src of [] \<Rightarrow> None | c # src \<Rightarrow> Some (src, lzss_put c st))
      else
        (case src of i # j # src \<Rightarrow>
           let i' = (ucast i :: u32) OR push_bit 4 (ucast j AND 0xf0);
               j' = unat (j AND 0x0f) + lzss_THRESHOLD
           in Some (src, lzss_copy (unat i') 0 (j' + 1) st)
         | _ \<Rightarrow> None))"

lemma lzss_body_shorter: "lzss_body src flags st = Some (src', st') \<Longrightarrow> length src' < length src"
  by (auto simp: lzss_body_def Let_def split: if_splits list.splits)

function lzss_loop :: "u8 list \<Rightarrow> u32 \<Rightarrow> lzss \<Rightarrow> lzss" where
  "lzss_loop src flags st =
     (let flags = drop_bit 1 flags in
      if flags AND 0x100 = 0 then
        (case src of [] \<Rightarrow> st
         | c # src \<Rightarrow>
             (let flags = ucast c OR 0xff00 in
              case lzss_body src flags st of None \<Rightarrow> st
              | Some (src, st) \<Rightarrow> lzss_loop src flags st))
      else
        (case lzss_body src flags st of None \<Rightarrow> st
         | Some (src, st) \<Rightarrow> lzss_loop src flags st))"
  by pat_completeness auto
termination
  by (relation "measure (\<lambda>(src, flags, st). length src)") (auto dest!: lzss_body_shorter)

declare lzss_loop.simps [simp del]

text \<open>
  The result is the status and the bytes written from the start of uncompressedBuffer on;
  *uncompressedSize is their number. The size of the destination is a parameter that the
  code does not read.
\<close>

definition BlDecompressLZSS :: "u8 list \<Rightarrow> nat \<Rightarrow> EFI_STATUS \<times> u8 list \<times> nat" where
  "BlDecompressLZSS compressedBuffer uncompressedBufferSize =
     (let st = lzss_loop compressedBuffer 0 lzss_init
      in (EFI_SUCCESS, dstBuffer st, length (dstBuffer st)))"

section \<open>Specification\<close>

datatype token = Lit u8 | Ref (ref_pos: nat) (ref_len: nat)

fun token_ok :: "token \<Rightarrow> bool" where
  "token_ok (Lit c) = True"
| "token_ok (Ref p n) = (p < 4096 \<and> 3 \<le> n \<and> n \<le> 18)"

text \<open>The text before the first byte: what the ring holds at the start, oldest byte first.\<close>

definition preset :: "u8 list" where
  "preset = replicate 18 0 @ replicate 4078 0x20"

text \<open>
  A reference names a position of the ring; the distance back from the end of the text is
  the number of positions between it and the next one to be written, a full turn when it
  is that very position.
\<close>

definition ref_dist :: "u8 list \<Rightarrow> nat \<Rightarrow> nat" where
  "ref_dist h p = 4096 - (p + 4096 - (length h + 4078) mod 4096) mod 4096"

fun copy_back :: "nat \<Rightarrow> nat \<Rightarrow> u8 list \<Rightarrow> u8 list" where
  "copy_back d 0 h = h"
| "copy_back d (Suc n) h = copy_back d n (h @ [h ! (length h - d)])"

fun expand_token :: "u8 list \<Rightarrow> token \<Rightarrow> u8 list" where
  "expand_token h (Lit c) = h @ [c]"
| "expand_token h (Ref p n) = copy_back (ref_dist h p) n h"

definition expand :: "token list \<Rightarrow> u8 list" where
  "expand ts = drop 4096 (foldl expand_token preset ts)"

fun enc_token :: "token \<Rightarrow> u8 list" where
  "enc_token (Lit c) = [c]"
| "enc_token (Ref p n) = [of_nat (p mod 256), of_nat (16 * (p div 256) + (n - 3))]"

definition is_lit :: "token \<Rightarrow> bool" where
  "is_lit t = (case t of Lit _ \<Rightarrow> True | Ref _ _ \<Rightarrow> False)"

fun flag_byte :: "token list \<Rightarrow> u8" where
  "flag_byte [] = 0"
| "flag_byte (t # ts) = (if is_lit t then 1 else 0) OR push_bit 1 (flag_byte ts)"

function encode :: "token list \<Rightarrow> u8 list" where
  "encode ts = (if ts = [] then [] else
     flag_byte (take 8 ts) # concat (map enc_token (take 8 ts)) @ encode (drop 8 ts))"
  by pat_completeness auto
termination
  by (relation "measure length") auto

declare encode.simps [simp del]

section \<open>The ring holds the end of the text\<close>

definition ring_rel :: "lzss \<Rightarrow> u8 list \<Rightarrow> bool" where
  "ring_rel st h \<longleftrightarrow> length (textBuffer st) = 4113 \<and> 4096 \<le> length h \<and>
     ring_pos st = (length h + 4078) mod 4096 \<and> dstBuffer st = drop 4096 h \<and>
     (\<forall>k < 4096. textBuffer st ! ((ring_pos st + k) mod 4096) = h ! (length h - 4096 + k))"

lemma ring_rel_init: "ring_rel lzss_init preset"
  unfolding ring_rel_def
proof (intro conjI allI impI)
  fix k :: nat assume k: "k < 4096"
  show "textBuffer lzss_init ! ((ring_pos lzss_init + k) mod 4096) = preset ! (length preset - 4096 + k)"
  proof (cases "k < 18")
    case True
    then show ?thesis by (simp add: lzss_init_def preset_def lzss_params nth_append)
  next
    case False
    then have "(4078 + k) mod 4096 = k - 18" using k by (simp add: mod_if)
    then show ?thesis using False k by (simp add: lzss_init_def preset_def lzss_params nth_append)
  qed
qed (simp_all add: lzss_init_def preset_def lzss_params)

lemma mod_add_neq:
  assumes "r < (n :: nat)" and "0 < k" and "k < n"
  shows "(r + k) mod n \<noteq> r"
proof (cases "r + k < n")
  case False
  then have "(r + k) mod n = r + k - n" using assms by (simp add: le_mod_geq)
  then show ?thesis using assms False by linarith
qed (use assms in simp)

lemma ring_rel_put:
  assumes "ring_rel st h"
  shows "ring_rel (lzss_put c st) (h @ [c])"
proof -
  note r = assms [unfolded ring_rel_def]
  have "(textBuffer st)[ring_pos st := c] ! (((ring_pos st + 1) mod 4096 + k) mod 4096)
      = (h @ [c]) ! (length (h @ [c]) - 4096 + k)" if k: "k < 4096" for k
  proof (cases "k = 4095")
    case True
    have "((ring_pos st + 1) mod 4096 + 4095) mod 4096 = ring_pos st"
    proof -
      have "ring_pos st < 4096" using r by simp
      then show ?thesis by (simp add: mod_simps)
    qed
    moreover have "length (h @ [c]) - 4096 + 4095 = length h" "ring_pos st < length (textBuffer st)"
      using r by (auto intro: less_trans [of _ 4096])
    ultimately show ?thesis using True by (simp only: nth_list_update_eq nth_append_length)
  next
    case False
    have idx: "((ring_pos st + 1) mod 4096 + k) mod 4096 = (ring_pos st + (k + 1)) mod 4096"
      by (simp add: mod_simps)
    moreover have "(ring_pos st + (k + 1)) mod 4096 \<noteq> ring_pos st"
      using r k False by (intro mod_add_neq) simp_all
    moreover have "textBuffer st ! ((ring_pos st + (k + 1)) mod 4096) = h ! (length h - 4096 + (k + 1))"
    proof -
      have "k + 1 < 4096" using k False by simp
      with r show ?thesis by blast
    qed
    moreover have "length (h @ [c]) - 4096 + k = length h - 4096 + (k + 1)"
      "length h - 4096 + (k + 1) < length h"
      using r k False by auto
    ultimately show ?thesis by (simp only: nth_list_update_neq nth_append if_True)
  qed
  then show ?thesis using r
    by (simp add: ring_rel_def lzss_put_def lzss_params mod_simps)
qed


lemma ring_rel_copy:
  assumes "ring_rel st h" and "e < 4096" and "(ring_pos st + e) mod 4096 = (i + k) mod 4096"
  shows "ring_rel (lzss_copy i k n st) (copy_back (4096 - e) n h)"
  using assms
proof (induction n arbitrary: st h k)
  case (Suc n)
  let ?c = "textBuffer st ! ((i + k) mod lzss_N)"
  have "4096 \<le> length h" using Suc.prems(1) by (simp add: ring_rel_def)
  then have "length h - (4096 - e) = length h - 4096 + e" using Suc.prems(2) by simp
  moreover have "?c = textBuffer st ! ((ring_pos st + e) mod 4096)"
    by (simp only: Suc.prems(3) lzss_N_def)
  moreover have "\<dots> = h ! (length h - 4096 + e)"
    using Suc.prems(1,2) unfolding ring_rel_def by blast
  ultimately have c: "?c = h ! (length h - (4096 - e))" by simp
  have "(ring_pos (lzss_put ?c st) + e) mod 4096 = (i + (k + 1)) mod 4096"
    using Suc.prems(3) by (simp add: lzss_put_def lzss_params mod_simps)
      (metis add_Suc mod_Suc_eq)
  then have "ring_rel (lzss_copy i (k + 1) n (lzss_put ?c st)) (copy_back (4096 - e) n (h @ [?c]))"
    using Suc.IH [OF ring_rel_put [OF Suc.prems(1)]] Suc.prems(2) by blast
  then show ?case by (simp only: lzss_copy.simps copy_back.simps c)
qed simp

lemma ring_rel_ref:
  assumes "ring_rel st h" and "p < 4096"
  shows "ring_rel (lzss_copy p 0 n st) (copy_back (ref_dist h p) n h)"
proof -
  define e where "e = (p + 4096 - (length h + 4078) mod 4096) mod 4096"
  have r: "ring_pos st = (length h + 4078) mod 4096" using assms(1) by (simp add: ring_rel_def)
  then have "ring_pos st < 4096" by simp
  then have "(ring_pos st + e) mod 4096 = p" "e < 4096"
    using assms(2) by (simp_all add: e_def r [symmetric] mod_simps)
  then show ?thesis using ring_rel_copy [OF assms(1), of e p 0 n] assms(2)
    by (simp add: ref_dist_def e_def)
qed

section \<open>Decoding one token\<close>

definition run_token :: "lzss \<Rightarrow> token \<Rightarrow> lzss" where
  "run_token st t = (case t of Lit c \<Rightarrow> lzss_put c st | Ref p n \<Rightarrow> lzss_copy p 0 n st)"

lemma ring_rel_token:
  "ring_rel st h \<Longrightarrow> token_ok t \<Longrightarrow> ring_rel (run_token st t) (expand_token h t)"
  by (cases t) (simp_all add: run_token_def ring_rel_put ring_rel_ref)

lemma ref_fields:
  assumes "p < 4096" and "3 \<le> n" and "n \<le> 18"
  shows "unat ((ucast (of_nat (p mod 256) :: u8) :: u32) OR
       push_bit 4 (ucast (of_nat (16 * (p div 256) + (n - 3)) :: u8) AND 0xf0)) = p"
    and "unat ((of_nat (16 * (p div 256) + (n - 3)) :: u8) AND 0x0f) = n - 3"
proof -
  define N where "N = 16 * (p div 256) + (n - 3)"
  have d: "n - 3 < 16" "p div 256 < 16" using assms by simp_all
  then have N: "N < 256" "N div 16 = p div 256" "N mod 16 = n - 3" by (simp_all add: N_def)
  have m: "(0xf0 :: u32) = push_bit 4 (mask 4)" "(0x0f :: u8) = mask 4"
    by (simp_all add: mask_eq_exp_minus_1 push_bit_eq_mult)
  have "(ucast (of_nat N :: u8) :: u32) AND 0xf0 = push_bit 4 (of_nat (p div 256))"
    using N d unfolding m by (simp only: and_shifted_mask ucast_of_nat_small)
      (simp add: ucast_of_nat_small drop_bit_of_nat_small of_nat_and_mask)
  then have "push_bit 4 (ucast (of_nat N :: u8) AND 0xf0) = push_bit 8 (of_nat (p div 256) :: u32)"
    by (simp only: push_bit_push_bit) simp
  moreover have "(ucast (of_nat (p mod 256) :: u8) :: u32) = of_nat (p mod 256)"
    by (rule ucast_of_nat_small) simp
  moreover have "of_nat (p mod 256) OR push_bit 8 (of_nat (p div 256)) = (of_nat p :: u32)"
    using join_bits [of "p mod 256" 8 "p div 256", where 'a = 32] by (simp add: or.commute del: of_nat_add of_nat_mult)
  ultimately show "unat ((ucast (of_nat (p mod 256) :: u8) :: u32) OR
       push_bit 4 (ucast (of_nat (16 * (p div 256) + (n - 3)) :: u8) AND 0xf0)) = p"
    using assms(1) unfolding N_def [symmetric] by (simp only: unat_of_nat_small) (simp add: unat_of_nat_small)
  show "unat ((of_nat (16 * (p div 256) + (n - 3)) :: u8) AND 0x0f) = n - 3"
    using N d unfolding N_def [symmetric] m by (simp add: of_nat_and_mask unat_of_nat_small)
qed

lemma lzss_body_token:
  assumes "token_ok t" and "(flags AND 1 \<noteq> 0) = is_lit t"
  shows "lzss_body (enc_token t @ rest) flags st = Some (rest, run_token st t)"
proof (cases t)
  case (Lit c)
  then show ?thesis using assms by (simp add: lzss_body_def is_lit_def run_token_def)
next
  case (Ref p n)
  moreover have "Suc (Suc (Suc (n - 3))) = n" using Ref assms(1) by auto
  ultimately show ?thesis using assms ref_fields [of p n]
    by (simp add: lzss_body_def is_lit_def run_token_def lzss_THRESHOLD_def
        del: lzss_copy.simps of_nat_add of_nat_mult)
qed


section \<open>Decoding the groups\<close>

lemma flag_word:
  "k < 8 \<Longrightarrow> bit (ucast (c :: u8) OR (0xff00 :: u32)) k = bit c k"
  "8 \<le> k \<Longrightarrow> k < 16 \<Longrightarrow> bit (ucast (c :: u8) OR (0xff00 :: u32)) k"
  "\<not> bit (ucast (c :: u8) OR (0xff00 :: u32)) 16"
proof -
  have m: "(0xff00 :: u32) = push_bit 8 (mask 8)" by (simp add: mask_eq_exp_minus_1 push_bit_eq_mult)
  show "k < 8 \<Longrightarrow> bit (ucast c OR (0xff00 :: u32)) k = bit c k"
    "8 \<le> k \<Longrightarrow> k < 16 \<Longrightarrow> bit (ucast c OR (0xff00 :: u32)) k"
    "\<not> bit (ucast c OR (0xff00 :: u32)) 16"
    unfolding m by (auto simp: bit_simps dest: bit_imp_le_length)
qed

lemma and_bit_256: "flags AND 0x100 = 0 \<longleftrightarrow> \<not> bit (flags :: u32) 8"
proof -
  have "(0x100 :: u32) = push_bit 8 1" by (simp add: push_bit_eq_mult)
  then show ?thesis by (simp only: and_exp_eq_0_iff_not_bit push_bit_of_1)
qed

lemma and_bit_1: "flags AND 1 \<noteq> 0 \<longleftrightarrow> bit (flags :: u32) 0"
  by (simp add: and_one_eq bit_0 odd_iff_mod_2_eq_one)

lemma bit_flag_byte:
  "length ts \<le> 8 \<Longrightarrow> i < length ts \<Longrightarrow> bit (flag_byte ts) i = is_lit (ts ! i)"
proof (induction ts arbitrary: i)
  case (Cons t ts)
  have "bit (push_bit 1 (flag_byte ts)) i \<longleftrightarrow> 1 \<le> i \<and> i < 8 \<and> bit (flag_byte ts) (i - 1)"
    by (subst bit_push_bit_iff) (auto simp: possible_bit_word)
  then have "bit (flag_byte (t # ts)) i \<longleftrightarrow> (i = 0 \<and> is_lit t) \<or> (1 \<le> i \<and> i < 8 \<and> bit (flag_byte ts) (i - 1))"
    by (simp only: flag_byte.simps bit_or_iff) (auto simp: bit_1_iff)
  then show ?case using Cons by (cases i) auto
qed simp

lemma lzss_loop_group:
  assumes "1 \<le> k" and "k + length ts \<le> 8" and "\<forall>t \<in> set ts. token_ok t"
    and "\<forall>i < length ts. bit c (k + i) = is_lit (ts ! i)"
  shows "lzss_loop (concat (map enc_token ts) @ rest) (drop_bit (k - 1) (ucast (c :: u8) OR 0xff00)) st =
     lzss_loop rest (drop_bit (k - 1 + length ts) (ucast c OR 0xff00)) (foldl run_token st ts)"
  using assms
proof (induction ts arbitrary: k st)
  case (Cons t ts)
  let ?f = "ucast c OR (0xff00 :: u32)"
  have f: "drop_bit 1 (drop_bit (k - 1) ?f) = drop_bit k ?f" using Cons.prems(1) by simp
  have "bit ?f (k + 8)" using Cons.prems(1,2) by (intro flag_word) simp_all
  moreover have "bit ?f k = is_lit t" using Cons.prems(2,4) flag_word(1) [of k c] by fastforce
  ultimately have "bit (drop_bit k ?f) 8" "(drop_bit k ?f AND 1 \<noteq> 0) = is_lit t"
    by (simp_all only: and_bit_1 bit_drop_bit_eq comp_apply add_0_right)
  then have "lzss_loop (enc_token t @ concat (map enc_token ts) @ rest) (drop_bit (k - 1) ?f) st
      = lzss_loop (concat (map enc_token ts) @ rest) (drop_bit k ?f) (run_token st t)"
    using Cons.prems(3) by (subst lzss_loop.simps) (simp only: f Let_def and_bit_256 lzss_body_token
        list.set insert_iff ball_simps option.case prod.case if_False not_True_eq_False simp_thms)
  moreover have "\<forall>i < length ts. bit c (k + 1 + i) = is_lit (ts ! i)"
    using Cons.prems(4) by force
  ultimately show ?case using Cons.IH [of "k + 1" "run_token st t"] Cons.prems by simp
qed simp


lemma lzss_loop_start:
  assumes "\<not> bit flags 9" and "token_ok t" and "bit c 0 = is_lit t"
  shows "lzss_loop (c # enc_token t @ rest) flags st = lzss_loop rest (ucast c OR 0xff00) (run_token st t)"
proof -
  have "\<not> bit (drop_bit 1 flags) 8" using assms(1) by (simp add: bit_drop_bit_eq)
  moreover have "(ucast c OR (0xff00 :: u32)) AND 1 \<noteq> 0 \<longleftrightarrow> is_lit t"
    using assms(3) flag_word(1) [of 0 c] by (simp only: and_bit_1)
  ultimately show ?thesis using assms(2)
    by (subst lzss_loop.simps) (simp only: Let_def and_bit_256 lzss_body_token list.case
        option.case prod.case if_True not_False_eq_True simp_thms)
qed

lemma lzss_loop_Nil: "lzss_loop [] flags st = st"
  by (subst lzss_loop.simps) (simp add: lzss_body_def Let_def)

lemma lzss_loop_encode:
  "\<not> bit flags 9 \<Longrightarrow> \<forall>t \<in> set ts. token_ok t \<Longrightarrow>
   lzss_loop (encode ts) flags st = foldl run_token st ts"
proof (induction ts arbitrary: flags st rule: encode.induct)
  case (1 ts)
  show ?case
  proof (cases ts)
    case Nil
    have "drop_bit 1 flags AND 0x100 = 0" using 1(2) by (simp add: and_bit_256 bit_drop_bit_eq)
    then show ?thesis using Nil by (simp add: encode.simps lzss_loop.simps)
  next
    case (Cons t ts')
    let ?g = "take 7 ts'" and ?rest = "encode (drop 7 ts')"
    let ?c = "flag_byte (t # ?g)" let ?f = "ucast ?c OR (0xff00 :: u32)"
    have ok: "token_ok t" "\<forall>t \<in> set ?g. token_ok t" "\<forall>t \<in> set (drop 7 ts'). token_ok t"
      using 1(3) Cons by (auto dest: in_set_takeD in_set_dropD)
    have bits: "bit ?c i = is_lit ((t # ?g) ! i)" if "i < length (t # ?g)" for i
      using that by (intro bit_flag_byte) simp_all
    have "encode ts = ?c # enc_token t @ concat (map enc_token ?g) @ ?rest"
      using Cons by (subst encode.simps) simp
    moreover have "lzss_loop (?c # enc_token t @ concat (map enc_token ?g) @ ?rest) flags st
        = lzss_loop (concat (map enc_token ?g) @ ?rest) ?f (run_token st t)"
      using 1(2) ok(1) bits [of 0] by (intro lzss_loop_start) simp_all
    moreover have "\<dots> = lzss_loop ?rest (drop_bit (length ?g) ?f) (foldl run_token (run_token st t) ?g)"
      using lzss_loop_group [of 1 ?g ?c ?rest "run_token st t"] ok(2) bits [of "Suc _"] by simp
    moreover have "\<dots> = foldl run_token (run_token st t) (?g @ drop 7 ts')"
    proof (cases "drop 7 ts' = []")
      case True
      then show ?thesis by (simp add: encode.simps lzss_loop_Nil)
    next
      case False
      then have "length ?g = 7" by simp
      then have "\<not> bit (drop_bit (length ?g) ?f) 9"
        using flag_word(3) [of ?c] by (simp only: bit_drop_bit_eq comp_apply) simp
      moreover have "drop 8 ts = drop 7 ts'" "ts \<noteq> []" using Cons by simp_all
      ultimately show ?thesis
        using 1(1) [of "drop_bit (length ?g) ?f" "foldl run_token (run_token st t) ?g"] ok(3)
        by (simp only: foldl_append simp_thms)
    qed
    ultimately show ?thesis using Cons by simp
  qed
qed


lemma ring_rel_tokens:
  "ring_rel st h \<Longrightarrow> \<forall>t \<in> set ts. token_ok t \<Longrightarrow>
   ring_rel (foldl run_token st ts) (foldl expand_token h ts)"
  by (induction ts arbitrary: st h) (simp_all add: ring_rel_token)

section \<open>Any input\<close>

definition lzss_inv :: "lzss \<Rightarrow> bool" where
  "lzss_inv st \<longleftrightarrow> length (textBuffer st) = 4113 \<and> ring_pos st < 4096"

lemma lzss_put_inv: "lzss_inv st \<Longrightarrow> lzss_inv (lzss_put c st)"
  by (simp add: lzss_inv_def lzss_put_def lzss_params)

lemma lzss_put_out [simp]: "dstBuffer (lzss_put c st) = dstBuffer st @ [c]"
  by (simp add: lzss_put_def)

lemma lzss_copy_inv: "lzss_inv st \<Longrightarrow> lzss_inv (lzss_copy i k n st)"
  by (induction n arbitrary: st k) (simp_all add: lzss_put_inv)

lemma lzss_copy_out: "\<exists>ys. dstBuffer (lzss_copy i k n st) = dstBuffer st @ ys \<and> length ys = n"
proof (induction n arbitrary: st k)
  case (Suc n)
  obtain ys where "dstBuffer (lzss_copy i (k + 1) n (lzss_put (textBuffer st ! ((i + k) mod lzss_N)) st))
      = dstBuffer st @ [textBuffer st ! ((i + k) mod lzss_N)] @ ys" "length ys = n"
    using Suc [of "k + 1" "lzss_put (textBuffer st ! ((i + k) mod lzss_N)) st"] by auto
  then show ?case by (auto intro: exI [of _ "textBuffer st ! ((i + k) mod lzss_N) # ys"])
qed simp

lemma lzss_body_inv:
  assumes "lzss_body src flags st = Some (src', st')" and "lzss_inv st"
  shows "lzss_inv st' \<and> length (dstBuffer st') + 9 * length src' \<le> length (dstBuffer st) + 9 * length src"
proof (cases "flags AND 1 \<noteq> 0")
  case True
  then show ?thesis using assms by (auto simp: lzss_body_def lzss_put_inv split: list.splits)
next
  case False
  then obtain i j where src: "src = i # j # src'" and
    st': "st' = lzss_copy (unat ((ucast i :: u32) OR push_bit 4 (ucast j AND 0xf0))) 0
       (unat (j AND 0x0f) + lzss_THRESHOLD + 1) st"
    using assms(1) by (auto simp only: lzss_body_def Let_def split: list.splits if_splits)
  have "unat (j AND 0x0f) = unat j mod 16"
    using unat_and_mask [of j 4] by (simp add: mask_eq_exp_minus_1)
  then have "unat (j AND 0x0f) + lzss_THRESHOLD + 1 \<le> 18" by (simp add: lzss_THRESHOLD_def)
  moreover have "length (dstBuffer st') = length (dstBuffer st) + (unat (j AND 0x0f) + lzss_THRESHOLD + 1)"
    using lzss_copy_out unfolding st' by (metis length_append)
  ultimately show ?thesis using lzss_copy_inv [OF assms(2)] src by (simp add: st' del: lzss_copy.simps)
qed

lemma lzss_loop_inv:
  "lzss_inv st \<Longrightarrow> lzss_inv (lzss_loop src flags st) \<and>
   length (dstBuffer (lzss_loop src flags st)) \<le> length (dstBuffer st) + 9 * length src"
proof (induction src flags st rule: lzss_loop.induct)
  case (1 src flags st)
  let ?fl = "drop_bit 1 flags"
  note eq = lzss_loop.simps [of src flags st, unfolded Let_def]
  show ?case
  proof (cases "?fl AND 0x100 = 0")
    case fl: True
    show ?thesis
    proof (cases src)
      case (Cons c src0)
      let ?w = "ucast c OR (0xff00 :: u32)"
      show ?thesis
      proof (cases "lzss_body src0 ?w st")
        case (Some p)
        obtain src' st' where p: "p = (src', st')" by (cases p)
        then have "lzss_loop src flags st = lzss_loop src' ?w st'"
          using fl Cons Some eq by (simp only: list.case option.case prod.case simp_thms if_True)
        moreover have "lzss_inv st' \<and> length (dstBuffer st') + 9 * length src' \<le> length (dstBuffer st) + 9 * length src0"
          using lzss_body_inv [of src0 ?w st src' st'] Some p 1(3) by blast
        ultimately show ?thesis using 1(1) [OF refl fl Cons refl Some p [symmetric]] Cons by auto
      qed (use fl Cons eq 1(3) in simp)
    qed (use fl eq 1(3) in simp)
  next
    case fl: False
    show ?thesis
    proof (cases "lzss_body src ?fl st")
      case (Some p)
      obtain src' st' where p: "p = (src', st')" by (cases p)
      then have "lzss_loop src flags st = lzss_loop src' ?fl st'"
        using fl Some eq by (simp only: option.case prod.case if_False)
      moreover have "lzss_inv st' \<and> length (dstBuffer st') + 9 * length src' \<le> length (dstBuffer st) + 9 * length src"
        using lzss_body_inv [of src ?fl st src' st'] Some p 1(3) by blast
      ultimately show ?thesis using 1(2) [OF refl fl Some p [symmetric]] by auto
    qed (use fl eq 1(3) in simp)
  qed
qed

section \<open>Properties\<close>

text \<open>
  C34. On the encoding of any list of literals and references the decompressor writes
  exactly the text that they stand for: a reference repeats the bytes at its distance back
  in everything written so far, over the preset text, and may overlap what it writes.
\<close>

theorem BlDecompressLZSS_correct:
  assumes "\<forall>t \<in> set ts. token_ok t"
  shows "BlDecompressLZSS (encode ts) n = (EFI_SUCCESS, expand ts, length (expand ts))"
proof -
  have "lzss_loop (encode ts) 0 lzss_init = foldl run_token lzss_init ts"
    using assms by (intro lzss_loop_encode) simp_all
  moreover have "ring_rel (foldl run_token lzss_init ts) (foldl expand_token preset ts)"
    using ring_rel_init assms by (rule ring_rel_tokens)
  ultimately show ?thesis by (simp add: BlDecompressLZSS_def expand_def ring_rel_def)
qed

theorem BlDecompressLZSS_correct_witness:
  "BlDecompressLZSS (encode [Lit 0x61, Ref 4078 3]) 4 = (EFI_SUCCESS, expand [Lit 0x61, Ref 4078 3], 4)"
proof -
  have "length (expand [Lit 0x61, Ref 4078 3]) = 4"
    by (simp add: expand_def preset_def numeral_3_eq_3)
  then show ?thesis using BlDecompressLZSS_correct [of "[Lit 0x61, Ref 4078 3]" 4] by simp
qed

text \<open>
  On any input at all the loop ends with a ring of 4113 bytes and a write position
  below 4096, and no more than nine bytes are written for each byte read.
\<close>

theorem BlDecompressLZSS_bound:
  "lzss_inv (lzss_loop src 0 lzss_init) \<and>
   snd (snd (BlDecompressLZSS src n)) \<le> 9 * length src"
proof -
  have "lzss_inv lzss_init" by (simp add: lzss_inv_def lzss_init_def lzss_params)
  then show ?thesis using lzss_loop_inv [of lzss_init src 0]
    by (simp add: BlDecompressLZSS_def Let_def lzss_init_def)
qed

text \<open>
  The size of the destination has no influence: for every size there is an input on
  which the decompressor reports success after writing more than that many bytes.
\<close>

theorem BlDecompressLZSS_unchecked:
  "\<exists>src. fst (BlDecompressLZSS src n) = EFI_SUCCESS \<and> n < length (fst (snd (BlDecompressLZSS src n)))"
proof -
  let ?ts = "replicate (Suc n) (Lit 0)"
  have "lzss_loop (encode ?ts) 0 lzss_init = foldl run_token lzss_init ?ts"
    by (intro lzss_loop_encode) simp_all
  moreover have "length (dstBuffer (foldl run_token st (replicate m (Lit 0)))) = length (dstBuffer st) + m" for m st
    by (induction m arbitrary: st) (simp_all add: run_token_def)
  ultimately show ?thesis
    by (intro exI [of _ "encode ?ts"]) (simp add: BlDecompressLZSS_def Let_def lzss_init_def del: replicate_Suc)
qed

end
