(* ===== verification/Divide.thy ===== *)
theory Divide
  imports Prelude
begin

text \<open>
  64-bit division for the 32-bit build (__udivmoddi4.c, __udivdi3.c, __umoddi3.c): shift
  and subtract. The first loop, which ends only for a denominator other than zero, is a
  partial function; the second one always ends.
\<close>

section \<open>The code\<close>

partial_function (option) udiv_justify :: "u64 \<Rightarrow> u64 \<Rightarrow> (u64 \<times> u64) option" where
  "udiv_justify den qbit =
     (if sint den \<ge> 0 then udiv_justify (push_bit 1 den) (push_bit 1 qbit) else Some (den, qbit))"

declare udiv_justify.simps [code]

lemma drop_bit_1_less: "(qbit :: 'a::len word) \<noteq> 0 \<Longrightarrow> unat (drop_bit 1 qbit) < unat qbit"
proof -
  assume "qbit \<noteq> 0"
  then have "0 < unat qbit" using unat_eq_zero by auto
  then show ?thesis by (simp only: unat_drop_bit) simp
qed

function udiv_subtract :: "u64 \<Rightarrow> u64 \<Rightarrow> u64 \<Rightarrow> u64 \<Rightarrow> u64 \<times> u64" where
  "udiv_subtract num den quot qbit =
     (if qbit \<noteq> 0 then
        (let (num, quot) = (if den \<le> num then (num - den, quot + qbit) else (num, quot))
         in udiv_subtract num (drop_bit 1 den) quot (drop_bit 1 qbit))
      else (num, quot))"
  by pat_completeness auto
termination
  by (relation "measure (\<lambda>(num, den, quot, qbit). unat qbit)") (simp_all only: wf_measure in_measure split_conv drop_bit_1_less not_False_eq_True)

declare udiv_subtract.simps [simp del]

text \<open>The quotient and the remainder stored through rem_p; None where the trap is taken.\<close>

definition udivmoddi4 :: "u64 \<Rightarrow> u64 \<Rightarrow> (u64 \<times> u64) option" where
  "udivmoddi4 num den =
     (if den = 0 then None
      else case udiv_justify den 1 of None \<Rightarrow> None
        | Some (den, qbit) \<Rightarrow>
            (let (num, quot) = udiv_subtract num den 0 qbit in Some (quot, num)))"

definition udivdi3 :: "u64 \<Rightarrow> u64 \<Rightarrow> u64 option" where
  "udivdi3 num den = map_option fst (udivmoddi4 num den)"

definition umoddi3 :: "u64 \<Rightarrow> u64 \<Rightarrow> u64 option" where
  "umoddi3 num den = map_option snd (udivmoddi4 num den)"

section \<open>The loops\<close>

lemma sint_nonneg: "0 \<le> sint (den :: u64) \<longleftrightarrow> unat den < 2 ^ 63"
proof -
  have "0 \<le> sint den \<longleftrightarrow> \<not> bit den 63"
    by (simp add: sint_uint signed_take_bit_nonnegative_iff bit_uint_iff)
  also have "\<dots> \<longleftrightarrow> even (unat den div 2 ^ 63)"
  proof -
    have "bit (unat den) 63 = bit den 63" by (simp add: bit_unsigned_iff)
    then show ?thesis by (simp add: bit_iff_odd)
  qed
  also have "\<dots> \<longleftrightarrow> unat den < 2 ^ 63"
  proof -
    have "unat den div 2 ^ 63 < 2" using unat_bound [of den] by (simp add: less_mult_imp_div_less)
    then have "even (unat den div 2 ^ 63) \<longleftrightarrow> unat den div 2 ^ 63 = 0" by (auto simp: less_2_cases_iff)
    then show ?thesis by (simp add: div_eq_0_iff)
  qed
  finally show ?thesis .
qed

lemma unat_push_1:
  fixes x :: u64
  shows "unat x < 2 ^ 63 \<Longrightarrow> unat (push_bit 1 x) = 2 * unat x"
  by (simp add: push_bit_eq_mult unat_word_ariths)

lemma udiv_justify_returns:
  assumes "unat den = d * 2 ^ k" and "unat qbit = 2 ^ k" and "0 < d"
  shows "\<exists>den' qbit' k'. udiv_justify den qbit = Some (den', qbit') \<and> unat den' = d * 2 ^ k' \<and>
     unat qbit' = 2 ^ k' \<and> 2 ^ 63 \<le> unat den'"
  using assms
proof (induction "2 ^ 64 - unat den" arbitrary: den qbit k rule: less_induct)
  case less
  show ?case
  proof (cases "unat den < 2 ^ 63")
    case True
    then have d1: "unat (push_bit 1 den) = d * 2 ^ Suc k" using less.prems(1) by (simp only: unat_push_1) simp
    have "2 ^ k \<le> unat den" using less.prems(1,3) by simp
    then have q1: "unat (push_bit 1 qbit) = 2 ^ Suc k" using True less.prems(2) by (simp only: unat_push_1) simp
    have "0 < unat den" using less.prems(1,3) by simp
    then have "2 ^ 64 - unat (push_bit 1 den) < 2 ^ 64 - unat den"
      using True unfolding unat_push_1 [OF True] by simp
    from less.hyps [OF this d1 q1 less.prems(3)] show ?thesis
      using True by (subst udiv_justify.simps) (simp only: sint_nonneg if_True)
  next
    case False
    then have "udiv_justify den qbit = Some (den, qbit)"
      by (subst udiv_justify.simps) (simp only: sint_nonneg if_False)
    then show ?thesis using False less.prems(1,2) by (intro exI conjI) (auto simp only: not_less)
  qed
qed

lemma udiv_subtract_correct:
  assumes "unat den = d * 2 ^ k" and "unat qbit = 2 ^ k" and "unat num < d * 2 ^ (k + 1)" and "0 < d"
  shows "udiv_subtract num den quot qbit = (of_nat (unat num mod d), quot + of_nat (unat num div d))"
  using assms
proof (induction k arbitrary: num den quot qbit)
  case 0
  then have q: "qbit = 1" by (metis power_0 unat_1 word_unat_eq_iff)
  have stop: "udiv_subtract n e c 0 = (n, c)" for n e c by (simp add: udiv_subtract.simps)
  have z: "drop_bit 1 (1 :: u64) = 0" by simp
  show ?case
  proof (cases "den \<le> num")
    case True
    then have "unat num - d < d" "d \<le> unat num" "unat (num - den) = unat num - d"
      using 0 by (simp_all add: word_le_nat_alt unat_sub)
    moreover from this have "unat num div d = 1" "unat num mod d = unat num - d"
      by (simp_all add: le_div_geq le_mod_geq)
    moreover from calculation have "num - den = of_nat (unat num mod d)" by (metis of_nat_unat ucast_id)
    ultimately show ?thesis using True q z by (subst udiv_subtract.simps) (simp add: stop)
  next
    case False
    then have "unat num < d" using 0 by (simp add: word_le_nat_alt)
    then show ?thesis using False q z by (subst udiv_subtract.simps) (simp add: stop)
  qed
next
  case (Suc k)
  have half: "unat (drop_bit 1 den) = d * 2 ^ k" "unat (drop_bit 1 qbit) = 2 ^ k"
    using Suc.prems(1,2) by (simp_all only: unat_drop_bit) simp_all
  have nz: "qbit \<noteq> 0" using Suc.prems(2) by auto
  show ?case
  proof (cases "den \<le> num")
    case True
    let ?n = "num - den"
    have n: "unat ?n = unat num - d * 2 ^ Suc k" "d * 2 ^ Suc k \<le> unat num"
      using True Suc.prems(1) by (simp_all only: word_le_nat_alt unat_sub)
    then have "unat ?n < d * 2 ^ (k + 1)" using Suc.prems(3) by simp
    note IH = Suc.IH [OF half this Suc.prems(4), of "quot + qbit"]
    have split: "unat num = unat ?n + d * 2 ^ Suc k" using n by simp
    then have "unat num div d = unat ?n div d + 2 ^ Suc k" "unat num mod d = unat ?n mod d"
      using Suc.prems(4) by simp_all
    moreover have "qbit = of_nat (2 ^ Suc k)" using Suc.prems(2) by (metis of_nat_unat ucast_id)
    ultimately show ?thesis using True nz IH by (subst udiv_subtract.simps) (simp add: algebra_simps)
  next
    case False
    then have "unat num < d * 2 ^ (k + 1)" using Suc.prems(1) by (simp add: word_le_nat_alt)
    from Suc.IH [OF half this Suc.prems(4), of quot] show ?thesis
      using False nz by (subst udiv_subtract.simps) simp
  qed
qed

section \<open>Properties\<close>

lemma udivmoddi4_eq:
  "udivmoddi4 num den = (if den = 0 then None else Some (num div den, num mod den))"
proof (cases "den = 0")
  case False
  then have d: "0 < unat den" by (simp add: unat_gt_0)
  obtain den' qbit' k where j: "udiv_justify den 1 = Some (den', qbit')" "unat den' = unat den * 2 ^ k"
    "unat qbit' = 2 ^ k" "2 ^ 63 \<le> unat den'"
    using udiv_justify_returns [of den "unat den" 0 1] d by auto
  have "unat num < unat den * 2 ^ (k + 1)" using j(2,4) unat_bound [of num] by simp
  from udiv_subtract_correct [OF j(2,3) this d, of 0] j(1) False show ?thesis
    by (simp add: udivmoddi4_def unat_div [symmetric] unat_mod [symmetric])
qed (simp add: udivmoddi4_def)

text \<open>
  C37. For every denominator other than zero the loops end and the three routines return the
  quotient and the remainder of the two numbers; with a zero denominator the trap is taken.
\<close>

theorem udivmoddi4_correct:
  "udivmoddi4 num den = (if den = 0 then None else Some (num div den, num mod den)) \<and>
   udivdi3 num den = (if den = 0 then None else Some (num div den)) \<and>
   umoddi3 num den = (if den = 0 then None else Some (num mod den))"
  by (simp add: udivdi3_def umoddi3_def udivmoddi4_eq)

end
