(* ===== verification/Base64.thy ===== *)
theory Base64
  imports Prelude
begin

text \<open>
  The Base64 decoder (Base64.c) that the property list parser uses for data elements. The
  input is the list of its inputLength bytes; the result is the number of bytes not read,
  and the bytes written to the output buffer, whose number is stored in *outputLength.
\<close>

section \<open>The code\<close>

definition table64 :: "u8 list" where
  "table64 = map (of_nat \<circ> of_char)
     (''|$$$}rstuvwxyz{$$$$$$$>?@ABCDEFGHIJKLMNOPQRSTUVW$$$$$$XYZ['' @ [CHR 0x5C] @
      '']^_`abcdefghijklmnopq'')"

definition base64_value :: "u8 \<Rightarrow> u8" where
  "base64_value v =
    (let v = (if v < 43 \<or> v > 122 then 0 else table64 ! unat (v - 43));
         v = (if v \<noteq> 0 then (if v = 36 then 0 else v - 61) else v)
     in if v \<noteq> 0 then v - 1 else 0)"

definition base64_space :: "u8 \<Rightarrow> bool" where
  "base64_space v \<longleftrightarrow> v = 10 \<or> v = 13 \<or> v = 9 \<or> v = 32"

text \<open>The inner loop: up to four values, and the input that is left.\<close>

fun base64_fill :: "u8 list \<Rightarrow> u8 list \<Rightarrow> u8 list \<times> u8 list" where
  "base64_fill iBuf [] = (iBuf, [])"
| "base64_fill iBuf (v # input) =
     (if length iBuf \<ge> 4 \<or> v = 0 then (iBuf, v # input)
      else if base64_space v then base64_fill iBuf input
      else base64_fill (iBuf @ [base64_value v]) input)"

definition base64_pack :: "u8 list \<Rightarrow> u8 list" where
  "base64_pack parts =
    (let iBuf = take 4 (parts @ [0, 0, 0, 0]) in
     [push_bit 2 (iBuf ! 0) OR drop_bit 4 (iBuf ! 1),
      push_bit 4 (iBuf ! 1) OR drop_bit 2 (iBuf ! 2),
      (push_bit 6 (iBuf ! 2) AND 0xc0) OR iBuf ! 3])"

lemma base64_fill_shorter:
  "base64_fill iBuf input = (parts, rest) \<Longrightarrow>
   length rest + (length parts - length iBuf) \<le> length input \<and> length iBuf \<le> length parts"
  by (induction iBuf input rule: base64_fill.induct) (auto split: if_splits)

lemma base64_fill_less:
  "base64_fill [] input = (parts, rest) \<Longrightarrow> parts \<noteq> [] \<Longrightarrow> length rest < length input"
  using base64_fill_shorter [of "[]" input parts rest] by (cases parts) auto

function base64_loop :: "nat \<Rightarrow> u8 list \<Rightarrow> u8 list \<Rightarrow> u8 list \<times> u8 list" where
  "base64_loop outputLength out input =
     (if input = [] \<or> hd input = 0 then (input, out)
      else case base64_fill [] input of (parts, rest) \<Rightarrow>
        if parts = [] then (rest, out)
        else if outputLength < length out + length parts - 1 then (rest, out)
        else base64_loop outputLength (out @ take (length parts - 1) (base64_pack parts)) rest)"
  by pat_completeness auto
termination
  by (relation "measure (\<lambda>(n, out, input). length input)")
    (auto dest: base64_fill_less [OF sym])

declare base64_loop.simps [simp del]

definition Base64Decode :: "u8 list \<Rightarrow> nat \<Rightarrow> nat \<times> u8 list" where
  "Base64Decode inputString outputLength =
     (let (rest, out) = base64_loop outputLength [] inputString in (length rest, out))"

section \<open>Specification: the encoder\<close>

definition alphabet64 :: "u8 list" where
  "alphabet64 = map (of_nat \<circ> of_char)
     ''ABCDEFGHIJKLMNOPQRSTUVWXYZabcdefghijklmnopqrstuvwxyz0123456789+/''"

definition char64 :: "nat \<Rightarrow> u8" where
  "char64 n = alphabet64 ! n"

fun encode64 :: "u8 list \<Rightarrow> u8 list" where
  "encode64 [] = []"
| "encode64 [a] = map char64 [unat a div 4, unat a mod 4 * 16]"
| "encode64 [a, b] = map char64 [unat a div 4, unat a mod 4 * 16 + unat b div 16, unat b mod 16 * 4]"
| "encode64 (a # b # c # bs) =
     map char64 [unat a div 4, unat a mod 4 * 16 + unat b div 16,
       unat b mod 16 * 4 + unat c div 64, unat c mod 64] @ encode64 bs"

lemma table64_eval: "table64 =
  [124, 36, 36, 36, 125, 114, 115, 116, 117, 118, 119, 120, 121, 122, 123, 36, 36, 36, 36, 36,
   36, 36, 62, 63, 64, 65, 66, 67, 68, 69, 70, 71, 72, 73, 74, 75, 76, 77, 78, 79, 80, 81, 82,
   83, 84, 85, 86, 87, 36, 36, 36, 36, 36, 36, 88, 89, 90, 91, 92, 93, 94, 95, 96, 97, 98, 99,
   100, 101, 102, 103, 104, 105, 106, 107, 108, 109, 110, 111, 112, 113]"
  by (simp add: table64_def)

lemma alphabet64_eval: "alphabet64 =
  [65, 66, 67, 68, 69, 70, 71, 72, 73, 74, 75, 76, 77, 78, 79, 80, 81, 82, 83, 84, 85, 86, 87,
   88, 89, 90, 97, 98, 99, 100, 101, 102, 103, 104, 105, 106, 107, 108, 109, 110, 111, 112, 113,
   114, 115, 116, 117, 118, 119, 120, 121, 122, 48, 49, 50, 51, 52, 53, 54, 55, 56, 57, 43, 47]"
  by (simp add: alphabet64_def)

lemma upt_64: "[0..<64] =
  [0, 1, 2, 3, 4, 5, 6, 7, 8, 9, 10, 11, 12, 13, 14, 15, 16, 17, 18, 19, 20, 21, 22, 23, 24,
   25, 26, 27, 28, 29, 30, 31, 32, 33, 34, 35, 36, 37, 38, 39, 40, 41, 42, 43, 44, 45, 46,
   47, 48, 49, 50, 51, 52, 53, 54, 55, 56, 57, 58, 59, 60, 61, 62, 63]"
  by code_simp

lemma base64_value_alphabet: "map base64_value alphabet64 = map of_nat [0..<64]"
  unfolding upt_64 by (simp add: alphabet64_eval base64_value_def table64_eval)

lemma alphabet_plain: "list_all (\<lambda>v. v \<noteq> 0 \<and> \<not> base64_space v) alphabet64"
  by (simp add: alphabet64_eval base64_space_def)

lemma char64_props:
  assumes "n < 64"
  shows "base64_value (char64 n) = of_nat n" and "char64 n \<noteq> 0" and "\<not> base64_space (char64 n)"
proof -
  have len: "length alphabet64 = 64" by (simp add: alphabet64_eval)
  show "base64_value (char64 n) = of_nat n"
    using arg_cong [OF base64_value_alphabet, of "\<lambda>xs. xs ! n"] assms len by (simp add: char64_def)
  show "char64 n \<noteq> 0" "\<not> base64_space (char64 n)"
    using alphabet_plain assms len by (auto simp: list_all_length char64_def)
qed


section \<open>Decoding the encoder's output\<close>

lemma of_nat_256: "of_nat (c + 256 * x) = (of_nat c :: u8)"
proof -
  have "(of_nat (256 * x) :: u8) = of_nat 256 * of_nat x" by (rule of_nat_mult)
  also have "(of_nat 256 :: u8) = 0" by (simp add: word_unat_eq_iff unat_of_nat)
  finally show ?thesis by (simp only: of_nat_add mult_zero_left add_0_right)
qed

lemma push_6_and: "push_bit 6 x AND 0xc0 = push_bit 6 (x :: u8)"
proof -
  have m: "(0xc0 :: u8) = push_bit 6 (mask 2)" by (simp add: mask_eq_exp_minus_1 push_bit_eq_mult)
  show ?thesis unfolding m by (rule bit_eqI) (auto simp: bit_simps)
qed

lemma base64_pack_values:
  assumes "a < 256" "b < 256" "c < 256"
  shows "base64_pack [of_nat (a div 4), of_nat (a mod 4 * 16 + b div 16),
       of_nat (b mod 16 * 4 + c div 64), of_nat (c mod 64)] = [of_nat a, of_nat b, of_nat c]"
proof -
  have "drop_bit 4 (of_nat (a mod 4 * 16 + b div 16) :: u8) = of_nat (a mod 4)"
    "drop_bit 2 (of_nat (b mod 16 * 4 + c div 64) :: u8) = of_nat (b mod 16)"
    using assms by (simp_all add: drop_bit_of_nat_small del: of_nat_add of_nat_mult)
  moreover have "4 * (a div 4) + a mod 4 = a"
    "16 * (a mod 4 * 16 + b div 16) + b mod 16 = 256 * (a mod 4) + b"
    "64 * (b mod 16 * 4 + c div 64) + c mod 64 = 256 * (b mod 16) + c" by simp_all
  ultimately show ?thesis
    using join_bits [of "a mod 4" 2 "a div 4", where 'a = 8]
      join_bits [of "b mod 16" 4 "a mod 4 * 16 + b div 16", where 'a = 8]
      join_bits [of "c mod 64" 6 "b mod 16 * 4 + c div 64", where 'a = 8]
    by (simp add: base64_pack_def Let_def push_6_and of_nat_256 del: of_nat_add of_nat_mult)
qed

text \<open>
  What the decoder sees of its input: no white space, and nothing from a NUL on. Without a
  bound on the output, it decodes the values of these characters in groups of four.
\<close>

definition plain64 :: "u8 list \<Rightarrow> u8 list" where
  "plain64 input = filter (\<lambda>v. \<not> base64_space v) (takeWhile (\<lambda>v. v \<noteq> 0) input)"

function decode64 :: "u8 list \<Rightarrow> u8 list" where
  "decode64 vs = (if vs = [] then []
     else take (length (take 4 vs) - 1) (base64_pack (take 4 vs)) @ decode64 (drop 4 vs))"
  by pat_completeness auto
termination
  by (relation "measure length") auto

declare decode64.simps [simp del]

lemma length_base64_pack [simp]: "length (base64_pack vs) = 3"
  by (simp add: base64_pack_def Let_def)

lemma length_decode64: "length (decode64 vs) \<le> length vs"
proof (induction vs rule: decode64.induct)
  case (1 vs)
  then show ?case by (subst decode64.simps) (auto simp: min_def)
qed

lemma base64_fill_plain:
  assumes "length iBuf \<le> 4" and "base64_fill iBuf input = (parts, rest)"
  shows "parts = iBuf @ map base64_value (take (4 - length iBuf) (plain64 input)) \<and>
     plain64 rest = drop (4 - length iBuf) (plain64 input)"
  using assms
proof (induction iBuf input rule: base64_fill.induct)
  case (1 iBuf)
  then show ?case by (simp add: plain64_def)
next
  case (2 iBuf v input)
  show ?case
  proof (cases "length iBuf \<ge> 4 \<or> v = 0")
    case True
    then show ?thesis using 2(3,4) by (auto simp: plain64_def)
  next
    case False
    then have "4 - length iBuf = Suc (4 - Suc (length iBuf))" by linarith
    then show ?thesis using 2 False by (cases "base64_space v") (auto simp: plain64_def)
  qed
qed

lemma base64_loop_decode:
  "length out + length (decode64 (map base64_value (plain64 input))) \<le> n \<Longrightarrow>
   snd (base64_loop n out input) = out @ decode64 (map base64_value (plain64 input))"
proof (induction n out input rule: base64_loop.induct)
  case (1 n out input)
  obtain parts rest where f: "base64_fill [] input = (parts, rest)" by fastforce
  let ?vs = "map base64_value (plain64 input)"
  have p: "parts = take 4 ?vs" "map base64_value (plain64 rest) = drop 4 ?vs"
    using base64_fill_plain [OF _ f] by (simp_all add: take_map drop_map)
  show ?case
  proof (cases "input = [] \<or> hd input = 0 \<or> parts = []")
    case True
    then have "?vs = []"
    proof (elim disjE)
      assume "hd input = 0"
      then show ?thesis by (cases input) (simp_all add: plain64_def)
    qed (use p(1) in \<open>simp_all add: plain64_def\<close>)
    then show ?thesis using True f p(1) by (subst base64_loop.simps) (auto simp: decode64.simps)
  next
    case False
    have d: "decode64 ?vs = take (length parts - 1) (base64_pack parts) @ decode64 (drop 4 ?vs)"
      using False p(1) by (subst decode64.simps) auto
    have "length parts \<le> 4" by (simp add: p(1))
    then have l: "length (take (length parts - 1) (base64_pack parts)) = length parts - 1" by simp
    have "\<not> n < length out + length parts - 1" using 1(2) False l unfolding d by (cases parts) auto
    then show ?thesis using False f l d 1(2) 1(1) [OF _ f [symmetric]] p(2)
      by (subst base64_loop.simps) auto
  qed
qed

lemma base64_loop_capacity:
  "length out \<le> n \<Longrightarrow> length (snd (base64_loop n out input)) \<le> n"
proof (induction n out input rule: base64_loop.induct)
  case (1 n out input)
  obtain parts rest where f: "base64_fill [] input = (parts, rest)" by fastforce
  show ?case
  proof (cases "input = [] \<or> hd input = 0 \<or> parts = [] \<or> n < length out + length parts - 1")
    case True
    then show ?thesis using f 1(2) by (subst base64_loop.simps) auto
  next
    case False
    then have "length out + (length parts - 1) \<le> n" by (cases parts) auto
    then show ?thesis using False f 1(1) [OF _ f [symmetric]]
      by (subst base64_loop.simps) (auto simp: min_def)
  qed
qed


definition pad64 :: "u8 list \<Rightarrow> nat" where
  "pad64 bs = (3 - length bs mod 3) mod 3"

lemma pad64_simps [simp]:
  "pad64 [] = 0" "pad64 [a] = 2" "pad64 [a, b] = 1" "pad64 (a # b # c # bs) = pad64 bs"
  by (simp_all add: pad64_def mod_Suc)

lemma byte_digits [simp]:
  fixes a b :: u8
  shows "unat a div 4 < 64" "unat a mod 4 * 16 < 64" "unat a mod 4 * 16 + unat b div 16 < 64"
    "unat a mod 16 * 4 < 64" "unat a mod 16 * 4 + unat b div 64 < 64"
  using unat_u8_le [of a] unat_u8_le [of b] by auto

lemma decode_group:
  "base64_pack [of_nat (unat a div 4), of_nat (unat a mod 4 * 16 + unat b div 16),
     of_nat (unat b mod 16 * 4 + unat c div 64), of_nat (unat c mod 64)] = [a, b, c]" for a b c :: u8
  using base64_pack_values [of "unat a" "unat b" "unat c"] unat_u8_le [of a] unat_u8_le [of b] unat_u8_le [of c]
  by (simp del: of_nat_add of_nat_mult)

lemma decode_group_short:
  "base64_pack [of_nat (unat a div 4), of_nat (unat a mod 4 * 16)] = [a, 0, 0]"
  "base64_pack [of_nat (unat a div 4), of_nat (unat a mod 4 * 16 + unat b div 16), of_nat (unat b mod 16 * 4)]
     = [a, b, 0]" for a b :: u8
  using decode_group [of a 0 0] decode_group [of a b 0]
  by (simp_all add: base64_pack_def Let_def del: of_nat_add of_nat_mult)

lemma decode64_four: "decode64 (p # q # r # t # vs) = base64_pack [p, q, r, t] @ decode64 vs"
  by (subst decode64.simps) simp

lemma decode64_encode:
  "decode64 (map base64_value (encode64 bs)) = bs"
  "decode64 (map base64_value (encode64 bs) @ replicate (pad64 bs) 0) = bs @ replicate (pad64 bs) 0"
proof (induction bs rule: encode64.induct)
  case (2 a)
  { case 1 show ?case
      by (simp add: char64_props decode64.simps decode_group_short del: of_nat_add of_nat_mult) }
  { case 2 show ?case using decode_group [of a 0 0]
      by (simp add: char64_props numeral_2_eq_2 decode64_four del: of_nat_add of_nat_mult)
        (simp add: decode64.simps) }
next
  case (3 a b)
  { case 1 show ?case
      by (simp add: char64_props decode64.simps decode_group_short del: of_nat_add of_nat_mult) }
  { case 2 show ?case using decode_group [of a b 0]
      by (simp add: char64_props decode64_four del: of_nat_add of_nat_mult)
        (simp add: decode64.simps) }
next
  case (4 a b c bs)
  { case 1 show ?case using 4
      by (simp add: char64_props decode64_four decode_group del: of_nat_add of_nat_mult) }
  { case 2 show ?case using 4
      by (simp add: char64_props decode64_four decode_group del: of_nat_add of_nat_mult) }
qed (simp_all add: decode64.simps)

section \<open>Properties\<close>

text \<open>
  Whatever the input, no more than outputLength bytes are written; and when the
  buffer is as large as the input, as it is for the property list parser, the output is the
  decoding in groups of four of the characters before the first NUL with white space
  left out.
\<close>

theorem Base64Decode_correct:
  "length (snd (Base64Decode input n)) \<le> n \<and>
   (length input \<le> n \<longrightarrow> snd (Base64Decode input n) = decode64 (map base64_value (plain64 input)))"
proof (intro conjI impI)
  show "length (snd (Base64Decode input n)) \<le> n"
    using base64_loop_capacity [of "[]" n input] by (simp add: Base64Decode_def split_beta)
next
  assume "length input \<le> n"
  moreover have "length (plain64 input) \<le> length input"
    unfolding plain64_def by (meson length_filter_le length_takeWhile_le order_trans)
  ultimately show "snd (Base64Decode input n) = decode64 (map base64_value (plain64 input))"
    using length_decode64 [of "map base64_value (plain64 input)"] base64_loop_decode [of "[]" input n]
    by (simp add: Base64Decode_def split_beta)
qed

theorem Base64Decode_correct_witness:
  "snd (Base64Decode [0x51, 0x51, 0x0a, 0] 4) = decode64 (map base64_value (plain64 [0x51, 0x51, 0x0a, 0])) \<and>
   plain64 [0x51, 0x51, 0x0a, 0] = [0x51, 0x51]"
  using Base64Decode_correct [of "[0x51, 0x51, 0x0a, 0]" 4] by (simp add: plain64_def base64_space_def)

text \<open>
  C38. Decoding inverts encoding: if the input, without its white space, is the unpadded
  Base64 form of a byte string that fits in the buffer, the output is that byte string.
\<close>

theorem Base64Decode_roundtrip:
  assumes "plain64 input = encode64 bs" and "length bs \<le> n"
  shows "snd (Base64Decode input n) = bs"
  using base64_loop_decode [of "[]" input n] assms
  by (simp add: Base64Decode_def split_beta decode64_encode)

theorem Base64Decode_roundtrip_witness:
  "snd (Base64Decode (encode64 [1, 2, 3, 250]) 4) = [1, 2, 3, 250]"
proof -
  have "plain64 (encode64 [1, 2, 3, 250]) = encode64 [1, 2, 3, 250]"
    by (simp add: plain64_def char64_def alphabet64_eval base64_space_def)
  then show ?thesis using Base64Decode_roundtrip [of "encode64 [1, 2, 3, 250]" "[1, 2, 3, 250]" 4] by simp
qed

text \<open>
  Padding is counted as data: on the padded form of a byte string the decoder appends a
  zero byte for every padding character, so the length it reports is a multiple of three.
\<close>

theorem Base64Decode_padding:
  assumes "plain64 input = encode64 bs @ replicate (pad64 bs) 0x3d" and "length bs + pad64 bs \<le> n"
  shows "snd (Base64Decode input n) = bs @ replicate (pad64 bs) 0"
proof -
  have "base64_value 0x3d = 0" by (simp add: base64_value_def table64_eval)
  then show ?thesis using base64_loop_decode [of "[]" input n] assms
    by (simp add: Base64Decode_def split_beta decode64_encode)
qed

theorem Base64Decode_padding_witness:
  "snd (Base64Decode [0x51, 0x51, 0x3d, 0x3d] 3) = [0x41, 0, 0]"
proof -
  have two: "replicate 2 x = [x, x]" for x :: u8 by (simp add: numeral_2_eq_2)
  have "encode64 [0x41] = [0x51, 0x51]" by (simp add: char64_def alphabet64_eval)
  then have "plain64 [0x51, 0x51, 0x3d, 0x3d] = encode64 [0x41] @ replicate (pad64 [0x41]) 0x3d"
    by (simp add: plain64_def base64_space_def two)
  then show ?thesis using Base64Decode_padding [of "[0x51, 0x51, 0x3d, 0x3d]" "[0x41]" 3]
    by (simp add: two)
qed

end
