(* ===== verification/CString.thy ===== *)
theory CString
  imports Prelude "HOL-Library.List_Lexorder" "HOL-Library.Sublist"
begin

text \<open>
  The memory and string routines of RuntimeLib.c. A pointer to read from is the list of the
  elements from it to the end of its object, and None is a read or a write outside of the
  object; so a result other than None says that the routine stays inside.
\<close>

section \<open>Memory\<close>

text \<open>Both pointers are offsets into one memory, so that the buffers may overlap.\<close>

fun memcpy_loop :: "nat \<Rightarrow> nat \<Rightarrow> nat \<Rightarrow> nat \<Rightarrow> u8 list \<Rightarrow> u8 list option" where
  "memcpy_loop i 0 dst src m = Some m"
| "memcpy_loop i (Suc n) dst src m =
     (if src + i < length m \<and> dst + i < length m
      then memcpy_loop (i + 1) n dst src (m[dst + i := m ! (src + i)]) else None)"

definition memcpy :: "nat \<Rightarrow> nat \<Rightarrow> nat \<Rightarrow> u8 list \<Rightarrow> u8 list option" where
  "memcpy dst src n m = memcpy_loop 0 n dst src m"

fun memset_loop :: "nat \<Rightarrow> nat \<Rightarrow> u8 \<Rightarrow> u8 list \<Rightarrow> u8 list option" where
  "memset_loop i 0 v b = Some b"
| "memset_loop i (Suc n) v b = (if i < length b then memset_loop (i + 1) n v (b[i := v]) else None)"

definition memset :: "u8 list \<Rightarrow> u8 \<Rightarrow> nat \<Rightarrow> u8 list option" where
  "memset b v n = memset_loop 0 n v b"

fun memcmp :: "u8 list \<Rightarrow> u8 list \<Rightarrow> nat \<Rightarrow> int option" where
  "memcmp b1 b2 0 = Some 0"
| "memcmp (x # b1) (y # b2) (Suc n) =
     (if x < y then Some (- 1) else if x > y then Some 1 else memcmp b1 b2 n)"
| "memcmp _ _ (Suc n) = None"

section \<open>Strings\<close>

fun strlen :: "'a::zero list \<Rightarrow> nat option" where
  "strlen [] = None"
| "strlen (c # s) = (if c \<noteq> 0 then map_option Suc (strlen s) else Some 0)"

definition wcslen :: "u16 list \<Rightarrow> nat option" where
  "wcslen s = strlen s"

fun strcmp :: "u8 list \<Rightarrow> u8 list \<Rightarrow> int option" where
  "strcmp (c1 # s1) (c2 # s2) =
     (if c1 \<noteq> 0 \<and> c2 \<noteq> 0 then
        (let v = uint c1 - uint c2 in if v \<noteq> 0 then Some v else strcmp s1 s2)
      else Some (uint c1 - uint c2))"
| "strcmp _ _ = None"

fun str_put :: "u8 list \<Rightarrow> nat \<Rightarrow> u8 list \<Rightarrow> u8 list option" where
  "str_put dst i [] = None"
| "str_put dst i (c # src) =
     (if length dst \<le> i then None
      else if c \<noteq> 0 then str_put (dst[i := c]) (i + 1) src else Some (dst[i := 0]))"

definition strcpy :: "u8 list \<Rightarrow> u8 list \<Rightarrow> u8 list option" where
  "strcpy dstBuffer srcBuffer = str_put dstBuffer 0 srcBuffer"

definition strcat :: "u8 list \<Rightarrow> u8 list \<Rightarrow> u8 list option" where
  "strcat dstBuffer srcBuffer =
     (case strlen dstBuffer of None \<Rightarrow> None | Some i \<Rightarrow> str_put dstBuffer i srcBuffer)"

fun strncpy_loop :: "u8 list \<Rightarrow> nat \<Rightarrow> u8 list \<Rightarrow> nat \<Rightarrow> u8 list option" where
  "strncpy_loop dst i [] maxCharCount = None"
| "strncpy_loop dst i (c # src) maxCharCount =
     (if c \<noteq> 0 \<and> i < maxCharCount then
        (if i < length dst then strncpy_loop (dst[i := c]) (i + 1) src maxCharCount else None)
      else if i < maxCharCount then (if i < length dst then Some (dst[i := 0]) else None)
      else Some dst)"

definition strncpy :: "u8 list \<Rightarrow> u8 list \<Rightarrow> nat \<Rightarrow> u8 list option" where
  "strncpy dstBuffer srcBuffer maxCharCount = strncpy_loop dstBuffer 0 srcBuffer maxCharCount"

fun strnicmp :: "u8 list \<Rightarrow> u8 list \<Rightarrow> nat \<Rightarrow> int option" where
  "strnicmp (c1 # s1) (c2 # s2) checkLength =
     (if c1 \<noteq> 0 \<and> c2 \<noteq> 0 \<and> checkLength \<noteq> 0 then
        (let v = uint (c1 OR 0x20) - uint (c2 OR 0x20) in
         if v \<noteq> 0 then Some v else strnicmp s1 s2 (checkLength - 1))
      else if checkLength \<noteq> 0 then Some (uint (c1 OR 0x20) - uint (c2 OR 0x20)) else Some 0)"
| "strnicmp _ _ _ = None"

text \<open>
  strstr: whether the bytes from s1 on start with the string s2; then the search. The
  result is the offset of the first match, with NULL as \<open>Some None\<close>.
\<close>

fun strstr_here :: "u8 list \<Rightarrow> u8 list \<Rightarrow> bool option" where
  "strstr_here (c1 # s1) (c2 # s2) =
     (if c1 \<noteq> 0 \<and> c2 \<noteq> 0 \<and> c1 = c2 then strstr_here s1 s2 else Some (c2 = 0))"
| "strstr_here _ _ = None"

fun strstr_loop :: "nat \<Rightarrow> u8 list \<Rightarrow> u8 list \<Rightarrow> nat option option" where
  "strstr_loop i [] findString = None"
| "strstr_loop i (c # cp) findString =
     (if c = 0 then Some None
      else case strstr_here (c # cp) findString of None \<Rightarrow> None
        | Some True \<Rightarrow> Some (Some i)
        | Some False \<Rightarrow> strstr_loop (i + 1) cp findString)"

definition strstr :: "u8 list \<Rightarrow> u8 list \<Rightarrow> nat option option" where
  "strstr stringBuffer findString =
     (case findString of [] \<Rightarrow> None
      | f # _ \<Rightarrow> if f = 0 then Some (Some 0) else strstr_loop 0 stringBuffer findString)"

fun strlwr :: "u8 list \<Rightarrow> u8 list option" where
  "strlwr [] = None"
| "strlwr (c # s) = (if c = 0 then Some (c # s) else
     map_option ((#) (if 0x41 \<le> c \<and> c \<le> 0x5a then c + 0x20 else c)) (strlwr s))"

fun strupr :: "u8 list \<Rightarrow> u8 list option" where
  "strupr [] = None"
| "strupr (c # s) = (if c = 0 then Some (c # s) else
     map_option ((#) (if 0x61 \<le> c \<and> c \<le> 0x7a then c - 0x20 else c)) (strupr s))"

section \<open>Numbers\<close>

definition isspace :: "u8 \<Rightarrow> bool" where
  "isspace ch \<longleftrightarrow> ch = 0x20 \<or> ch = 0x09 \<or> ch = 0x0d \<or> ch = 0x0a"

definition isdigit :: "u8 \<Rightarrow> bool" where
  "isdigit ch \<longleftrightarrow> 0x30 \<le> ch \<and> ch \<le> 0x39"

fun skip_space :: "u8 list \<Rightarrow> (u8 \<times> u8 list) option" where
  "skip_space [] = None"
| "skip_space (ch # s) = (if isspace ch then skip_space s else Some (ch, s))"

fun atoi_digits :: "u64 \<Rightarrow> u8 \<Rightarrow> u8 list \<Rightarrow> u64 option" where
  "atoi_digits value ch s =
     (if isdigit ch then
        (case s of [] \<Rightarrow> None | ch' # s' \<Rightarrow> atoi_digits (value * 10 + ucast ch - 0x30) ch' s')
      else Some value)"

text \<open>INTN and INT64 are the same type in the x64 build: 64 bits, read as signed.\<close>

definition atoi64 :: "u8 list \<Rightarrow> u64 option" where
  "atoi64 numberString =
     (case skip_space numberString of None \<Rightarrow> None
      | Some (sign, s) \<Rightarrow>
          (case (if sign = 0x2b \<or> sign = 0x2d
                 then (case s of [] \<Rightarrow> None | ch # s \<Rightarrow> Some (ch, s)) else Some (sign, s)) of
             None \<Rightarrow> None
           | Some (ch, s) \<Rightarrow>
               map_option (\<lambda>value. if sign = 0x2d then - value else value) (atoi_digits 0 ch s)))"

definition atoi :: "u8 list \<Rightarrow> u64 option" where
  "atoi numberString = atoi64 numberString"

definition hex_digit :: "u8 \<Rightarrow> u64 option" where
  "hex_digit c =
     (if 0x30 \<le> c \<and> c \<le> 0x39 then Some (ucast c - 0x30)
      else if 0x61 \<le> c \<and> c \<le> 0x66 then Some (ucast c - 0x61 + 10)
      else if 0x41 \<le> c \<and> c \<le> 0x46 then Some (ucast c - 0x41 + 10)
      else None)"

text \<open>The number and the bytes from the first one that is not a digit on.\<close>

fun strtoul64_digits :: "u64 \<Rightarrow> u8 list \<Rightarrow> (u64 \<times> u8 list) option" where
  "strtoul64_digits number [] = None"
| "strtoul64_digits number (c # s) =
     (case hex_digit c of None \<Rightarrow> Some (number, c # s)
      | Some digval \<Rightarrow> strtoul64_digits (number * 16 + digval) s)"

definition strtoul64_base16 :: "u8 list \<Rightarrow> (u64 \<times> u8 list) option" where
  "strtoul64_base16 numberString =
     (case skip_space numberString of None \<Rightarrow> None
      | Some (c, s) \<Rightarrow>
          if c = 0x30 then
            (case s of [] \<Rightarrow> None
             | x # s' \<Rightarrow> if x = 0x78 \<or> x = 0x58 then strtoul64_digits 0 s' else strtoul64_digits 0 (c # s))
          else strtoul64_digits 0 (c # s))"


section \<open>Memory: what the loops do\<close>

lemma length_memcpy_loop: "memcpy_loop i n dst src m = Some m' \<Longrightarrow> length m' = length m"
  by (induction i n dst src m rule: memcpy_loop.induct) (auto split: if_splits)

lemma memcpy_loop_correct:
  assumes "src + i + n \<le> length m" and "dst + i + n \<le> length m" and "dst \<le> src \<or> src + i + n \<le> dst"
  shows "memcpy_loop i n dst src m = Some (overlay m (dst + i) (take n (drop (src + i) m)))"
  using assms
proof (induction n arbitrary: i m)
  case (Suc n)
  let ?m = "m[dst + i := m ! (src + i)]"
  have "take n (drop (src + (i + 1)) ?m) = take n (drop (src + (i + 1)) m)"
    using Suc.prems by (intro nth_equalityI) (auto simp: nth_list_update)
  moreover have "take (Suc n) (drop (src + i) m) = m ! (src + i) # take n (drop (src + (i + 1)) m)"
    using Suc.prems(1) by (simp add: Cons_nth_drop_Suc [symmetric])
  ultimately show ?case
    using Suc.IH [of "i + 1" ?m] Suc.prems overlay_Cons [of "dst + i" m] by simp
qed simp

lemma memset_loop_correct:
  "i + n \<le> length b \<Longrightarrow> memset_loop i n v b = Some (overlay b i (replicate n v))"
  by (induction n arbitrary: i b) (simp_all add: overlay_Cons)

lemma memset_loop_None: "length b < i + n \<Longrightarrow> i \<le> length b \<Longrightarrow> memset_loop i n v b = None"
  by (induction n arbitrary: i b) auto

section \<open>Comparison\<close>

lemma memcmp_eq:
  "n \<le> length b1 \<Longrightarrow> n \<le> length b2 \<Longrightarrow> memcmp b1 b2 n =
   Some (if take n b1 < take n b2 then - 1 else if take n b1 = take n b2 then 0 else 1)"
  by (induction b1 b2 n rule: memcmp.induct) auto

definition c_str :: "u8 list \<Rightarrow> u8 list" where
  "c_str bs = takeWhile (\<lambda>c. c \<noteq> 0) bs"

lemma strlen_c_str: "0 \<in> set bs \<Longrightarrow> strlen bs = Some (length (c_str bs))"
  by (induction bs) (auto simp: c_str_def)

lemma strlen_None: "0 \<notin> set bs \<Longrightarrow> strlen bs = None"
  by (induction bs) auto

lemma strcmp_sign:
  "0 \<in> set s1 \<Longrightarrow> 0 \<in> set s2 \<Longrightarrow>
   \<exists>v. strcmp s1 s2 = Some v \<and> (v < 0 \<longleftrightarrow> c_str s1 < c_str s2) \<and> (v = 0 \<longleftrightarrow> c_str s1 = c_str s2)"
proof (induction s1 s2 rule: strcmp.induct)
  case (1 c1 s1 c2 s2)
  show ?case
  proof (cases "c1 \<noteq> 0 \<and> c2 \<noteq> 0 \<and> c1 = c2")
    case True
    then show ?thesis using 1 by (auto simp: c_str_def)
  next
    case False
    moreover have "uint c1 = 0 \<or> 0 < uint c1" "uint c2 = 0 \<or> 0 < uint c2"
      using uint_ge_0 [of c1] uint_ge_0 [of c2] by linarith+
    ultimately show ?thesis by (auto simp: c_str_def word_less_def word_uint_eq_iff)
  qed
qed auto

interpretation str: three_way "\<lambda>a b. the (strcmp a b)" c_str "\<lambda>s. 0 \<in> set s"
  by unfold_locales (use strcmp_sign in fastforce)+

interpretation mem: three_way "\<lambda>a b. the (memcmp a b n)" "take n" "\<lambda>b. n \<le> length b" for n
  by unfold_locales (simp_all add: memcmp_eq split: if_splits)


section \<open>Copying\<close>

lemma str_put_correct:
  "0 \<in> set src \<Longrightarrow> i + length (c_str src) < length dst \<Longrightarrow>
   str_put dst i src = Some (overlay dst i (c_str src @ [0]))"
proof (induction dst i src rule: str_put.induct)
  case (2 dst i c src)
  then show ?case
    by (cases "c = 0") (auto simp: c_str_def overlay_Cons [symmetric] overlay_Nil)
qed simp

lemma str_put_None:
  "length dst \<le> i + length (c_str src) \<Longrightarrow> str_put dst i src = None"
  by (induction dst i src rule: str_put.induct) (auto simp: c_str_def)

lemma strncpy_loop_correct:
  assumes "0 \<in> set src" and "n \<le> length dst" and "i \<le> n"
  shows "strncpy_loop dst i src n =
     Some (overlay dst i (if i + length (c_str src) < n then c_str src @ [0] else take (n - i) (c_str src)))"
  using assms
proof (induction dst i src n rule: strncpy_loop.induct)
  case (2 dst i c src n)
  show ?case
  proof (cases "c \<noteq> 0 \<and> i < n")
    case True
    then have "n - i = Suc (n - Suc i)" by (simp add: Suc_diff_Suc)
    with 2 True show ?thesis by (auto simp: c_str_def overlay_Cons)
  next
    case False
    then show ?thesis using 2(2-4) by (auto simp: c_str_def overlay_Cons [symmetric])
  qed
qed simp

section \<open>Searching\<close>

lemma strstr_here_prefix:
  "0 \<in> set s \<Longrightarrow> 0 \<in> set f \<Longrightarrow> strstr_here s f = Some (prefix (c_str f) (c_str s))"
  by (induction s f rule: strstr_here.induct) (auto simp: c_str_def)

lemma strstr_loop_correct:
  assumes "0 \<in> set s" and "0 \<in> set f" and "c_str f \<noteq> []"
  shows "strstr_loop i s f = Some (if \<exists>k. prefix (c_str f) (drop k (c_str s))
     then Some (i + (LEAST k. prefix (c_str f) (drop k (c_str s)))) else None)"
  using assms
proof (induction i s f rule: strstr_loop.induct)
  case (2 i c cp f)
  show ?case
  proof (cases "c = 0")
    case True
    then show ?thesis using 2(4) by (simp add: c_str_def)
  next
    case False
    then have cs: "c_str (c # cp) = c # c_str cp" by (simp add: c_str_def)
    let ?P = "\<lambda>k. prefix (c_str f) (drop k (c_str (c # cp)))"
    have h: "strstr_here (c # cp) f = Some (?P 0)" using strstr_here_prefix [OF 2(2,3)] by simp
    show ?thesis
    proof (cases "?P 0")
      case True
      then have "(LEAST k. ?P k) = 0" by (intro Least_equality) simp_all
      then show ?thesis using True False h by (auto intro: exI [of _ 0])
    next
      case nP: False
      have ex: "(\<exists>k. ?P k) \<longleftrightarrow> (\<exists>k. ?P (Suc k))" using nP by (metis not0_implies_Suc)
      have "(LEAST k. ?P k) = Suc (LEAST k. ?P (Suc k))" if "?P j" for j
        using Least_Suc [of ?P j] that nP by blast
      then show ?thesis using nP False h 2 ex by (auto simp: cs)
    qed
  qed
qed simp


section \<open>Comparison without case\<close>

definition fold20 :: "u8 \<Rightarrow> u8" where
  "fold20 c = c OR 0x20"

lemma fold20_zero: "fold20 0 = 0x20"
  by (simp add: fold20_def)

lemma strnicmp_zero:
  assumes "0 \<in> set s1" "0 \<in> set s2"
    and "\<forall>c \<in> set (c_str s1) \<union> set (c_str s2). fold20 c \<noteq> 0x20"
  shows "\<exists>v. strnicmp s1 s2 n = Some v \<and>
     (v = 0 \<longleftrightarrow> map fold20 (take n (c_str s1)) = map fold20 (take n (c_str s2)))"
  using assms
proof (induction s1 s2 n rule: strnicmp.induct)
  case (1 c1 s1 c2 s2 n)
  show ?case
  proof (cases "c1 \<noteq> 0 \<and> c2 \<noteq> 0 \<and> n \<noteq> 0 \<and> fold20 c1 = fold20 c2")
    case True
    then have "0 \<in> set s1" "0 \<in> set s2" "\<forall>c \<in> set (c_str s1) \<union> set (c_str s2). fold20 c \<noteq> 0x20"
      using 1(2-4) by (auto simp: c_str_def)
    moreover have "strnicmp (c1 # s1) (c2 # s2) n = strnicmp s1 s2 (n - 1)"
      using True by (simp add: fold20_def)
    ultimately show ?thesis using 1(1) True by (cases n) (auto simp: c_str_def fold20_def)
  next
    case False
    have "uint (c1 OR 0x20) - uint (c2 OR 0x20) = 0 \<longleftrightarrow> fold20 c1 = fold20 c2"
      by (simp add: fold20_def word_uint_eq_iff)
    moreover have "c1 \<noteq> 0 \<Longrightarrow> fold20 c1 \<noteq> 0x20" "c2 \<noteq> 0 \<Longrightarrow> fold20 c2 \<noteq> 0x20"
      using 1(4) by (auto simp: c_str_def)
    ultimately show ?thesis using False fold20_zero
      by (cases n; cases "c1 = 0"; cases "c2 = 0") (auto simp: c_str_def Let_def)
  qed
qed auto

lemma strnicmp_space: "strnicmp (s @ [0]) (s @ 0x20 # t) n = Some 0" if "0 \<notin> set s"
  using that by (induction s arbitrary: n) auto

section \<open>Properties\<close>

text \<open>
  memcpy copies the n source bytes and changes nothing else, whenever both ranges lie
  in the memory and either the destination does not start after the source or the ranges do
  not overlap; it touches no byte outside of the two ranges.
\<close>

theorem memcpy_correct:
  assumes "src + n \<le> length m" and "dst + n \<le> length m" and "dst \<le> src \<or> src + n \<le> dst"
  shows "memcpy dst src n m = Some (overlay m dst (take n (drop src m)))"
  using memcpy_loop_correct [of src 0 n m dst] assms by (simp add: memcpy_def)

theorem memcpy_correct_witness:
  "memcpy 0 1 3 [1, 2, 3, 4, 5] = Some [2, 3, 4, 4, 5]"
  using memcpy_correct [of 1 3 "[1, 2, 3, 4, 5]" 0] by (simp add: overlay_def)

text \<open>
  On terminated strings strcmp reads no further than the terminators and orders the
  strings lexicographically by unsigned bytes: zero exactly for equal strings, negative
  exactly when the first one is smaller; so it is antisymmetric and transitive.
\<close>

theorem strcmp_correct:
  assumes "0 \<in> set a" and "0 \<in> set b" and "0 \<in> set c"
  shows "(\<exists>v. strcmp a b = Some v \<and> (v < 0 \<longleftrightarrow> c_str a < c_str b) \<and> (v = 0 \<longleftrightarrow> c_str a = c_str b)) \<and>
    sgn (the (strcmp a b)) = - sgn (the (strcmp b a)) \<and>
    (the (strcmp a b) \<le> 0 \<longrightarrow> the (strcmp b c) \<le> 0 \<longrightarrow> the (strcmp a c) \<le> 0)"
  using strcmp_sign [OF assms(1,2)] str.cmp_sign [OF assms(1,2)] str.cmp_trans [OF assms] by blast

theorem strcmp_correct_witness:
  "sgn (the (strcmp [0x61, 0x62, 0] [0x61, 0, 0x7a])) = 1"
proof -
  have "strcmp [0x61, 0, 0x7a] [0x61, 0x62, 0] = Some (- 0x62)" by simp
  then show ?thesis using strcmp_correct [of "[0x61, 0x62, 0]" "[0x61, 0, 0x7a]" "[0]"] by simp
qed

text \<open>
  strcpy, strcat and strncpy put the bytes of the source string at the start (strcat: at
  the end of the string) of the destination; strcpy and strcat need room for the
  terminator, and without it they write outside of the buffer; strncpy never writes more
  than maxCharCount bytes and leaves out the terminator when the string is not shorter.
\<close>

theorem string_copies_correct:
  assumes "0 \<in> set src"
  shows "strcpy dst src = (if length (c_str src) < length dst
       then Some (overlay dst 0 (c_str src @ [0])) else None) \<and>
    (0 \<in> set dst \<longrightarrow> strcat dst src = (if length (c_str dst) + length (c_str src) < length dst
       then Some (overlay dst (length (c_str dst)) (c_str src @ [0])) else None)) \<and>
    (n \<le> length dst \<longrightarrow> strncpy dst src n = Some (overlay dst 0
       (if length (c_str src) < n then c_str src @ [0] else take n (c_str src))))"
  using str_put_correct [OF assms, of 0 dst] str_put_None [of dst 0 src]
    str_put_correct [OF assms, of "length (c_str dst)" dst] str_put_None [of dst "length (c_str dst)" src]
    strncpy_loop_correct [OF assms, of n dst 0]
  by (simp add: strcpy_def strcat_def strncpy_def strlen_c_str)

theorem string_copies_correct_witness:
  "strcat [0x61, 0, 9, 9] [0x62, 0] = Some [0x61, 0x62, 0, 9] \<and> strcat [0x61, 0] [0x62, 0] = None"
  using string_copies_correct [of "[0x62, 0]" "[0x61, 0, 9, 9]" 0]
    string_copies_correct [of "[0x62, 0]" "[0x61, 0]" 0]
  by (simp add: c_str_def overlay_def)

text \<open>
  strstr returns the start of the string for an empty search string, otherwise the
  offset of the first place where the search string occurs, and NULL when it does not occur.
\<close>

theorem strstr_correct:
  assumes "0 \<in> set s" and "0 \<in> set f"
  shows "strstr s f = Some (if \<exists>k. prefix (c_str f) (drop k (c_str s))
     then Some (LEAST k. prefix (c_str f) (drop k (c_str s))) else None)"
proof (cases "c_str f = []")
  case True
  then have "strstr s f = Some (Some 0)" using assms(2) by (cases f) (auto simp: strstr_def c_str_def split: if_splits)
  moreover have "(LEAST k. prefix [] (drop k (c_str s))) = 0" by (rule Least_equality) simp_all
  ultimately show ?thesis using True by simp
next
  case False
  then have "strstr s f = strstr_loop 0 s f"
    using assms(2) by (cases f) (auto simp: strstr_def c_str_def split: if_splits)
  then show ?thesis using strstr_loop_correct [OF assms False, of 0] by simp
qed

theorem strstr_correct_witness:
  "\<exists>k. strstr [0x61, 0x62, 0x63, 0] [0x62, 0x63, 0] = Some (Some k) \<and> k \<le> 1"
proof -
  have "c_str [0x62, 0x63, 0] = [0x62, 0x63]" "c_str [0x61, 0x62, 0x63, 0] = [0x61, 0x62, 0x63]"
    by (simp_all add: c_str_def)
  moreover have p: "prefix [0x62, 0x63] (drop 1 [0x61, 0x62, 0x63 :: u8])" by simp
  moreover have "\<exists>k. prefix [0x62, 0x63] (drop k [0x61, 0x62, 0x63 :: u8])" using p by blast
  ultimately show ?thesis
    using strstr_correct [of "[0x61, 0x62, 0x63, 0]" "[0x62, 0x63, 0]"]
      Least_le [of "\<lambda>k. prefix [0x62, 0x63] (drop k [0x61, 0x62, 0x63 :: u8])", OF p]
    by simp
qed

text \<open>
  strnicmp folds case by setting bit 5 of every byte, the terminator included. For
  strings with no space the result is zero exactly when the first checkLength characters
  agree with bit 5 set; but the terminator is taken for a space, so a string compares as
  equal to any longer one that continues with a space, whatever follows.
\<close>

theorem strnicmp_correct:
  "(0 \<in> set s1 \<and> 0 \<in> set s2 \<and> (\<forall>c \<in> set (c_str s1) \<union> set (c_str s2). fold20 c \<noteq> 0x20) \<longrightarrow>
     (\<exists>v. strnicmp s1 s2 n = Some v \<and>
       (v = 0 \<longleftrightarrow> map fold20 (take n (c_str s1)) = map fold20 (take n (c_str s2))))) \<and>
   (0 \<notin> set s \<longrightarrow> strnicmp (s @ [0]) (s @ 0x20 # t) n = Some 0)"
  using strnicmp_zero [of s1 s2 n] strnicmp_space [of s t n] by blast

theorem strnicmp_correct_witness:
  "(\<exists>v. strnicmp [0x41, 0] [0x61, 0] 5 = Some v \<and> v = 0) \<and> strnicmp [0x61, 0] [0x61, 0x20, 0x62, 0] 4 = Some 0"
proof -
  have c: "c_str [0x41, 0] = [0x41]" "c_str [0x61, 0] = [0x61]" by (simp_all add: c_str_def)
  have f: "fold20 0x41 = 0x61" "fold20 0x61 = 0x61" by (simp_all add: fold20_def)
  show ?thesis
    using strnicmp_correct [of "[0x41, 0]" "[0x61, 0]" 5 "[]" "[]", unfolded c]
      strnicmp_correct [of "[]" "[]" 4 "[0x61]" "[0x62, 0]"] f by auto
qed

end
