(* ===== verification/Printf.thy ===== *)
theory Printf
  imports CString
begin

text \<open>
  Formatted output (the second half of RuntimeLib.c): flags and width, hexadecimal and
  decimal conversion, and vsnprintf. The arguments are a list of typed values. Every way to
  leave the defined behaviour of C is an error value of its own: a read past the end of the
  format or of a string argument, a missing argument, a write past the 320 bytes of a
  temporary buffer, a write past the destination.
\<close>

datatype fault = Format_overrun | Bad_argument | Temp_overflow | Buffer_overflow

datatype va_arg = Va_int u64 | Va_ascii "u8 list option" | Va_unicode "u16 list option"

section \<open>Flags and width\<close>

definition LEFT_JUSTIFY :: u64 where "LEFT_JUSTIFY = 0x01"
definition PREFIX_SIGN :: u64 where "PREFIX_SIGN = 0x02"
definition PREFIX_BLANK :: u64 where "PREFIX_BLANK = 0x04"
definition COMMA_TYPE :: u64 where "COMMA_TYPE = 0x08"
definition LONG_TYPE :: u64 where "LONG_TYPE = 0x10"
definition PREFIX_ZERO :: u64 where "PREFIX_ZERO = 0x20"
definition LOWER_CASE :: u64 where "LOWER_CASE = 0x40"

lemmas printf_flags = LEFT_JUSTIFY_def PREFIX_SIGN_def PREFIX_BLANK_def COMMA_TYPE_def
  LONG_TYPE_def PREFIX_ZERO_def LOWER_CASE_def

fun width_digits :: "u64 \<Rightarrow> u8 list \<Rightarrow> u64 \<times> u8 list" where
  "width_digits width [] = (width, [])"
| "width_digits width (c # fmt) =
     (if isdigit c then width_digits (width * 10 + ucast c - 0x30) fmt else (width, c # fmt))"

lemma width_digits_shorter: "length (snd (width_digits width fmt)) \<le> length fmt"
  by (induction width fmt rule: width_digits.induct) auto

lemma width_digits_less: "(w, rest) = width_digits width fmt \<Longrightarrow> length rest < Suc (length fmt)"
  using width_digits_shorter [of width fmt] by (metis le_imp_less_Suc snd_conv)

text \<open>The format is given from the byte after the percent sign on.\<close>

function get_flags_and_width ::
  "u64 \<Rightarrow> u64 \<Rightarrow> va_arg list \<Rightarrow> u8 list \<Rightarrow> fault + (u8 list \<times> u64 \<times> u64 \<times> va_arg list)" where
  "get_flags_and_width flags width marker [] = Inl Format_overrun"
| "get_flags_and_width flags width marker (c # fmt) =
     (if c = 0x2d then get_flags_and_width (flags OR LEFT_JUSTIFY) width marker fmt
      else if c = 0x2b then get_flags_and_width (flags OR PREFIX_SIGN) width marker fmt
      else if c = 0x20 then get_flags_and_width (flags OR PREFIX_BLANK) width marker fmt
      else if c = 0x2c then get_flags_and_width (flags OR COMMA_TYPE) width marker fmt
      else if c = 0x4c \<or> c = 0x6c then get_flags_and_width (flags OR LONG_TYPE) width marker fmt
      else if c = 0x2a then
        (case marker of Va_int w # marker \<Rightarrow> get_flags_and_width flags w marker fmt
         | _ \<Rightarrow> Inl Bad_argument)
      else if isdigit c then
        (case width_digits (ucast c - 0x30) fmt of (w, rest) \<Rightarrow>
           get_flags_and_width (if c = 0x30 then flags OR PREFIX_ZERO else flags) w marker rest)
      else Inr (c # fmt, flags, width, marker))"
  by pat_completeness auto
termination
  by (relation "measure (\<lambda>(flags, width, marker, fmt). length fmt)") (auto dest: width_digits_less)

section \<open>Numbers\<close>

text \<open>The digits as the first loops leave them in the temporary buffer: the lowest one first.\<close>

definition hex_char :: "u64 \<Rightarrow> u64 \<Rightarrow> u8" where
  "hex_char flags n =
     (if flags AND LOWER_CASE \<noteq> 0
      then [0x30, 0x31, 0x32, 0x33, 0x34, 0x35, 0x36, 0x37, 0x38, 0x39, 0x61, 0x62, 0x63, 0x64, 0x65, 0x66] ! unat n
      else [0x30, 0x31, 0x32, 0x33, 0x34, 0x35, 0x36, 0x37, 0x38, 0x39, 0x41, 0x42, 0x43, 0x44, 0x45, 0x46] ! unat n)"

lemma drop_bit_4_less: "drop_bit 4 (value :: u64) \<noteq> 0 \<Longrightarrow> unat (drop_bit 4 value) < unat value"
proof -
  assume "drop_bit 4 value \<noteq> 0"
  then have "unat value div 2 ^ 4 \<noteq> 0" by (metis unat_drop_bit unat_eq_zero)
  then have "0 < unat value" by (cases "unat value") auto
  then show ?thesis by (simp only: unat_drop_bit) simp
qed

function mhex_digits :: "u64 \<Rightarrow> u64 \<Rightarrow> u8 list" where
  "mhex_digits flags value =
     hex_char flags (value AND 0x0f) #
     (let value = drop_bit 4 value in if value \<noteq> 0 then mhex_digits flags value else [])"
  by pat_completeness auto
termination
  by (relation "measure (\<lambda>(flags, value). unat value)") (simp_all add: drop_bit_4_less)

declare mhex_digits.simps [simp del]

text \<open>
  The bytes written to the destination, which is the 320-byte buffer of vsnprintf, with
  the terminator.
\<close>

definition value_to_mhex_string :: "u64 \<Rightarrow> u64 \<Rightarrow> u64 \<Rightarrow> fault + u8 list" where
  "value_to_mhex_string value flags width =
     (let digits = mhex_digits flags value;
          count = length digits;
          prefix = (if flags AND PREFIX_ZERO \<noteq> 0 then 0x30
                    else if flags AND LEFT_JUSTIFY = 0 then 0x20 else 0)
      in if 320 < count \<or> 320 < unat width then Inl Temp_overflow
         else
           let temp = digits @ replicate (unat width - count) prefix;
               temp = (if width > 0 \<and> length temp > unat width then take (unat width) temp else temp)
           in if 320 < length temp + 1 then Inl Temp_overflow else Inr (rev temp @ [0]))"

text \<open>Decimal digits, with a comma after each third digit that is not the last one.\<close>

lemma div_10_less: "(value :: u64) div 10 \<noteq> 0 \<Longrightarrow> unat (value div 10) < unat value"
proof -
  assume "value div 10 \<noteq> 0"
  then have "unat value div 10 \<noteq> 0" by (simp add: unat_div word_unat_eq_iff)
  then have "0 < unat value" by (cases "unat value") auto
  then show ?thesis by (simp add: unat_div)
qed

function decimal_digits :: "u64 \<Rightarrow> u64 \<Rightarrow> nat \<Rightarrow> u8 list" where
  "decimal_digits flags value numberCount =
     (let remainder = value mod 10; value = value div 10; numberCount = numberCount + 1 in
      ucast (remainder + 0x30) #
      (if flags AND COMMA_TYPE = COMMA_TYPE \<and> numberCount mod 3 = 0 \<and> value \<noteq> 0 then [0x2c] else []) @
      (if value \<noteq> 0 then decimal_digits flags value numberCount else []))"
  by pat_completeness auto
termination
  by (relation "measure (\<lambda>(flags, value, numberCount). unat value)") (simp_all add: div_10_less)

declare decimal_digits.simps [simp del]

text \<open>
  The value is an INT64. The returned index, which is always 0 because the last loop does not
  count, is not used by the caller.
\<close>

definition value_to_string :: "u64 \<Rightarrow> u64 \<Rightarrow> u64 \<Rightarrow> fault + u8 list" where
  "value_to_string value flags width =
     (let negative = sint value < 0;
          temp = decimal_digits flags (if negative then - value else value) 0;
          sign = (if negative then [0x2d] else [])
      in if 320 < length temp then Inl Temp_overflow
         else
           let temp = (if width > 0 \<and> length temp > unat width then take (unat width) temp else temp)
           in if 320 < length sign + length temp + 1 then Inl Temp_overflow
              else Inr (sign @ rev temp @ [0]))"

section \<open>vsnprintf\<close>

type_synonym out = "u8 list \<times> nat"

definition put_char :: "u8 \<Rightarrow> out \<Rightarrow> fault + out" where
  "put_char c = (\<lambda>(dst, index).
     if index < length dst then Inr (dst[index := c], index + 1) else Inl Buffer_overflow)"

fun put_string :: "nat \<Rightarrow> 'a::zero list \<Rightarrow> ('a \<Rightarrow> u8) \<Rightarrow> nat \<Rightarrow> out \<Rightarrow> fault + (out \<times> nat)" where
  "put_string limit [] f count st = Inl Format_overrun"
| "put_string limit (c # s) f count st =
     (if c \<noteq> 0 \<and> snd st < limit then
        (case put_char (f c) st of Inl e \<Rightarrow> Inl e
         | Inr st \<Rightarrow> put_string limit s f (count + 1) st)
      else Inr (st, count))"

fun put_blanks :: "nat \<Rightarrow> nat \<Rightarrow> out \<Rightarrow> fault + out" where
  "put_blanks limit 0 st = Inr st"
| "put_blanks limit (Suc n) st =
     (if snd st < limit then
        (case put_char 0x20 st of Inl e \<Rightarrow> Inl e | Inr st \<Rightarrow> put_blanks limit n st)
      else Inr st)"

definition put_padded :: "nat \<Rightarrow> 'a::zero list \<Rightarrow> ('a \<Rightarrow> u8) \<Rightarrow> u64 \<Rightarrow> out \<Rightarrow> fault + out" where
  "put_padded limit s f width st =
     (case put_string limit s f 0 st of Inl e \<Rightarrow> Inl e
      | Inr (st, count) \<Rightarrow> put_blanks limit (unat width - count) st)"

definition put_number :: "nat \<Rightarrow> fault + u8 list \<Rightarrow> out \<Rightarrow> fault + out" where
  "put_number limit r st =
     (case r of Inl e \<Rightarrow> Inl e
      | Inr s \<Rightarrow> (case put_string limit s id 0 st of Inl e \<Rightarrow> Inl e | Inr (st, _) \<Rightarrow> Inr st))"

definition null_string :: "'a::len word list" where
  "null_string = [0x3c, 0x6e, 0x75, 0x6c, 0x6c, 0x20, 0x73, 0x74, 0x72, 0x69, 0x6e, 0x67, 0x3e, 0]"

text \<open>One conversion: the byte of the format that selects it, flags, width, arguments.\<close>

definition convert ::
  "nat \<Rightarrow> u8 \<Rightarrow> u64 \<Rightarrow> u64 \<Rightarrow> va_arg list \<Rightarrow> out \<Rightarrow> fault + (out \<times> va_arg list)" where
  "convert limit c flags width marker st =
     (if c = 0x78 \<or> c = 0x58 then
        (case marker of Va_int value # marker \<Rightarrow>
           map_sum id (\<lambda>st. (st, marker))
             (put_number limit
               (value_to_mhex_string value (if c = 0x78 then flags OR LOWER_CASE else flags) width) st)
         | _ \<Rightarrow> Inl Bad_argument)
      else if c = 0x64 then
        (case marker of Va_int value # marker \<Rightarrow>
           map_sum id (\<lambda>st. (st, marker)) (put_number limit (value_to_string value flags width) st)
         | _ \<Rightarrow> Inl Bad_argument)
      else if c = 0x53 then
        (case marker of Va_unicode s # marker \<Rightarrow>
           map_sum id (\<lambda>st. (st, marker))
             (put_padded limit (case s of None \<Rightarrow> null_string | Some s \<Rightarrow> s) ucast width st)
         | _ \<Rightarrow> Inl Bad_argument)
      else if c = 0x73 \<or> c = 0x61 then
        (case marker of Va_ascii s # marker \<Rightarrow>
           map_sum id (\<lambda>st. (st, marker))
             (put_padded limit (case s of None \<Rightarrow> null_string | Some s \<Rightarrow> s) id width st)
         | _ \<Rightarrow> Inl Bad_argument)
      else if c = 0x63 then
        (case marker of Va_int value # marker \<Rightarrow>
           map_sum id (\<lambda>st. (st, marker)) (put_char (ucast value) st)
         | _ \<Rightarrow> Inl Bad_argument)
      else map_sum id (\<lambda>st. (st, marker)) (put_char c st))"

lemma get_flags_shorter:
  "get_flags_and_width flags width marker fmt = Inr (c # rest, flags', width', marker') \<Longrightarrow>
   length rest < length fmt"
proof (induction flags width marker fmt rule: get_flags_and_width.induct)
  case (2 flags width marker a fmt)
  obtain w r where w: "width_digits (ucast a - 0x30) fmt = (w, r)" by fastforce
  have lr: "length r < Suc (length fmt)" using width_digits_less [OF w [symmetric]] .
  note r = 2(8) and IH = 2(1-7)
  show ?case
  proof (cases "a \<in> {0x2d, 0x2b, 0x20, 0x2c, 0x4c, 0x6c}")
    case True
    then have "length rest < length fmt" using r IH(1-5) by auto
    then show ?thesis by simp
  next
    case nf: False
    show ?thesis
    proof (cases "a = 0x2a")
      case True
      then show ?thesis using r IH(6) by (auto split: list.splits va_arg.splits)
    next
      case False
      then show ?thesis using r IH(7) nf w lr by (auto split: if_splits)
    qed
  qed
qed simp


function vsnprintf_loop :: "nat \<Rightarrow> u8 list \<Rightarrow> va_arg list \<Rightarrow> out \<Rightarrow> fault + out" where
  "vsnprintf_loop limit [] marker st = Inl Format_overrun"
| "vsnprintf_loop limit (c # fmt) marker st =
     (if c \<noteq> 0 \<and> snd st < limit then
        (if c \<noteq> 0x25 then
           (case put_char c st of Inl e \<Rightarrow> Inl e | Inr st \<Rightarrow> vsnprintf_loop limit fmt marker st)
         else
           (case get_flags_and_width 0 0 marker fmt of Inl e \<Rightarrow> Inl e
            | Inr ([], flags, width, marker) \<Rightarrow> Inl Format_overrun
            | Inr (conv # rest, flags, width, marker) \<Rightarrow>
                (case convert limit conv flags width marker st of Inl e \<Rightarrow> Inl e
                 | Inr (st, marker) \<Rightarrow> vsnprintf_loop limit rest marker st)))
      else Inr st)"
  by pat_completeness auto
termination
  by (relation "measure (\<lambda>(limit, fmt, marker, st). length fmt)")
    (auto dest: get_flags_shorter intro: less_SucI)

text \<open>
  The result is the destination and the returned count, which includes the terminator. The
  bound of the loops is bufferLength - 1 in unsigned arithmetic.
\<close>

definition vsnprintf :: "u8 list \<Rightarrow> nat \<Rightarrow> u8 list \<Rightarrow> va_arg list \<Rightarrow> fault + out" where
  "vsnprintf dstBuffer bufferLength formatString marker =
     (case vsnprintf_loop (if bufferLength = 0 then 2 ^ 64 - 1 else bufferLength - 1)
             formatString marker (dstBuffer, 0) of
        Inl e \<Rightarrow> Inl e
      | Inr st \<Rightarrow> put_char 0 st)"

definition snprintf :: "u8 list \<Rightarrow> nat \<Rightarrow> u8 list \<Rightarrow> va_arg list \<Rightarrow> fault + out" where
  "snprintf dstBuffer bufferLength formatString arguments =
     vsnprintf dstBuffer bufferLength formatString arguments"

section \<open>The destination\<close>

text \<open>
  What every step keeps: the index does not pass the limit, and the bytes of the buffer from
  the limit on are untouched.
\<close>

definition out_inv :: "nat \<Rightarrow> u8 list \<Rightarrow> out \<Rightarrow> bool" where
  "out_inv limit dst0 st \<longleftrightarrow> snd st \<le> limit \<and> length (fst st) = length dst0 \<and>
     drop limit (fst st) = drop limit dst0"

definition safe :: "nat \<Rightarrow> u8 list \<Rightarrow> ('a \<Rightarrow> out) \<Rightarrow> fault + 'a \<Rightarrow> bool" where
  "safe limit dst0 f r \<longleftrightarrow> (case r of Inl e \<Rightarrow> e \<noteq> Buffer_overflow | Inr x \<Rightarrow> out_inv limit dst0 (f x))"

lemma put_char_safe:
  "out_inv limit dst0 st \<Longrightarrow> snd st < limit \<Longrightarrow> limit < length dst0 \<Longrightarrow>
   \<exists>st'. put_char c st = Inr st' \<and> out_inv limit dst0 st'"
  by (cases st) (auto simp: put_char_def out_inv_def)

lemma put_string_safe:
  "out_inv limit dst0 st \<Longrightarrow> limit < length dst0 \<Longrightarrow> safe limit dst0 fst (put_string limit s f count st)"
proof (induction limit s f count st rule: put_string.induct)
  case (2 limit c s f count st)
  show ?case
  proof (cases "c \<noteq> 0 \<and> snd st < limit")
    case True
    then obtain st' where "put_char (f c) st = Inr st'" "out_inv limit dst0 st'"
      using put_char_safe 2(2,3) by blast
    then show ?thesis using 2 True by (auto simp: safe_def)
  qed (use 2 in \<open>auto simp: safe_def\<close>)
qed (simp add: safe_def)

lemma put_blanks_safe:
  "out_inv limit dst0 st \<Longrightarrow> limit < length dst0 \<Longrightarrow> safe limit dst0 id (put_blanks limit n st)"
proof (induction limit n st rule: put_blanks.induct)
  case (2 limit n st)
  show ?case
  proof (cases "snd st < limit")
    case True
    then obtain st' where "put_char 0x20 st = Inr st'" "out_inv limit dst0 st'"
      using put_char_safe 2(2,3) by blast
    then show ?thesis using 2 True by (auto simp: safe_def)
  qed (use 2 in \<open>auto simp: safe_def\<close>)
qed (simp add: safe_def)

lemma put_padded_safe:
  "out_inv limit dst0 st \<Longrightarrow> limit < length dst0 \<Longrightarrow> safe limit dst0 id (put_padded limit s f width st)"
proof -
  assume a: "out_inv limit dst0 st" "limit < length dst0"
  show ?thesis
  proof (cases "put_string limit s f 0 st")
    case (Inl e)
    then show ?thesis using put_string_safe [OF a, of s f 0] by (simp add: put_padded_def safe_def)
  next
    case (Inr r)
    obtain st' count where "r = (st', count)" by (cases r)
    then show ?thesis using Inr put_string_safe [OF a, of s f 0] put_blanks_safe [of limit dst0 st'] a
      by (simp add: put_padded_def) (simp add: safe_def)
  qed
qed

lemma numbers_safe:
  "value_to_mhex_string value flags width \<noteq> Inl Buffer_overflow"
  "value_to_string value flags width \<noteq> Inl Buffer_overflow"
  by (simp_all add: value_to_mhex_string_def value_to_string_def Let_def)

lemma put_number_safe:
  "out_inv limit dst0 st \<Longrightarrow> limit < length dst0 \<Longrightarrow> r \<noteq> Inl Buffer_overflow \<Longrightarrow>
   safe limit dst0 id (put_number limit r st)"
  using put_string_safe [of limit dst0 st "projr r" id 0]
  by (auto simp: put_number_def safe_def split: sum.splits)

lemma convert_safe:
  assumes "out_inv limit dst0 st" and "snd st < limit" and "limit < length dst0"
  shows "safe limit dst0 fst (convert limit c flags width marker st)"
proof -
  have lift: "safe limit dst0 fst (map_sum id (\<lambda>st. (st, m)) r)" if "safe limit dst0 id r"
    for r and m :: "va_arg list"
    using that by (cases r) (simp_all add: safe_def)
  have put: "safe limit dst0 id (put_char x st)" for x
    using put_char_safe [OF assms, of x] by (auto simp: safe_def)
  show ?thesis unfolding convert_def
    by (auto intro!: lift put put_padded_safe [OF assms(1,3)] put_number_safe [OF assms(1,3)]
        simp: numbers_safe split: list.split va_arg.split)
      (simp_all add: safe_def)
qed

lemma get_flags_safe: "get_flags_and_width flags width marker fmt \<noteq> Inl Buffer_overflow"
proof (induction flags width marker fmt rule: get_flags_and_width.induct)
  case (2 flags width marker a fmt)
  obtain w r where w: "width_digits (ucast a - 0x30) fmt = (w, r)" by fastforce
  note IH = 2
  show ?case
  proof (cases "a = 0x2a")
    case True
    then show ?thesis using IH(6) by (auto split: list.split va_arg.split)
  next
    case False
    then show ?thesis using IH(1-5) IH(7) w by auto
  qed
qed simp

lemma vsnprintf_loop_safe:
  "out_inv limit dst0 st \<Longrightarrow> limit < length dst0 \<Longrightarrow>
   safe limit dst0 id (vsnprintf_loop limit fmt marker st)"
proof (induction limit fmt marker st rule: vsnprintf_loop.induct)
  case (2 limit c fmt marker st)
  show ?case
  proof (cases "c \<noteq> 0 \<and> snd st < limit")
    case go: True
    show ?thesis
    proof (cases "c = 0x25")
      case False
      obtain st' where "put_char c st = Inr st'" "out_inv limit dst0 st'"
        using put_char_safe go 2(3,4) by blast
      then show ?thesis using 2(1) [of st'] 2(4) go False by simp
    next
      case pc: True
      show ?thesis
      proof (cases "get_flags_and_width 0 0 marker fmt")
        case (Inl e)
        then show ?thesis using get_flags_safe [of 0 0 marker fmt] go pc by (auto simp: safe_def)
      next
        case (Inr r)
        obtain rs flags width m where r: "r = (rs, flags, width, m)" by (cases r)
        show ?thesis
        proof (cases rs)
          case Nil
          then show ?thesis using Inr r go pc by (simp add: safe_def)
        next
          case (Cons conv rest)
          note s = convert_safe [OF 2(3) _ 2(4), of conv flags width m]
          show ?thesis
          proof (cases "convert limit conv flags width m st")
            case (Inl e)
            then show ?thesis using s go pc Inr r Cons by (auto simp: safe_def)
          next
            case c: (Inr q)
            obtain st' m' where q: "q = (st', m')" by (cases q)
            have "out_inv limit dst0 st'" using s go c q by (simp add: safe_def)
            then show ?thesis
              using 2(2) [OF go _ Inr r [symmetric] Cons refl refl c q [symmetric]] 2(4) go pc Inr r Cons c q by simp
          qed
        qed
      qed
    qed
  qed (use 2 in \<open>auto simp: safe_def\<close>)
qed (simp add: safe_def)


section \<open>Hexadecimal\<close>

lemma upt_16: "[0..<16] = [0, 1, 2, 3, 4, 5, 6, 7, 8, 9, 10, 11, 12, 13, 14, 15]"
  by code_simp

lemma hex_char_digit:
  assumes "n < 16"
  shows "hex_digit (hex_char flags (of_nat n)) = Some (of_nat n)"
    and "\<not> isspace (hex_char flags (of_nat n))"
    and "hex_char flags (of_nat n) \<notin> {0, 0x78, 0x58}"
proof -
  have "n \<in> set [0..<16]" using assms by simp
  then have n: "n \<in> {0, 1, 2, 3, 4, 5, 6, 7, 8, 9, 10, 11, 12, 13, 14, 15}" unfolding upt_16 by simp
  show "hex_digit (hex_char flags (of_nat n)) = Some (of_nat n)"
    using n by (elim insertE emptyE) (simp_all add: hex_char_def hex_digit_def)
  show "\<not> isspace (hex_char flags (of_nat n))" "hex_char flags (of_nat n) \<notin> {0, 0x78, 0x58}"
    using n by (elim insertE emptyE; simp add: hex_char_def isspace_def)+
qed

lemma value_and_15: "(value :: u64) AND 0x0f = of_nat (unat value mod 16)"
proof -
  have "(0x0f :: u64) = mask 4" by (simp add: mask_eq_exp_minus_1)
  then have "unat (value AND 0x0f) = unat value mod 16" by (simp only: unat_and_mask) simp
  then show ?thesis by (metis of_nat_unat ucast_id)
qed

lemma hex_split: "drop_bit 4 value * 16 + of_nat (unat value mod 16) = (value :: u64)"
proof -
  have "unat value = unat (drop_bit 4 value) * 16 + unat value mod 16"
    unfolding unat_drop_bit by simp
  then have "of_nat (unat value) = (of_nat (unat (drop_bit 4 value) * 16 + unat value mod 16) :: u64)"
    by (rule arg_cong)
  then show ?thesis by simp
qed

lemma strtoul64_mhex:
  "strtoul64_digits 0 (rev (mhex_digits flags value) @ rest) = strtoul64_digits value rest"
proof (induction flags "value" arbitrary: rest rule: mhex_digits.induct)
  case (1 flags v)
  let ?d = "hex_char flags (of_nat (unat v mod 16))" and ?v = "drop_bit 4 v"
  have step: "strtoul64_digits n (?d # rest) = strtoul64_digits (n * 16 + of_nat (unat v mod 16)) rest" for n
    by (simp add: hex_char_digit)
  show ?case
  proof (cases "?v = 0")
    case True
    then have "v = of_nat (unat v mod 16)" using hex_split [of v] by simp
    then show ?thesis using True step [of 0]
      by (subst mhex_digits.simps) (simp add: value_and_15 del: of_nat_unat strtoul64_digits.simps)
  next
    case False
    then show ?thesis using 1 [OF refl False, of "?d # rest"] step [of ?v] hex_split [of v]
      by (subst mhex_digits.simps) (simp add: value_and_15 Let_def del: strtoul64_digits.simps)
  qed
qed

lemma mhex_digits_set:
  "set (mhex_digits flags value) \<subseteq> {hex_char flags (of_nat n) | n. n < 16}"
proof (induction flags "value" rule: mhex_digits.induct)
  case (1 flags v)
  have "hex_char flags (v AND 0x0f) \<in> {hex_char flags (of_nat n) | n. n < 16}"
    unfolding value_and_15 by (rule CollectI, rule exI [of _ "unat v mod 16"]) simp
  then show ?case using 1 by (subst mhex_digits.simps) (auto simp: Let_def)
qed

lemma mhex_digits_props:
  "mhex_digits flags value \<noteq> []"
  "c \<in> set (mhex_digits flags value) \<Longrightarrow> \<not> isspace c \<and> c \<noteq> 0 \<and> c \<noteq> 0x78 \<and> c \<noteq> 0x58"
proof -
  show "mhex_digits flags value \<noteq> []" by (subst mhex_digits.simps) simp
  show "c \<in> set (mhex_digits flags value) \<Longrightarrow> \<not> isspace c \<and> c \<noteq> 0 \<and> c \<noteq> 0x78 \<and> c \<noteq> 0x58"
    using mhex_digits_set [of flags "value"] hex_char_digit(2,3) [of _ flags] by fastforce
qed

lemma skip_space_append: "\<forall>c \<in> set xs. isspace c \<Longrightarrow> skip_space (xs @ ys) = skip_space ys"
  by (induction xs) auto

lemma base16_no_prefix:
  assumes "bs = c # s" and "\<not> isspace c" and "s \<noteq> []" and "\<forall>x \<in> set s. x \<noteq> 0x78 \<and> x \<noteq> 0x58"
  shows "strtoul64_base16 bs = strtoul64_digits 0 bs"
  using assms by (auto simp: strtoul64_base16_def split: list.split)

lemma strtoul64_zeros: "strtoul64_digits 0 (replicate k 0x30 @ rest) = strtoul64_digits 0 rest"
  by (induction k) (simp_all add: hex_digit_def)


lemma length_mhex: "unat v < 16 ^ Suc k \<Longrightarrow> length (mhex_digits flags v) \<le> Suc k"
proof (induction k arbitrary: v)
  case 0
  then have "drop_bit 4 v = 0" by (simp add: word_unat_eq_iff unat_drop_bit del: drop_bit_eq_div)
  then show ?case by (subst mhex_digits.simps) simp
next
  case (Suc k)
  have "unat (drop_bit 4 v) < 16 ^ Suc k"
    using Suc.prems unfolding unat_drop_bit by (simp add: less_mult_imp_div_less mult.commute)
  from Suc.IH [OF this] show ?case by (subst mhex_digits.simps) (simp add: Let_def)
qed

lemma length_mhex_16: "length (mhex_digits flags v) \<le> 16"
  using length_mhex [of v 15] unat_bound [of v] by simp

section \<open>Decimal\<close>

definition atoi_run :: "u64 \<Rightarrow> u8 list \<Rightarrow> u64 option" where
  "atoi_run acc bs = (case bs of [] \<Rightarrow> None | c # s \<Rightarrow> atoi_digits acc c s)"

lemma atoi_run_digit: "isdigit d \<Longrightarrow> atoi_run acc (d # bs) = atoi_run (acc * 10 + ucast d - 0x30) bs"
  by (simp add: atoi_run_def split: list.split)

lemma decimal_char:
  fixes v :: u64
  shows "isdigit (ucast (v mod 10 + 0x30))" and "ucast (ucast (v mod 10 + 0x30) :: u8) = v mod 10 + (0x30 :: u64)"
proof -
  define n where "n = unat v mod 10"
  have "unat (v mod 10) = n" by (simp add: unat_mod n_def)
  then have m: "v mod 10 = of_nat n" by (metis of_nat_unat ucast_id)
  have "n < 10" by (simp add: n_def)
  then have "ucast (v mod 10 + 0x30) = (of_nat (n + 48) :: u8)" and w: "v mod 10 + 0x30 = of_nat (n + 48)"
    using ucast_of_nat_small [of "n + 48", where 'a = 64 and 'b = 8] unfolding m by simp_all
  moreover have "isdigit (of_nat (n + 48))"
    using \<open>n < 10\<close> by (simp add: isdigit_def word_le_nat_alt unat_of_nat_small del: of_nat_add)
  moreover have "ucast (of_nat (n + 48) :: u8) = (of_nat (n + 48) :: u64)"
    using \<open>n < 10\<close> by (intro ucast_of_nat_small) simp
  ultimately show "isdigit (ucast (v mod 10 + 0x30))"
    "ucast (ucast (v mod 10 + 0x30) :: u8) = v mod 10 + (0x30 :: u64)" by simp_all
qed

lemma atoi_decimal:
  assumes "flags AND COMMA_TYPE \<noteq> COMMA_TYPE"
  shows "atoi_run 0 (rev (decimal_digits flags v n) @ rest) = atoi_run v rest"
  using assms
proof (induction flags v n arbitrary: rest rule: decimal_digits.induct)
  case (1 flags v n)
  let ?d = "ucast (v mod 10 + 0x30) :: u8"
  have step: "atoi_run acc (?d # rest) = atoi_run (acc * 10 + v mod 10) rest" for acc
    by (simp add: atoi_run_digit decimal_char)
  show ?case
  proof (cases "v div 10 = 0")
    case True
    then have "v mod 10 = v" using word_mod_div_equality [of v 10] by simp
    then show ?thesis using True step [of 0] 1(2) by (subst decimal_digits.simps) (simp add: Let_def)
  next
    case False
    have "v div 10 * 10 + v mod 10 = v" by (rule div_mult_mod_eq)
    then show ?thesis using 1(1) [OF refl refl refl False 1(2), of "?d # rest"] step [of "v div 10"] 1(2) False
      by (subst decimal_digits.simps) (simp add: Let_def)
  qed
qed

lemma length_decimal: "unat v < 10 ^ Suc k \<Longrightarrow> length (decimal_digits flags v n) \<le> 2 * Suc k"
proof (induction k arbitrary: v n)
  case 0
  then have "v div 10 = 0" by (simp add: word_unat_eq_iff unat_div)
  then show ?case by (subst decimal_digits.simps) (simp add: Let_def)
next
  case (Suc k)
  have "unat (v div 10) < 10 ^ Suc k"
    using Suc.prems by (simp add: unat_div less_mult_imp_div_less mult.commute)
  from Suc.IH [OF this, of "n + 1"] show ?case by (subst decimal_digits.simps) (simp add: Let_def)
qed

lemma length_decimal_40: "length (decimal_digits flags v n) \<le> 40"
  using length_decimal [of v 19 flags n] unat_bound [of v] by simp

lemma decimal_first:
  "flags AND COMMA_TYPE \<noteq> COMMA_TYPE \<Longrightarrow> d \<in> set (decimal_digits flags v n) \<Longrightarrow> isdigit d"
proof (induction flags v n rule: decimal_digits.induct)
  case (1 flags v n)
  show ?case using 1(3) 1(2) 1(1) [OF refl refl refl] decimal_char(1) [of v]
    by (subst (asm) decimal_digits.simps) (auto simp: Let_def split: if_splits)
qed


lemma not_isspace_digit: "isdigit d \<Longrightarrow> \<not> isspace d \<and> d \<noteq> 0x2b \<and> d \<noteq> 0x2d"
  by (auto simp: isdigit_def isspace_def)

lemma decimal_nonempty: "decimal_digits flags v n \<noteq> []"
  by (subst decimal_digits.simps) (simp add: Let_def)

lemma value_to_string_plain:
  "value_to_string v flags 0 =
     Inr (if sint v < 0 then 0x2d # rev (decimal_digits flags (- v) 0) @ [0] else rev (decimal_digits flags v 0) @ [0])"
  using length_decimal_40 [of flags v 0] length_decimal_40 [of flags "- v" 0]
  by (simp add: value_to_string_def Let_def)

lemma atoi64_minus: "atoi64 (0x2d # bs) = map_option uminus (atoi_run 0 bs)"
  by (simp add: atoi64_def isspace_def atoi_run_def split: list.split)

lemma atoi64_digit: "isdigit d \<Longrightarrow> atoi64 (d # bs) = atoi_run 0 (d # bs)"
  using not_isspace_digit [of d] by (simp add: atoi64_def atoi_run_def option.map_ident)

section \<open>Properties\<close>

text \<open>
  C35. With a buffer of at least bufferLength bytes, and bufferLength not zero, vsnprintf
  writes no byte past bufferLength, for every format and all arguments. When it returns,
  the count is between 1 and bufferLength, the byte before it is the terminator, and the
  bytes after bufferLength are as they were. It does not return when it faults elsewhere: when the format
  ends behind a percent sign, when an argument is missing or of the wrong kind, or when a width overruns the
  320 bytes of digits; then nothing is said of the terminator.
\<close>

theorem vsnprintf_bounded:
  assumes "0 < bufferLength" and "bufferLength \<le> length dst"
  shows "case vsnprintf dst bufferLength fmt marker of
      Inl e \<Rightarrow> e \<noteq> Buffer_overflow
    | Inr (dst', ret) \<Rightarrow> 1 \<le> ret \<and> ret \<le> bufferLength \<and> dst' ! (ret - 1) = 0 \<and>
        length dst' = length dst \<and> drop bufferLength dst' = drop bufferLength dst"
proof -
  let ?l = "bufferLength - 1"
  have l: "?l < length dst" "bufferLength = Suc ?l" using assms by auto
  have "out_inv ?l dst (dst, 0)" by (simp add: out_inv_def)
  then have s: "safe ?l dst id (vsnprintf_loop ?l fmt marker (dst, 0))"
    using l(1) by (rule vsnprintf_loop_safe)
  show ?thesis
  proof (cases "vsnprintf_loop ?l fmt marker (dst, 0)")
    case (Inl e)
    then show ?thesis using s assms(1) by (simp add: vsnprintf_def safe_def)
  next
    case (Inr st)
    obtain d i where st: "st = (d, i)" by (cases st)
    have i: "i \<le> ?l" "length d = length dst" "drop ?l d = drop ?l dst"
      using s Inr st by (simp_all add: safe_def out_inv_def)
    have "drop bufferLength d = drop bufferLength dst"
      using arg_cong [OF i(3), of "drop 1"] l(2) by (simp add: drop_drop)
    then show ?thesis using Inr st i l assms(1) by (auto simp: vsnprintf_def put_char_def)
  qed
qed

theorem vsnprintf_bounded_witness:
  "case vsnprintf [1, 2, 3, 4] 3 [0x25, 0x78, 0] [Va_int 0xabc] of
      Inl e \<Rightarrow> e \<noteq> Buffer_overflow
    | Inr (dst', ret) \<Rightarrow> 1 \<le> ret \<and> ret \<le> 3 \<and> dst' ! (ret - 1) = 0 \<and> length dst' = 4 \<and> drop 3 dst' = [4]"
proof -
  have d: "drop 3 [1, 2, 3, 4 :: u8] = [4]" "length [1, 2, 3, 4 :: u8] = 4" by simp_all
  have "(0 :: nat) < 3" "(3 :: nat) \<le> 4" by simp_all
  then show ?thesis
    using vsnprintf_bounded [of 3 "[1, 2, 3, 4]" "[0x25, 0x78, 0]" "[Va_int 0xabc]"] unfolding d by blast
qed

lemma vsnprintf_loop_plain:
  "0 \<notin> set s \<Longrightarrow> 0x25 \<notin> set s \<Longrightarrow> i + length s \<le> limit \<Longrightarrow> i + length s \<le> length dst \<Longrightarrow>
   vsnprintf_loop limit (s @ rest) marker (dst, i) =
     vsnprintf_loop limit rest marker (overlay dst i s, i + length s)"
  by (induction s arbitrary: dst i) (auto simp: put_char_def overlay_Cons)

lemma vsnprintf_loop_overflow:
  "0 \<notin> set s \<Longrightarrow> 0x25 \<notin> set s \<Longrightarrow> length dst < i + length s \<Longrightarrow> i \<le> length dst \<Longrightarrow> length dst < limit \<Longrightarrow>
   vsnprintf_loop limit (s @ rest) marker (dst, i) = Inl Buffer_overflow"
  by (induction s arbitrary: dst i) (auto simp: put_char_def)

lemma vsnprintf_unguarded_facts:
  shows "0 \<notin> set s \<and> 0x25 \<notin> set s \<and> length s < bufferLength - 1 \<and> bufferLength \<le> length dst \<Longrightarrow>
     vsnprintf dst bufferLength (s @ [0x25, 0]) marker = Inl Format_overrun"
    and "0 \<notin> set s \<and> 0x25 \<notin> set s \<and> length dst < length s \<and> length dst < 2 ^ 64 - 1 \<Longrightarrow>
     vsnprintf dst 0 (s @ [0]) marker = Inl Buffer_overflow"
proof -
  assume a: "0 \<notin> set s \<and> 0x25 \<notin> set s \<and> length s < bufferLength - 1 \<and> bufferLength \<le> length dst"
  let ?d = "overlay dst 0 s"
  have le: "length s \<le> length dst" using a by linarith
  then have "length ?d = length dst" by simp
  then have "vsnprintf_loop (bufferLength - 1) [0x25, 0] marker (?d, length s) = Inl Format_overrun"
    using a by (auto simp: isdigit_def convert_def put_char_def)
  moreover have "vsnprintf_loop (bufferLength - 1) (s @ [0x25, 0]) marker (dst, 0) =
      vsnprintf_loop (bufferLength - 1) [0x25, 0] marker (?d, length s)"
    using vsnprintf_loop_plain [of s 0 "bufferLength - 1" dst "[0x25, 0]" marker] a le
    by (simp del: vsnprintf_loop.simps)
  moreover have "bufferLength \<noteq> 0" using a by linarith
  ultimately show "vsnprintf dst bufferLength (s @ [0x25, 0]) marker = Inl Format_overrun"
    by (simp add: vsnprintf_def del: vsnprintf_loop.simps)
next
  assume "0 \<notin> set s \<and> 0x25 \<notin> set s \<and> length dst < length s \<and> length dst < 2 ^ 64 - 1"
  then show "vsnprintf dst 0 (s @ [0]) marker = Inl Buffer_overflow"
    by (simp add: vsnprintf_def vsnprintf_loop_overflow del: vsnprintf_loop.simps)
qed

text \<open>
  Two inputs that the code does not guard against: a format that ends with a percent
  sign makes vsnprintf read past the end of the format, and a bufferLength of zero turns
  its bound into the largest unsigned number, so that it writes past the buffer.
\<close>

theorem vsnprintf_unguarded:
  "(0 \<notin> set s \<and> 0x25 \<notin> set s \<and> length s < bufferLength - 1 \<and> bufferLength \<le> length dst \<longrightarrow>
     vsnprintf dst bufferLength (s @ [0x25, 0]) marker = Inl Format_overrun) \<and>
   (0 \<notin> set s \<and> 0x25 \<notin> set s \<and> length dst < length s \<and> length dst < 2 ^ 64 - 1 \<longrightarrow>
     vsnprintf dst 0 (s @ [0]) marker = Inl Buffer_overflow)"
  using vsnprintf_unguarded_facts(1) [of s bufferLength dst marker] vsnprintf_unguarded_facts(2) [of s dst marker]
  by blast

theorem vsnprintf_unguarded_witness:
  "vsnprintf [1, 2, 3, 4, 5] 5 [0x61, 0x25, 0] [] = Inl Format_overrun \<and>
   vsnprintf [1] 0 [0x61, 0x62, 0] [] = Inl Buffer_overflow"
  using vsnprintf_unguarded [of "[0x61]" 5 "[1, 2, 3, 4, 5]" "[]"]
    vsnprintf_unguarded [of "[0x61, 0x62]" 0 "[1]" "[]"] by (simp del: vsnprintf_loop.simps)

text \<open>
  Hexadecimal output reads back: the string that value_to_mhex_string makes for a value,
  padded to any admissible width with spaces or with zeros, is read by strtoul64_base16 as
  that value, up to the terminator; the conversion never leaves its buffers for a width
  below 320.
\<close>

theorem mhex_roundtrip:
  assumes "width = 0 \<or> length (mhex_digits flags v) \<le> unat width" and "unat width < 320"
    and "flags AND PREFIX_ZERO \<noteq> 0 \<or> flags AND LEFT_JUSTIFY = 0"
  shows "\<exists>s. value_to_mhex_string v flags width = Inr s \<and> strtoul64_base16 s = Some (v, [0])"
proof -
  let ?ds = "rev (mhex_digits flags v)"
  define p where "p = (if flags AND PREFIX_ZERO \<noteq> 0 then 0x30 else 0x20 :: u8)"
  define k where "k = unat width - length (mhex_digits flags v)"
  have s: "value_to_mhex_string v flags width = Inr (replicate k p @ ?ds @ [0])"
    using assms length_mhex_16 [of flags v]
    by (auto simp: value_to_mhex_string_def Let_def p_def k_def word_less_nat_alt rev_replicate)
  have fin: "strtoul64_digits 0 (?ds @ [0]) = Some (v, [0])"
    by (simp add: strtoul64_mhex hex_digit_def)
  obtain c cs where c: "?ds = c # cs" using mhex_digits_props(1) [of flags v] by (cases ?ds) auto
  have ok: "\<not> isspace x \<and> x \<noteq> 0x78 \<and> x \<noteq> 0x58" if "x \<in> set ?ds" for x
    using mhex_digits_props(2) [of x flags v] that by simp
  have base: "strtoul64_base16 (?ds @ [0]) = strtoul64_digits 0 (?ds @ [0])"
    using ok c by (intro base16_no_prefix [of _ c "cs @ [0]"]) auto
  have "strtoul64_base16 (replicate k p @ ?ds @ [0]) = Some (v, [0])"
  proof (cases "flags AND PREFIX_ZERO \<noteq> 0 \<and> 0 < k")
    case True
    then have "p = 0x30" "replicate k p = p # replicate (k - 1) p" by (cases k; simp add: p_def)+
    then have "strtoul64_base16 (replicate k p @ ?ds @ [0]) = strtoul64_digits 0 (replicate k p @ ?ds @ [0])"
      using ok by (intro base16_no_prefix [of _ p "replicate (k - 1) p @ ?ds @ [0]"])
        (auto simp: isspace_def)
    then show ?thesis using \<open>p = 0x30\<close> fin by (simp only: strtoul64_zeros)
  next
    case False
    then have "\<forall>x \<in> set (replicate k p). isspace x" by (auto simp: p_def isspace_def)
    then have "strtoul64_base16 (replicate k p @ ?ds @ [0]) = strtoul64_base16 (?ds @ [0])"
      by (simp add: strtoul64_base16_def skip_space_append)
    then show ?thesis using base fin by simp
  qed
  then show ?thesis using s by blast
qed

theorem mhex_roundtrip_witness:
  "\<exists>s. value_to_mhex_string 0xbeef PREFIX_ZERO 8 = Inr s \<and> strtoul64_base16 s = Some (0xbeef, [0])"
proof -
  have "length (mhex_digits PREFIX_ZERO 0xbeef) \<le> 8" by (simp add: mhex_digits.simps)
  then show ?thesis using mhex_roundtrip [of 8 PREFIX_ZERO "0xbeef"] by (simp add: PREFIX_ZERO_def)
qed

text \<open>
  Decimal output reads back: for every 64-bit value, the most negative one included, the
  string that value_to_string makes without commas and without a width is read by atoi64
  (and by atoi) as that value.
\<close>

theorem decimal_roundtrip:
  assumes "flags AND COMMA_TYPE \<noteq> COMMA_TYPE"
  shows "\<exists>s. value_to_string v flags 0 = Inr s \<and> atoi64 s = Some v \<and> atoi s = Some v"
proof (cases "sint v < 0")
  case True
  then have "value_to_string v flags 0 = Inr (0x2d # rev (decimal_digits flags (- v) 0) @ [0])"
    by (simp add: value_to_string_plain)
  moreover have "atoi64 (0x2d # rev (decimal_digits flags (- v) 0) @ [0]) = Some v"
    unfolding atoi64_minus atoi_decimal [OF assms] by (simp add: atoi_run_def isdigit_def)
  ultimately show ?thesis by (simp add: atoi_def)
next
  case False
  let ?s = "rev (decimal_digits flags v 0) @ [0]"
  obtain d ds where d: "rev (decimal_digits flags v 0) = d # ds"
    using decimal_nonempty [of flags v 0] by (cases "rev (decimal_digits flags v 0)") auto
  then have "isdigit d" using decimal_first [OF assms, of d v 0] by (metis list.set_intros(1) set_rev)
  then have "atoi64 ?s = atoi_run 0 ?s" unfolding d by (simp only: append_Cons atoi64_digit)
  also have "\<dots> = Some v" unfolding atoi_decimal [OF assms] by (simp add: atoi_run_def isdigit_def)
  finally show ?thesis using False by (simp add: value_to_string_plain atoi_def)
qed

theorem decimal_roundtrip_witness:
  "\<exists>s. value_to_string (- 9223372036854775808) 0 0 = Inr s \<and> atoi64 s = Some (- 9223372036854775808) \<and>
     atoi s = Some (- 9223372036854775808)"
  using decimal_roundtrip [of 0 "- 9223372036854775808"] by (simp add: COMMA_TYPE_def)

text \<open>
  Left-justified hexadecimal output with room to fill comes out empty: the fill is NUL
  bytes, and it is placed before the digits, so the string that vsnprintf copies ends at once.
\<close>

theorem mhex_left_justify_empty:
  assumes "length (mhex_digits flags v) < unat width" and "unat width < 320"
    and "flags AND PREFIX_ZERO = 0" and "flags AND LEFT_JUSTIFY \<noteq> 0"
  shows "\<exists>s. value_to_mhex_string v flags width = Inr s \<and> c_str s = []"
proof -
  define k where "k = unat width - length (mhex_digits flags v)"
  have "value_to_mhex_string v flags width = Inr (replicate k 0 @ rev (mhex_digits flags v) @ [0])"
    using assms length_mhex_16 [of flags v]
    by (auto simp: value_to_mhex_string_def Let_def k_def word_less_nat_alt rev_replicate)
  moreover have "0 < k" using assms(1) by (simp add: k_def)
  ultimately show ?thesis by (cases k) (auto simp: c_str_def)
qed

theorem mhex_left_justify_empty_witness:
  "\<exists>s. value_to_mhex_string 0xbeef LEFT_JUSTIFY 8 = Inr s \<and> c_str s = []"
proof -
  have "length (mhex_digits LEFT_JUSTIFY 0xbeef) < 8" by (simp add: mhex_digits.simps)
  then show ?thesis using mhex_left_justify_empty [of LEFT_JUSTIFY "0xbeef" 8]
    by (simp add: LEFT_JUSTIFY_def PREFIX_ZERO_def)
qed

end
