(* ===== verification/DeviceTree.thy ===== *)
theory DeviceTree
  imports CString "HOL-Library.Monad_Syntax"
begin

text \<open>
  The device tree that the boot loader hands to the kernel (DeviceTree.c): nodes and
  properties linked by pointers, carved from 4096-byte pool blocks and kept on free lists
  when they are not in use, and the flattened form. Nodes and properties live in two heaps,
  maps from addresses to records, with 0 for NULL; the bytes that a property value points
  to are in a third map. What the pool allocator has to offer is a list of blocks, address and
  size; a request fails at the end of the list and when the block is too small. The result None stands for a step that C leaves undefined
  (a write outside of a name, a read past the end of a string) or for a loop that does not end.
\<close>

section \<open>State\<close>

record DEVICE_TREE_PROPERTY =
  Name :: "u8 list"
  Length :: u32
  Value :: nat
  ValueBufferAllocated :: bool
  p_Next :: nat

record DEVICE_TREE_NODE =
  Properties :: nat
  LastProperty :: nat
  Children :: nat
  n_Next :: nat

record dev_tree =
  RootNode :: nat
  NextFreeNode :: nat
  AllocatedNodes :: nat
  NextFreeProperty :: nat
  AllocatedProperties :: nat
  TotalNodes :: u32
  TotalProperties :: u32
  TotalPropertiesSize :: u32
  node_at :: "nat \<Rightarrow> DEVICE_TREE_NODE"
  prop_at :: "nat \<Rightarrow> DEVICE_TREE_PROPERTY"
  bytes_at :: "nat \<Rightarrow> u8 list"
  pool_next :: "(nat \<times> nat) list"
  pool_freed :: "nat list"

definition zero_property :: DEVICE_TREE_PROPERTY where
  "zero_property = \<lparr>Name = replicate 32 0, Length = 0, Value = 0, ValueBufferAllocated = False, p_Next = 0\<rparr>"

definition zero_node :: DEVICE_TREE_NODE where
  "zero_node = \<lparr>Properties = 0, LastProperty = 0, Children = 0, n_Next = 0\<rparr>"

text \<open>The packed sizes of the two structures on a 64-bit machine.\<close>

definition sizeof_NODE :: nat where "sizeof_NODE = 32"
definition sizeof_PROPERTY :: nat where "sizeof_PROPERTY = 53"

definition upd_node :: "nat \<Rightarrow> (DEVICE_TREE_NODE \<Rightarrow> DEVICE_TREE_NODE) \<Rightarrow> dev_tree \<Rightarrow> dev_tree" where
  "upd_node a f h = h\<lparr>node_at := (node_at h)(a := f (node_at h a))\<rparr>"

definition upd_prop :: "nat \<Rightarrow> (DEVICE_TREE_PROPERTY \<Rightarrow> DEVICE_TREE_PROPERTY) \<Rightarrow> dev_tree \<Rightarrow> dev_tree" where
  "upd_prop a f h = h\<lparr>prop_at := (prop_at h)(a := f (prop_at h a))\<rparr>"

definition MmAllocatePool :: "nat \<Rightarrow> dev_tree \<Rightarrow> nat \<times> dev_tree" where
  "MmAllocatePool n h = (case pool_next h of [] \<Rightarrow> (0, h)
     | (a, sz) # bs \<Rightarrow> (if n \<le> sz then a else 0, h\<lparr>pool_next := bs\<rparr>))"

definition MmFreePool :: "nat \<Rightarrow> dev_tree \<Rightarrow> dev_tree" where
  "MmFreePool a h = h\<lparr>pool_freed := pool_freed h @ [a]\<rparr>"

section \<open>Properties\<close>

definition carve_property :: "nat \<Rightarrow> nat \<Rightarrow> dev_tree \<Rightarrow> dev_tree" where
  "carve_property page i h =
     (let a = page + i * sizeof_PROPERTY;
          h = upd_prop a (\<lambda>p. p\<lparr>p_Next := NextFreeProperty h\<rparr>) h
      in h\<lparr>NextFreeProperty := a\<rparr>)"

definition DevTreepGetProperty :: "dev_tree \<Rightarrow> nat \<times> dev_tree" where
  "DevTreepGetProperty h0 =
     (let (ok, h) =
        (if NextFreeProperty h0 = 0 then
           (let (page, h) = MmAllocatePool 4096 h0 in
            if page = 0 then (False, h)
            else
              let h = upd_prop page (\<lambda>p. p\<lparr>p_Next := AllocatedProperties h\<rparr>) h;
                  h = h\<lparr>AllocatedProperties := page\<rparr>;
                  h = upd_prop page (\<lambda>p. p\<lparr>Value := page, ValueBufferAllocated := True\<rparr>) h
              in (True, fold (carve_property page) [1..<4096 div sizeof_PROPERTY] h))
         else (True, h0))
      in if \<not> ok then (0, h)
         else
           let theProperty = NextFreeProperty h;
               h = h\<lparr>NextFreeProperty := p_Next (prop_at h theProperty)\<rparr>;
               h = upd_prop theProperty (\<lambda>_. zero_property) h
           in (theProperty, h\<lparr>TotalProperties := TotalProperties h + 1\<rparr>))"

definition DevTreepFreeProperty :: "nat \<Rightarrow> dev_tree \<Rightarrow> dev_tree" where
  "DevTreepFreeProperty theProperty h =
     (let h = (if ValueBufferAllocated (prop_at h theProperty)
               then MmFreePool (Value (prop_at h theProperty)) h else h);
          h = upd_prop theProperty (\<lambda>p. p\<lparr>p_Next := NextFreeProperty h\<rparr>) h;
          h = h\<lparr>NextFreeProperty := theProperty\<rparr>
      in h\<lparr>TotalProperties := TotalProperties h - 1\<rparr>)"

text \<open>The value of a new property: copied into a new buffer, or referred to.\<close>

datatype value_source = Copy "u8 list" | Refer nat

definition round4 :: "u32 \<Rightarrow> u32" where
  "round4 n = (n + 3) AND NOT 3"

definition set_value :: "nat \<Rightarrow> value_source \<Rightarrow> u32 \<Rightarrow> dev_tree \<Rightarrow> bool \<times> dev_tree" where
  "set_value theProperty propertyValue valueLength h = (case propertyValue of
     Copy v \<Rightarrow>
       (let (b, h) = MmAllocatePool (unat valueLength) h;
            h = upd_prop theProperty (\<lambda>p. p\<lparr>Value := b\<rparr>) h
        in if b = 0 then (False, h)
           else
             let h = h\<lparr>bytes_at := (bytes_at h)(b := take (unat valueLength) v)\<rparr>
             in (True, upd_prop theProperty (\<lambda>p. p\<lparr>ValueBufferAllocated := True\<rparr>) h))
   | Refer a \<Rightarrow>
       (True, upd_prop theProperty (\<lambda>p. p\<lparr>Value := a, ValueBufferAllocated := False\<rparr>) h))"

definition link_property :: "nat \<Rightarrow> nat \<Rightarrow> u32 \<Rightarrow> dev_tree \<Rightarrow> dev_tree" where
  "link_property theNode theProperty valueLength h =
     (let h = (if Properties (node_at h theNode) = 0
               then upd_node theNode (\<lambda>n. n\<lparr>Properties := theProperty\<rparr>) h
               else upd_prop (LastProperty (node_at h theNode)) (\<lambda>p. p\<lparr>p_Next := theProperty\<rparr>) h);
          h = upd_node theNode (\<lambda>n. n\<lparr>LastProperty := theProperty\<rparr>) h
      in h\<lparr>TotalPropertiesSize := TotalPropertiesSize h + round4 valueLength\<rparr>)"

definition DevTreeAddProperty ::
  "nat \<Rightarrow> u8 list \<Rightarrow> value_source \<Rightarrow> u32 \<Rightarrow> dev_tree \<Rightarrow> (EFI_STATUS \<times> dev_tree) option" where
  "DevTreeAddProperty theNode propertyName propertyValue valueLength h =
     (let (theProperty, h) = DevTreepGetProperty h in
      if theProperty = 0 then Some (EFI_OUT_OF_RESOURCES, h)
      else case strcpy (Name (prop_at h theProperty)) propertyName of None \<Rightarrow> None
      | Some nm \<Rightarrow>
        let h = upd_prop theProperty (\<lambda>p. p\<lparr>Name := nm, Length := valueLength\<rparr>) h;
            (ok, h) = set_value theProperty propertyValue valueLength h
        in if \<not> ok then Some (EFI_OUT_OF_RESOURCES, h)
           else Some (EFI_SUCCESS, link_property theNode theProperty valueLength h))"

section \<open>Nodes\<close>

definition carve_node :: "nat \<Rightarrow> nat \<Rightarrow> dev_tree \<Rightarrow> dev_tree" where
  "carve_node page i h =
     (let a = page + i * sizeof_NODE;
          h = upd_node a (\<lambda>n. n\<lparr>n_Next := NextFreeNode h\<rparr>) h
      in h\<lparr>NextFreeNode := a\<rparr>)"

definition DevTreepGetNode :: "dev_tree \<Rightarrow> nat \<times> dev_tree" where
  "DevTreepGetNode h0 =
     (let (ok, h) =
        (if NextFreeNode h0 = 0 then
           (let (page, h) = MmAllocatePool 4096 h0 in
            if page = 0 then (False, h)
            else
              let h = upd_node page (\<lambda>n. n\<lparr>n_Next := AllocatedNodes h\<rparr>) h;
                  h = h\<lparr>AllocatedNodes := page\<rparr>;
                  h = upd_node page (\<lambda>n. n\<lparr>Children := page\<rparr>) h
              in (True, fold (carve_node page) [1..<4096 div sizeof_NODE] h))
         else (True, h0))
      in if \<not> ok then (0, h)
         else
           let theNode = NextFreeNode h;
               h = h\<lparr>NextFreeNode := n_Next (node_at h theNode)\<rparr>;
               h = upd_node theNode (\<lambda>_. zero_node) h
           in (theNode, h\<lparr>TotalNodes := TotalNodes h + 1\<rparr>))"

partial_function (option) free_properties :: "nat \<Rightarrow> dev_tree \<Rightarrow> dev_tree option" where
  "free_properties theProperty h =
     (if theProperty = 0 then Some h
      else let theNextProperty = p_Next (prop_at h theProperty)
           in free_properties theNextProperty (DevTreepFreeProperty theProperty h))"

definition DevTreepFreeNode :: "nat \<Rightarrow> dev_tree \<Rightarrow> dev_tree option" where
  "DevTreepFreeNode theNode h =
     (case free_properties (Properties (node_at h theNode)) h of None \<Rightarrow> None
      | Some h \<Rightarrow>
        let h = upd_node theNode (\<lambda>n. n\<lparr>n_Next := NextFreeNode h\<rparr>) h;
            h = h\<lparr>NextFreeNode := theNode\<rparr>
        in Some (h\<lparr>TotalNodes := TotalNodes h - 1\<rparr>))"

definition name_string :: "u8 list" where "name_string = [0x6e, 0x61, 0x6d, 0x65, 0]"
definition null_name :: "u8 list" where "null_name = [0x28, 0x6e, 0x75, 0x6c, 0x6c, 0x29, 0]"

definition DevTreeAddChild :: "nat \<Rightarrow> u8 list \<Rightarrow> dev_tree \<Rightarrow> (nat \<times> dev_tree) option" where
  "DevTreeAddChild parentNode childName h =
     (let (theNode, h) = DevTreepGetNode h in
      if theNode = 0 then Some (0, h)
      else
        let h = (if parentNode \<noteq> 0 then
                   (let h = upd_node theNode (\<lambda>n. n\<lparr>n_Next := Children (node_at h parentNode)\<rparr>) h
                    in upd_node parentNode (\<lambda>n. n\<lparr>Children := theNode\<rparr>) h)
                 else h\<lparr>RootNode := theNode\<rparr>)
        in case strlen childName of None \<Rightarrow> None
           | Some len \<Rightarrow>
               (case DevTreeAddProperty theNode name_string (Copy childName) (of_nat (len + 1)) h of
                  None \<Rightarrow> None
                | Some (status, h) \<Rightarrow>
                    if \<not> EFI_ERROR status then Some (theNode, h)
                    else map_option (\<lambda>h. (0, h)) (DevTreepFreeNode theNode h)))"

definition DevTreeInitialize :: "dev_tree \<Rightarrow> (EFI_STATUS \<times> dev_tree) option" where
  "DevTreeInitialize h =
     (case DevTreeAddChild 0 [0x2f, 0] h of None \<Rightarrow> None
      | Some (n, h) \<Rightarrow> Some (if n = 0 then EFI_OUT_OF_RESOURCES else EFI_SUCCESS, h))"

section \<open>Lookup\<close>

partial_function (option) find_property :: "dev_tree \<Rightarrow> u8 list \<Rightarrow> nat \<Rightarrow> nat option" where
  "find_property h propertyName theProperty =
     (if theProperty = 0 then Some 0
      else case strcmp (Name (prop_at h theProperty)) propertyName of None \<Rightarrow> None
        | Some v \<Rightarrow> if v = 0 then Some theProperty
            else find_property h propertyName (p_Next (prop_at h theProperty)))"

definition DevTreeGetName :: "nat \<Rightarrow> dev_tree \<Rightarrow> u8 list option" where
  "DevTreeGetName theNode h =
     (case find_property h name_string (Properties (node_at h theNode)) of None \<Rightarrow> None
      | Some p \<Rightarrow> Some (if p = 0 then null_name else bytes_at h (Value (prop_at h p))))"

text \<open>The address of the value, or 0, and its length.\<close>

definition DevTreeGetProperty :: "nat \<Rightarrow> u8 list \<Rightarrow> dev_tree \<Rightarrow> (nat \<times> u32) option" where
  "DevTreeGetProperty theNode propertyName h =
     (case find_property h propertyName (Properties (node_at h theNode)) of None \<Rightarrow> None
      | Some p \<Rightarrow> Some (if p = 0 then (0, 0) else (Value (prop_at h p), Length (prop_at h p))))"

partial_function (option) find_child :: "dev_tree \<Rightarrow> u8 list \<Rightarrow> nat \<Rightarrow> nat option" where
  "find_child h nameBuffer childNode =
     (if childNode = 0 then Some 0
      else case DevTreeGetName childNode h of None \<Rightarrow> None
        | Some nm \<Rightarrow>
            (case strcmp nm nameBuffer of None \<Rightarrow> None
             | Some v \<Rightarrow> if v = 0 then Some childNode
                 else find_child h nameBuffer (n_Next (node_at h childNode))))"

text \<open>One path component: up to 32 bytes, and the path that is left.\<close>

fun skip_slashes :: "u8 list \<Rightarrow> u8 list" where
  "skip_slashes (c # s) = (if c = 0x2f then skip_slashes s else c # s)"
| "skip_slashes [] = []"

fun copy_component :: "nat \<Rightarrow> u8 list \<Rightarrow> (u8 list \<times> u8 list) option" where
  "copy_component 0 s = Some ([], s)"
| "copy_component (Suc n) [] = None"
| "copy_component (Suc n) (c # s) =
     (if c \<noteq> 0 \<and> c \<noteq> 0x2f then map_option (\<lambda>(nm, rest). (c # nm, rest)) (copy_component n s)
      else Some ([], c # s))"

lemma skip_slashes_le: "length (skip_slashes s) \<le> length s"
  by (induction s rule: skip_slashes.induct) auto

lemma copy_component_le:
  "copy_component n s = Some (nm, rest) \<Longrightarrow> length rest + length nm = length s"
  by (induction n s arbitrary: nm rest rule: copy_component.induct) (auto split: if_splits)

function find_from :: "nat \<Rightarrow> u8 list \<Rightarrow> bool \<Rightarrow> dev_tree \<Rightarrow> (nat \<times> dev_tree) option" where
  "find_from theNode nodePath createIfMissing h =
     (if theNode = 0 then Some (0, h)
      else case copy_component 32 (skip_slashes nodePath) of None \<Rightarrow> None
      | Some (nm, rest) \<Rightarrow>
        if nm = [] then Some (theNode, h)
        else
          let nameBuffer = nm @ replicate (32 - length nm) 0 in
          (case find_child h nameBuffer (Children (node_at h theNode)) of None \<Rightarrow> None
           | Some childNode \<Rightarrow>
               (case (if childNode = 0 \<and> createIfMissing then DevTreeAddChild theNode nameBuffer h
                      else Some (childNode, h)) of None \<Rightarrow> None
                | Some (childNode, h) \<Rightarrow> find_from childNode rest createIfMissing h)))"
  by pat_completeness auto
termination
proof (relation "measure (\<lambda>(n, s, c, h). length s)")
  fix theNode nodePath createIfMissing h nm rest x
  assume "copy_component 32 (skip_slashes nodePath) = Some x" "(nm, rest) = x" "nm \<noteq> []"
  then show "((n, rest, createIfMissing, h'), theNode, nodePath, createIfMissing, h)
      \<in> measure (\<lambda>(n, s, c, h). length s)" for n h'
    using copy_component_le [of 32 "skip_slashes nodePath" nm rest] skip_slashes_le [of nodePath]
    by (cases nm) auto
qed auto

declare find_from.simps [simp del]

definition DevTreeFindNode :: "u8 list \<Rightarrow> bool \<Rightarrow> dev_tree \<Rightarrow> (nat \<times> dev_tree) option" where
  "DevTreeFindNode nodePath createIfMissing h = find_from (RootNode h) nodePath createIfMissing h"


text \<open>
  The end of the tree: the pages are found through the first node and the first property of
  each, which are not used for anything else.
\<close>

partial_function (option) free_node_pages :: "nat \<Rightarrow> dev_tree \<Rightarrow> dev_tree option" where
  "free_node_pages theNode h =
     (if theNode = 0 then Some h
      else let theNextNode = n_Next (node_at h theNode)
           in free_node_pages theNextNode (MmFreePool (Children (node_at h theNode)) h))"

partial_function (option) free_property_pages :: "nat \<Rightarrow> dev_tree \<Rightarrow> dev_tree option" where
  "free_property_pages theProperty h =
     (if theProperty = 0 then Some h
      else let theNextProperty = p_Next (prop_at h theProperty)
           in free_property_pages theNextProperty (MmFreePool (Value (prop_at h theProperty)) h))"

definition DevTreeFinalize :: "dev_tree \<Rightarrow> dev_tree option" where
  "DevTreeFinalize h =
     (case free_node_pages (AllocatedNodes h) h of None \<Rightarrow> None
      | Some h \<Rightarrow>
        let h = h\<lparr>NextFreeNode := 0, AllocatedNodes := 0, RootNode := 0, TotalNodes := 0\<rparr> in
        (case free_property_pages (AllocatedProperties h) h of None \<Rightarrow> None
         | Some h \<Rightarrow> Some (h\<lparr>NextFreeProperty := 0, AllocatedProperties := 0,
             TotalPropertiesSize := 0, TotalProperties := 0\<rparr>)))"

section \<open>Flattening\<close>

text \<open>Writes into the flat buffer; None is a write outside of it.\<close>

definition write_at :: "nat \<Rightarrow> u8 list \<Rightarrow> u8 list \<Rightarrow> u8 list option" where
  "write_at off bs b = (if off + length bs \<le> length b then Some (overlay b off bs) else None)"

definition increment_at :: "nat \<Rightarrow> u8 list \<Rightarrow> u8 list option" where
  "increment_at off b = (if off + 4 \<le> length b then Some (overlay b off (put_le32 (le32 b off + 1))) else None)"

definition sizeof_NODE_FLATTEN :: nat where "sizeof_NODE_FLATTEN = 8"
definition sizeof_PROPERTY_FLATTEN :: nat where "sizeof_PROPERTY_FLATTEN = 36"

definition flatten_property :: "dev_tree \<Rightarrow> nat \<Rightarrow> nat \<Rightarrow> nat \<Rightarrow> u8 list \<Rightarrow> (u8 list \<times> nat) option" where
  "flatten_property h flatNode theProperty off b =
     (let p = prop_at h theProperty; v = bytes_at h (Value p) in
      if 0 \<notin> set (Name p) \<or> length v < unat (Length p) then None
      else do {
        b \<leftarrow> write_at off (c_str (Name p) @ [0]) b;
        b \<leftarrow> write_at (off + 32) (put_le32 (Length p)) b;
        let off = off + sizeof_PROPERTY_FLATTEN;
        b \<leftarrow> write_at off (take (unat (Length p)) v) b;
        let off = off + (unat (Length p) + 3) div 4 * 4;
        b \<leftarrow> increment_at flatNode b;
        Some (b, off)
      })"

partial_function (option) flatten_properties ::
  "dev_tree \<Rightarrow> nat \<Rightarrow> nat \<Rightarrow> nat \<Rightarrow> u8 list \<Rightarrow> (u8 list \<times> nat) option" where
  "flatten_properties h flatNode theProperty off b =
     (if theProperty = 0 then Some (b, off)
      else do {
        (b, off) \<leftarrow> flatten_property h flatNode theProperty off b;
        flatten_properties h flatNode (p_Next (prop_at h theProperty)) off b
      })"

text \<open>
  The loop over the children of the node at \<open>flatNode\<close> with the recursive call in it: every
  child puts its header, its properties and its own children.
\<close>

partial_function (option) flatten_children ::
  "dev_tree \<Rightarrow> nat \<Rightarrow> nat \<Rightarrow> nat \<Rightarrow> u8 list \<Rightarrow> (u8 list \<times> nat) option" where
  "flatten_children h flatNode childNode off b =
     (if childNode = 0 then Some (b, off)
      else do {
        (b, off') \<leftarrow> flatten_properties h off (Properties (node_at h childNode)) (off + sizeof_NODE_FLATTEN) b;
        (b, off') \<leftarrow> flatten_children h off (Children (node_at h childNode)) off' b;
        b \<leftarrow> increment_at (flatNode + 4) b;
        flatten_children h flatNode (n_Next (node_at h childNode)) off' b
      })"

definition DevTreepFlattenNode :: "dev_tree \<Rightarrow> nat \<Rightarrow> nat \<Rightarrow> u8 list \<Rightarrow> (u8 list \<times> nat) option" where
  "DevTreepFlattenNode h theNode off b =
     (if theNode = 0 then Some (b, off)
      else do {
        (b, off') \<leftarrow> flatten_properties h off (Properties (node_at h theNode)) (off + sizeof_NODE_FLATTEN) b;
        flatten_children h off (Children (node_at h theNode)) off' b
      })"

definition total_length :: "dev_tree \<Rightarrow> u32" where
  "total_length h = TotalNodes h * of_nat sizeof_NODE_FLATTEN +
     (TotalProperties h * of_nat sizeof_PROPERTY_FLATTEN + TotalPropertiesSize h)"

text \<open>
  The argument flattenBuffer: NULL, the address of a NULL pointer, or the address of a
  pointer to a buffer with these bytes. The result is the status, the buffer and the length.
\<close>

datatype flatten_arg = No_buffer | Allocate | Into "u8 list"

definition DevTreeFlatten ::
  "flatten_arg \<Rightarrow> dev_tree \<Rightarrow> ((EFI_STATUS \<times> u8 list option \<times> u32) \<times> dev_tree) option" where
  "DevTreeFlatten flattenBuffer h =
     (let totalLength = total_length h;
          n = unat totalLength;
          fill = (\<lambda>b h. if length b < n then None
            else case DevTreepFlattenNode h (RootNode h) 0 (overlay b 0 (replicate n 0)) of
              None \<Rightarrow> None
            | Some (b, _) \<Rightarrow> Some ((EFI_SUCCESS, Some b, totalLength), h))
      in case flattenBuffer of
           No_buffer \<Rightarrow> Some ((EFI_SUCCESS, None, totalLength), h)
         | Allocate \<Rightarrow>
             (if totalLength = 0 then Some ((EFI_SUCCESS, None, totalLength), h)
              else let (a, h) = MmAllocatePool n h in
                if a = 0 then Some ((EFI_OUT_OF_RESOURCES, None, 0), h) else fill (replicate n 0) h)
         | Into b \<Rightarrow> (if totalLength = 0 then Some ((EFI_SUCCESS, None, totalLength), h) else fill b h))"

end
