(* ===== verification/FreeLists.thy ===== *)
theory FreeLists
  imports Prelude
begin

text \<open>
  Linked lists on a heap, the contract of a free list that is carved from pages, and the
  promise of the pool that the pages come from. The device tree and the memory tags use
  the same scheme.
\<close>

section \<open>Linked lists\<close>

fun plist :: "(nat \<Rightarrow> nat) \<Rightarrow> nat \<Rightarrow> nat list \<Rightarrow> bool" where
  "plist nx p [] = (p = 0)"
| "plist nx p (a # as) = (p = a \<and> a \<noteq> 0 \<and> plist nx (nx a) as)"

lemma plist_nonzero: "plist nx p as \<Longrightarrow> 0 \<notin> set as"
  by (induction as arbitrary: p) auto

lemma plist_cong: "(\<And>a. a \<in> set as \<Longrightarrow> nx a = nx' a) \<Longrightarrow> plist nx p as = plist nx' p as"
  by (induction as arbitrary: p) auto

lemma plist_head: "plist nx p as \<Longrightarrow> p = (case as of [] \<Rightarrow> 0 | a # _ \<Rightarrow> a)"
  by (cases as) auto

lemma plist_snoc:
  "as \<noteq> [] \<Longrightarrow> plist nx p (as @ [a]) \<longleftrightarrow> plist (nx(last as := 0)) p as \<and> nx (last as) = a \<and> a \<noteq> 0 \<and> nx a = 0"
  if "distinct as"
  using that
proof (induction as arbitrary: p)
  case (Cons x xs)
  show ?case
  proof (cases xs)
    case Nil
    then show ?thesis by auto
  next
    case (Cons y ys)
    then have "last xs \<in> set xs" "last xs \<noteq> x" using Cons.prems by (metis last_in_set list.discI, auto)
    then show ?thesis using Cons.IH Cons.prems Cons by auto
  qed
qed simp

lemma plist_last: "plist nx p as \<Longrightarrow> as \<noteq> [] \<Longrightarrow> nx (last as) = 0"
  by (induction as arbitrary: p) auto

section \<open>Free lists carved from a page\<close>

locale free_list =
  fixes nxt :: "'h \<Rightarrow> nat \<Rightarrow> nat" and head :: "'h \<Rightarrow> nat"
    and carve :: "nat \<Rightarrow> nat \<Rightarrow> 'h \<Rightarrow> 'h" and sz :: nat
  assumes nxt_carve: "nxt (carve page i h) = (nxt h)(page + i * sz := head h)"
    and head_carve: "head (carve page i h) = page + i * sz"
    and sz_pos: "0 < sz"
begin

lemma carve_list:
  assumes "plist (nxt h) (head h) fl" and "page \<noteq> 0"
    and "\<forall>i < n. page + i * sz \<notin> set fl"
  shows "plist (nxt (fold (carve page) [1..<n] h)) (head (fold (carve page) [1..<n] h))
     (rev (map (\<lambda>i. page + i * sz) [1..<n]) @ fl)"
  using assms
proof (induction n)
  case (Suc n)
  show ?case
  proof (cases "1 \<le> n")
    case True
    let ?h = "fold (carve page) [1..<n] h"
    let ?l = "rev (map (\<lambda>i. page + i * sz) [1..<n]) @ fl"
    have "page + n * sz \<notin> set ?l" using Suc.prems(3) sz_pos by auto
    then have "plist (nxt (carve page n ?h)) (head ?h) ?l"
      using Suc by (subst plist_cong [of _ _ "nxt ?h"]) (auto simp: nxt_carve)
    then show ?thesis using True Suc.prems(2) by (simp add: head_carve nxt_carve fun_upd_def)
  qed (use Suc in simp)
qed simp

lemma nxt_carve_other:
  "\<forall>i < n. a \<noteq> page + i * sz \<Longrightarrow> nxt (fold (carve page) [1..<n] h) a = nxt h a"
  by (induction n) (auto simp: nxt_carve)

end

section \<open>What the pool promises\<close>

text \<open>
  The blocks that the pool will hand out do not overlap each other, and no address in use
  lies inside one of them.
\<close>

definition apart :: "nat \<times> nat \<Rightarrow> nat \<times> nat \<Rightarrow> bool" where
  "apart x y \<longleftrightarrow> fst x + snd x \<le> fst y \<or> fst y + snd y \<le> fst x"

definition pool_ok :: "nat set \<Rightarrow> (nat \<times> nat) list \<Rightarrow> bool" where
  "pool_ok used bs \<longleftrightarrow> sorted_wrt apart bs \<and>
     (\<forall>(a, s) \<in> set bs. 0 < a \<and> 0 < s \<and> (\<forall>u \<in> used. u < a \<or> a + s \<le> u))"

lemma pool_ok_mono: "pool_ok used bs \<Longrightarrow> used' \<subseteq> used \<Longrightarrow> pool_ok used' bs"
  unfolding pool_ok_def by blast

lemma pool_ok_tl: "pool_ok used (b # bs) \<Longrightarrow> pool_ok used bs"
  by (simp add: pool_ok_def)

lemma pool_ok_Un: "pool_ok (A \<union> B) bs \<longleftrightarrow> pool_ok A bs \<and> pool_ok B bs"
  by (auto simp: pool_ok_def)

lemma pool_ok_take:
  assumes "pool_ok used ((a, s) # bs)" and "\<forall>x \<in> new. a \<le> x \<and> x < a + s"
  shows "pool_ok (used \<union> new) bs" and "used \<inter> new = {}"
proof -
  have "u < b \<or> b + r \<le> u" if "(b, r) \<in> set bs" "u \<in> new" for b r u
    using assms that by (fastforce simp: pool_ok_def apart_def)
  then show "pool_ok (used \<union> new) bs" using assms(1) by (auto simp: pool_ok_def)
  show "used \<inter> new = {}" using assms by (fastforce simp: pool_ok_def)
qed

lemma page_inside:
  assumes "i < 4096 div s"
  shows "i * s < (4096 :: nat)"
proof -
  have "i * s < 4096 div s * s" using assms by (cases "s = 0") auto
  also have "\<dots> \<le> 4096" by simp
  finally show ?thesis .
qed

end
