(* ===== verification/DeviceTreeInv.thy ===== *)
theory DeviceTreeInv
  imports DeviceTree FreeLists "HOL-Library.Multiset"
begin

text \<open>
  The pointers of the device tree refine a tree: an invariant relates the heaps to a tree of
  addresses, with the free lists, the totals and the blocks that the pool still has, and the
  operations keep it. On top of it, what the operations do to the tree, that flattening fills
  exactly the buffer whose size the totals give, and that the flat form can be read back.
\<close>

section \<open>The two free lists\<close>

abbreviation nN :: "dev_tree \<Rightarrow> nat \<Rightarrow> nat" where "nN h \<equiv> \<lambda>a. n_Next (node_at h a)"
abbreviation pN :: "dev_tree \<Rightarrow> nat \<Rightarrow> nat" where "pN h \<equiv> \<lambda>a. p_Next (prop_at h a)"

interpretation node_list: free_list nN NextFreeNode carve_node sizeof_NODE
  by unfold_locales (auto simp: carve_node_def upd_node_def Let_def sizeof_NODE_def)

interpretation prop_list: free_list pN NextFreeProperty carve_property sizeof_PROPERTY
  by unfold_locales (auto simp: carve_property_def upd_prop_def Let_def sizeof_PROPERTY_def)


lemma carve_node_frame [simp]:
  "RootNode (fold (carve_node page) ks h) = RootNode h"
  "prop_at (fold (carve_node page) ks h) = prop_at h" "bytes_at (fold (carve_node page) ks h) = bytes_at h"
  "pool_next (fold (carve_node page) ks h) = pool_next h"
  "NextFreeProperty (fold (carve_node page) ks h) = NextFreeProperty h"
  "TotalNodes (fold (carve_node page) ks h) = TotalNodes h"
  "TotalProperties (fold (carve_node page) ks h) = TotalProperties h"
  "TotalPropertiesSize (fold (carve_node page) ks h) = TotalPropertiesSize h"
  by (induction ks arbitrary: h) (simp_all add: carve_node_def upd_node_def Let_def)

lemma carve_node_other:
  "\<forall>i \<in> set ks. a \<noteq> page + i * sizeof_NODE \<Longrightarrow> node_at (fold (carve_node page) ks h) a = node_at h a"
  by (induction ks arbitrary: h) (simp_all add: carve_node_def upd_node_def Let_def)

lemma carve_property_frame [simp]:
  "RootNode (fold (carve_property page) ks h) = RootNode h"
  "node_at (fold (carve_property page) ks h) = node_at h" "bytes_at (fold (carve_property page) ks h) = bytes_at h"
  "pool_next (fold (carve_property page) ks h) = pool_next h"
  "NextFreeNode (fold (carve_property page) ks h) = NextFreeNode h"
  "TotalNodes (fold (carve_property page) ks h) = TotalNodes h"
  "TotalProperties (fold (carve_property page) ks h) = TotalProperties h"
  "TotalPropertiesSize (fold (carve_property page) ks h) = TotalPropertiesSize h"
  by (induction ks arbitrary: h) (simp_all add: carve_property_def upd_prop_def Let_def)

lemma carve_property_other:
  "\<forall>i \<in> set ks. a \<noteq> page + i * sizeof_PROPERTY \<Longrightarrow> prop_at (fold (carve_property page) ks h) a = prop_at h a"
  by (induction ks arbitrary: h) (simp_all add: carve_property_def upd_prop_def Let_def)

section \<open>Taking a property and a node\<close>

definition same_but_props :: "dev_tree \<Rightarrow> dev_tree \<Rightarrow> bool" where
  "same_but_props h h' \<longleftrightarrow> RootNode h' = RootNode h \<and> node_at h' = node_at h \<and> bytes_at h' = bytes_at h \<and>
     NextFreeNode h' = NextFreeNode h \<and> TotalNodes h' = TotalNodes h \<and>
     TotalPropertiesSize h' = TotalPropertiesSize h"

lemma DevTreepGetProperty_ok:
  assumes "plist (pN h) (NextFreeProperty h) fp" and "distinct fp" and "live \<inter> set fp = {}"
    and "pool_ok U (pool_next h)" and "DevTreepGetProperty h = (a, h')" and "a \<noteq> 0"
    and "live \<union> set fp \<subseteq> U"
  shows "\<exists>fp'. plist (pN h') (NextFreeProperty h') fp' \<and> distinct (a # fp') \<and>
     live \<inter> set (a # fp') = {} \<and> pool_ok (U \<union> set (a # fp')) (pool_next h') \<and>
     prop_at h' a = zero_property \<and> (\<forall>x \<in> live. prop_at h' x = prop_at h x) \<and>
     same_but_props h h' \<and> TotalProperties h' = TotalProperties h + 1"
proof (cases fp)
  case (Cons b fp')
  then have "NextFreeProperty h = b" "b \<noteq> 0" "plist (pN h) (p_Next (prop_at h b)) fp'" using assms(1) by auto
  then have h': "a = b" "h' = h\<lparr>NextFreeProperty := p_Next (prop_at h b),
      prop_at := (prop_at h)(b := zero_property), TotalProperties := TotalProperties h + 1\<rparr>"
    using assms(5) by (auto simp: DevTreepGetProperty_def upd_prop_def Let_def)
  have "plist (pN h') (p_Next (prop_at h b)) fp'"
    using \<open>plist (pN h) (p_Next (prop_at h b)) fp'\<close> Cons assms(2) h'
    by (subst plist_cong [of _ _ "pN h"]) auto
  moreover have "U \<union> set (b # fp') = U" using assms(7) Cons by auto
  ultimately show ?thesis using h' Cons assms(2,3,4)
    by (intro exI [of _ fp']) (auto simp: same_but_props_def)
next
  case Nil
  then have free0: "NextFreeProperty h = 0" using assms(1) by simp
  obtain page s bs where pool: "pool_next h = (page, s) # bs" "4096 \<le> s" "page \<noteq> 0"
    using assms(5,6) free0
    by (cases "pool_next h") (auto simp: DevTreepGetProperty_def MmAllocatePool_def Let_def split: if_splits)
  let ?is = "[1..<4096 div sizeof_PROPERTY]"
  let ?addr = "\<lambda>i. page + i * sizeof_PROPERTY"
  define h1 where "h1 = h\<lparr>pool_next := bs, AllocatedProperties := page,
      prop_at := (prop_at h)(page := (prop_at h page)\<lparr>p_Next := AllocatedProperties h, Value := page,
        ValueBufferAllocated := True\<rparr>)\<rparr>"
  define h2 where "h2 = fold (carve_property page) ?is h1"
  define new where "new = rev (map ?addr ?is)"
  have new_in: "\<forall>x \<in> set (page # new). page \<le> x \<and> x < page + s"
    using page_inside [of _ sizeof_PROPERTY] pool(2) by (fastforce simp: new_def)
  note fresh = pool_ok_take [OF assms(4) [unfolded pool(1)] new_in]
  have "plist (pN h2) (NextFreeProperty h2) new"
    using prop_list.carve_list [of h1 "[]" page "4096 div sizeof_PROPERTY"] pool(3) free0
    by (simp add: h1_def h2_def new_def)
  moreover have "distinct new" by (simp add: new_def distinct_map inj_on_def sizeof_PROPERTY_def)
  moreover obtain fp' where new: "new = hd new # fp'" by (cases new) (simp_all add: new_def sizeof_PROPERTY_def)
  ultimately have l: "NextFreeProperty h2 = hd new" "plist (pN h2) (p_Next (prop_at h2 (hd new))) fp'"
    "distinct (hd new # fp')" by (metis plist.simps(2))+
  have h': "a = hd new" "h' = h2\<lparr>NextFreeProperty := p_Next (prop_at h2 a),
      prop_at := (prop_at h2)(a := zero_property), TotalProperties := TotalProperties h2 + 1\<rparr>"
    using assms(5) free0 pool l(1)
    by (auto simp: DevTreepGetProperty_def MmAllocatePool_def upd_prop_def Let_def h1_def h2_def)
  have "plist (pN h') (p_Next (prop_at h2 a)) fp'"
    using l(2,3) h' by (subst plist_cong [of _ _ "pN h2"]) auto
  moreover have "prop_at h2 x = prop_at h x" if "x \<in> live" for x
  proof -
    have "x \<notin> set (page # new)" using fresh(2) that assms(7) by blast
    then show ?thesis using carve_property_other [of ?is x page h1]
      by (auto simp: h2_def h1_def new_def)
  qed
  moreover have "pool_ok (U \<union> set (a # fp')) (pool_next h')"
  proof (rule pool_ok_mono)
    show "pool_ok (U \<union> set (page # new)) (pool_next h')" using fresh(1) h' by (simp add: h2_def h1_def)
    show "U \<union> set (a # fp') \<subseteq> U \<union> set (page # new)" using new h'(1) by auto
  qed
  moreover have "same_but_props h h2" "TotalProperties h2 = TotalProperties h"
    by (simp_all add: same_but_props_def h2_def h1_def)
  moreover have "live \<inter> set (a # fp') = {}" using fresh(2) new h'(1) assms(7) by auto
  ultimately show ?thesis using l(3) unfolding h'
    by (intro exI [of _ fp']) (auto simp: same_but_props_def)
qed

definition same_but_nodes :: "dev_tree \<Rightarrow> dev_tree \<Rightarrow> bool" where
  "same_but_nodes h h' \<longleftrightarrow> RootNode h' = RootNode h \<and> prop_at h' = prop_at h \<and> bytes_at h' = bytes_at h \<and>
     NextFreeProperty h' = NextFreeProperty h \<and> TotalProperties h' = TotalProperties h \<and>
     TotalPropertiesSize h' = TotalPropertiesSize h"

lemma DevTreepGetNode_ok:
  assumes "plist (nN h) (NextFreeNode h) fn" and "distinct fn" and "live \<inter> set fn = {}"
    and "pool_ok U (pool_next h)" and "DevTreepGetNode h = (a, h')" and "a \<noteq> 0"
    and "live \<union> set fn \<subseteq> U"
  shows "\<exists>fn'. plist (nN h') (NextFreeNode h') fn' \<and> distinct (a # fn') \<and>
     live \<inter> set (a # fn') = {} \<and> pool_ok (U \<union> set (a # fn')) (pool_next h') \<and>
     node_at h' a = zero_node \<and> (\<forall>x \<in> live. node_at h' x = node_at h x) \<and>
     same_but_nodes h h' \<and> TotalNodes h' = TotalNodes h + 1"
proof (cases fn)
  case (Cons b fn')
  then have "NextFreeNode h = b" "b \<noteq> 0" "plist (nN h) (n_Next (node_at h b)) fn'" using assms(1) by auto
  then have h': "a = b" "h' = h\<lparr>NextFreeNode := n_Next (node_at h b),
      node_at := (node_at h)(b := zero_node), TotalNodes := TotalNodes h + 1\<rparr>"
    using assms(5) by (auto simp: DevTreepGetNode_def upd_node_def Let_def)
  have "plist (nN h') (n_Next (node_at h b)) fn'"
    using \<open>plist (nN h) (n_Next (node_at h b)) fn'\<close> Cons assms(2) h'
    by (subst plist_cong [of _ _ "nN h"]) auto
  moreover have "U \<union> set (b # fn') = U" using assms(7) Cons by auto
  ultimately show ?thesis using h' Cons assms(2,3,4)
    by (intro exI [of _ fn']) (auto simp: same_but_nodes_def)
next
  case Nil
  then have free0: "NextFreeNode h = 0" using assms(1) by simp
  obtain page s bs where pool: "pool_next h = (page, s) # bs" "4096 \<le> s" "page \<noteq> 0"
    using assms(5,6) free0
    by (cases "pool_next h") (auto simp: DevTreepGetNode_def MmAllocatePool_def Let_def split: if_splits)
  let ?is = "[1..<4096 div sizeof_NODE]"
  let ?addr = "\<lambda>i. page + i * sizeof_NODE"
  define h1 where "h1 = h\<lparr>pool_next := bs, AllocatedNodes := page,
      node_at := (node_at h)(page := (node_at h page)\<lparr>n_Next := AllocatedNodes h, Children := page\<rparr>)\<rparr>"
  define h2 where "h2 = fold (carve_node page) ?is h1"
  define new where "new = rev (map ?addr ?is)"
  have new_in: "\<forall>x \<in> set (page # new). page \<le> x \<and> x < page + s"
    using page_inside [of _ sizeof_NODE] pool(2) by (fastforce simp: new_def)
  note fresh = pool_ok_take [OF assms(4) [unfolded pool(1)] new_in]
  have "plist (nN h2) (NextFreeNode h2) new"
    using node_list.carve_list [of h1 "[]" page "4096 div sizeof_NODE"] pool(3) free0
    by (simp add: h1_def h2_def new_def)
  moreover have "distinct new" by (simp add: new_def distinct_map inj_on_def sizeof_NODE_def)
  moreover obtain fn' where new: "new = hd new # fn'" by (cases new) (simp_all add: new_def sizeof_NODE_def)
  ultimately have l: "NextFreeNode h2 = hd new" "plist (nN h2) (n_Next (node_at h2 (hd new))) fn'"
    "distinct (hd new # fn')" by (metis plist.simps(2))+
  have h': "a = hd new" "h' = h2\<lparr>NextFreeNode := n_Next (node_at h2 a),
      node_at := (node_at h2)(a := zero_node), TotalNodes := TotalNodes h2 + 1\<rparr>"
    using assms(5) free0 pool l(1)
    by (auto simp: DevTreepGetNode_def MmAllocatePool_def upd_node_def Let_def h1_def h2_def)
  have "plist (nN h') (n_Next (node_at h2 a)) fn'"
    using l(2,3) h' by (subst plist_cong [of _ _ "nN h2"]) auto
  moreover have "node_at h2 x = node_at h x" if "x \<in> live" for x
  proof -
    have "x \<notin> set (page # new)" using fresh(2) that assms(7) by blast
    then show ?thesis using carve_node_other [of ?is x page h1]
      by (auto simp: h2_def h1_def new_def)
  qed
  moreover have "pool_ok (U \<union> set (a # fn')) (pool_next h')"
  proof (rule pool_ok_mono)
    show "pool_ok (U \<union> set (page # new)) (pool_next h')" using fresh(1) h' by (simp add: h2_def h1_def)
    show "U \<union> set (a # fn') \<subseteq> U \<union> set (page # new)" using new h'(1) by auto
  qed
  moreover have "same_but_nodes h h2" "TotalNodes h2 = TotalNodes h"
    by (simp_all add: same_but_nodes_def h2_def h1_def)
  moreover have "live \<inter> set (a # fn') = {}" using fresh(2) new h'(1) assms(7) by auto
  ultimately show ?thesis using l(3) unfolding h'
    by (intro exI [of _ fn']) (auto simp: same_but_nodes_def)
qed

section \<open>The tree of addresses\<close>

datatype atree = ANode (a_addr: nat) (a_props: "nat list") (a_kids: "atree list")

fun nodes :: "atree \<Rightarrow> nat list" where
  "nodes (ANode n ps cs) = n # concat (map nodes cs)"

fun props :: "atree \<Rightarrow> nat list" where
  "props (ANode n ps cs) = ps @ concat (map props cs)"

definition prop_ok :: "dev_tree \<Rightarrow> nat \<Rightarrow> bool" where
  "prop_ok h p \<longleftrightarrow> length (Name (prop_at h p)) = 32 \<and> 0 \<in> set (Name (prop_at h p)) \<and>
     unat (Length (prop_at h p)) \<le> length (bytes_at h (Value (prop_at h p)))"

fun tree_rel :: "dev_tree \<Rightarrow> atree \<Rightarrow> bool" where
  "tree_rel h (ANode n ps cs) \<longleftrightarrow>
     plist (pN h) (Properties (node_at h n)) ps \<and>
     (ps \<noteq> [] \<longrightarrow> LastProperty (node_at h n) = last ps) \<and> (\<forall>p \<in> set ps. prop_ok h p) \<and>
     plist (nN h) (Children (node_at h n)) (map a_addr cs) \<and> (\<forall>c \<in> set cs. tree_rel h c)"

lemma a_addr_in_nodes [simp]: "a_addr t \<in> set (nodes t)"
  by (cases t) simp

lemma tree_rel_frame:
  assumes "tree_rel h t"
    and "\<And>n. n \<in> set (nodes t) \<Longrightarrow> Properties (node_at h' n) = Properties (node_at h n) \<and>
       LastProperty (node_at h' n) = LastProperty (node_at h n) \<and> Children (node_at h' n) = Children (node_at h n)"
    and "\<And>n. n \<in> set (nodes t) - {a_addr t} \<Longrightarrow> n_Next (node_at h' n) = n_Next (node_at h n)"
    and "\<And>p. p \<in> set (props t) \<Longrightarrow> p_Next (prop_at h' p) = p_Next (prop_at h p) \<and> prop_ok h' p"
    and "distinct (nodes t)"
  shows "tree_rel h' t"
  using assms
proof (induction t)
  case (ANode n ps cs)
  have kids: "a_addr c \<in> set (nodes (ANode n ps cs)) - {n}" if "c \<in> set cs" for c
    using that ANode.prems(5) a_addr_in_nodes [of c] by (auto simp del: a_addr_in_nodes)
  have "plist (nN h') (Children (node_at h' n)) (map a_addr cs)"
    using ANode.prems(1,2,3) kids by (subst plist_cong [of _ _ "nN h"]) auto
  moreover have "plist (pN h') (Properties (node_at h' n)) ps"
    using ANode.prems(1,2,4) by (subst plist_cong [of _ _ "pN h"]) auto
  moreover have "tree_rel h' c" if c: "c \<in> set cs" for c
  proof (rule ANode.IH [OF c])
    have sub: "m \<in> set (nodes (ANode n ps cs)) - {n}" if "m \<in> set (nodes c)" for m
      using that c ANode.prems(5) by auto
    show "tree_rel h c" using ANode.prems(1) c by simp
    show "distinct (nodes c)" using ANode.prems(5) c by (auto simp: distinct_concat_iff)
    fix m assume "m \<in> set (nodes c)"
    then show "Properties (node_at h' m) = Properties (node_at h m) \<and>
       LastProperty (node_at h' m) = LastProperty (node_at h m) \<and> Children (node_at h' m) = Children (node_at h m)"
      using ANode.prems(2) sub by blast
  next
    have sub: "m \<in> set (nodes (ANode n ps cs)) - {n}" if "m \<in> set (nodes c)" for m
      using that c ANode.prems(5) by auto
    show "n_Next (node_at h' m) = n_Next (node_at h m)" if "m \<in> set (nodes c) - {a_addr c}" for m
      using that ANode.prems(3) [of m] sub [of m] by simp
    show "p_Next (prop_at h' p) = p_Next (prop_at h p) \<and> prop_ok h' p" if "p \<in> set (props c)" for p
      using that ANode.prems(4) [of p] c by auto
  qed
  ultimately show ?case using ANode.prems by simp
qed


fun add_prop :: "nat \<Rightarrow> nat \<Rightarrow> atree \<Rightarrow> atree" where
  "add_prop n p (ANode m ps cs) = (if m = n then ANode m (ps @ [p]) cs else ANode m ps (map (add_prop n p) cs))"

fun add_kid :: "nat \<Rightarrow> atree \<Rightarrow> atree \<Rightarrow> atree" where
  "add_kid n k (ANode m ps cs) = (if m = n then ANode m ps (k # cs) else ANode m ps (map (add_kid n k) cs))"

lemma a_addr_add [simp]: "a_addr (add_prop n p t) = a_addr t" "a_addr (add_kid n k t) = a_addr t"
  by (cases t; simp)+

lemma add_other: "n \<notin> set (nodes t) \<Longrightarrow> add_prop n p t = t \<and> add_kid n k t = t"
  by (induction t) (auto simp: map_idI)

lemma nodes_add_prop [simp]: "nodes (add_prop n p t) = nodes t"
  by (induction t) (simp add: o_def cong: map_cong)

text \<open>In a tree with distinct addresses a node below the root lies under exactly one child.\<close>

lemma child_of:
  assumes "n \<in> set (nodes (ANode m ps cs))" and "distinct (nodes (ANode m ps cs))" and "m \<noteq> n"
  obtains xs c ys where "cs = xs @ c # ys" and "n \<in> set (nodes c)" and "distinct (nodes c)"
    and "map (add_kid n k) cs = xs @ add_kid n k c # ys" and "map (add_prop n p) cs = xs @ add_prop n p c # ys"
    and "\<And>d. d \<in> set xs \<union> set ys \<Longrightarrow> n \<notin> set (nodes d)"
proof -
  obtain c where c: "c \<in> set cs" "n \<in> set (nodes c)" using assms(1,3) by auto
  then obtain xs ys where cs: "cs = xs @ c # ys" by (metis split_list)
  have out: "n \<notin> set (nodes d)" if "d \<in> set xs \<union> set ys" for d
    using assms(2) c(2) that unfolding cs by fastforce
  then have "map (add_kid n k) xs = xs" "map (add_kid n k) ys = ys"
    "map (add_prop n p) xs = xs" "map (add_prop n p) ys = ys"
    by (auto intro!: map_idI simp: add_other)
  moreover have "distinct (nodes c)" using assms(2) unfolding cs by simp
  ultimately show ?thesis using that [OF cs c(2)] out unfolding cs by simp
qed

lemma add_kid_nodes:
  "n \<in> set (nodes t) \<Longrightarrow> distinct (nodes t) \<Longrightarrow> mset (nodes (add_kid n k t)) = mset (nodes k) + mset (nodes t)"
proof (induction t)
  case (ANode m ps cs)
  show ?case
  proof (cases "m = n")
    case False
    obtain xs c ys where c: "cs = xs @ c # ys" "n \<in> set (nodes c)" "distinct (nodes c)"
      "map (add_kid n k) cs = xs @ add_kid n k c # ys"
      using child_of [OF ANode.prems False, of k 0] by metis
    have "c \<in> set cs" using c(1) by simp
    then show ?thesis using ANode.IH [OF _ c(2,3)] False c(4) by (simp add: c(1))
  qed simp
qed

lemma add_kid_props:
  "n \<in> set (nodes t) \<Longrightarrow> distinct (nodes t) \<Longrightarrow> mset (props (add_kid n k t)) = mset (props k) + mset (props t)"
proof (induction t)
  case (ANode m ps cs)
  show ?case
  proof (cases "m = n")
    case False
    obtain xs c ys where c: "cs = xs @ c # ys" "n \<in> set (nodes c)" "distinct (nodes c)"
      "map (add_kid n k) cs = xs @ add_kid n k c # ys"
      using child_of [OF ANode.prems False, of k 0] by metis
    have "c \<in> set cs" using c(1) by simp
    then show ?thesis using ANode.IH [OF _ c(2,3)] False c(4) by (simp add: c(1))
  qed simp
qed

lemma add_prop_props:
  "n \<in> set (nodes t) \<Longrightarrow> distinct (nodes t) \<Longrightarrow> mset (props (add_prop n p t)) = {#p#} + mset (props t)"
proof (induction t)
  case (ANode m ps cs)
  show ?case
  proof (cases "m = n")
    case False
    obtain xs c ys where c: "cs = xs @ c # ys" "n \<in> set (nodes c)" "distinct (nodes c)"
      "map (add_prop n p) cs = xs @ add_prop n p c # ys"
      using child_of [OF ANode.prems False, of "ANode 0 [] []" p] by metis
    have "c \<in> set cs" using c(1) by simp
    then show ?thesis using ANode.IH [OF _ c(2,3)] False c(4) by (simp add: c(1))
  qed simp
qed

lemma last_property_in:
  "tree_rel h t \<Longrightarrow> n \<in> set (nodes t) \<Longrightarrow> Properties (node_at h n) \<noteq> 0 \<Longrightarrow>
   LastProperty (node_at h n) \<in> set (props t)"
proof (induction t)
  case (ANode m ps cs)
  then show ?case by (cases ps) (auto split: if_splits)
qed

lemma tree_rel_add_prop:
  assumes "tree_rel h t" and "distinct (nodes t)" and "distinct (props t)" and "n \<in> set (nodes t)"
    and "p \<notin> set (props t)" and "p \<noteq> 0"
    and nn: "\<And>m. m \<noteq> n \<Longrightarrow> node_at h' m = node_at h m"
    and n: "node_at h' n = (node_at h n)\<lparr>Properties := if Properties (node_at h n) = 0 then p else Properties (node_at h n),
       LastProperty := p\<rparr>"
    and last: "Properties (node_at h n) \<noteq> 0 \<Longrightarrow> p_Next (prop_at h' (LastProperty (node_at h n))) = p"
    and pn: "\<And>q. q \<noteq> p \<Longrightarrow> Properties (node_at h n) \<noteq> 0 \<longrightarrow> q \<noteq> LastProperty (node_at h n) \<Longrightarrow>
       p_Next (prop_at h' q) = p_Next (prop_at h q)"
    and p: "p_Next (prop_at h' p) = 0" and ok: "\<And>q. q \<in> set (props t) \<union> {p} \<Longrightarrow> prop_ok h' q"
  shows "tree_rel h' (add_prop n p t)"
  using assms
proof (induction t)
  case (ANode m ps cs)
  note prems = ANode.prems
  let ?L = "LastProperty (node_at h n)" and ?P = "Properties (node_at h n)"
  have nN: "nN h' x = nN h x" for x using nn [of x] n by (cases "x = n") auto
  have other: "tree_rel h' d"
    if d: "d \<in> set cs" and out: "n \<notin> set (nodes d)" and L: "?P \<noteq> 0 \<longrightarrow> ?L \<notin> set (props d)" for d
  proof (rule tree_rel_frame [of h])
    show "Properties (node_at h' x) = Properties (node_at h x) \<and> LastProperty (node_at h' x) = LastProperty (node_at h x) \<and>
       Children (node_at h' x) = Children (node_at h x)" if "x \<in> set (nodes d)" for x
      using nn that out by metis
    show "p_Next (prop_at h' q) = p_Next (prop_at h q) \<and> prop_ok h' q" if q: "q \<in> set (props d)" for q
    proof -
      have "q \<noteq> p" "prop_ok h' q" using prems(5,12) d q by auto
      moreover have "?P \<noteq> 0 \<longrightarrow> q \<noteq> ?L" using L q by blast
      ultimately show ?thesis using pn by blast
    qed
  qed (use prems(1,2) d nN in \<open>auto simp: distinct_concat_iff\<close>)
  have props_cs: "distinct (concat (map props cs))" "set ps \<inter> (\<Union>d \<in> set cs. set (props d)) = {}"
    using prems(3) by auto
  show ?case
  proof (cases "m = n")
    case True
    have Lps: "?P \<noteq> 0 \<Longrightarrow> ?L \<in> set ps" using prems(1) True by (cases ps) (auto split: if_splits)
    have kid: "tree_rel h' c" if "c \<in> set cs" for c
      using that prems(2) True Lps props_cs(2) by (intro other) auto
    have "plist (pN h') (Properties (node_at h' n)) (ps @ [p])"
    proof (cases "ps = []")
      case True
      then show ?thesis using prems(1) \<open>m = n\<close> n p \<open>p \<noteq> 0\<close> by simp
    next
      case False
      then have L: "?L = last ps" "?P \<noteq> 0" using prems(1) \<open>m = n\<close> by (cases ps; auto)+
      have "pN h' q = pN h q" if "q \<in> set ps" "q \<noteq> last ps" for q
        using pn [of q] that L prems(5) by auto
      then have "plist ((pN h')(last ps := 0)) ?P ps = plist (pN h) ?P ps"
        using prems(1) \<open>m = n\<close> False plist_last [of "pN h" _ ps] by (intro plist_cong) auto
      then show ?thesis using False L last p n \<open>p \<noteq> 0\<close> prems(1,3) \<open>m = n\<close> by (subst plist_snoc) auto
    qed
    then show ?thesis using True kid prems(1,12) n nN by simp
  next
    case False
    obtain xs c ys where c: "cs = xs @ c # ys" "n \<in> set (nodes c)" "distinct (nodes c)"
      "map (add_prop n p) cs = xs @ add_prop n p c # ys" "\<And>d. d \<in> set xs \<union> set ys \<Longrightarrow> n \<notin> set (nodes d)"
      using child_of [OF prems(4,2) False, of "ANode 0 [] []" p] by metis
    have rc: "tree_rel h c" using prems(1) c(1) by simp
    have Lc: "?L \<in> set (props c)" if "?P \<noteq> 0" using last_property_in [OF rc c(2) that] .
    have "tree_rel h' (add_prop n p c)"
      by (rule ANode.IH) (use prems c rc in \<open>auto\<close>)
    moreover have "tree_rel h' d" if "d \<in> set xs \<union> set ys" for d
      using that c(1,5) Lc props_cs(1) by (intro other) fastforce+
    moreover have "plist (pN h') (Properties (node_at h' m)) ps"
    proof -
      have "?P \<noteq> 0 \<Longrightarrow> ?L \<notin> set ps" using Lc props_cs(2) c(1) by auto
      then have "pN h' q = pN h q" if "q \<in> set ps" for q
      proof -
        have "q \<noteq> p" "?P \<noteq> 0 \<longrightarrow> q \<noteq> ?L" using that prems(5) \<open>?P \<noteq> 0 \<Longrightarrow> ?L \<notin> set ps\<close> by auto
        then show ?thesis by (rule pn)
      qed
      then have "plist (pN h') (Properties (node_at h m)) ps = plist (pN h) (Properties (node_at h m)) ps"
        by (intro plist_cong) auto
      then show ?thesis using prems(1) nn [OF False] by simp
    qed
    ultimately show ?thesis using prems(1,12) False c(4) nn [OF False] nN by (auto simp: c(1))
  qed
qed


lemma tree_rel_add_kid:
  assumes "tree_rel h t" and "distinct (nodes t)" and "n \<in> set (nodes t)"
    and "k \<notin> set (nodes t)" and "k \<noteq> 0"
    and nn: "\<And>m. m \<noteq> n \<Longrightarrow> m \<noteq> k \<Longrightarrow> node_at h' m = node_at h m"
    and n: "node_at h' n = (node_at h n)\<lparr>Children := k\<rparr>"
    and k: "node_at h' k = zero_node\<lparr>n_Next := Children (node_at h n)\<rparr>"
    and props: "prop_at h' = prop_at h" "bytes_at h' = bytes_at h"
  shows "tree_rel h' (add_kid n (ANode k [] []) t)"
  using assms(1-5)
proof (induction t)
  case (ANode m ps cs)
  note prems = ANode.prems
  have nN: "nN h' x = nN h x" if "x \<noteq> k" for x using nn [of x] n that by (cases "x = n") auto
  have ok: "prop_ok h' q = prop_ok h q" for q by (simp add: prop_ok_def props)
  have other: "tree_rel h' d" if d: "d \<in> set cs" and out: "n \<notin> set (nodes d)" for d
  proof (rule tree_rel_frame [of h])
    have kd: "k \<notin> set (nodes d)" using prems(4) d by auto
    then show "Properties (node_at h' x) = Properties (node_at h x) \<and> LastProperty (node_at h' x) = LastProperty (node_at h x) \<and>
       Children (node_at h' x) = Children (node_at h x)" if "x \<in> set (nodes d)" for x
      using nn that out by metis
    show "nN h' x = nN h x" if "x \<in> set (nodes d) - {a_addr d}" for x
    proof (rule nN)
      show "x \<noteq> k" using that kd by auto
    qed
    show "p_Next (prop_at h' q) = p_Next (prop_at h q) \<and> prop_ok h' q" if q: "q \<in> set (props d)" for q
    proof -
      have "prop_ok h q" if "tree_rel h x" "q \<in> set (props x)" for x
        using that by (induction x) auto
      then show ?thesis using prems(1) d q by (auto simp: ok props(1))
    qed
  qed (use prems(1,2) d in \<open>auto simp: distinct_concat_iff\<close>)
  have mk: "m \<noteq> k" using prems(4) by auto
  have ck: "a_addr c \<noteq> k" if "c \<in> set cs" for c using prems(4) that a_addr_in_nodes [of c] by auto
  have list: "plist (nN h') q (map a_addr cs) = plist (nN h) q (map a_addr cs)" for q
    using ck nN by (intro plist_cong) auto
  show ?case
  proof (cases "m = n")
    case True
    have "tree_rel h' c" if "c \<in> set cs" for c
      using that prems(2) True by (intro other) auto
    then show ?thesis using True prems(1,5) n k mk list by (simp add: ok props zero_node_def)
  next
    case False
    obtain xs c ys where c: "cs = xs @ c # ys" "n \<in> set (nodes c)" "distinct (nodes c)"
      "map (add_kid n (ANode k [] [])) cs = xs @ add_kid n (ANode k [] []) c # ys"
      "\<And>d. d \<in> set xs \<union> set ys \<Longrightarrow> n \<notin> set (nodes d)"
      using child_of [OF prems(3,2) False, of "ANode k [] []" 0] by metis
    have "tree_rel h' (add_kid n (ANode k [] []) c)"
      by (rule ANode.IH) (use prems c in \<open>auto\<close>)
    moreover have "tree_rel h' d" if "d \<in> set xs \<union> set ys" for d
      using that c(1,5) by (intro other) auto
    ultimately show ?thesis using prems(1) False c(4) nn [OF False mk] list
      by (auto simp: c(1) ok props)
  qed
qed

section \<open>The invariant\<close>

definition prop_size :: "dev_tree \<Rightarrow> nat \<Rightarrow> u32" where
  "prop_size h p = round4 (Length (prop_at h p))"

definition in_use :: "dev_tree \<Rightarrow> atree \<Rightarrow> nat list \<Rightarrow> nat list \<Rightarrow> nat set" where
  "in_use h t fn fp = set (nodes t) \<union> set fn \<union> set (props t) \<union> set fp \<union> (\<lambda>p. Value (prop_at h p)) ` set (props t)"

definition dt_inv :: "dev_tree \<Rightarrow> atree \<Rightarrow> nat list \<Rightarrow> nat list \<Rightarrow> bool" where
  "dt_inv h t fn fp \<longleftrightarrow> RootNode h = a_addr t \<and> tree_rel h t \<and> 0 \<notin> set (nodes t) \<and>
     plist (nN h) (NextFreeNode h) fn \<and> plist (pN h) (NextFreeProperty h) fp \<and>
     distinct (nodes t @ fn) \<and> distinct (props t @ fp) \<and>
     TotalNodes h = of_nat (length (nodes t)) \<and> TotalProperties h = of_nat (length (props t)) \<and>
     TotalPropertiesSize h = (\<Sum>p \<leftarrow> props t. prop_size h p) \<and>
     pool_ok (in_use h t fn fp) (pool_next h)"


definition source_ok :: "dev_tree \<Rightarrow> value_source \<Rightarrow> u32 \<Rightarrow> bool" where
  "source_ok h src len \<longleftrightarrow> (case src of Copy v \<Rightarrow> unat len \<le> length v
     | Refer a \<Rightarrow> unat len \<le> length (bytes_at h a) \<and> pool_ok {a} (pool_next h))"

definition source_bytes :: "dev_tree \<Rightarrow> value_source \<Rightarrow> u32 \<Rightarrow> u8 list" where
  "source_bytes h src len = take (unat len) (case src of Copy v \<Rightarrow> v | Refer a \<Rightarrow> bytes_at h a)"

text \<open>What a property says: its name and its value.\<close>

definition content :: "dev_tree \<Rightarrow> nat \<Rightarrow> u8 list \<times> u8 list" where
  "content h p = (c_str (Name (prop_at h p)), take (unat (Length (prop_at h p))) (bytes_at h (Value (prop_at h p))))"

lemma set_value_ok:
  assumes "set_value p src len h = (True, h')" and "source_ok h src len"
    and "pool_ok U (pool_next h)"
  shows "\<exists>a va. prop_at h' = (prop_at h)(p := (prop_at h p)\<lparr>Value := a, ValueBufferAllocated := va\<rparr>) \<and>
     pool_ok (insert a U) (pool_next h') \<and> (\<forall>x \<in> U. bytes_at h' x = bytes_at h x) \<and>
     take (unat len) (bytes_at h' a) = source_bytes h src len \<and> unat len \<le> length (bytes_at h' a) \<and>
     node_at h' = node_at h \<and> RootNode h' = RootNode h \<and> NextFreeNode h' = NextFreeNode h \<and>
     NextFreeProperty h' = NextFreeProperty h \<and> TotalNodes h' = TotalNodes h \<and>
     TotalProperties h' = TotalProperties h \<and> TotalPropertiesSize h' = TotalPropertiesSize h"
proof (cases src)
  case (Refer a)
  have "pool_ok (insert a U) (pool_next h)"
    using assms(2,3) pool_ok_Un [of "{a}" U] Refer by (simp add: source_ok_def)
  then show ?thesis using assms Refer
    by (intro exI [of _ a] exI [of _ False]) (auto simp: set_value_def upd_prop_def source_ok_def source_bytes_def)
next
  case (Copy v)
  obtain b s bs where pool: "pool_next h = (b, s) # bs" "unat len \<le> s" "b \<noteq> 0"
    using assms(1) Copy by (cases "pool_next h") (auto simp: set_value_def MmAllocatePool_def Let_def split: if_splits)
  have "0 < s" using assms(3) pool(1) by (auto simp: pool_ok_def)
  then have fresh: "pool_ok (U \<union> {b}) bs" "b \<notin> U" using pool_ok_take [of U b s bs "{b}"] assms(3) pool(1) by auto
  then show ?thesis using assms(1,2) Copy pool
    by (intro exI [of _ b] exI [of _ True])
      (auto simp: set_value_def MmAllocatePool_def upd_prop_def Let_def source_ok_def source_bytes_def)
qed


lemma str_put_Some:
  "str_put dst i src = Some r \<Longrightarrow> i \<le> length dst \<Longrightarrow> 0 \<notin> set (take i dst) \<Longrightarrow>
   length r = length dst \<and> 0 \<in> set r \<and> c_str r = take i dst @ c_str src"
proof (induction dst i src rule: str_put.induct)
  case (2 dst i c src)
  have i: "i < length dst" using 2(2) by (auto split: if_splits)
  then have tk: "take (i + 1) (dst[i := c]) = take i dst @ [c]"
    by (simp add: take_Suc_conv_app_nth)
  show ?case
  proof (cases "c = 0")
    case False
    then have "str_put (dst[i := c]) (i + 1) src = Some r" using 2(2) i by simp
    moreover have "0 \<notin> set (take (i + 1) (dst[i := c]))" using tk 2(4) False by auto
    ultimately have "length r = length dst \<and> 0 \<in> set r \<and> c_str r = take (i + 1) (dst[i := c]) @ c_str src"
      using 2(1) i False by simp
    then show ?thesis using False tk by (simp add: c_str_def)
  next
    case True
    then have r: "r = dst[i := 0]" using 2(2) i by simp
    then have "r = take i dst @ 0 # drop (Suc i) dst" using i by (simp add: upd_conv_take_nth_drop)
    then show ?thesis using r 2(4) True i by (auto simp: c_str_def takeWhile_append)
  qed
qed simp

lemma strcpy_Some:
  "strcpy dst src = Some r \<Longrightarrow> length r = length dst \<and> 0 \<in> set r \<and> c_str r = c_str src"
  using str_put_Some [of dst 0 src r] by (simp add: strcpy_def)

lemma link_property_fields:
  "RootNode (link_property n p l h) = RootNode h" "bytes_at (link_property n p l h) = bytes_at h"
  "NextFreeNode (link_property n p l h) = NextFreeNode h" "pool_next (link_property n p l h) = pool_next h"
  "NextFreeProperty (link_property n p l h) = NextFreeProperty h" "TotalNodes (link_property n p l h) = TotalNodes h"
  "TotalProperties (link_property n p l h) = TotalProperties h"
  "TotalPropertiesSize (link_property n p l h) = TotalPropertiesSize h + round4 l"
  "nN (link_property n p l h) = nN h"
  by (auto simp: link_property_def Let_def upd_node_def upd_prop_def)

lemma link_property_heap:
  "m \<noteq> n \<Longrightarrow> node_at (link_property n p l h) m = node_at h m"
  "node_at (link_property n p l h) n = (node_at h n)\<lparr>Properties := if Properties (node_at h n) = 0 then p else Properties (node_at h n),
       LastProperty := p\<rparr>"
  "prop_at (link_property n p l h) = (if Properties (node_at h n) = 0 then prop_at h
     else (prop_at h)(LastProperty (node_at h n) := (prop_at h (LastProperty (node_at h n)))\<lparr>p_Next := p\<rparr>))"
  by (auto simp: link_property_def Let_def upd_node_def upd_prop_def)


lemma link_property_keeps:
  "Name (prop_at (link_property n p l h) q) = Name (prop_at h q)"
  "Length (prop_at (link_property n p l h) q) = Length (prop_at h q)"
  "Value (prop_at (link_property n p l h) q) = Value (prop_at h q)"
  by (auto simp: link_property_heap(3))

lemma sum_list_mset: "mset xs = mset ys \<Longrightarrow> sum_list (map f xs) = (sum_list (map f ys) :: u32)"
  by (metis mset_map sum_mset_sum_list)

lemma link_property_inv:
  assumes "RootNode g = a_addr t" and "tree_rel g t" and "0 \<notin> set (nodes t)"
    and "plist (nN g) (NextFreeNode g) fn" and "plist (pN g) (NextFreeProperty g) fp"
    and "distinct (nodes t @ fn)" and "distinct (p # props t @ fp)"
    and "TotalNodes g = of_nat (length (nodes t))" and "TotalProperties g = of_nat (length (props t)) + 1"
    and "TotalPropertiesSize g = (\<Sum>p \<leftarrow> props t. prop_size g p)"
    and "pool_ok (in_use g t fn fp \<union> {p, Value (prop_at g p)}) (pool_next g)"
    and n: "n \<in> set (nodes t)" and "prop_ok g p" and "p_Next (prop_at g p) = 0" and "p \<noteq> 0"
    and len: "Length (prop_at g p) = len"
  shows "dt_inv (link_property n p len g) (add_prop n p t) fn fp"
proof -
  let ?h = "link_property n p len g" and ?P = "Properties (node_at g n)" and ?L = "LastProperty (node_at g n)"
  have ps: "mset (props (add_prop n p t)) = mset (p # props t)" using add_prop_props [OF n] assms(6) by simp
  then have setps: "set (props (add_prop n p t)) = insert p (set (props t))" by (metis set_mset_mset list.simps(15))
  have L: "?L \<in> set (props t)" if "?P \<noteq> 0" using last_property_in [OF assms(2) n that] .
  have ok: "prop_ok ?h q = prop_ok g q" for q by (simp add: prop_ok_def link_property_keeps link_property_fields)
  have okt: "prop_ok g q" if "tree_rel g x" "q \<in> set (props x)" for x q using that by (induction x) auto
  have rel: "tree_rel ?h (add_prop n p t)"
  proof (rule tree_rel_add_prop [OF assms(2) _ _ n _ assms(15) link_property_heap(1,2)])
    show "p_Next (prop_at ?h q) = p_Next (prop_at g q)" if "?P \<noteq> 0 \<longrightarrow> q \<noteq> ?L" for q
      using that by (simp add: link_property_heap(3))
    show "p_Next (prop_at ?h p) = 0" using L assms(7,14) by (auto simp: link_property_heap(3))
    show "prop_ok ?h q" if "q \<in> set (props t) \<union> {p}" for q
      using that okt [OF assms(2)] assms(13) by (auto simp: ok)
  qed (use assms(6,7) in \<open>auto simp: link_property_heap(3)\<close>)
  have "plist (pN ?h) (NextFreeProperty g) fp"
    using assms(5,7) L by (subst plist_cong [of _ _ "pN g"]) (auto simp: link_property_heap(3))
  moreover have "distinct (props (add_prop n p t) @ fp)"
  proof -
    have "mset (props (add_prop n p t) @ fp) = mset (p # props t @ fp)" using ps by simp
    then show ?thesis using assms(7) by (metis mset_eq_imp_distinct_iff)
  qed
  moreover have "length (props (add_prop n p t)) = Suc (length (props t))"
    using ps by (metis size_mset length_Cons)
  moreover have "(\<Sum>q \<leftarrow> props (add_prop n p t). prop_size ?h q) = round4 len + (\<Sum>q \<leftarrow> props t. prop_size g q)"
    using sum_list_mset [OF ps, of "prop_size ?h"] len by (simp add: prop_size_def link_property_keeps cong: map_cong)
  moreover have "pool_ok (in_use ?h (add_prop n p t) fn fp) (pool_next g)"
    using assms(11) by (rule pool_ok_mono) (auto simp: in_use_def setps link_property_keeps)
  ultimately show ?thesis using rel assms
    by (simp add: dt_inv_def link_property_fields add.commute del: of_nat_Suc) simp
qed


definition refers :: "value_source \<Rightarrow> nat set" where
  "refers src = (case src of Copy v \<Rightarrow> {} | Refer a \<Rightarrow> {a})"

lemma source_refers: "source_ok h src len \<Longrightarrow> pool_ok U (pool_next h) \<Longrightarrow> pool_ok (U \<union> refers src) (pool_next h)"
  by (cases src) (auto simp: source_ok_def refers_def pool_ok_def)

lemma source_transfer:
  "source_ok h src len \<Longrightarrow> bytes_at h' = bytes_at h \<Longrightarrow> pool_ok (refers src) (pool_next h') \<Longrightarrow>
   source_ok h' src len \<and> source_bytes h' src len = source_bytes h src len"
  by (cases src) (auto simp: source_ok_def source_bytes_def refers_def)

lemma AddProperty_inv:
  assumes inv: "dt_inv h t fn fp" and n: "n \<in> set (nodes t)" and src: "source_ok h src len"
    and run: "DevTreeAddProperty n nm src len h = Some (EFI_SUCCESS, h')"
  shows "\<exists>p fp'. dt_inv h' (add_prop n p t) fn fp' \<and> p \<notin> set (props t) \<and>
     content h' p = (c_str nm, source_bytes h src len) \<and>
     (\<forall>q \<in> set (props t). content h' q = content h q)"
proof -
  obtain p h1 where get: "DevTreepGetProperty h = (p, h1)" by fastforce
  have p0: "p \<noteq> 0" using run get by (auto simp: DevTreeAddProperty_def split: if_splits)
  obtain nm' where nm': "strcpy (Name (prop_at h1 p)) nm = Some nm'"
    using run get p0 by (auto simp: DevTreeAddProperty_def split: option.splits)
  define h2 where "h2 = upd_prop p (\<lambda>p. p\<lparr>Name := nm', Length := len\<rparr>) h1"
  obtain h3 where set: "set_value p src len h2 = (True, h3)" and h': "h' = link_property n p len h3"
    using run get p0 nm' by (auto simp: DevTreeAddProperty_def h2_def Let_def split: prod.splits if_splits)
  let ?U = "in_use h t fn fp \<union> refers src"
  have U: "pool_ok ?U (pool_next h)" using inv source_refers [OF src] by (simp add: dt_inv_def)
  have d: "plist (pN h) (NextFreeProperty h) fp" "distinct fp" "set (props t) \<inter> set fp = {}"
    "set (props t) \<union> set fp \<subseteq> ?U" using inv by (auto simp: dt_inv_def in_use_def)
  obtain fp' where g: "plist (pN h1) (NextFreeProperty h1) fp'" "distinct (p # fp')" "set (props t) \<inter> set (p # fp') = {}"
    "pool_ok (?U \<union> set (p # fp')) (pool_next h1)" "prop_at h1 p = zero_property"
    "\<forall>x \<in> set (props t). prop_at h1 x = prop_at h x" "same_but_props h h1" "TotalProperties h1 = TotalProperties h + 1"
    using DevTreepGetProperty_ok [OF d(1-3) U get p0 d(4)] by auto
  have h2: "prop_at h2 = (prop_at h1)(p := zero_property\<lparr>Name := nm', Length := len\<rparr>)" "pool_next h2 = pool_next h1"
    "bytes_at h2 = bytes_at h" "NextFreeProperty h2 = NextFreeProperty h1" "TotalProperties h2 = TotalProperties h1"
    "same_but_props h h2" using g(5,7) by (simp_all add: h2_def upd_prop_def same_but_props_def)
  have "pool_ok (refers src) (pool_next h2)" using pool_ok_mono [OF g(4)] h2(2) by auto
  note src2 = source_transfer [OF src h2(3) this]
  obtain a va where s: "prop_at h3 = (prop_at h2)(p := (prop_at h2 p)\<lparr>Value := a, ValueBufferAllocated := va\<rparr>)"
    "pool_ok (insert a (?U \<union> set (p # fp'))) (pool_next h3)" "\<forall>x \<in> ?U \<union> set (p # fp'). bytes_at h3 x = bytes_at h2 x"
    "take (unat len) (bytes_at h3 a) = source_bytes h2 src len" "unat len \<le> length (bytes_at h3 a)"
    "node_at h3 = node_at h2" "RootNode h3 = RootNode h2" "NextFreeNode h3 = NextFreeNode h2"
    "NextFreeProperty h3 = NextFreeProperty h2" "TotalNodes h3 = TotalNodes h2"
    "TotalProperties h3 = TotalProperties h2" "TotalPropertiesSize h3 = TotalPropertiesSize h2"
    using set_value_ok [OF set _ g(4) [folded h2(2)]] src2 by auto
  have old: "prop_at h3 q = prop_at h q" "bytes_at h3 (Value (prop_at h q)) = bytes_at h (Value (prop_at h q))"
    if "q \<in> set (props t)" for q
    using that g(3,6) s(1,3) h2(1,3) by (auto simp: in_use_def)
  have new: "prop_at h3 p = zero_property\<lparr>Name := nm', Length := len, Value := a, ValueBufferAllocated := va\<rparr>"
    using s(1) h2(1) by simp
  note nm_ok = strcpy_Some [OF nm']
  have "dt_inv (link_property n p len h3) (add_prop n p t) fn fp'"
  proof (rule link_property_inv)
    have ok: "prop_ok h3 q" if "tree_rel h x" "q \<in> set (props x)" "q \<in> set (props t)" for x q
      using that by (induction x) (auto simp: prop_ok_def old)
    have rel: "tree_rel h t" "distinct (nodes t)" using inv by (auto simp: dt_inv_def)
    have nodes: "node_at h3 = node_at h" using s(6) h2(6) by (simp add: same_but_props_def)
    show "tree_rel h3 t"
    proof (rule tree_rel_frame [OF rel(1) _ _ _ rel(2)])
      show "p_Next (prop_at h3 q) = p_Next (prop_at h q) \<and> prop_ok h3 q" if "q \<in> set (props t)" for q
        using old(1) [OF that] ok [OF rel(1) that that] by simp
    qed (simp_all add: nodes)
    show "plist (pN h3) (NextFreeProperty h3) fp'"
      using g(1,2) s(1,9) h2(1,4) by (subst plist_cong [of _ _ "pN h1"]) auto
    show "prop_ok h3 p" using nm_ok s(5) new g(5) by (simp add: prop_ok_def zero_property_def)
    show "pool_ok (in_use h3 t fn fp' \<union> {p, Value (prop_at h3 p)}) (pool_next h3)"
      using s(2) by (rule pool_ok_mono) (auto simp: in_use_def new old)
    show "TotalPropertiesSize h3 = (\<Sum>p \<leftarrow> props t. prop_size h3 p)"
      using inv s(12) h2(6) old(1) by (simp add: dt_inv_def same_but_props_def prop_size_def cong: map_cong)
    show "distinct (p # props t @ fp')" using g(2,3) inv by (auto simp: dt_inv_def)
    show "plist (nN h3) (NextFreeNode h3) fn" using inv s(6,8) h2(6) by (simp add: dt_inv_def same_but_props_def)
  qed (use inv n p0 new s(7,10,11) h2(5,6) g(8) in \<open>simp_all add: dt_inv_def same_but_props_def zero_property_def\<close>)
  moreover have "content h' p = (c_str nm, source_bytes h src len)"
    using s(4) src2 nm_ok new by (simp add: h' content_def link_property_keeps link_property_fields)
  moreover have "content h' q = content h q" if "q \<in> set (props t)" for q
    using old [OF that] by (simp add: h' content_def link_property_keeps link_property_fields)
  ultimately show ?thesis using g(3) h' by auto
qed


definition link_child :: "nat \<Rightarrow> nat \<Rightarrow> dev_tree \<Rightarrow> dev_tree" where
  "link_child n k h = upd_node n (\<lambda>m. m\<lparr>Children := k\<rparr>) (upd_node k (\<lambda>m. m\<lparr>n_Next := Children (node_at h n)\<rparr>) h)"

lemma link_child_fields [simp]:
  "RootNode (link_child n k h) = RootNode h" "bytes_at (link_child n k h) = bytes_at h"
  "NextFreeNode (link_child n k h) = NextFreeNode h" "pool_next (link_child n k h) = pool_next h"
  "NextFreeProperty (link_child n k h) = NextFreeProperty h" "TotalNodes (link_child n k h) = TotalNodes h"
  "TotalProperties (link_child n k h) = TotalProperties h" "prop_at (link_child n k h) = prop_at h"
  "TotalPropertiesSize (link_child n k h) = TotalPropertiesSize h"
  by (auto simp: link_child_def Let_def upd_node_def upd_prop_def)

lemma get_link_inv:
  assumes inv: "dt_inv h t fn fp" and n: "n \<in> set (nodes t)" and get: "DevTreepGetNode h = (k, h1)" and k: "k \<noteq> 0"
  shows "\<exists>fn'. dt_inv (link_child n k h1) (add_kid n (ANode k [] []) t) fn' fp \<and> k \<notin> set (nodes t) \<and>
    prop_at h1 = prop_at h \<and> bytes_at h1 = bytes_at h"
proof -
  let ?t = "add_kid n (ANode k [] []) t" and ?h = "link_child n k h1"
  have d: "plist (nN h) (NextFreeNode h) fn" "distinct fn" "set (nodes t) \<inter> set fn = {}"
    "pool_ok (in_use h t fn fp) (pool_next h)" "set (nodes t) \<union> set fn \<subseteq> in_use h t fn fp"
    "tree_rel h t" "distinct (nodes t)" using inv by (auto simp: dt_inv_def in_use_def)
  obtain fn' where g: "plist (nN h1) (NextFreeNode h1) fn'" "distinct (k # fn')" "set (nodes t) \<inter> set (k # fn') = {}"
    "pool_ok (in_use h t fn fp \<union> set (k # fn')) (pool_next h1)" "node_at h1 k = zero_node"
    "\<forall>x \<in> set (nodes t). node_at h1 x = node_at h x" "same_but_nodes h h1" "TotalNodes h1 = TotalNodes h + 1"
    using DevTreepGetNode_ok [OF d(1-4) get k d(5)] by auto
  have same: "prop_at h1 = prop_at h" "bytes_at h1 = bytes_at h" using g(7) by (auto simp: same_but_nodes_def)
  have ok: "prop_ok h1 q" if "tree_rel h x" "q \<in> set (props x)" for x q
    using that by (induction x) (auto simp: prop_ok_def same)
  have "tree_rel h1 t"
    using d(6,7) g(6) ok [OF d(6)] by (intro tree_rel_frame [OF d(6) _ _ _ d(7)]) (auto simp: same)
  then have rel: "tree_rel ?h ?t"
    using d(7) n k g(3,5) by (intro tree_rel_add_kid [of h1]) (auto simp: link_child_def upd_node_def)
  have ms: "mset (nodes ?t) = mset (k # nodes t)" "mset (props ?t) = mset (props t)"
    using add_kid_nodes [OF n d(7)] add_kid_props [OF n d(7)] by simp_all
  then have sets: "set (nodes ?t) = insert k (set (nodes t))" "set (props ?t) = set (props t)"
    "length (nodes ?t) = Suc (length (nodes t))" "length (props ?t) = length (props t)"
    by (metis set_mset_mset list.simps(15), metis set_mset_mset, metis size_mset length_Cons, metis size_mset)
  have "plist (nN ?h) (NextFreeNode h1) fn'"
    using g(1-3) n by (subst plist_cong [of _ _ "nN h1"]) (auto simp: link_child_def upd_node_def)
  moreover have "distinct (nodes ?t @ fn')" "distinct (props ?t @ fp)"
  proof -
    have "mset (nodes ?t @ fn') = mset (k # nodes t @ fn')" "mset (props ?t @ fp) = mset (props t @ fp)"
      using ms by simp_all
    moreover have "distinct (k # nodes t @ fn')" using g(2,3) d(7) by auto
    ultimately show "distinct (nodes ?t @ fn')" "distinct (props ?t @ fp)"
      using inv unfolding dt_inv_def by (metis mset_eq_imp_distinct_iff)+
  qed
  moreover have "TotalPropertiesSize h1 = (\<Sum>p \<leftarrow> props ?t. prop_size ?h p)"
    using inv g(7) sum_list_mset [OF ms(2), of "prop_size h"]
    by (simp add: dt_inv_def same_but_nodes_def prop_size_def cong: map_cong)
  moreover have "pool_ok (in_use ?h ?t fn' fp) (pool_next h1)"
    using g(4) by (rule pool_ok_mono) (auto simp: in_use_def sets same)
  ultimately have "dt_inv ?h ?t fn' fp" using rel inv g(7,8) k
    by (simp add: dt_inv_def same_but_nodes_def sets add.commute)
  then show ?thesis using g(3) same by auto
qed

lemma take_c_str: "0 \<in> set s \<Longrightarrow> take (Suc (length (c_str s))) s = c_str s @ [0]"
  by (induction s) (auto simp: c_str_def)

lemma c_str_shorter: "0 \<in> set s \<Longrightarrow> length (c_str s) < length s"
  by (induction s) (auto simp: c_str_def)

lemma DevTreeAddChild_run:
  assumes "DevTreeAddChild n nm h = Some (k, h')" and "k \<noteq> 0"
  shows "\<exists>h1. DevTreepGetNode h = (k, h1) \<and> 0 \<in> set nm \<and>
    DevTreeAddProperty k name_string (Copy nm) (of_nat (length (c_str nm) + 1))
      (if n \<noteq> 0 then link_child n k h1 else h1\<lparr>RootNode := k\<rparr>) = Some (EFI_SUCCESS, h')"
proof -
  obtain a h1 where get: "DevTreepGetNode h = (a, h1)" by fastforce
  have "0 \<in> set nm"
  proof (rule ccontr)
    assume "0 \<notin> set nm"
    then show False using assms get by (auto simp: DevTreeAddChild_def strlen_None split: if_splits)
  qed
  then show ?thesis using assms get
    by (auto simp: DevTreeAddChild_def link_child_def strlen_c_str Let_def split: if_splits option.splits)
qed

lemma AddChild_inv:
  assumes inv: "dt_inv h t fn fp" and n: "n \<in> set (nodes t)" and len: "length (c_str nm) + 1 < 2 ^ 32"
    and run: "DevTreeAddChild n nm h = Some (k, h')" "k \<noteq> 0"
  shows "\<exists>p fn' fp'. dt_inv h' (add_prop k p (add_kid n (ANode k [] []) t)) fn' fp' \<and>
    k \<notin> set (nodes t) \<and> p \<notin> set (props t) \<and> content h' p = (c_str name_string, c_str nm @ [0]) \<and>
    (\<forall>q \<in> set (props t). content h' q = content h q)"
proof -
  obtain h1 where r: "DevTreepGetNode h = (k, h1)" "0 \<in> set nm"
    "DevTreeAddProperty k name_string (Copy nm) (of_nat (length (c_str nm) + 1))
      (if n \<noteq> 0 then link_child n k h1 else h1\<lparr>RootNode := k\<rparr>) = Some (EFI_SUCCESS, h')"
    using DevTreeAddChild_run [OF run] by blast
  have n0: "n \<noteq> 0" using inv n by (auto simp: dt_inv_def)
  obtain fn' where g: "dt_inv (link_child n k h1) (add_kid n (ANode k [] []) t) fn' fp" "k \<notin> set (nodes t)"
    "prop_at h1 = prop_at h" "bytes_at h1 = bytes_at h"
    using get_link_inv [OF inv n r(1) run(2)] by blast
  have dist: "distinct (nodes t)" using inv by (simp add: dt_inv_def)
  have kin: "k \<in> set (nodes (add_kid n (ANode k [] []) t))" and ps: "set (props (add_kid n (ANode k [] []) t)) = set (props t)"
    using arg_cong [OF add_kid_nodes [OF n dist, of "ANode k [] []"], of set_mset]
      arg_cong [OF add_kid_props [OF n dist, of "ANode k [] []"], of set_mset] by simp_all
  have u: "unat (of_nat (length (c_str nm) + 1) :: u32) = Suc (length (c_str nm))"
    using len by (simp add: unat_of_nat take_bit_nat_eq_self del: of_nat_add of_nat_Suc)
  have "source_ok (link_child n k h1) (Copy nm) (of_nat (length (c_str nm) + 1))"
    using u c_str_shorter [OF r(2)] by (simp add: source_ok_def del: of_nat_add of_nat_Suc)
  from AddProperty_inv [OF g(1) kin this, of name_string h'] r(3) n0 obtain p fp' where
    a: "dt_inv h' (add_prop k p (add_kid n (ANode k [] []) t)) fn' fp'" "p \<notin> set (props t)"
    "content h' p = (c_str name_string, source_bytes (link_child n k h1) (Copy nm) (of_nat (length (c_str nm) + 1)))"
    "\<forall>q \<in> set (props t). content h' q = content (link_child n k h1) q"
    unfolding ps by (auto simp del: of_nat_add of_nat_Suc)
  have "source_bytes (link_child n k h1) (Copy nm) (of_nat (length (c_str nm) + 1)) = c_str nm @ [0]"
    using u take_c_str [OF r(2)] by (simp add: source_bytes_def del: of_nat_add of_nat_Suc)
  moreover have "content (link_child n k h1) q = content h q" for q by (simp add: content_def g(3,4))
  ultimately show ?thesis using a g(2) by auto
qed


lemma Initialize_inv:
  assumes "NextFreeNode h = 0" and "NextFreeProperty h = 0" and "TotalNodes h = 0" and "TotalProperties h = 0"
    and "TotalPropertiesSize h = 0" and "pool_ok {} (pool_next h)"
    and run: "DevTreeInitialize h = Some (EFI_SUCCESS, h')"
  shows "\<exists>r p fn fp. dt_inv h' (ANode r [p] []) fn fp \<and> content h' p = (c_str name_string, [0x2f, 0])"
proof -
  have nm: "c_str [0x2f, 0 :: u8] = [0x2f]" by (simp add: c_str_def)
  obtain k where "DevTreeAddChild 0 [0x2f, 0] h = Some (k, h')" and k0: "k \<noteq> 0"
  proof (cases "DevTreeAddChild 0 [0x2f, 0] h")
    case (Some x)
    then show ?thesis using run that by (cases x) (simp add: DevTreeInitialize_def split: if_splits)
  qed (use run in \<open>simp add: DevTreeInitialize_def\<close>)
  then obtain h1 where r: "DevTreepGetNode h = (k, h1)"
    "DevTreeAddProperty k name_string (Copy [0x2f, 0]) 2 (h1\<lparr>RootNode := k\<rparr>) = Some (EFI_SUCCESS, h')"
    using DevTreeAddChild_run [of 0 "[0x2f, 0]" h k h'] unfolding nm by auto
  obtain fn where g: "plist (nN h1) (NextFreeNode h1) fn" "distinct (k # fn)"
    "pool_ok (set (k # fn)) (pool_next h1)" "node_at h1 k = zero_node" "same_but_nodes h h1" "TotalNodes h1 = TotalNodes h + 1"
    using DevTreepGetNode_ok [of h "[]" "{}" "{}" k h1] assms r(1) k0 by auto
  have "dt_inv (h1\<lparr>RootNode := k\<rparr>) (ANode k [] []) fn []"
    using g k0 assms by (simp add: dt_inv_def same_but_nodes_def zero_node_def in_use_def)
  from AddProperty_inv [OF this _ _ r(2)] obtain p fp' where
    a: "dt_inv h' (add_prop k p (ANode k [] [])) fn fp'"
    "content h' p = (c_str name_string, source_bytes (h1\<lparr>RootNode := k\<rparr>) (Copy [0x2f, 0]) 2)"
    by (auto simp: source_ok_def)
  then show ?thesis by (auto simp: source_bytes_def)
qed

end
