(* ===== verification/DeviceTreeFlat.thy ===== *)
theory DeviceTreeFlat
  imports DeviceTreeInv
begin

text \<open>
  What the device tree says, apart from where it lies in memory: names and values of the
  properties and the children of every node, and the flat form of such a tree as the kernel
  reads it. Flattening the pointers gives the flat form of the tree they represent, and the
  flat form can be read back.
\<close>

datatype dtree = DNode "(u8 list \<times> u8 list) list" "dtree list"

fun view :: "dev_tree \<Rightarrow> atree \<Rightarrow> dtree" where
  "view h (ANode n ps cs) = DNode (map (content h) ps) (map (view h) cs)"

definition padded :: "nat \<Rightarrow> nat" where "padded n = (n + 3) div 4 * 4"

definition enc_prop :: "u8 list \<times> u8 list \<Rightarrow> u8 list" where
  "enc_prop = (\<lambda>(nm, v). nm @ replicate (32 - length nm) 0 @ put_le32 (of_nat (length v)) @
     v @ replicate (padded (length v) - length v) 0)"

fun enc :: "dtree \<Rightarrow> u8 list" where
  "enc (DNode ps cs) = put_le32 (of_nat (length ps)) @ put_le32 (of_nat (length cs)) @
     concat (map enc_prop ps) @ concat (map enc cs)"

section \<open>Rounding\<close>

lemma word_split_mask: "x = (x AND NOT m) + (x AND m)" for x :: "'a::len word"
proof -
  have "(x AND NOT m) OR (x AND m) = (x AND NOT m) + (x AND m)"
    by (rule or_disjoint_add) (simp add: bit_simps)
  moreover have "(x AND NOT m) OR (x AND m) = x" by (rule bit_eqI) (auto simp: bit_simps)
  ultimately show ?thesis by simp
qed

lemma round4_padded: "round4 n = of_nat (padded (unat n))"
proof -
  let ?k = "unat n + 3"
  have m: "(3 :: u32) = mask 2" by (simp add: mask_eq_exp_minus_1)
  have k: "n + mask 2 = of_nat ?k" by (simp add: mask_eq_exp_minus_1)
  have "of_nat ?k AND mask 2 = (of_nat (?k mod 4) :: u32)" using of_nat_and_mask [of ?k 2, where 'a = 32] by simp
  then have "(of_nat ?k :: u32) = (of_nat ?k AND NOT (mask 2)) + of_nat (?k mod 4)"
    using word_split_mask [of "of_nat ?k :: u32" "mask 2"] by simp
  moreover have "(of_nat ?k :: u32) = of_nat (?k div 4 * 4) + of_nat (?k mod 4)"
    by (metis div_mult_mod_eq of_nat_add)
  ultimately have "of_nat ?k AND NOT (mask 2) = (of_nat (?k div 4 * 4) :: u32)" by (metis add_right_cancel)
  then show ?thesis unfolding round4_def padded_def m k .
qed

lemma padded_ge: "n \<le> padded n" unfolding padded_def by linarith

section \<open>The writes\<close>

declare le32_put [simp]

lemma write_at_zeros:
  "off = length A \<Longrightarrow> length bs \<le> m \<Longrightarrow> write_at off bs (A @ replicate m 0 @ T) = Some (A @ bs @ replicate (m - length bs) 0 @ T)"
  by (simp add: write_at_def overlay_def)

lemma increment_at_put: "increment_at (length A) (A @ put_le32 c @ B) = Some (A @ put_le32 (c + 1) @ B)"
  by (simp add: increment_at_def overlay_def)


lemma length_enc_prop: "length (fst x) \<le> 32 \<Longrightarrow> length (enc_prop x) = 36 + padded (length (snd x))"
  using padded_ge [of "length (snd x)"] by (cases x) (simp add: enc_prop_def)

lemma c_str_32: "length nm = 32 \<Longrightarrow> 0 \<in> set nm \<Longrightarrow> length (c_str nm) < 32"
  using c_str_shorter [of nm] by simp

lemma flatten_property_ok:
  assumes "prop_ok h p" and "length (enc_prop (content h p)) \<le> m"
  shows "flatten_property h (length A) p (length A + 4 + length B) (A @ put_le32 c @ B @ replicate m 0 @ T) =
    Some (A @ put_le32 (c + 1) @ B @ enc_prop (content h p) @ replicate (m - length (enc_prop (content h p))) 0 @ T,
      length A + 4 + length B + length (enc_prop (content h p)))"
proof -
  let ?P = "prop_at h p"
  let ?nm = "c_str (Name ?P)" and ?n = "unat (Length ?P)"
  let ?v = "take ?n (bytes_at h (Value ?P))" and ?X = "A @ put_le32 c @ B"
  have nm: "length ?nm < 32" "0 \<in> set (Name ?P)" and v: "length ?v = ?n" "?n \<le> length (bytes_at h (Value ?P))"
    using assms(1) c_str_32 [of "Name ?P"] by (auto simp: prop_ok_def)
  have len: "length (enc_prop (content h p)) = 36 + padded ?n"
    using length_enc_prop [of "content h p"] nm v by (simp add: content_def)
  then have m: "36 + padded ?n \<le> m" using assms(2) by simp
  note pad = padded_ge [of ?n]
  define off where "off = length A + 4 + length B"
  have X: "off = length ?X" by (simp add: off_def)
  have w1: "write_at off (?nm @ [0]) (?X @ replicate m 0 @ T) =
      Some ((?X @ ?nm @ replicate (32 - length ?nm) 0) @ replicate (m - 32) 0 @ T)"
  proof -
    have "0 # replicate (m - Suc (length ?nm)) 0 = replicate (32 - length ?nm) 0 @ replicate (m - 32) (0 :: u8)"
      using nm(1) m by (simp flip: replicate_add replicate_Suc)
    then show ?thesis using write_at_zeros [of off ?X "?nm @ [0]" m] nm(1) m by (simp add: X)
  qed
  have w2: "write_at (off + 32) (put_le32 (Length ?P)) ((?X @ ?nm @ replicate (32 - length ?nm) 0) @ replicate (m - 32) 0 @ T) =
      Some ((?X @ ?nm @ replicate (32 - length ?nm) 0 @ put_le32 (Length ?P)) @ replicate (m - 36) 0 @ T)"
    using write_at_zeros [of "off + 32" "?X @ ?nm @ replicate (32 - length ?nm) 0" "put_le32 (Length ?P)" "m - 32"] nm(1) m by (simp add: X)
  have w3: "write_at (off + 36) ?v ((?X @ ?nm @ replicate (32 - length ?nm) 0 @ put_le32 (Length ?P)) @ replicate (m - 36) 0 @ T) =
      Some (?X @ enc_prop (content h p) @ replicate (m - (36 + padded ?n)) 0 @ T)"
  proof -
    have "replicate (m - 36 - ?n) 0 = replicate (padded ?n - ?n) 0 @ replicate (m - (36 + padded ?n)) (0 :: u8)"
      using pad m by (simp flip: replicate_add)
    then show ?thesis
      using write_at_zeros [of "off + 36" "?X @ ?nm @ replicate (32 - length ?nm) 0 @ put_le32 (Length ?P)" ?v "m - 36"] nm(1) m v pad
      by (simp add: X enc_prop_def content_def)
  qed
  show ?thesis using w1 w2 w3 v(2) nm(2) len increment_at_put [of A c]
    unfolding off_def [symmetric] flatten_property_def sizeof_PROPERTY_FLATTEN_def padded_def
    by (simp add: Let_def)
qed

lemma flatten_properties_ok:
  assumes "plist (pN h) p ps" and "\<forall>p \<in> set ps. prop_ok h p"
    and "length (concat (map (\<lambda>p. enc_prop (content h p)) ps)) \<le> m"
  shows "flatten_properties h (length A) p (length A + 4 + length B) (A @ put_le32 c @ B @ replicate m 0 @ T) =
    Some (A @ put_le32 (c + of_nat (length ps)) @ B @ concat (map (\<lambda>p. enc_prop (content h p)) ps) @
        replicate (m - length (concat (map (\<lambda>p. enc_prop (content h p)) ps))) 0 @ T,
      length A + 4 + length B + length (concat (map (\<lambda>p. enc_prop (content h p)) ps)))"
  using assms
proof (induction ps arbitrary: p B c m)
  case (Cons q ps)
  let ?e = "enc_prop (content h q)"
  have "flatten_properties h (length A) (p_Next (prop_at h q)) (length A + 4 + length (B @ ?e))
      (A @ put_le32 (c + 1) @ (B @ ?e) @ replicate (m - length ?e) 0 @ T) =
    Some (A @ put_le32 ((c + 1) + of_nat (length ps)) @ (B @ ?e) @ concat (map (\<lambda>p. enc_prop (content h p)) ps) @
        replicate (m - length ?e - length (concat (map (\<lambda>p. enc_prop (content h p)) ps))) 0 @ T,
      length A + 4 + length (B @ ?e) + length (concat (map (\<lambda>p. enc_prop (content h p)) ps)))"
    using Cons.prems by (intro Cons.IH) auto
  then show ?case using Cons.prems flatten_property_ok [of h q m A B c]
    by (subst flatten_properties.simps) (simp add: add.assoc)
qed (simp add: flatten_properties.simps)


text \<open>One node at the end of what is written: its header, its properties and then its children.\<close>

definition node_head :: "dev_tree \<Rightarrow> nat list \<Rightarrow> nat \<Rightarrow> u8 list" where
  "node_head h ps k = put_le32 (of_nat (length ps)) @ put_le32 (of_nat k) @ concat (map (\<lambda>p. enc_prop (content h p)) ps)"

lemma enc_view: "enc (view h (ANode n ps cs)) = node_head h ps (length cs) @ concat (map (\<lambda>c. enc (view h c)) cs)"
  by (simp add: node_head_def o_def)

lemma length_node_head:
  "length (node_head h ps k) = 8 + length (concat (map (\<lambda>p. enc_prop (content h p)) ps))"
  by (simp add: node_head_def)

lemma flatten_head:
  assumes "plist (pN h) p ps" and "\<forall>p \<in> set ps. prop_ok h p" and "length (node_head h ps 0) \<le> m"
  shows "flatten_properties h (length A) p (length A + sizeof_NODE_FLATTEN) (A @ replicate m 0 @ T) =
    Some (A @ node_head h ps 0 @ replicate (m - length (node_head h ps 0)) 0 @ T, length A + length (node_head h ps 0))"
proof -
  have z: "put_le32 0 = replicate 4 0" by (simp add: put_le32_def numeral_eq_Suc)
  have "replicate m 0 = put_le32 0 @ put_le32 0 @ replicate (m - 8) (0 :: u8)"
    using assms(3) unfolding length_node_head z by (simp flip: replicate_add)
  then show ?thesis using flatten_properties_ok [OF assms(1,2), of "m - 8" A "put_le32 0" 0] assms(3)
    unfolding length_node_head node_head_def by (simp add: sizeof_NODE_FLATTEN_def ac_simps)
qed

lemma flatten_children_ok:
  assumes "plist (nN h) c (map a_addr cs)" and "\<forall>c \<in> set cs. tree_rel h c"
    and "length (concat (map (\<lambda>c. enc (view h c)) cs)) \<le> m" and "length H = 4"
  shows "flatten_children h (length A) c (length A + 8 + length B) (A @ H @ put_le32 k @ B @ replicate m 0 @ T) =
    Some (A @ H @ put_le32 (k + of_nat (length cs)) @ B @ concat (map (\<lambda>c. enc (view h c)) cs) @
        replicate (m - length (concat (map (\<lambda>c. enc (view h c)) cs))) 0 @ T,
      length A + 8 + length B + length (concat (map (\<lambda>c. enc (view h c)) cs)))"
  using assms
proof (induction "length (concat (map nodes cs))" arbitrary: c cs m A H B k rule: less_induct)
  case less
  show ?case
  proof (cases cs)
    case Nil
    then show ?thesis using less.prems by (simp add: flatten_children.simps)
  next
    case (Cons d ds)
    obtain n ps es where d: "d = ANode n ps es" by (cases d)
    let ?kids = "concat (map (\<lambda>c. enc (view h c)) es)" and ?head = "node_head h ps 0"
    let ?rest = "concat (map (\<lambda>c. enc (view h c)) ds)"
    let ?X = "A @ H @ put_le32 k @ B" and ?N = "node_head h ps (length es)"
    have rel: "tree_rel h d" "c = n" "n \<noteq> 0" "plist (nN h) (n_Next (node_at h n)) (map a_addr ds)"
      using less.prems(1,2) Cons d by auto
    have lens: "length ?N = length ?head" "length (enc (view h d)) = length ?head + length ?kids"
      unfolding d enc_view by (simp_all add: length_node_head)
    then have m: "length ?head + length ?kids + length ?rest \<le> m" using less.prems(3) Cons by simp
    define off where "off = length A + 8 + length B"
    have X: "length ?X = off" using less.prems(4) by (simp add: off_def)
    have s1: "flatten_properties h off (Properties (node_at h n)) (off + sizeof_NODE_FLATTEN) (A @ H @ put_le32 k @ B @ replicate m 0 @ T) =
      Some (?X @ ?head @ replicate (m - length ?head) 0 @ T, off + length ?head)"
      using flatten_head [of h "Properties (node_at h n)" ps m ?X] rel(1) d m X by simp
    have s2: "flatten_children h off (Children (node_at h n)) (off + length ?head) (?X @ ?head @ replicate (m - length ?head) 0 @ T) =
      Some (?X @ enc (view h d) @ replicate (m - length (enc (view h d))) 0 @ T, off + length (enc (view h d)))"
    proof -
      let ?P = "concat (map (\<lambda>p. enc_prop (content h p)) ps)"
      have "length (concat (map nodes es)) < length (concat (map nodes cs))" using Cons d by simp
      from less.hyps [OF this, of "Children (node_at h n)" "m - length ?head" "put_le32 (of_nat (length ps))" ?X ?P 0, unfolded X]
      show ?thesis using rel(1) d m lens unfolding d enc_view by (simp add: node_head_def ac_simps)
    qed
    have s3: "increment_at (length A + 4) (?X @ enc (view h d) @ replicate (m - length (enc (view h d))) 0 @ T) =
      Some (A @ H @ put_le32 (k + 1) @ (B @ enc (view h d)) @ replicate (m - length (enc (view h d))) 0 @ T)"
      using increment_at_put [of "A @ H" k] less.prems(4) by simp
    have s4: "flatten_children h (length A) (n_Next (node_at h n)) (off + length (enc (view h d)))
        (A @ H @ put_le32 (k + 1) @ (B @ enc (view h d)) @ replicate (m - length (enc (view h d))) 0 @ T) =
      Some (A @ H @ put_le32 (k + 1 + of_nat (length ds)) @ (B @ enc (view h d)) @ ?rest @
         replicate (m - length (enc (view h d)) - length ?rest) 0 @ T, off + length (enc (view h d)) + length ?rest)"
    proof -
      have "length (concat (map nodes ds)) < length (concat (map nodes cs))" using Cons d by simp
      from less.hyps [OF this, of "n_Next (node_at h n)" "m - length (enc (view h d))" H A "B @ enc (view h d)" "k + 1"]
      show ?thesis using rel(4) less.prems(2,4) Cons m lens by (simp add: off_def add.assoc)
    qed
    show ?thesis using s1 s2 s3 s4 rel(2,3) Cons
      unfolding off_def [symmetric] by (subst flatten_children.simps) (simp add: add.assoc)
  qed
qed


section \<open>The length\<close>

lemma tree_prop_ok: "tree_rel h t \<Longrightarrow> p \<in> set (props t) \<Longrightarrow> prop_ok h p"
  by (induction t) auto

lemma content_length: "prop_ok h p \<Longrightarrow> length (enc_prop (content h p)) = 36 + padded (unat (Length (prop_at h p)))"
  using c_str_32 [of "Name (prop_at h p)"] by (simp add: prop_ok_def content_def length_enc_prop)

lemma sum_list_concat: "sum_list (concat xss) = (\<Sum>xs \<leftarrow> xss. sum_list (xs :: nat list))"
  by (induction xss) auto

lemma enc_props_length:
  "\<forall>p \<in> set ps. prop_ok h p \<Longrightarrow> length (concat (map (\<lambda>p. enc_prop (content h p)) ps)) =
     36 * length ps + (\<Sum>p \<leftarrow> ps. padded (unat (Length (prop_at h p))))"
  by (induction ps) (auto simp: content_length)

lemma enc_length:
  "tree_rel h t \<Longrightarrow> length (enc (view h t)) = 8 * length (nodes t) + 36 * length (props t) +
     (\<Sum>p \<leftarrow> props t. padded (unat (Length (prop_at h p))))"
proof (induction t)
  case (ANode n ps cs)
  have kids: "\<forall>c \<in> set cs. length (enc (view h c)) = 8 * length (nodes c) + 36 * length (props c) +
     (\<Sum>p \<leftarrow> props c. padded (unat (Length (prop_at h p))))" using ANode by simp
  have "length (concat (map (\<lambda>c. enc (view h c)) cs)) = 8 * length (concat (map nodes cs)) +
      36 * length (concat (map props cs)) + (\<Sum>p \<leftarrow> concat (map props cs). padded (unat (Length (prop_at h p))))"
    using kids by (induction cs) auto
  then show ?case using ANode.prems unfolding enc_view
    by (simp add: length_node_head enc_props_length)
qed

lemma total_length_ok:
  assumes "dt_inv h t fn fp"
  shows "total_length h = of_nat (length (enc (view h t)))"
proof -
  have "(\<Sum>p \<leftarrow> ps. prop_size h p) = of_nat (\<Sum>p \<leftarrow> ps. padded (unat (Length (prop_at h p))))" for ps
    by (induction ps) (simp_all add: prop_size_def round4_padded)
  then show ?thesis using assms enc_length [of h t]
    by (simp add: dt_inv_def total_length_def sizeof_NODE_FLATTEN_def sizeof_PROPERTY_FLATTEN_def mult.commute)
qed

lemma flatten_root:
  assumes inv: "dt_inv h t fn fp"
  shows "DevTreepFlattenNode h (RootNode h) 0 (replicate (length (enc (view h t))) 0 @ T) =
     Some (enc (view h t) @ T, length (enc (view h t)))"
proof -
  obtain n ps cs where t: "t = ANode n ps cs" by (cases t)
  have rel: "tree_rel h t" "RootNode h = n" "n \<noteq> 0" using inv t by (auto simp: dt_inv_def)
  let ?m = "length (enc (view h t))" and ?head = "node_head h ps 0"
  have m: "?m = length ?head + length (concat (map (\<lambda>c. enc (view h c)) cs))"
    unfolding t enc_view by (simp add: length_node_head)
  have s1: "flatten_properties h 0 (Properties (node_at h n)) (0 + sizeof_NODE_FLATTEN) (replicate ?m 0 @ T) =
      Some (?head @ replicate (?m - length ?head) 0 @ T, length ?head)"
    using flatten_head [of h "Properties (node_at h n)" ps ?m "[]"] rel(1) t m by simp
  have s2: "flatten_children h 0 (Children (node_at h n)) (length ?head) (?head @ replicate (?m - length ?head) 0 @ T) =
      Some (enc (view h t) @ T, ?m)"
    using flatten_children_ok [of h "Children (node_at h n)" cs "?m - length ?head" "put_le32 (of_nat (length ps))" "[]"
        "concat (map (\<lambda>p. enc_prop (content h p)) ps)" 0 T] rel(1) t m
    unfolding t enc_view by (simp add: node_head_def)
  show ?thesis using s1 s2 rel by (simp add: DevTreepFlattenNode_def)
qed


lemma view_nonempty: "0 < length (enc (view h t))"
  by (cases t) simp

lemma DevTreeFlatten_ok:
  assumes inv: "dt_inv h t fn fp" and len: "length (enc (view h t)) < 2 ^ 32"
  shows "DevTreeFlatten No_buffer h = Some ((EFI_SUCCESS, None, of_nat (length (enc (view h t)))), h)"
    and "length (enc (view h t)) \<le> length b \<Longrightarrow> DevTreeFlatten (Into b) h =
      Some ((EFI_SUCCESS, Some (overlay b 0 (enc (view h t))), of_nat (length (enc (view h t)))), h)"
    and "pool_next h = (a, s) # bs \<Longrightarrow> DevTreeFlatten Allocate h = Some
      (if length (enc (view h t)) \<le> s
       then ((EFI_SUCCESS, Some (enc (view h t)), of_nat (length (enc (view h t)))), h\<lparr>pool_next := bs\<rparr>)
       else ((EFI_OUT_OF_RESOURCES, None, 0), h\<lparr>pool_next := bs\<rparr>))"
proof -
  let ?n = "length (enc (view h t))"
  have u: "unat (of_nat ?n :: u32) = ?n" using len by (simp add: unat_of_nat take_bit_nat_eq_self)
  have tl: "total_length h = of_nat ?n" by (rule total_length_ok [OF inv])
  have nz: "(of_nat ?n :: u32) \<noteq> 0" using u view_nonempty [of h t] by (metis less_irrefl unat_0)
  have fill: "DevTreepFlattenNode h (RootNode h) 0 (overlay b 0 (replicate ?n 0)) = Some (overlay b 0 (enc (view h t)), ?n)"
    if "?n \<le> length b" for b
    using flatten_root [OF inv, of "drop ?n b"] that by (simp add: overlay_def)
  show "DevTreeFlatten No_buffer h = Some ((EFI_SUCCESS, None, of_nat ?n), h)"
    by (simp add: DevTreeFlatten_def tl)
  show "DevTreeFlatten (Into b) h = Some ((EFI_SUCCESS, Some (overlay b 0 (enc (view h t))), of_nat ?n), h)"
    if "?n \<le> length b" using that fill [OF that] nz u by (simp add: DevTreeFlatten_def tl Let_def)
  assume pool: "pool_next h = (a, s) # bs"
  let ?h = "h\<lparr>pool_next := bs\<rparr>"
  have a: "a \<noteq> 0" using inv pool by (auto simp: dt_inv_def pool_ok_def)
  have inv': "dt_inv ?h t fn fp" and v: "view ?h t = view h t"
  proof -
    have "tree_rel ?h x = tree_rel h x" "view ?h x = view h x" for x
      by (induction x) (simp_all add: prop_ok_def content_def)
    then show "dt_inv ?h t fn fp" "view ?h t = view h t" using inv pool pool_ok_tl [of _ "(a, s)" bs]
      by (simp_all add: dt_inv_def prop_size_def in_use_def)
  qed
  have "DevTreepFlattenNode ?h (RootNode h) 0 (replicate ?n 0) = Some (enc (view h t), ?n)"
    using flatten_root [OF inv', of "[]"] v by simp
  then show "DevTreeFlatten Allocate h = Some (if ?n \<le> s
       then ((EFI_SUCCESS, Some (enc (view h t)), of_nat ?n), ?h) else ((EFI_OUT_OF_RESOURCES, None, 0), ?h))"
    using a nz u pool by (simp add: DevTreeFlatten_def tl Let_def MmAllocatePool_def overlay_def)
qed

section \<open>Reading the flat form\<close>

text \<open>The reader that a consumer of the flat form needs; the fuel bounds the depth.\<close>

fun read_many :: "nat \<Rightarrow> (u8 list \<Rightarrow> ('a \<times> u8 list) option) \<Rightarrow> u8 list \<Rightarrow> ('a list \<times> u8 list) option" where
  "read_many 0 f bs = Some ([], bs)"
| "read_many (Suc n) f bs = do { (x, bs) \<leftarrow> f bs; (xs, bs) \<leftarrow> read_many n f bs; Some (x # xs, bs) }"

definition read_prop :: "u8 list \<Rightarrow> ((u8 list \<times> u8 list) \<times> u8 list) option" where
  "read_prop bs = (if length bs < 36 then None
     else let n = unat (le32 bs 32) in
       if length bs < 36 + padded n then None
       else Some ((c_str (take 32 bs), take n (drop 36 bs)), drop (36 + padded n) bs))"

fun read_node :: "nat \<Rightarrow> u8 list \<Rightarrow> (dtree \<times> u8 list) option" where
  "read_node 0 bs = None"
| "read_node (Suc d) bs = (if length bs < 8 then None
     else do {
       (ps, r) \<leftarrow> read_many (unat (le32 bs 0)) read_prop (drop 8 bs);
       (cs, r) \<leftarrow> read_many (unat (le32 bs 4)) (read_node d) r;
       Some (DNode ps cs, r)
     })"

fun depth :: "dtree \<Rightarrow> nat" where
  "depth (DNode ps cs) = Suc (Max (set (0 # map depth cs)))"

fun dtree_ok :: "dtree \<Rightarrow> bool" where
  "dtree_ok (DNode ps cs) \<longleftrightarrow> length ps < 2 ^ 32 \<and> length cs < 2 ^ 32 \<and>
     (\<forall>(nm, v) \<in> set ps. length nm < 32 \<and> 0 \<notin> set nm \<and> length v < 2 ^ 32) \<and> (\<forall>c \<in> set cs. dtree_ok c)"

lemma read_many_ok:
  assumes "\<And>x rest. x \<in> set xs \<Longrightarrow> f (e x @ rest) = Some (x, rest)"
  shows "read_many (length xs) f (concat (map e xs) @ rest) = Some (xs, rest)"
  using assms by (induction xs arbitrary: rest) auto

lemma read_prop_ok:
  assumes "length nm < 32" and "0 \<notin> set nm" and "length v < 2 ^ 32"
  shows "read_prop (enc_prop (nm, v) @ rest) = Some ((nm, v), rest)"
proof -
  let ?b = "enc_prop (nm, v) @ rest" and ?pre = "nm @ replicate (32 - length nm) 0"
  have b: "?b = ?pre @ put_le32 (of_nat (length v)) @ (v @ replicate (padded (length v) - length v) 0 @ rest)"
    by (simp add: enc_prop_def)
  have pre: "length ?pre = 32" using assms(1) by simp
  have n: "unat (le32 ?b 32) = length v"
    using le32_put [of ?pre "of_nat (length v)"] assms(3) unfolding b pre by (simp add: unat_of_nat take_bit_nat_eq_self)
  have nm: "c_str (take 32 ?b) = nm"
  proof -
    have "take 32 ?b = ?pre" using pre unfolding b by simp
    then show ?thesis using assms(1,2) by (auto simp: c_str_def takeWhile_append)
  qed
  have "drop 36 ?b = v @ replicate (padded (length v) - length v) 0 @ rest" using pre unfolding b by simp
  moreover have "drop (36 + padded (length v)) ?b = rest"
    using pre padded_ge [of "length v"] unfolding b by simp
  moreover have "length ?b = 36 + padded (length v) + length rest"
    using length_enc_prop [of "(nm, v)"] assms(1) by simp
  ultimately show ?thesis using n nm by (simp add: read_prop_def Let_def)
qed

lemma read_node_ok: "dtree_ok t \<Longrightarrow> depth t \<le> d \<Longrightarrow> read_node d (enc t @ rest) = Some (t, rest)"
proof (induction t arbitrary: d rest)
  case (DNode ps cs)
  obtain e where d: "d = Suc e" using DNode.prems(2) by (cases d) auto
  let ?b = "enc (DNode ps cs) @ rest"
  have n: "le32 ?b 0 = of_nat (length ps)" "le32 ?b 4 = of_nat (length cs)"
    using le32_put [of "[]" "of_nat (length ps)"] le32_put [of "put_le32 (of_nat (length ps))" "of_nat (length cs)"] by simp_all
  have small: "unat (of_nat (length ps) :: u32) = length ps" "unat (of_nat (length cs) :: u32) = length cs"
    using DNode.prems(1) by (simp_all add: unat_of_nat take_bit_nat_eq_self)
  have "read_many (length ps) read_prop (concat (map enc_prop ps) @ (concat (map enc cs) @ rest)) =
      Some (ps, concat (map enc cs) @ rest)"
    using DNode.prems(1) by (intro read_many_ok) (auto intro!: read_prop_ok)
  moreover have "read_many (length cs) (read_node e) (concat (map enc cs) @ rest) = Some (cs, rest)"
  proof (rule read_many_ok)
    fix c r assume c: "c \<in> set cs"
    then have "depth c \<le> e" using DNode.prems(2) d by auto
    then show "read_node e (enc c @ r) = Some (c, r)" using DNode.IH [OF c] DNode.prems(1) c by simp
  qed
  ultimately show ?case using n small unfolding d by (simp del: of_nat_eq_id)
qed

end
