(* ===== verification/DeviceTreeProps.thy ===== *)
theory DeviceTreeProps
  imports DeviceTreeFlat
begin

text \<open>
  The promises of the device tree to its callers: the trees that sequences of calls build,
  lookups by name, when a call succeeds, and what is handed to the kernel.
\<close>

section \<open>Lookup\<close>

lemma strcmp_zero: "0 \<in> set a \<Longrightarrow> 0 \<in> set b \<Longrightarrow> \<exists>v. strcmp a b = Some v \<and> (v = 0 \<longleftrightarrow> c_str a = c_str b)"
  using strcmp_sign by blast

lemma find_property_ok:
  assumes "plist (pN h) p ps" and "\<forall>q \<in> set ps. prop_ok h q" and nm: "0 \<in> set nm"
  shows "find_property h nm p = Some (case find (\<lambda>q. fst (content h q) = c_str nm) ps of None \<Rightarrow> 0 | Some q \<Rightarrow> q)"
  using assms(1,2)
proof (induction ps arbitrary: p)
  case (Cons q ps)
  obtain v where "strcmp (Name (prop_at h q)) nm = Some v" "v = 0 \<longleftrightarrow> c_str (Name (prop_at h q)) = c_str nm"
    using strcmp_zero [OF _ nm] Cons.prems(2) by (auto simp: prop_ok_def)
  then show ?case using Cons by (subst find_property.simps) (auto simp: content_def)
qed (simp add: find_property.simps)

lemma find_map: "find P (map f xs) = map_option f (find (P \<circ> f) xs)"
  by (induction xs) auto

lemma tree_rel_node:
  "tree_rel h t \<Longrightarrow> n \<in> set (nodes t) \<Longrightarrow> \<exists>ps cs. tree_rel h (ANode n ps cs) \<and> set ps \<subseteq> set (props t) \<and>
     set (concat (map nodes cs)) \<subseteq> set (nodes t)"
proof (induction t)
  case (ANode m ps cs)
  show ?case
  proof (cases "m = n")
    case False
    then obtain c where c: "c \<in> set cs" "n \<in> set (nodes c)" using ANode.prems(2) by auto
    have "tree_rel h c" using ANode.prems(1) c(1) by simp
    then obtain ps' cs' where "tree_rel h (ANode n ps' cs')" "set ps' \<subseteq> set (props c)"
      "set (concat (map nodes cs')) \<subseteq> set (nodes c)" using ANode.IH [OF c(1) _ c(2)] by blast
    then show ?thesis using c(1) by (intro exI [of _ ps'] exI [of _ cs']) auto
  qed (use ANode.prems in \<open>intro exI [of _ ps] exI [of _ cs], auto\<close>)
qed

section \<open>Success\<close>

lemma GetProperty_succeeds:
  assumes "NextFreeProperty h = 0 \<Longrightarrow> pool_next h = (a, s) # bs" and "4096 \<le> s" and "0 < a"
  shows "\<exists>p h'. DevTreepGetProperty h = (p, h') \<and> p \<noteq> 0 \<and> prop_at h' p = zero_property \<and>
    pool_next h' = (if NextFreeProperty h = 0 then bs else pool_next h)"
proof (cases "NextFreeProperty h = 0")
  case True
  let ?n = "4096 div sizeof_PROPERTY"
  have n: "[1..<?n] = [1..<?n - 1] @ [?n - 1]" by (simp add: sizeof_PROPERTY_def upt_rec)
  show ?thesis using True assms
    unfolding DevTreepGetProperty_def n
    by (simp add: Let_def MmAllocatePool_def carve_property_def upd_prop_def sizeof_PROPERTY_def)
qed (simp add: DevTreepGetProperty_def Let_def upd_prop_def)


lemma GetNode_succeeds:
  assumes "NextFreeNode h = 0 \<Longrightarrow> pool_next h = (a, s) # bs" and "4096 \<le> s" and "0 < a"
  shows "\<exists>k h'. DevTreepGetNode h = (k, h') \<and> k \<noteq> 0 \<and> NextFreeProperty h' = NextFreeProperty h \<and>
    pool_next h' = (if NextFreeNode h = 0 then bs else pool_next h)"
proof (cases "NextFreeNode h = 0")
  case True
  let ?n = "4096 div sizeof_NODE"
  have n: "[1..<?n] = [1..<?n - 1] @ [?n - 1]" by (simp add: sizeof_NODE_def upt_rec)
  show ?thesis using True assms
    unfolding DevTreepGetNode_def n
    by (simp add: Let_def MmAllocatePool_def carve_node_def upd_node_def sizeof_NODE_def)
qed (simp add: DevTreepGetNode_def Let_def upd_node_def)

text \<open>
  A property is added when there is a free one or the pool has a page for more, and it has a
  block for a copied value.
\<close>

lemma AddProperty_succeeds:
  assumes pool: "NextFreeProperty h = 0 \<Longrightarrow> pool_next h = (a, s) # bs" "NextFreeProperty h \<noteq> 0 \<Longrightarrow> pool_next h = bs"
    and "4096 \<le> s" and "0 < a"
    and val: "\<And>v. src = Copy v \<Longrightarrow> \<exists>b r bs'. bs = (b, r) # bs' \<and> 0 < b \<and> unat len \<le> r"
    and nm: "0 \<in> set nm" "length (c_str nm) < 32"
  shows "\<exists>h'. DevTreeAddProperty n nm src len h = Some (EFI_SUCCESS, h')"
proof -
  obtain p h1 where g: "DevTreepGetProperty h = (p, h1)" "p \<noteq> 0" "prop_at h1 p = zero_property" "pool_next h1 = bs"
    using GetProperty_succeeds [of h a s bs, OF pool(1) assms(3,4)] pool(2) by (auto split: if_splits)
  obtain nm' where "strcpy (replicate 32 0) nm = Some nm'"
    using str_put_correct [OF nm(1), of 0 "replicate 32 0"] nm(2) by (auto simp: strcpy_def)
  moreover obtain h3 where "set_value p src len (upd_prop p (\<lambda>p. p\<lparr>Name := nm', Length := len\<rparr>) h1) = (True, h3)"
    using val g(4) by (cases src) (auto simp: set_value_def MmAllocatePool_def upd_prop_def Let_def)
  ultimately show ?thesis using g by (simp add: DevTreeAddProperty_def zero_property_def)
qed

lemma Initialize_succeeds:
  assumes "NextFreeNode h = 0" and "NextFreeProperty h = 0"
    and pool: "pool_next h = (a, s) # (b, r) # (c, q) # bs" "4096 \<le> s" "4096 \<le> r" "2 \<le> q" "0 < a" "0 < b" "0 < c"
  shows "\<exists>h'. DevTreeInitialize h = Some (EFI_SUCCESS, h')"
proof -
  obtain k h1 where g: "DevTreepGetNode h = (k, h1)" "k \<noteq> 0" "NextFreeProperty h1 = 0" "pool_next h1 = (b, r) # (c, q) # bs"
    using GetNode_succeeds [of h a s "(b, r) # (c, q) # bs"] assms by auto
  have "\<exists>h'. DevTreeAddProperty k name_string (Copy [0x2f, 0]) 2 (h1\<lparr>RootNode := k\<rparr>) = Some (EFI_SUCCESS, h')"
    using g pool by (intro AddProperty_succeeds [of _ b r "(c, q) # bs"]) (auto simp: name_string_def c_str_def)
  then show ?thesis using g by (auto simp: DevTreeInitialize_def DevTreeAddChild_def Let_def)
qed

section \<open>Histories\<close>

text \<open>
  The states that calls can reach from a pool that keeps its promise, with the nodes whose
  addresses the caller has been given.
\<close>

inductive dt_reach :: "dev_tree \<Rightarrow> nat set \<Rightarrow> bool" where
  init: "NextFreeNode h0 = 0 \<Longrightarrow> NextFreeProperty h0 = 0 \<Longrightarrow> TotalNodes h0 = 0 \<Longrightarrow> TotalProperties h0 = 0 \<Longrightarrow>
    TotalPropertiesSize h0 = 0 \<Longrightarrow> pool_ok {} (pool_next h0) \<Longrightarrow>
    DevTreeInitialize h0 = Some (EFI_SUCCESS, h) \<Longrightarrow> dt_reach h {RootNode h}"
| add_property: "dt_reach h N \<Longrightarrow> n \<in> N \<Longrightarrow> source_ok h src len \<Longrightarrow>
    DevTreeAddProperty n nm src len h = Some (EFI_SUCCESS, h') \<Longrightarrow> dt_reach h' N"
| add_child: "dt_reach h N \<Longrightarrow> n \<in> N \<Longrightarrow> length (c_str nm) + 1 < 2 ^ 32 \<Longrightarrow>
    DevTreeAddChild n nm h = Some (k, h') \<Longrightarrow> k \<noteq> 0 \<Longrightarrow> dt_reach h' (insert k N)"

lemma dt_reach_inv: "dt_reach h N \<Longrightarrow> \<exists>t fn fp. dt_inv h t fn fp \<and> set (nodes t) = N"
proof (induction rule: dt_reach.induct)
  case (init h0 h)
  then show ?case using Initialize_inv [of h0 h] by (fastforce simp: dt_inv_def)
next
  case (add_property h N n src len nm h')
  then show ?case using AddProperty_inv [of h _ _ _ n src len nm h'] by (metis nodes_add_prop)
next
  case (add_child h N n nm k h')
  then obtain t fn fp where inv: "dt_inv h t fn fp" and t: "set (nodes t) = N" by blast
  have "set (nodes (add_prop k p (add_kid n (ANode k [] []) t))) = insert k N" for p
    using arg_cong [OF add_kid_nodes [of n t "ANode k [] []"], of set_mset] inv add_child(2) t
    by (simp add: dt_inv_def)
  then show ?case using AddChild_inv [OF inv _ add_child(3-5)] add_child(2) t by blast
qed


section \<open>Values by name\<close>

fun props_of :: "nat \<Rightarrow> atree \<Rightarrow> nat list" where
  "props_of n (ANode m ps cs) = (if m = n then ps else concat (map (props_of n) cs))"

lemma props_of_outside: "n \<notin> set (nodes t) \<Longrightarrow> props_of n t = []"
  by (induction t) auto

lemma props_of_child:
  assumes "n \<in> set (nodes (ANode m ps cs))" and "distinct (nodes (ANode m ps cs))" and "m \<noteq> n"
    and "cs = xs @ c # ys" and "\<And>d. d \<in> set xs \<union> set ys \<Longrightarrow> n \<notin> set (nodes d)"
  shows "props_of n (ANode m ps (xs @ d # ys)) = props_of n d"
proof -
  have "concat (map (props_of n) xs) = []" "concat (map (props_of n) ys) = []"
    using assms(5) by (auto simp: props_of_outside)
  then show ?thesis using assms(3) by (simp del: concat_eq_Nil_conv)
qed

lemma props_of_rel:
  "tree_rel h t \<Longrightarrow> distinct (nodes t) \<Longrightarrow> n \<in> set (nodes t) \<Longrightarrow>
   plist (pN h) (Properties (node_at h n)) (props_of n t) \<and> (\<forall>p \<in> set (props_of n t). prop_ok h p)"
proof (induction t)
  case (ANode m ps cs)
  show ?case
  proof (cases "m = n")
    case False
    obtain xs c ys where c: "cs = xs @ c # ys" "n \<in> set (nodes c)" "distinct (nodes c)"
      "\<And>d. d \<in> set xs \<union> set ys \<Longrightarrow> n \<notin> set (nodes d)"
      using child_of [OF ANode.prems(3,2) False] by metis
    have "props_of n (ANode m ps cs) = props_of n c"
      using props_of_child [OF ANode.prems(3,2) False c(1,4), of c] c(1) by simp
    then show ?thesis using ANode.IH [OF _ _ c(3,2)] ANode.prems(1) c(1) by simp
  qed (use ANode.prems in simp)
qed

lemma props_of_add_prop:
  "distinct (nodes t) \<Longrightarrow> n \<in> set (nodes t) \<Longrightarrow>
   props_of m (add_prop n p t) = (if m = n then props_of n t @ [p] else props_of m t)"
proof (induction t)
  case (ANode r ps cs)
  show ?case
  proof (cases "r = n")
    case False
    obtain xs c ys where c: "cs = xs @ c # ys" "n \<in> set (nodes c)" "distinct (nodes c)"
      "map (add_prop n p) cs = xs @ add_prop n p c # ys" "\<And>d. d \<in> set xs \<union> set ys \<Longrightarrow> n \<notin> set (nodes d)"
      using child_of [OF ANode.prems(2,1) False, of "ANode 0 [] []" p] by metis
    have "props_of m (add_prop n p c) = (if m = n then props_of n c @ [p] else props_of m c)"
      using ANode.IH [OF _ c(3,2)] c(1) by simp
    moreover have "concat (map (props_of n) ys) = []" using c(5) by (auto simp: props_of_outside)
    ultimately show ?thesis using False c(4)
      by (cases "m = n") (simp_all add: c(1) del: concat_eq_Nil_conv)
  qed auto
qed

lemma props_of_add_kid:
  "distinct (nodes t) \<Longrightarrow> n \<in> set (nodes t) \<Longrightarrow> k \<notin> set (nodes t) \<Longrightarrow>
   props_of m (add_kid n (ANode k [] []) t) = (if m = k then [] else props_of m t)"
proof (induction t)
  case (ANode r ps cs)
  have out: "props_of k d = []" if "d \<in> set cs" for d using that ANode.prems(3) by (auto intro!: props_of_outside)
  show ?case
  proof (cases "r = n")
    case False
    obtain xs c ys where c: "cs = xs @ c # ys" "n \<in> set (nodes c)" "distinct (nodes c)"
      "map (add_kid n (ANode k [] [])) cs = xs @ add_kid n (ANode k [] []) c # ys"
      using child_of [OF ANode.prems(2,1) False, of "ANode k [] []" 0] by metis
    have "props_of m (add_kid n (ANode k [] []) c) = (if m = k then [] else props_of m c)"
      using ANode.IH [OF _ c(3,2)] ANode.prems(3) c(1) by simp
    then show ?thesis using False c(4) out ANode.prems(3) by (auto simp: c(1))
  qed (use out ANode.prems in auto)
qed

definition property_value :: "nat \<Rightarrow> u8 list \<Rightarrow> dev_tree \<Rightarrow> u8 list option" where
  "property_value n nm h = map_option (\<lambda>(a, l). take (unat l) (bytes_at h a)) (DevTreeGetProperty n nm h)"

definition value_in :: "dev_tree \<Rightarrow> u8 list \<Rightarrow> nat list \<Rightarrow> u8 list" where
  "value_in h nm ps = (case find (\<lambda>q. fst (content h q) = c_str nm) ps of None \<Rightarrow> [] | Some q \<Rightarrow> snd (content h q))"

lemma property_value_ok:
  assumes "dt_inv h t fn fp" and "n \<in> set (nodes t)" and "0 \<in> set nm"
  shows "property_value n nm h = Some (value_in h nm (props_of n t))"
proof -
  note r = props_of_rel [OF _ _ assms(2), of h]
  have "plist (pN h) (Properties (node_at h n)) (props_of n t)" "\<forall>p \<in> set (props_of n t). prop_ok h p" "0 \<notin> set (props_of n t)"
    using r assms(1) plist_nonzero [of "pN h" _ "props_of n t"] by (auto simp: dt_inv_def)
  moreover have "q \<in> set ps" if "find P ps = Some q" for P q and ps :: "nat list"
    using that by (auto simp: find_Some_iff)
  ultimately show ?thesis using assms(3)
    by (fastforce simp: property_value_def DevTreeGetProperty_def find_property_ok value_in_def content_def
        split: option.splits)
qed

lemma find_append: "find P (xs @ ys) = (case find P xs of None \<Rightarrow> find P ys | Some x \<Rightarrow> Some x)"
  by (induction xs) auto

lemma value_in_cong: "(\<And>q. q \<in> set ps \<Longrightarrow> content h' q = content h q) \<Longrightarrow> value_in h' nm ps = value_in h nm ps"
proof (induction ps)
  case (Cons q ps)
  then show ?case by (auto simp: value_in_def)
qed (simp add: value_in_def)

lemma value_in_snoc:
  "value_in h nm (ps @ [p]) = (if c_str nm \<in> (\<lambda>q. fst (content h q)) ` set ps then value_in h nm ps
     else if c_str nm = fst (content h p) then snd (content h p) else [])"
  by (induction ps) (auto simp: value_in_def)

lemma value_in_none: "c_str nm \<notin> (\<lambda>q. fst (content h q)) ` set ps \<Longrightarrow> value_in h nm ps = []"
  by (induction ps) (auto simp: value_in_def)

lemma props_of_subset: "set (props_of n t) \<subseteq> set (props t)"
  by (induction t) auto


text \<open>
  C1. Whatever sequence of successful DevTreeInitialize, DevTreeAddProperty and DevTreeAddChild calls is
  made, on an allocator that never hands out overlapping blocks: the pointers form a tree
  without sharing or cycles whose nodes are exactly those given to the caller, its nodes and
  properties are disjoint from the two free lists, every name is terminated in its 32
  bytes, every value has its bytes, and the three totals count the nodes, the properties and
  the padded sizes of the values.
\<close>

theorem device_tree_invariant:
  assumes "dt_reach h N"
  shows "\<exists>t fn fp. dt_inv h t fn fp \<and> set (nodes t) = N"
  using assms by (rule dt_reach_inv)

definition empty_dev_tree :: dev_tree where
  "empty_dev_tree = \<lparr>RootNode = 0, NextFreeNode = 0, AllocatedNodes = 0, NextFreeProperty = 0,
     AllocatedProperties = 0, TotalNodes = 0, TotalProperties = 0, TotalPropertiesSize = 0,
     node_at = (\<lambda>_. zero_node), prop_at = (\<lambda>_. zero_property), bytes_at = (\<lambda>_. []),
     pool_next = [(0x1000, 4096), (0x3000, 4096), (0x5000, 16), (0x6000, 64)], pool_freed = []\<rparr>"

lemma empty_dev_tree_ok:
  "NextFreeNode empty_dev_tree = 0" "NextFreeProperty empty_dev_tree = 0" "TotalNodes empty_dev_tree = 0"
  "TotalProperties empty_dev_tree = 0" "TotalPropertiesSize empty_dev_tree = 0"
  "pool_ok {} (pool_next empty_dev_tree)"
  by (simp_all add: empty_dev_tree_def pool_ok_def apart_def)

lemma empty_initialized: "\<exists>h. DevTreeInitialize empty_dev_tree = Some (EFI_SUCCESS, h)"
  by (rule Initialize_succeeds [where a = "0x1000" and b = "0x3000" and c = "0x5000" and s = 4096 and r = 4096 and q = 16
      and bs = "[(0x6000, 64)]"]) (simp_all add: empty_dev_tree_def)

theorem device_tree_invariant_witness:
  "\<exists>h t fn fp. DevTreeInitialize empty_dev_tree = Some (EFI_SUCCESS, h) \<and> dt_inv h t fn fp \<and> set (nodes t) = {RootNode h}"
proof -
  obtain h where h: "DevTreeInitialize empty_dev_tree = Some (EFI_SUCCESS, h)" using empty_initialized by blast
  then have "dt_reach h {RootNode h}" by (rule dt_reach.init [OF empty_dev_tree_ok])
  then show ?thesis using device_tree_invariant [of h "{RootNode h}"] h by blast
qed

text \<open>
  C3. A property that DevTreeAddProperty has added is what DevTreeGetProperty finds under its name, byte for
  byte, unless the node had a property of that name before, which still wins; what is found
  under every other name and at every other node stays as it was.
\<close>

theorem add_property_lookup:
  assumes inv: "dt_inv h t fn fp" and n: "n \<in> set (nodes t)" and src: "source_ok h src len"
    and run: "DevTreeAddProperty n nm src len h = Some (EFI_SUCCESS, h')"
    and m: "m \<in> set (nodes t)" and nm': "0 \<in> set nm'"
  shows "property_value m nm' h' =
    (if m = n \<and> c_str nm' = c_str nm \<and> c_str nm \<notin> (\<lambda>q. fst (content h q)) ` set (props_of n t)
     then Some (source_bytes h src len) else property_value m nm' h)"
proof -
  obtain p fp' where a: "dt_inv h' (add_prop n p t) fn fp'" "content h' p = (c_str nm, source_bytes h src len)"
    "\<forall>q \<in> set (props t). content h' q = content h q" using AddProperty_inv [OF inv n src run] by blast
  have "distinct (nodes t)" using inv by (simp add: dt_inv_def)
  note ps = props_of_add_prop [OF this n, of m p]
  have same: "value_in h' nm' (props_of m t) = value_in h nm' (props_of m t)"
    using a(3) props_of_subset [of m t] by (intro value_in_cong) auto
  have "(\<lambda>q. fst (content h' q)) ` set (props_of n t) = (\<lambda>q. fst (content h q)) ` set (props_of n t)"
    using a(3) props_of_subset [of n t] by (intro image_cong) auto
  note new = value_in_snoc [of h' nm' "props_of n t" p, unfolded this a(2) fst_conv snd_conv]
  have "property_value m nm' h = Some (value_in h nm' (props_of m t))"
    "property_value m nm' h' = Some (value_in h' nm' (if m = n then props_of n t @ [p] else props_of m t))"
    using property_value_ok [OF inv m nm'] property_value_ok [OF a(1) _ nm', of m] m ps by simp_all
  then show ?thesis using same new value_in_none [of nm' h "props_of n t"] by (cases "m = n") auto
qed


text \<open>A root without properties, two free properties and one free node, and three small blocks in the pool.\<close>

definition small_tree :: dev_tree where
  "small_tree = \<lparr>RootNode = 100, NextFreeNode = 150, AllocatedNodes = 0, NextFreeProperty = 200,
     AllocatedProperties = 0, TotalNodes = 1, TotalProperties = 0, TotalPropertiesSize = 0,
     node_at = (\<lambda>_. zero_node), prop_at = (\<lambda>_. zero_property)(200 := zero_property\<lparr>p_Next := 300\<rparr>),
     bytes_at = (\<lambda>_. []), pool_next = [(400, 8), (500, 200)], pool_freed = []\<rparr>"

lemma small_tree_inv: "dt_inv small_tree (ANode 100 [] []) [150] [200, 300]"
  by (simp add: dt_inv_def small_tree_def zero_node_def zero_property_def in_use_def pool_ok_def apart_def)

definition grown_tree :: dev_tree where
  "grown_tree = snd (the (DevTreeAddProperty 100 [0x61, 0] (Copy [1, 2, 3]) 3 small_tree))"

lemma grown_tree_run:
  "DevTreeAddProperty 100 [0x61, 0] (Copy [1, 2, 3]) 3 small_tree = Some (EFI_SUCCESS, grown_tree)"
  unfolding grown_tree_def
  by (simp add: DevTreeAddProperty_def DevTreepGetProperty_def small_tree_def Let_def strcpy_def upd_prop_def
      zero_property_def set_value_def MmAllocatePool_def)

theorem add_property_lookup_witness:
  "property_value 100 [0x61, 0] grown_tree = Some [1, 2, 3]"
  using add_property_lookup [OF small_tree_inv _ _ grown_tree_run, of 100 "[0x61, 0]"]
  by (simp add: source_ok_def source_bytes_def)

text \<open>
  C4. DevTreeAddChild hangs a new node in front of the children of its parent, with the
  one property name whose value is the terminated name; the rest of the tree keeps its
  shape and the contents of its properties, and the totals count the new node and property.
\<close>

theorem add_child_correct:
  assumes "dt_inv h t fn fp" and "n \<in> set (nodes t)" and "length (c_str nm) + 1 < 2 ^ 32"
    and "DevTreeAddChild n nm h = Some (k, h')" and "k \<noteq> 0"
  shows "\<exists>p fn' fp'. dt_inv h' (add_prop k p (add_kid n (ANode k [] []) t)) fn' fp' \<and>
    k \<notin> set (nodes t) \<and> content h' p = (c_str name_string, c_str nm @ [0]) \<and>
    property_value k name_string h' = Some (c_str nm @ [0]) \<and>
    (\<forall>m \<in> set (nodes t). \<forall>nm'. 0 \<in> set nm' \<longrightarrow> property_value m nm' h' = property_value m nm' h)"
proof -
  let ?t = "add_kid n (ANode k [] []) t"
  obtain p fn' fp' where a: "dt_inv h' (add_prop k p ?t) fn' fp'" "k \<notin> set (nodes t)"
    "content h' p = (c_str name_string, c_str nm @ [0])" "\<forall>q \<in> set (props t). content h' q = content h q"
    using AddChild_inv [OF assms] by blast
  have d: "distinct (nodes t)" "distinct (nodes ?t)" using assms(1) a(1) by (auto simp: dt_inv_def)
  have N: "set (nodes ?t) = insert k (set (nodes t))"
    using arg_cong [OF add_kid_nodes [OF assms(2) d(1), of "ANode k [] []"], of set_mset] by simp
  have ps: "props_of m (add_prop k p ?t) = (if m = k then [p] else props_of m t)" for m
    using props_of_add_prop [OF d(2), of k m p] props_of_add_kid [OF d(1) assms(2) a(2), of m]
      props_of_add_kid [OF d(1) assms(2) a(2), of k] N by simp
  have "property_value k name_string h' = Some (value_in h' name_string [p])"
    using property_value_ok [OF a(1), of k name_string] N ps by (simp add: name_string_def)
  then have "property_value k name_string h' = Some (c_str nm @ [0])"
    using a(3) by (simp add: value_in_def)
  moreover have "property_value m nm' h' = property_value m nm' h" if m: "m \<in> set (nodes t)" "0 \<in> set nm'" for m nm'
  proof -
    have "value_in h' nm' (props_of m t) = value_in h nm' (props_of m t)"
      using a(4) props_of_subset [of m t] by (intro value_in_cong) auto
    then show ?thesis using property_value_ok [OF assms(1) m] property_value_ok [OF a(1) _ m(2), of m] N m(1) a(2) ps
      by auto
  qed
  ultimately show ?thesis using a(1-3) by blast
qed

definition child_tree :: dev_tree where
  "child_tree = snd (the (DevTreeAddChild 100 [0x61, 0] small_tree))"

lemma child_tree_run: "DevTreeAddChild 100 [0x61, 0] small_tree = Some (150, child_tree)"
  unfolding child_tree_def
  by (simp add: DevTreeAddChild_def DevTreepGetNode_def DevTreeAddProperty_def DevTreepGetProperty_def small_tree_def
      Let_def strcpy_def upd_prop_def upd_node_def name_string_def zero_property_def set_value_def MmAllocatePool_def)

theorem add_child_correct_witness: "property_value 150 name_string child_tree = Some [0x61, 0]"
  using add_child_correct [OF small_tree_inv _ _ child_tree_run] by (auto simp: c_str_def)

lemma view_ok: "tree_rel h t \<Longrightarrow> length (enc (view h t)) < 2 ^ 32 \<Longrightarrow> dtree_ok (view h t)"
proof (induction t)
  case (ANode n ps cs)
  have ok: "\<forall>p \<in> set ps. prop_ok h p" using ANode.prems(1) by simp
  have len: "8 + length (concat (map (\<lambda>p. enc_prop (content h p)) ps)) +
      length (concat (map (\<lambda>c. enc (view h c)) cs)) < 2 ^ 32"
    using ANode.prems(2) unfolding enc_view by (simp add: length_node_head)
  have "length ps < 2 ^ 32" using len unfolding enc_props_length [OF ok] by simp
  moreover have "length cs \<le> length (concat (map (\<lambda>c. enc (view h c)) cs))"
  proof (induction cs)
    case (Cons c cs)
    then show ?case using view_nonempty [of h c] by (simp del: length_greater_0_conv)
  qed simp
  moreover have "dtree_ok (view h c)" if c: "c \<in> set cs" for c
  proof (rule ANode.IH [OF c])
    have "length (enc (view h c)) \<le> length (concat (map (\<lambda>c. enc (view h c)) cs))"
      using c by (induction cs) auto
    then show "length (enc (view h c)) < 2 ^ 32" using len by linarith
  qed (use ANode.prems(1) c in simp)
  moreover have "length (fst (content h p)) < 32 \<and> 0 \<notin> set (fst (content h p)) \<and> length (snd (content h p)) < 2 ^ 32"
    if "p \<in> set ps" for p
  proof -
    have "unat (Length (prop_at h p)) < 2 ^ 32" using unat_bound [of "Length (prop_at h p)"] by simp
    then show ?thesis using ok that c_str_32 [of "Name (prop_at h p)"]
      by (auto simp: content_def prop_ok_def c_str_def dest: set_takeWhileD)
  qed
  ultimately show ?case using len by fastforce
qed

text \<open>
  C2. DevTreeFlatten fills the buffer with the flat form of the tree and nothing outside of
  it, and returns its exact length: the size computed from the totals is the size that
  the nodes and properties take. From the flat form the whole tree, names and values, can be
  read back.
\<close>

theorem flatten_roundtrip:
  assumes "dt_inv h t fn fp" and "length (enc (view h t)) < 2 ^ 32" and "length (enc (view h t)) \<le> length b"
  shows "DevTreeFlatten No_buffer h = Some ((EFI_SUCCESS, None, of_nat (length (enc (view h t)))), h) \<and>
    DevTreeFlatten (Into b) h =
      Some ((EFI_SUCCESS, Some (overlay b 0 (enc (view h t))), of_nat (length (enc (view h t)))), h) \<and>
    (\<exists>d. read_node d (overlay b 0 (enc (view h t))) = Some (view h t, drop (length (enc (view h t))) b))"
proof -
  have rel: "tree_rel h t" using assms(1) by (simp add: dt_inv_def)
  have "read_node (depth (view h t)) (enc (view h t) @ drop (length (enc (view h t))) b) =
      Some (view h t, drop (length (enc (view h t))) b)"
    by (rule read_node_ok [OF view_ok [OF rel assms(2)] order_refl])
  then show ?thesis using DevTreeFlatten_ok(1,2) [OF assms(1,2)] assms(3) by (auto simp: overlay_def)
qed

theorem flatten_roundtrip_witness:
  "DevTreeFlatten (Into (replicate 50 7)) grown_tree = Some ((EFI_SUCCESS, Some ([1, 0, 0, 0, 0, 0, 0, 0, 0x61] @
     replicate 31 0 @ [3, 0, 0, 0, 1, 2, 3, 0, 7, 7]), 48), grown_tree)"
proof -
  obtain p fp' where a: "dt_inv grown_tree (add_prop 100 p (ANode 100 [] [])) [150] fp'"
    "content grown_tree p = ([0x61], [1, 2, 3])"
    using AddProperty_inv [OF small_tree_inv _ _ grown_tree_run] by (auto simp: source_ok_def source_bytes_def c_str_def)
  have e: "enc (view grown_tree (add_prop 100 p (ANode 100 [] []))) =
      [1, 0, 0, 0, 0, 0, 0, 0, 0x61] @ replicate 31 0 @ [3, 0, 0, 0, 1, 2, 3, 0]"
    using a(2) by (simp add: enc_prop_def put_le32_def padded_def)
  have "overlay (replicate 50 7) 0 ([1, 0, 0, 0, 0, 0, 0, 0, 0x61] @ replicate 31 0 @ [3, 0, 0, 0, 1, 2, 3, 0]) =
      [1, 0, 0, 0, 0, 0, 0, 0, 0x61] @ replicate 31 0 @ [3, 0, 0, 0, 1, 2, 3, 0, 7, 7 :: u8]"
    by (simp add: overlay_def numeral_2_eq_2)
  then show ?thesis using flatten_roundtrip [OF a(1), of "replicate 50 7"] unfolding e by simp
qed

lemma failed_property_keeps_nodes:
  assumes "DevTreeAddProperty n nm src len h = Some (status, h')" and "status \<noteq> EFI_SUCCESS"
  shows "node_at h' = node_at h"
proof -
  obtain p h1 where g: "DevTreepGetProperty h = (p, h1)" by fastforce
  have "node_at h1 = node_at h"
    using g by (auto simp: DevTreepGetProperty_def MmAllocatePool_def upd_prop_def Let_def split: if_splits list.splits)
  then show ?thesis using assms g
    by (auto simp: DevTreeAddProperty_def set_value_def MmAllocatePool_def upd_prop_def Let_def
        split: if_splits option.splits value_source.splits list.splits)
qed

text \<open>
  When the name property of a new child cannot be had, DevTreeAddChild returns NULL but the
  node, which it has put on the free list, is still the first child of the parent.
\<close>

lemma failed_child_stays_linked:
  assumes "dt_inv h t fn fp" and "n \<in> set (nodes t)" and "DevTreepGetNode h = (k, h1)" and "k \<noteq> 0"
    and "DevTreeAddChild n nm h = Some (0, h')"
  shows "Children (node_at h' n) = k \<and> NextFreeNode h' = k"
proof -
  obtain fn' where g: "dt_inv (link_child n k h1) (add_kid n (ANode k [] []) t) fn' fp" "k \<notin> set (nodes t)"
    using get_link_inv [OF assms(1-4)] by blast
  let ?h = "link_child n k h1"
  have n: "n \<noteq> 0" "n \<noteq> k" using assms(1,2) g(2) by (auto simp: dt_inv_def)
  obtain fn'' where "node_at h1 k = zero_node"
    using DevTreepGetNode_ok [of h fn "set (nodes t)" "in_use h t fn fp" k h1] assms(1,3,4)
    by (auto simp: dt_inv_def in_use_def)
  then have k: "Properties (node_at ?h k) = 0" "Children (node_at ?h n) = k"
    using n by (simp_all add: link_child_def upd_node_def zero_node_def)
  have "\<exists>len status h2. DevTreeAddProperty k name_string (Copy nm) len ?h = Some (status, h2) \<and>
      status \<noteq> EFI_SUCCESS \<and> DevTreepFreeNode k h2 = Some h'"
    using assms(3-5) n
    by (auto simp: DevTreeAddChild_def link_child_def Let_def split: option.splits if_splits) blast+
  then obtain len status h2 where r: "DevTreeAddProperty k name_string (Copy nm) len ?h = Some (status, h2)"
    "status \<noteq> EFI_SUCCESS" "DevTreepFreeNode k h2 = Some h'" by blast
  have "node_at h2 = node_at ?h" using r(1,2) failed_property_keeps_nodes by blast
  then show ?thesis using r(3) k n
    by (auto simp: DevTreepFreeNode_def free_properties.simps upd_node_def Let_def)
qed

end
