(* ===== verification/Memory.thy ===== *)
theory Memory
  imports FreeLists
begin

text \<open>
  The memory manager (Memory.c): allocations through the boot services, the list of tags that
  remembers them, and the range of memory taken for the kernel. The boot services are outside
  of the program. What they will answer is part of the state: \<open>pool_next\<close> has the blocks
  that AllocatePool will return, address and size, and it fails when the list is empty or the
  block is too small; \<open>pages_next\<close> has the outcomes of AllocatePages, None for an error
  and the value of *physicalAddress otherwise. The calls made are in a log. None as a
  result of a function stands for a loop that does not end. MmFinalize reads the pages that hold the tags after it has
  released them: what the firmware leaves in a released page is a parameter of the model, and undefined in general.
\<close>

section \<open>State\<close>

record MEMORY_TAG =
  PhysicalAddress :: u64
  BufferLength :: u64
  VirtualAddress :: nat
  t_Next :: nat

datatype EFI_ALLOCATE_TYPE = AllocateAnyPages | AllocateMaxAddress | AllocateAddress

datatype boot_call =
    AllocatePool nat
  | FreePool nat
  | AllocatePages EFI_ALLOCATE_TYPE u64 u64
  | FreePages u64 u64

record memory =
  MmpNextFreeMemoryTag :: nat
  MmpAllocatedMemoryTagPoolHead :: nat
  MmpAllocatedMemoryTagHead :: nat
  MmpKernelVirtualBegin :: u64
  MmpKernelVirtualEnd :: u64
  MmpKernelPhysicalBegin :: u64
  MmpKernelPhysicalEnd :: u64
  tag_at :: "nat \<Rightarrow> MEMORY_TAG"
  EfiBootServices :: bool
  pool_next :: "(nat \<times> nat) list"
  pages_next :: "u64 option list"
  calls :: "boot_call list"

definition zero_tag :: MEMORY_TAG where
  "zero_tag = \<lparr>PhysicalAddress = 0, BufferLength = 0, VirtualAddress = 0, t_Next = 0\<rparr>"

definition sizeof_TAG :: nat where "sizeof_TAG = 32"

definition EFI_PAGE_SIZE :: nat where "EFI_PAGE_SIZE = 4096"

definition EFI_SIZE_TO_PAGES :: "u64 \<Rightarrow> u64" where
  "EFI_SIZE_TO_PAGES a = drop_bit 12 a + (if a AND 0xFFF \<noteq> 0 then 1 else 0)"

definition EFI_PAGES_TO_SIZE :: "u64 \<Rightarrow> u64" where
  "EFI_PAGES_TO_SIZE a = push_bit 12 a"

definition LdrStaticVirtualToPhysical :: "u64 \<Rightarrow> u64" where
  "LdrStaticVirtualToPhysical v = v AND (1 * 1024 * 1024 * 1024 - 1)"

definition upd_tag :: "nat \<Rightarrow> (MEMORY_TAG \<Rightarrow> MEMORY_TAG) \<Rightarrow> memory \<Rightarrow> memory" where
  "upd_tag a f h = h\<lparr>tag_at := (tag_at h)(a := f (tag_at h a))\<rparr>"

text \<open>The call of the firmware's AllocatePool: the address, or 0 for an error.\<close>

definition allocate_pool :: "nat \<Rightarrow> memory \<Rightarrow> nat \<times> memory" where
  "allocate_pool n h =
     (let h = h\<lparr>calls := calls h @ [AllocatePool n]\<rparr> in
      case pool_next h of [] \<Rightarrow> (0, h)
      | (a, sz) # bs \<Rightarrow> (if n \<le> sz then a else 0, h\<lparr>pool_next := bs\<rparr>))"

definition free_pool :: "nat \<Rightarrow> memory \<Rightarrow> memory" where
  "free_pool a h = h\<lparr>calls := calls h @ [FreePool a]\<rparr>"

definition allocate_pages :: "EFI_ALLOCATE_TYPE \<Rightarrow> u64 \<Rightarrow> u64 \<Rightarrow> memory \<Rightarrow> u64 option \<times> memory" where
  "allocate_pages allocateType pagesCount physicalAddress h =
     (let h = h\<lparr>calls := calls h @ [AllocatePages allocateType pagesCount physicalAddress]\<rparr> in
      case pages_next h of [] \<Rightarrow> (None, h) | r # rs \<Rightarrow> (r, h\<lparr>pages_next := rs\<rparr>))"

definition free_pages :: "u64 \<Rightarrow> u64 \<Rightarrow> memory \<Rightarrow> memory" where
  "free_pages a n h = h\<lparr>calls := calls h @ [FreePages a n]\<rparr>"

section \<open>Tags\<close>

definition carve_tag :: "nat \<Rightarrow> nat \<Rightarrow> memory \<Rightarrow> memory" where
  "carve_tag page i h =
     (let a = page + i * sizeof_TAG;
          h = upd_tag a (\<lambda>t. t\<lparr>t_Next := MmpNextFreeMemoryTag h\<rparr>) h
      in h\<lparr>MmpNextFreeMemoryTag := a\<rparr>)"

definition MmpGetMemoryTag :: "memory \<Rightarrow> nat \<times> memory" where
  "MmpGetMemoryTag h0 =
     (let (ok, h) =
        (if MmpNextFreeMemoryTag h0 = 0 then
           (if \<not> EfiBootServices h0 then (False, h0)
            else
              let (page, h) = allocate_pool EFI_PAGE_SIZE h0 in
              if page = 0 then (False, h)
              else
                let h = upd_tag page (\<lambda>t. t\<lparr>BufferLength := of_nat EFI_PAGE_SIZE, VirtualAddress := page,
                      t_Next := MmpAllocatedMemoryTagPoolHead h\<rparr>) h;
                    h = h\<lparr>MmpAllocatedMemoryTagPoolHead := page\<rparr>
                in (True, fold (carve_tag page) [1..<EFI_PAGE_SIZE div sizeof_TAG] h))
         else (True, h0))
      in if \<not> ok then (0, h)
         else
           let theTag = MmpNextFreeMemoryTag h;
               h = h\<lparr>MmpNextFreeMemoryTag := t_Next (tag_at h theTag)\<rparr>
           in (theTag, upd_tag theTag (\<lambda>_. zero_tag) h))"

definition MmpFreeMemoryTag :: "nat \<Rightarrow> memory \<Rightarrow> memory" where
  "MmpFreeMemoryTag theTag h =
     (let h = upd_tag theTag (\<lambda>t. t\<lparr>t_Next := MmpNextFreeMemoryTag h\<rparr>) h
      in h\<lparr>MmpNextFreeMemoryTag := theTag\<rparr>)"

text \<open>The tag and the one before it, 0 for NULL.\<close>

partial_function (option) find_tag :: "memory \<Rightarrow> nat \<Rightarrow> u64 \<Rightarrow> nat \<Rightarrow> nat \<Rightarrow> (nat \<times> nat) option" where
  "find_tag h virtualAddress physicalAddress theTag prevTag =
     (if theTag = 0 then Some (0, prevTag)
      else if VirtualAddress (tag_at h theTag) = virtualAddress \<and> PhysicalAddress (tag_at h theTag) = physicalAddress
      then Some (theTag, prevTag)
      else find_tag h virtualAddress physicalAddress (t_Next (tag_at h theTag)) theTag)"

definition MmpFindMemoryTag :: "nat \<Rightarrow> u64 \<Rightarrow> memory \<Rightarrow> (nat \<times> nat) option" where
  "MmpFindMemoryTag virtualAddress physicalAddress h =
     find_tag h virtualAddress physicalAddress (MmpAllocatedMemoryTagHead h) 0"

definition MmpInsertMemoryTag :: "nat \<Rightarrow> u64 \<Rightarrow> u64 \<Rightarrow> memory \<Rightarrow> memory" where
  "MmpInsertMemoryTag virtualAddress bufferLength physicalAddress h =
     (let (theTag, h) = MmpGetMemoryTag h in
      if theTag = 0 then h
      else
        let h = upd_tag theTag (\<lambda>t. t\<lparr>BufferLength := bufferLength, PhysicalAddress := physicalAddress,
              VirtualAddress := virtualAddress, t_Next := MmpAllocatedMemoryTagHead h\<rparr>) h
        in h\<lparr>MmpAllocatedMemoryTagHead := theTag\<rparr>)"

definition MmpRemoveMemoryTag :: "nat \<Rightarrow> u64 \<Rightarrow> memory \<Rightarrow> memory option" where
  "MmpRemoveMemoryTag virtualAddress physicalAddress h =
     (case MmpFindMemoryTag virtualAddress physicalAddress h of None \<Rightarrow> None
      | Some (theTag, prevTag) \<Rightarrow>
          if theTag = 0 then Some h
          else
            let h = (if prevTag \<noteq> 0 then upd_tag prevTag (\<lambda>t. t\<lparr>t_Next := t_Next (tag_at h theTag)\<rparr>) h
                     else h\<lparr>MmpAllocatedMemoryTagHead := t_Next (tag_at h theTag)\<rparr>)
            in Some (MmpFreeMemoryTag theTag h))"

section \<open>Allocation\<close>

definition MmAllocatePool :: "u64 \<Rightarrow> memory \<Rightarrow> nat \<times> memory" where
  "MmAllocatePool bufferLength h =
     (if \<not> EfiBootServices h then (0, h)
      else
        let (allocatedBuffer, h) = allocate_pool (unat bufferLength) h in
        if allocatedBuffer = 0 then (0, h)
        else (allocatedBuffer, MmpInsertMemoryTag allocatedBuffer bufferLength 0 h))"

definition MmFreePool :: "nat \<Rightarrow> memory \<Rightarrow> memory option" where
  "MmFreePool freeBuffer h =
     (if freeBuffer = 0 then Some h
      else
        let h = (if EfiBootServices h then free_pool freeBuffer h else h)
        in MmpRemoveMemoryTag freeBuffer 0 h)"

text \<open>The pointer that is returned, *physicalAddress afterwards, and the state.\<close>

definition MmAllocatePages :: "EFI_ALLOCATE_TYPE \<Rightarrow> u64 \<Rightarrow> u64 \<Rightarrow> memory \<Rightarrow> u64 \<times> u64 \<times> memory" where
  "MmAllocatePages allocateType pagesCount physicalAddress h =
     (if \<not> EfiBootServices h then (0, physicalAddress, h)
      else case allocate_pages allocateType pagesCount physicalAddress h of
        (None, h) \<Rightarrow> (0, physicalAddress, h)
      | (Some a, h) \<Rightarrow> (a, a, MmpInsertMemoryTag 0 (EFI_PAGES_TO_SIZE pagesCount) a h))"

definition MmFreePages :: "u64 \<Rightarrow> memory \<Rightarrow> memory option" where
  "MmFreePages phyAddress h =
     (case MmpFindMemoryTag 0 phyAddress h of None \<Rightarrow> None
      | Some (memoryTag, _) \<Rightarrow>
          if memoryTag = 0 then Some h
          else
            let h = (if EfiBootServices h
                     then free_pages phyAddress (EFI_SIZE_TO_PAGES (BufferLength (tag_at h memoryTag))) h else h)
            in MmpRemoveMemoryTag 0 phyAddress h)"

definition MmInitialize :: "memory \<Rightarrow> EFI_STATUS \<times> memory" where
  "MmInitialize h = (EFI_SUCCESS, h)"

partial_function (option) free_allocated :: "nat \<Rightarrow> memory \<Rightarrow> memory option" where
  "free_allocated allocatedMemoryTag h =
     (if allocatedMemoryTag = 0 then Some h
      else
        let t = tag_at h allocatedMemoryTag;
            h = (if PhysicalAddress t \<noteq> 0 then free_pages (PhysicalAddress t) (EFI_SIZE_TO_PAGES (BufferLength t)) h
                 else if VirtualAddress t \<noteq> 0 then free_pool (VirtualAddress t) h else h)
        in free_allocated (t_Next t) h)"

text \<open>
  The loop over the pages that hold the tags releases a page and then reads Next from it. \<open>freed a\<close> is what the first
  tag of the released page at \<open>a\<close> has as its Next, None when reading it is undefined. The result is \<open>Inr\<close> when the loop has ended and \<open>Inl\<close>
  with the state at the undefined read otherwise.
\<close>

partial_function (option) free_tag_pools :: "(nat \<Rightarrow> nat option) \<Rightarrow> nat \<Rightarrow> memory \<Rightarrow> (memory + memory) option" where
  "free_tag_pools freed allocatedMemoryTagPool h =
     (if allocatedMemoryTagPool = 0 then Some (Inr h)
      else
        let t = tag_at h allocatedMemoryTagPool;
            h = free_pool (VirtualAddress t) h
        in case (if VirtualAddress t = allocatedMemoryTagPool then freed allocatedMemoryTagPool else Some (t_Next t)) of
             None \<Rightarrow> Some (Inl h)
           | Some nextTag \<Rightarrow> free_tag_pools freed nextTag h)"

definition MmFinalize :: "(nat \<Rightarrow> nat option) \<Rightarrow> memory \<Rightarrow> (memory + memory) option" where
  "MmFinalize freed h =
     (case (if EfiBootServices h then
              (case free_allocated (MmpAllocatedMemoryTagHead h) h of None \<Rightarrow> None
               | Some h \<Rightarrow> free_tag_pools freed (MmpAllocatedMemoryTagPoolHead h) h)
            else Some (Inr h)) of None \<Rightarrow> None
      | Some (Inl h) \<Rightarrow> Some (Inl h)
      | Some (Inr h) \<Rightarrow> Some (Inr (h\<lparr>MmpAllocatedMemoryTagHead := 0, MmpAllocatedMemoryTagPoolHead := 0,
          MmpNextFreeMemoryTag := 0\<rparr>)))"

section \<open>Kernel memory\<close>

definition grow_kernel_range :: "u64 \<Rightarrow> u64 \<Rightarrow> u64 \<Rightarrow> memory \<Rightarrow> memory" where
  "grow_kernel_range kernelVirtualAddress physicalAddress bufferLength h =
     (let h = (if kernelVirtualAddress < MmpKernelVirtualBegin h
               then h\<lparr>MmpKernelVirtualBegin := kernelVirtualAddress\<rparr> else h);
          h = (if kernelVirtualAddress + bufferLength > MmpKernelVirtualEnd h
               then h\<lparr>MmpKernelVirtualEnd := kernelVirtualAddress + bufferLength\<rparr> else h);
          h = (if physicalAddress < MmpKernelPhysicalBegin h
               then h\<lparr>MmpKernelPhysicalBegin := physicalAddress\<rparr> else h)
      in if physicalAddress + bufferLength > MmpKernelPhysicalEnd h
         then h\<lparr>MmpKernelPhysicalEnd := physicalAddress + bufferLength\<rparr> else h)"

text \<open>
  The pointers bufferLength and virtualAddress may be NULL; the result is the physical address, what
  they point to afterwards, and the state.
\<close>

definition MmAllocateKernelMemory ::
  "u64 option \<Rightarrow> u64 option \<Rightarrow> memory \<Rightarrow> u64 \<times> u64 option \<times> u64 option \<times> memory" where
  "MmAllocateKernelMemory bufferLength virtualAddress h =
     (case bufferLength of None \<Rightarrow> (0, bufferLength, virtualAddress, h)
      | Some len \<Rightarrow>
        if \<not> EfiBootServices h then (0, bufferLength, virtualAddress, h)
        else
          let pagesCount = EFI_SIZE_TO_PAGES len;
              unset = (virtualAddress = None \<or> virtualAddress = Some 0)
          in if unset \<and> MmpKernelVirtualBegin h = - 1 then (0, bufferLength, virtualAddress, h)
             else
               let kernelVirtualAddress = (if unset then MmpKernelVirtualEnd h else the virtualAddress);
                   (p, physicalAddress, h) =
                     MmAllocatePages AllocateAddress pagesCount (LdrStaticVirtualToPhysical kernelVirtualAddress) h
               in if p = 0 then (0, bufferLength, virtualAddress, h)
                  else
                    let len = push_bit 12 pagesCount;
                        h = grow_kernel_range kernelVirtualAddress physicalAddress len h
                    in (physicalAddress, Some len, map_option (\<lambda>_. kernelVirtualAddress) virtualAddress, h))"

definition MmFreeKernelMemory :: "u64 \<Rightarrow> u64 \<Rightarrow> memory \<Rightarrow> memory option" where
  "MmFreeKernelMemory virtualAddress physicalAddress h =
     (case MmpFindMemoryTag 0 physicalAddress h of None \<Rightarrow> None
      | Some (theTag, _) \<Rightarrow>
          if theTag = 0 then Some h
          else
            let len = BufferLength (tag_at h theTag) in
            if virtualAddress + len \<noteq> MmpKernelVirtualEnd h \<and> physicalAddress + len \<noteq> MmpKernelPhysicalEnd h
            then Some h
            else MmFreePages physicalAddress
              (h\<lparr>MmpKernelPhysicalEnd := MmpKernelPhysicalEnd h - len,
                 MmpKernelVirtualEnd := MmpKernelVirtualEnd h - len\<rparr>))"

definition MmAllocateLoaderData :: "u64 \<Rightarrow> u64 \<Rightarrow> memory \<Rightarrow> u64 \<times> u64 \<times> memory" where
  "MmAllocateLoaderData bufferLength virtualAddress h =
     (let pagesCount = EFI_SIZE_TO_PAGES bufferLength;
          (p, physicalAddress, h) =
            MmAllocatePages AllocateAddress pagesCount (LdrStaticVirtualToPhysical virtualAddress) h
      in if p = 0 then (0, bufferLength, h) else (physicalAddress, push_bit 12 pagesCount, h))"

definition MmFreeLoaderData :: "u64 \<Rightarrow> u64 \<Rightarrow> memory \<Rightarrow> memory option" where
  "MmFreeLoaderData virtualAddress physicalAddress h = MmFreePages physicalAddress h"

definition MmGetKernelPhysicalRange :: "memory \<Rightarrow> u64 \<times> u64" where
  "MmGetKernelPhysicalRange h = (MmpKernelPhysicalBegin h, MmpKernelPhysicalEnd h)"

definition MmGetKernelVirtualStart :: "memory \<Rightarrow> u64" where
  "MmGetKernelVirtualStart h = MmpKernelVirtualBegin h"

section \<open>The list of tags\<close>

abbreviation tN :: "memory \<Rightarrow> nat \<Rightarrow> nat" where "tN h \<equiv> \<lambda>a. t_Next (tag_at h a)"

interpretation tag_list: free_list tN MmpNextFreeMemoryTag carve_tag sizeof_TAG
  by unfold_locales (auto simp: carve_tag_def upd_tag_def Let_def sizeof_TAG_def)

lemma carve_tag_frame [simp]:
  "MmpAllocatedMemoryTagPoolHead (fold (carve_tag page) ks h) = MmpAllocatedMemoryTagPoolHead h"
  "MmpAllocatedMemoryTagHead (fold (carve_tag page) ks h) = MmpAllocatedMemoryTagHead h"
  "EfiBootServices (fold (carve_tag page) ks h) = EfiBootServices h"
  "pool_next (fold (carve_tag page) ks h) = pool_next h" "pages_next (fold (carve_tag page) ks h) = pages_next h"
  "calls (fold (carve_tag page) ks h) = calls h"
  "MmpKernelVirtualBegin (fold (carve_tag page) ks h) = MmpKernelVirtualBegin h"
  "MmpKernelVirtualEnd (fold (carve_tag page) ks h) = MmpKernelVirtualEnd h"
  "MmpKernelPhysicalBegin (fold (carve_tag page) ks h) = MmpKernelPhysicalBegin h"
  "MmpKernelPhysicalEnd (fold (carve_tag page) ks h) = MmpKernelPhysicalEnd h"
  by (induction ks arbitrary: h) (simp_all add: carve_tag_def upd_tag_def Let_def)

lemma carve_tag_other:
  "\<forall>i \<in> set ks. a \<noteq> page + i * sizeof_TAG \<Longrightarrow> tag_at (fold (carve_tag page) ks h) a = tag_at h a"
  by (induction ks arbitrary: h) (simp_all add: carve_tag_def upd_tag_def Let_def)


definition mm_inv :: "memory \<Rightarrow> nat list \<Rightarrow> nat list \<Rightarrow> nat list \<Rightarrow> bool" where
  "mm_inv h ts fl pg \<longleftrightarrow> plist (tN h) (MmpAllocatedMemoryTagHead h) ts \<and>
     plist (tN h) (MmpNextFreeMemoryTag h) fl \<and> plist (tN h) (MmpAllocatedMemoryTagPoolHead h) pg \<and>
     distinct (ts @ fl @ pg) \<and> (\<forall>p \<in> set pg. VirtualAddress (tag_at h p) = p) \<and>
     pool_ok (set ts \<union> set fl \<union> set pg) (pool_next h)"

text \<open>What a tag remembers: address, physical address and length.\<close>

definition entry :: "memory \<Rightarrow> nat \<Rightarrow> nat \<times> u64 \<times> u64" where
  "entry h a = (VirtualAddress (tag_at h a), PhysicalAddress (tag_at h a), BufferLength (tag_at h a))"

definition entries :: "memory \<Rightarrow> nat list \<Rightarrow> (nat \<times> u64 \<times> u64) list" where
  "entries h ts = map (entry h) ts"

lemma GetMemoryTag_page:
  assumes inv: "mm_inv h ts [] pg" and get: "MmpGetMemoryTag h = (a, h')" and a0: "a \<noteq> 0"
  shows "\<exists>fl' pg'. mm_inv h' ts fl' pg' \<and> a \<notin> set (ts @ fl' @ pg') \<and> tag_at h' a = zero_tag \<and>
    pool_ok (insert a (set ts \<union> set fl' \<union> set pg')) (pool_next h') \<and> (\<forall>x \<in> set ts. tag_at h' x = tag_at h x)"
proof -
  have free0: "MmpNextFreeMemoryTag h = 0" using inv by (simp add: mm_inv_def)
  obtain page s bs where pool: "EfiBootServices h" "pool_next h = (page, s) # bs" "4096 \<le> s" "page \<noteq> 0"
    using get a0 free0
    by (cases "pool_next h") (auto simp: MmpGetMemoryTag_def allocate_pool_def EFI_PAGE_SIZE_def Let_def split: if_splits)
  let ?is = "[1..<EFI_PAGE_SIZE div sizeof_TAG]"
  let ?addr = "\<lambda>i. page + i * sizeof_TAG"
  define h1 where "h1 = h\<lparr>calls := calls h @ [AllocatePool EFI_PAGE_SIZE], pool_next := bs,
      tag_at := (tag_at h)(page := (tag_at h page)\<lparr>BufferLength := of_nat EFI_PAGE_SIZE, VirtualAddress := page,
        t_Next := MmpAllocatedMemoryTagPoolHead h\<rparr>), MmpAllocatedMemoryTagPoolHead := page\<rparr>"
  define h2 where "h2 = fold (carve_tag page) ?is h1"
  define new where "new = rev (map ?addr ?is)"
  let ?U = "set ts \<union> set pg"
  have U: "pool_ok ?U ((page, s) # bs)" using inv pool(2) by (simp add: mm_inv_def)
  have new_in: "\<forall>x \<in> set (page # new). page \<le> x \<and> x < page + s"
    using page_inside [of _ sizeof_TAG] pool(3) by (fastforce simp: new_def EFI_PAGE_SIZE_def)
  note fresh = pool_ok_take [OF U new_in]
  have "plist (tN h2) (MmpNextFreeMemoryTag h2) new"
    using tag_list.carve_list [of h1 "[]" page "EFI_PAGE_SIZE div sizeof_TAG"] pool(4) free0
    by (simp add: h1_def h2_def new_def)
  moreover have dnew: "distinct (page # new)" by (auto simp: new_def distinct_map inj_on_def sizeof_TAG_def)
  moreover obtain fl' where new: "new = hd new # fl'" by (cases new) (simp_all add: new_def sizeof_TAG_def EFI_PAGE_SIZE_def)
  ultimately have l: "MmpNextFreeMemoryTag h2 = hd new" "plist (tN h2) (t_Next (tag_at h2 (hd new))) fl'"
    "distinct (page # hd new # fl')" by (metis plist.simps(2))+
  have h': "a = hd new" "h' = h2\<lparr>MmpNextFreeMemoryTag := t_Next (tag_at h2 a), tag_at := (tag_at h2)(a := zero_tag)\<rparr>"
    using get free0 pool l(1)
    by (auto simp: MmpGetMemoryTag_def allocate_pool_def upd_tag_def Let_def h1_def h2_def EFI_PAGE_SIZE_def)
  have other: "tag_at h2 x = tag_at h1 x" if "x \<notin> set new" for x
    using that carve_tag_other [of ?is x page h1] by (auto simp: h2_def new_def)
  have anew: "a \<in> set new" using h'(1) new by (metis list.set_intros(1))
  have old: "tag_at h' x = tag_at h x" if "x \<in> ?U" for x
  proof -
    have "x \<notin> set (page # new)" using that fresh(2) by blast
    then show ?thesis using other [of x] h'(2) anew by (auto simp: h1_def)
  qed
  have page: "tag_at h' page = tag_at h1 page" using dnew other [of page] h'(2) anew by auto
  have sub: "set fl' \<subseteq> set new" using new by (metis set_subset_Cons)
  have "plist (tN h') (t_Next (tag_at h2 a)) fl'"
    using l(2,3) h' by (subst plist_cong [of _ _ "tN h2"]) auto
  moreover have "plist (tN h') (MmpAllocatedMemoryTagPoolHead h') (page # pg)"
  proof -
    have "plist (tN h') (MmpAllocatedMemoryTagPoolHead h) pg"
      using inv old by (subst plist_cong [of _ _ "tN h"]) (auto simp: mm_inv_def)
    then show ?thesis using page pool(4) h'(2) by (simp add: h2_def h1_def)
  qed
  moreover have "plist (tN h') (MmpAllocatedMemoryTagHead h') ts"
    using inv old h'(2) by (subst plist_cong [of _ _ "tN h"]) (auto simp: mm_inv_def h2_def h1_def)
  moreover have "distinct (ts @ fl' @ page # pg)" "a \<notin> set (ts @ fl' @ page # pg)"
    using inv l(3) fresh(2) sub anew h'(1) by (auto simp: mm_inv_def)
  moreover have "pool_ok (insert a (set ts \<union> set fl' \<union> set (page # pg))) (pool_next h')"
  proof (rule pool_ok_mono)
    show "pool_ok (?U \<union> set (page # new)) (pool_next h')" using fresh(1) h'(2) by (simp add: h2_def h1_def)
  qed (use sub anew in auto)
  moreover have "\<forall>p \<in> set (page # pg). VirtualAddress (tag_at h' p) = p"
    using inv old page by (auto simp: mm_inv_def h1_def)
  moreover have "MmpNextFreeMemoryTag h' = t_Next (tag_at h2 a)" "tag_at h' a = zero_tag" using h'(2) by simp_all
  ultimately show ?thesis using old
    by (intro exI [of _ fl'] exI [of _ "page # pg"]) (auto simp: mm_inv_def intro: pool_ok_mono)
qed

lemma GetMemoryTag_ok:
  assumes inv: "mm_inv h ts fl pg" and get: "MmpGetMemoryTag h = (a, h')" and a0: "a \<noteq> 0"
  shows "\<exists>fl' pg'. mm_inv h' ts fl' pg' \<and> a \<notin> set (ts @ fl' @ pg') \<and> tag_at h' a = zero_tag \<and>
    pool_ok (insert a (set ts \<union> set fl' \<union> set pg')) (pool_next h') \<and> (\<forall>x \<in> set ts. tag_at h' x = tag_at h x)"
proof (cases fl)
  case Nil
  then show ?thesis using GetMemoryTag_page assms by blast
next
  case (Cons b fl')
  then have h': "a = b" "h' = h\<lparr>MmpNextFreeMemoryTag := t_Next (tag_at h b), tag_at := (tag_at h)(b := zero_tag)\<rparr>"
    using inv get by (auto simp: MmpGetMemoryTag_def upd_tag_def Let_def mm_inv_def)
  have "mm_inv h' ts fl' pg"
    unfolding mm_inv_def
  proof (intro conjI)
    show "plist (tN h') (MmpAllocatedMemoryTagHead h') ts"
      using inv Cons h' by (subst plist_cong [of _ _ "tN h"]) (auto simp: mm_inv_def)
    show "plist (tN h') (MmpNextFreeMemoryTag h') fl'"
      using inv Cons h' by (subst plist_cong [of _ _ "tN h"]) (auto simp: mm_inv_def)
    show "plist (tN h') (MmpAllocatedMemoryTagPoolHead h') pg"
      using inv Cons h' by (subst plist_cong [of _ _ "tN h"]) (auto simp: mm_inv_def)
    show "pool_ok (set ts \<union> set fl' \<union> set pg) (pool_next h')"
      using inv Cons h' by (auto simp: mm_inv_def intro: pool_ok_mono)
  qed (use inv Cons h' in \<open>auto simp: mm_inv_def\<close>)
  moreover have "pool_ok (insert a (set ts \<union> set fl' \<union> set pg)) (pool_next h')"
    using inv Cons h' by (auto simp: mm_inv_def intro: pool_ok_mono)
  ultimately show ?thesis using inv Cons h' by (intro exI [of _ fl'] exI [of _ pg]) (auto simp: mm_inv_def)
qed

lemma GetMemoryTag_fails:
  assumes "mm_inv h ts fl pg" and "MmpGetMemoryTag h = (0, h')"
  shows "mm_inv h' ts fl pg \<and> tag_at h' = tag_at h"
proof -
  have "fl = []"
    using assms by (cases fl) (auto simp: mm_inv_def MmpGetMemoryTag_def Let_def)
  then have f0: "MmpNextFreeMemoryTag h = 0" using assms(1) by (simp add: mm_inv_def)
  show ?thesis
  proof (cases "\<exists>page s bs. EfiBootServices h \<and> pool_next h = (page, s) # bs \<and> 4096 \<le> s \<and> page \<noteq> 0")
    case True
    have n: "[Suc 0..<4096 div sizeof_TAG] = [1..<127] @ [127]"
      by (simp add: sizeof_TAG_def upt_rec)
    have "MmpNextFreeMemoryTag (fold (carve_tag page) [Suc 0..<4096 div sizeof_TAG] g) \<noteq> 0" if "page \<noteq> 0" for page g
      using that unfolding n by (simp add: tag_list.head_carve)
    then have False using True assms(2) f0
      by (auto simp: MmpGetMemoryTag_def Let_def allocate_pool_def EFI_PAGE_SIZE_def) (metis less_irrefl)
    then show ?thesis ..
  next
    case False
    have same: "tag_at h' = tag_at h \<and> MmpAllocatedMemoryTagHead h' = MmpAllocatedMemoryTagHead h \<and>
      MmpNextFreeMemoryTag h' = MmpNextFreeMemoryTag h \<and> MmpAllocatedMemoryTagPoolHead h' = MmpAllocatedMemoryTagPoolHead h \<and>
      (pool_next h' = pool_next h \<or> pool_next h' = tl (pool_next h))"
    proof (cases "pool_next h")
      case Nil
      then show ?thesis using assms(2) f0
        by (simp add: MmpGetMemoryTag_def allocate_pool_def Let_def split: if_splits) auto
    next
      case (Cons b bs)
      then show ?thesis using assms(2) f0 False
        by (cases b) (auto simp: MmpGetMemoryTag_def allocate_pool_def Let_def EFI_PAGE_SIZE_def split: if_splits)
    qed
    have "pool_ok (set ts \<union> set fl \<union> set pg) (pool_next h')"
      using assms(1) same pool_ok_tl by (cases "pool_next h") (auto simp: mm_inv_def)
    then show ?thesis using assms(1) same by (simp add: mm_inv_def)
  qed
qed

lemma InsertMemoryTag_ok:
  assumes inv: "mm_inv h ts fl pg"
  shows "\<exists>ts' fl' pg'. mm_inv (MmpInsertMemoryTag v len p h) ts' fl' pg' \<and>
    (entries (MmpInsertMemoryTag v len p h) ts' = (v, p, len) # entries h ts \<or>
     fst (MmpGetMemoryTag h) = 0 \<and> entries (MmpInsertMemoryTag v len p h) ts' = entries h ts)"
proof -
  obtain a h1 where get: "MmpGetMemoryTag h = (a, h1)" by fastforce
  show ?thesis
  proof (cases "a = 0")
    case True
    then show ?thesis using GetMemoryTag_fails [OF inv] get
      by (intro exI [of _ ts] exI [of _ fl] exI [of _ pg]) (auto simp: MmpInsertMemoryTag_def entries_def entry_def)
  next
    case False
    obtain fl' pg' where g: "mm_inv h1 ts fl' pg'" "a \<notin> set (ts @ fl' @ pg')" "tag_at h1 a = zero_tag"
      "pool_ok (insert a (set ts \<union> set fl' \<union> set pg')) (pool_next h1)" "\<forall>x \<in> set ts. tag_at h1 x = tag_at h x"
      using GetMemoryTag_ok [OF inv get False] by blast
    let ?h = "MmpInsertMemoryTag v len p h"
    have h': "?h = h1\<lparr>tag_at := (tag_at h1)(a := zero_tag\<lparr>BufferLength := len, PhysicalAddress := p,
        VirtualAddress := v, t_Next := MmpAllocatedMemoryTagHead h1\<rparr>), MmpAllocatedMemoryTagHead := a\<rparr>"
      using get False g(3) by (simp add: MmpInsertMemoryTag_def upd_tag_def Let_def)
    have l: "plist (tN ?h) q xs = plist (tN h1) q xs" if "a \<notin> set xs" for q xs
      using that by (intro plist_cong) (auto simp: h')
    have "mm_inv ?h (a # ts) fl' pg'"
    proof -
      have "plist (tN ?h) (MmpAllocatedMemoryTagHead ?h) (a # ts)" "plist (tN ?h) (MmpNextFreeMemoryTag ?h) fl'"
        "plist (tN ?h) (MmpAllocatedMemoryTagPoolHead ?h) pg'"
        using g(1,2) False l [of ts] l [of fl'] l [of pg'] by (auto simp: mm_inv_def h')
      moreover have "\<forall>p \<in> set pg'. VirtualAddress (tag_at ?h p) = p" "pool_next ?h = pool_next h1"
        using g(1,2) by (auto simp: mm_inv_def h')
      ultimately show ?thesis using g(1,2,4) by (auto simp: mm_inv_def)
    qed
    moreover have "entries ?h (a # ts) = (v, p, len) # entries h ts"
      using g(2,5) by (auto simp: entries_def entry_def h')
    ultimately show ?thesis by blast
  qed
qed

text \<open>The first entry with the given addresses is taken out.\<close>

fun drop_entry :: "nat \<Rightarrow> u64 \<Rightarrow> (nat \<times> u64 \<times> u64) list \<Rightarrow> (nat \<times> u64 \<times> u64) list" where
  "drop_entry v p [] = []"
| "drop_entry v p ((v', p', l) # es) = (if v' = v \<and> p' = p then es else (v', p', l) # drop_entry v p es)"

lemma find_tag_split:
  assumes "plist (tN h) q ts"
  shows "\<exists>xs ys. ts = xs @ ys \<and> (\<forall>x \<in> set xs. \<not> (VirtualAddress (tag_at h x) = v \<and> PhysicalAddress (tag_at h x) = p)) \<and>
    find_tag h v p q prev = Some (case ys of [] \<Rightarrow> 0 | y # _ \<Rightarrow> y, if xs = [] then prev else last xs) \<and>
    (ys \<noteq> [] \<longrightarrow> VirtualAddress (tag_at h (hd ys)) = v \<and> PhysicalAddress (tag_at h (hd ys)) = p)"
  using assms
proof (induction ts arbitrary: q prev)
  case (Cons t ts)
  show ?case
  proof (cases "VirtualAddress (tag_at h t) = v \<and> PhysicalAddress (tag_at h t) = p")
    case True
    then show ?thesis using Cons.prems
      by (intro exI [of _ "[]"] exI [of _ "t # ts"]) (simp add: find_tag.simps)
  next
    case False
    have "plist (tN h) (t_Next (tag_at h t)) ts" using Cons.prems by simp
    from Cons.IH [OF this, of t] obtain xs ys where "ts = xs @ ys"
      "\<forall>x \<in> set xs. \<not> (VirtualAddress (tag_at h x) = v \<and> PhysicalAddress (tag_at h x) = p)"
      "find_tag h v p (t_Next (tag_at h t)) t = Some (case ys of [] \<Rightarrow> 0 | y # _ \<Rightarrow> y, if xs = [] then t else last xs)"
      "ys \<noteq> [] \<longrightarrow> VirtualAddress (tag_at h (hd ys)) = v \<and> PhysicalAddress (tag_at h (hd ys)) = p" by blast
    then show ?thesis using False Cons.prems
      by (intro exI [of _ "t # xs"] exI [of _ ys]) (auto simp: find_tag.simps [of h v p t])
  qed
qed (simp add: find_tag.simps)

lemma drop_entry_skip:
  "\<forall>x \<in> set xs. \<not> (VirtualAddress (tag_at h x) = v \<and> PhysicalAddress (tag_at h x) = p) \<Longrightarrow>
   drop_entry v p (entries h xs @ es) = entries h xs @ drop_entry v p es"
  by (induction xs) (auto simp: entries_def entry_def)

lemma plist_unlink:
  assumes "plist nx q (xs @ y # ys)" and "distinct (xs @ y # ys)" and "xs \<noteq> []"
  shows "plist (nx(last xs := nx y, y := z)) q (xs @ ys)"
  using assms
proof (induction xs arbitrary: q)
  case (Cons x xs)
  show ?case
  proof (cases "xs = []")
    case True
    then have "plist nx (nx y) ys" "x \<notin> set ys" "y \<notin> set ys" "x \<noteq> y" using Cons.prems by auto
    moreover have "plist (nx(x := nx y, y := z)) (nx y) ys = plist nx (nx y) ys"
      using calculation by (intro plist_cong) auto
    ultimately show ?thesis using True Cons.prems by (auto simp: fun_upd_def)
  next
    case False
    then have "last xs \<noteq> x" "y \<noteq> x" using Cons.prems by auto
    then show ?thesis using Cons False by auto
  qed
qed simp

lemma RemoveMemoryTag_ok:
  assumes inv: "mm_inv h ts fl pg"
  shows "\<exists>h' ts' fl'. MmpRemoveMemoryTag v p h = Some h' \<and> mm_inv h' ts' fl' pg \<and>
    entries h' ts' = drop_entry v p (entries h ts) \<and> calls h' = calls h \<and> EfiBootServices h' = EfiBootServices h \<and>
    MmpKernelVirtualBegin h' = MmpKernelVirtualBegin h \<and> MmpKernelVirtualEnd h' = MmpKernelVirtualEnd h \<and>
    MmpKernelPhysicalBegin h' = MmpKernelPhysicalBegin h \<and> MmpKernelPhysicalEnd h' = MmpKernelPhysicalEnd h"
proof -
  have "plist (tN h) (MmpAllocatedMemoryTagHead h) ts" using inv by (simp add: mm_inv_def)
  from find_tag_split [OF this, of v p 0] obtain xs ys where ts: "ts = xs @ ys"
    and xs: "\<forall>x \<in> set xs. \<not> (VirtualAddress (tag_at h x) = v \<and> PhysicalAddress (tag_at h x) = p)"
    and find: "MmpFindMemoryTag v p h = Some (case ys of [] \<Rightarrow> 0 | y # _ \<Rightarrow> y, if xs = [] then 0 else last xs)"
    and ys: "ys \<noteq> [] \<longrightarrow> VirtualAddress (tag_at h (hd ys)) = v \<and> PhysicalAddress (tag_at h (hd ys)) = p"
    unfolding MmpFindMemoryTag_def by blast
  show ?thesis
  proof (cases ys)
    case Nil
    then show ?thesis using inv find drop_entry_skip [OF xs, of "[]"] ts
      by (intro exI [of _ h] exI [of _ ts] exI [of _ fl]) (simp add: MmpRemoveMemoryTag_def entries_def)
  next
    case (Cons y zs)
    have nz: "0 \<notin> set ts" using inv plist_nonzero by (auto simp: mm_inv_def)
    have d: "distinct (xs @ y # zs)" "distinct (ts @ fl @ pg)" using inv ts Cons by (auto simp: mm_inv_def)
    define h1 where "h1 = (if xs \<noteq> [] then upd_tag (last xs) (\<lambda>t. t\<lparr>t_Next := t_Next (tag_at h y)\<rparr>) h
       else h\<lparr>MmpAllocatedMemoryTagHead := t_Next (tag_at h y)\<rparr>)"
    let ?h = "MmpFreeMemoryTag y h1"
    have "xs \<noteq> [] \<Longrightarrow> last xs \<noteq> 0" using nz ts last_in_set [of xs] by (metis Un_iff set_append)
    then have run: "MmpRemoveMemoryTag v p h = Some ?h"
      using find Cons nz ts by (auto simp: MmpRemoveMemoryTag_def h1_def Let_def)
    have nx: "tN ?h = (if xs \<noteq> [] then (tN h)(last xs := tN h y, y := MmpNextFreeMemoryTag h) else (tN h)(y := MmpNextFreeMemoryTag h))"
      by (auto simp: MmpFreeMemoryTag_def h1_def upd_tag_def Let_def)
    have frame: "MmpNextFreeMemoryTag ?h = y" "MmpAllocatedMemoryTagPoolHead ?h = MmpAllocatedMemoryTagPoolHead h"
      "pool_next ?h = pool_next h" "calls ?h = calls h" "EfiBootServices ?h = EfiBootServices h"
      "MmpAllocatedMemoryTagHead ?h = (if xs \<noteq> [] then MmpAllocatedMemoryTagHead h else tN h y)"
      "MmpKernelVirtualBegin ?h = MmpKernelVirtualBegin h" "MmpKernelVirtualEnd ?h = MmpKernelVirtualEnd h"
      "MmpKernelPhysicalBegin ?h = MmpKernelPhysicalBegin h" "MmpKernelPhysicalEnd ?h = MmpKernelPhysicalEnd h"
      by (auto simp: MmpFreeMemoryTag_def h1_def upd_tag_def Let_def)
    have entry: "entry ?h a = entry h a" for a
      by (auto simp: entry_def MmpFreeMemoryTag_def h1_def upd_tag_def Let_def)
    have l: "plist (tN ?h) q as = plist (tN h) q as" if "y \<notin> set as" "xs \<noteq> [] \<Longrightarrow> last xs \<notin> set as" for q as
      using that unfolding nx by (intro plist_cong) auto
    have lx: "xs \<noteq> [] \<Longrightarrow> last xs \<in> set xs" by simp
    have out: "last xs \<notin> set fl" "last xs \<notin> set pg" if "xs \<noteq> []" using lx [OF that] d(2) ts by auto
    have "plist (tN ?h) (MmpAllocatedMemoryTagHead ?h) (xs @ zs)"
    proof (cases "xs = []")
      case True
      then show ?thesis using inv ts Cons d(1) l [of zs] frame(6) by (simp add: mm_inv_def)
    next
      case False
      then show ?thesis using plist_unlink [of "tN h" _ xs y zs] inv ts Cons d(1) frame(6) unfolding nx by (simp add: mm_inv_def)
    qed
    moreover have "plist (tN ?h) (MmpNextFreeMemoryTag ?h) (y # fl)"
    proof -
      have "plist (tN ?h) (MmpNextFreeMemoryTag h) fl"
        using inv d(2) ts Cons out by (subst l) (auto simp: mm_inv_def)
      moreover have "tN ?h y = MmpNextFreeMemoryTag h" using fun_cong [OF nx, of y] by (simp split: if_splits)
      ultimately show ?thesis using frame(1) nz ts Cons by simp
    qed
    moreover have "plist (tN ?h) (MmpAllocatedMemoryTagPoolHead ?h) pg"
      using inv d(2) ts Cons out unfolding frame(2) by (subst l) (auto simp: mm_inv_def)
    moreover have "\<forall>a \<in> set pg. VirtualAddress (tag_at ?h a) = a"
      using inv entry by (auto simp: mm_inv_def entry_def)
    moreover have "pool_ok (set (xs @ zs) \<union> set (y # fl) \<union> set pg) (pool_next ?h)"
      using inv ts Cons frame(3) by (auto simp: mm_inv_def intro: pool_ok_mono)
    ultimately have "mm_inv ?h (xs @ zs) (y # fl) pg" using d(2) ts Cons by (auto simp: mm_inv_def)
    moreover have "entries ?h (xs @ zs) = drop_entry v p (entries h ts)"
      using drop_entry_skip [OF xs, of "entries h ys"] ys ts Cons entry by (simp add: entries_def entry_def)
    ultimately show ?thesis using run frame by blast
  qed
qed


lemma allocate_pool_inv: "mm_inv h ts fl pg \<Longrightarrow> mm_inv (snd (allocate_pool n h)) ts fl pg \<and>
    entries (snd (allocate_pool n h)) ts = entries h ts"
  by (cases "pool_next h")
    (auto simp: mm_inv_def allocate_pool_def entries_def entry_def Let_def split: prod.splits intro: pool_ok_tl)

lemma log_inv: "mm_inv (h\<lparr>calls := c\<rparr>) ts fl pg = mm_inv h ts fl pg" "entries (h\<lparr>calls := c\<rparr>) ts = entries h ts"
  by (simp_all add: mm_inv_def entries_def entry_def)

lemma AllocatePool_tracked:
  assumes inv: "mm_inv h ts fl pg" and run: "MmAllocatePool n h = (a, h')" and a: "a \<noteq> 0"
  shows "\<exists>ts' fl' pg'. mm_inv h' ts' fl' pg' \<and> (entries h' ts' = (a, 0, n) # entries h ts \<or>
     fst (MmpGetMemoryTag (snd (allocate_pool (unat n) h))) = 0 \<and> entries h' ts' = entries h ts)"
proof -
  have boot: "EfiBootServices h" using run a by (auto simp: MmAllocatePool_def split: if_splits)
  obtain h1 where h1: "allocate_pool (unat n) h = (a, h1)" "h' = MmpInsertMemoryTag a n 0 h1"
    using run a boot by (auto simp: MmAllocatePool_def split: prod.splits if_splits)
  then have "mm_inv h1 ts fl pg" "entries h1 ts = entries h ts" using allocate_pool_inv [OF inv, of "unat n"] by auto
  then show ?thesis using InsertMemoryTag_ok [of h1 ts fl pg a n 0] h1 by auto
qed

lemma InsertMemoryTag_log:
  "calls (MmpInsertMemoryTag v l p h) = calls h @
     (if MmpNextFreeMemoryTag h = 0 \<and> EfiBootServices h then [AllocatePool EFI_PAGE_SIZE] else [])"
  by (auto simp: MmpInsertMemoryTag_def MmpGetMemoryTag_def allocate_pool_def upd_tag_def Let_def split: list.splits prod.splits if_splits)

lemma allocate_pool_frame:
  "MmpNextFreeMemoryTag (snd (allocate_pool n h)) = MmpNextFreeMemoryTag h"
  "EfiBootServices (snd (allocate_pool n h)) = EfiBootServices h" "calls (snd (allocate_pool n h)) = calls h @ [AllocatePool n]"
  by (auto simp: allocate_pool_def Let_def split: list.splits)

text \<open>The calls of the boot services, and the block that they have answered.\<close>

lemma AllocatePool_calls:
  assumes "MmAllocatePool n h = (a, h')"
  shows "calls h' = calls h @ (if \<not> EfiBootServices h then []
      else AllocatePool (unat n) # (if a \<noteq> 0 \<and> MmpNextFreeMemoryTag h = 0 then [AllocatePool EFI_PAGE_SIZE] else []))"
    and "a \<noteq> 0 \<Longrightarrow> \<exists>sz bs. pool_next h = (a, sz) # bs \<and> unat n \<le> sz"
proof -
  obtain b h1 where p: "allocate_pool (unat n) h = (b, h1)" by fastforce
  note f = allocate_pool_frame [of "unat n" h, unfolded p snd_conv]
  show "calls h' = calls h @ (if \<not> EfiBootServices h then []
      else AllocatePool (unat n) # (if a \<noteq> 0 \<and> MmpNextFreeMemoryTag h = 0 then [AllocatePool EFI_PAGE_SIZE] else []))"
    using assms p f by (auto simp: MmAllocatePool_def InsertMemoryTag_log split: if_splits)
  show "a \<noteq> 0 \<Longrightarrow> \<exists>sz bs. pool_next h = (a, sz) # bs \<and> unat n \<le> sz"
    using assms p by (auto simp: MmAllocatePool_def allocate_pool_def Let_def split: if_splits list.splits)
qed

lemma AllocatePool_refused:
  assumes "mm_inv h ts fl pg" and "MmAllocatePool n h = (0, h')"
  shows "mm_inv h' ts fl pg \<and> entries h' ts = entries h ts"
  using assms allocate_pool_inv [OF assms(1), of "unat n"] by (auto simp: MmAllocatePool_def split: if_splits prod.splits)

lemma FreePool_tracked:
  assumes inv: "mm_inv h ts fl pg" and a: "a \<noteq> 0"
  shows "\<exists>h' ts' fl'. MmFreePool a h = Some h' \<and> mm_inv h' ts' fl' pg \<and> entries h' ts' = drop_entry a 0 (entries h ts) \<and>
    calls h' = calls h @ (if EfiBootServices h then [FreePool a] else [])"
proof -
  let ?h = "if EfiBootServices h then free_pool a h else h"
  have "mm_inv ?h ts fl pg" "entries ?h ts = entries h ts" using inv by (auto simp: free_pool_def log_inv)
  then show ?thesis using RemoveMemoryTag_ok [of ?h ts fl pg a 0] a
    by (auto simp: MmFreePool_def free_pool_def Let_def) blast+
qed

section \<open>Releasing everything\<close>

definition release :: "nat \<times> u64 \<times> u64 \<Rightarrow> boot_call list" where
  "release = (\<lambda>(v, p, l). if p \<noteq> 0 then [FreePages p (EFI_SIZE_TO_PAGES l)] else if v \<noteq> 0 then [FreePool v] else [])"

lemma free_allocated_ok:
  "plist (tN h) q ts \<Longrightarrow> free_allocated q h = Some (h\<lparr>calls := calls h @ concat (map release (entries h ts))\<rparr>)"
proof (induction ts arbitrary: q h)
  case (Cons t ts)
  let ?T = "tag_at h t"
  define h1 where "h1 = (if PhysicalAddress ?T \<noteq> 0 then free_pages (PhysicalAddress ?T) (EFI_SIZE_TO_PAGES (BufferLength ?T)) h
                 else if VirtualAddress ?T \<noteq> 0 then free_pool (VirtualAddress ?T) h else h)"
  have h1: "h1 = h\<lparr>calls := calls h @ release (entry h t)\<rparr>"
    by (simp add: h1_def release_def entry_def free_pages_def free_pool_def)
  then have "free_allocated (t_Next ?T) h1 = Some (h1\<lparr>calls := calls h1 @ concat (map release (entries h1 ts))\<rparr>)"
    using Cons by (intro Cons.IH) simp
  then have "free_allocated (t_Next ?T) h1 = Some (h\<lparr>calls := calls h @ concat (map release (entries h (t # ts)))\<rparr>)"
    unfolding h1 log_inv by (simp add: entries_def)
  then show ?case using Cons.prems by (subst free_allocated.simps) (simp add: Let_def h1_def [symmetric])
qed (simp add: free_allocated.simps entries_def)

lemma free_tag_pools_ok:
  "plist (tN h) q pg \<Longrightarrow> \<forall>p \<in> set pg. VirtualAddress (tag_at h p) = p \<and> freed p = Some (t_Next (tag_at h p)) \<Longrightarrow>
   free_tag_pools freed q h = Some (Inr (h\<lparr>calls := calls h @ map FreePool pg\<rparr>))"
proof (induction pg arbitrary: q h)
  case (Cons p pg)
  then have "free_tag_pools freed (t_Next (tag_at h p)) (free_pool p h) =
      Some (Inr ((free_pool p h)\<lparr>calls := calls (free_pool p h) @ map FreePool pg\<rparr>))"
    by (intro Cons.IH) (auto simp: free_pool_def)
  then show ?case using Cons.prems by (subst free_tag_pools.simps) (simp add: free_pool_def)
qed (simp add: free_tag_pools.simps)

section \<open>Kernel memory\<close>

lemma InsertMemoryTag_kernel [simp]:
  "MmpKernelVirtualBegin (MmpInsertMemoryTag v l p h) = MmpKernelVirtualBegin h"
  "MmpKernelVirtualEnd (MmpInsertMemoryTag v l p h) = MmpKernelVirtualEnd h"
  "MmpKernelPhysicalBegin (MmpInsertMemoryTag v l p h) = MmpKernelPhysicalBegin h"
  "MmpKernelPhysicalEnd (MmpInsertMemoryTag v l p h) = MmpKernelPhysicalEnd h"
  by (auto simp: MmpInsertMemoryTag_def MmpGetMemoryTag_def allocate_pool_def upd_tag_def Let_def split: list.splits prod.splits if_splits)

lemma round_up_pages: "n div 4096 + (if n mod 4096 \<noteq> 0 then 1 else 0) = (n + 4095) div (4096 :: nat)"
proof -
  define q r where "q = n div 4096" and "r = n mod 4096"
  have n: "n = 4096 * q + r" "r < 4096" by (simp_all add: q_def r_def)
  have "(n + 4095) div 4096 = (r + 4095 + 4096 * q) div 4096" using n(1) by (simp only: ac_simps)
  also have "\<dots> = q + (r + 4095) div 4096" by (rule div_mult_self2) simp
  finally have "(n + 4095) div 4096 = q + (r + 4095) div 4096" .
  moreover have "(r + 4095) div 4096 = (if r \<noteq> 0 then 1 else 0)"
    using n(2) by (intro div_nat_eqI) (auto split: if_splits)
  ultimately show ?thesis by (simp add: q_def r_def)
qed

lemma unat_size_to_pages: "unat (EFI_SIZE_TO_PAGES len) = (unat len + 4095) div 4096"
proof -
  have "unat (len AND 0xFFF) = unat len mod 4096"
    using unat_and_mask [of len 12] by (simp add: mask_eq_exp_minus_1)
  then have z: "len AND 0xFFF \<noteq> 0 \<longleftrightarrow> unat len mod 4096 \<noteq> 0" by (metis unat_eq_0 unat_0)
  have d: "unat (drop_bit 12 len) = unat len div 4096" by (simp add: unat_drop_bit)
  have "unat (EFI_SIZE_TO_PAGES len) = unat len div 4096 + (if unat len mod 4096 \<noteq> 0 then 1 else 0)"
  proof (cases "unat len mod 4096 \<noteq> 0")
    case True
    have "unat (drop_bit 12 len) + unat (1 :: u64) < 2 ^ LENGTH(64)" using d unat_bound [of len] by simp
    then have "unat (drop_bit 12 len + 1) = unat len div 4096 + 1" using d by (subst unat_add_small) simp_all
    moreover have "EFI_SIZE_TO_PAGES len = drop_bit 12 len + 1" using z True by (simp add: EFI_SIZE_TO_PAGES_def)
    ultimately show ?thesis using True by simp
  next
    case False
    then have "EFI_SIZE_TO_PAGES len = drop_bit 12 len" using z by (simp add: EFI_SIZE_TO_PAGES_def)
    then show ?thesis using False d by simp
  qed
  then show ?thesis by (simp only: round_up_pages)
qed

lemma page_length:
  assumes "unat len + 4095 < 2 ^ 64"
  shows "unat (push_bit 12 (EFI_SIZE_TO_PAGES len)) = (unat len + 4095) div 4096 * 4096"
proof -
  have "(unat len + 4095) div 4096 * 4096 < 2 ^ 64" using assms by (meson div_times_less_eq_dividend le_less_trans)
  then show ?thesis by (simp add: push_bit_eq_mult unat_word_ariths unat_size_to_pages)
qed


lemma grow_kernel_range_fields:
  "calls (grow_kernel_range v p l h) = calls h"
  "MmpKernelVirtualBegin (grow_kernel_range v p l h) = min (MmpKernelVirtualBegin h) v"
  "MmpKernelVirtualEnd (grow_kernel_range v p l h) = max (MmpKernelVirtualEnd h) (v + l)"
  "MmpKernelPhysicalBegin (grow_kernel_range v p l h) = min (MmpKernelPhysicalBegin h) p"
  "MmpKernelPhysicalEnd (grow_kernel_range v p l h) = max (MmpKernelPhysicalEnd h) (p + l)"
  by (auto simp: grow_kernel_range_def Let_def min_def max_def)

lemma InsertMemoryTag_calls: "set (calls h) \<subseteq> set (calls (MmpInsertMemoryTag v l p h))"
  by (auto simp: MmpInsertMemoryTag_def MmpGetMemoryTag_def allocate_pool_def upd_tag_def Let_def split: list.splits prod.splits if_splits)

lemma AllocatePages_run:
  assumes "MmAllocatePages t n a h = (q, p, h1)" and "q \<noteq> 0"
  shows "q = p \<and> AllocatePages t n a \<in> set (calls h1) \<and>
    MmpKernelVirtualBegin h1 = MmpKernelVirtualBegin h \<and> MmpKernelVirtualEnd h1 = MmpKernelVirtualEnd h \<and>
    MmpKernelPhysicalBegin h1 = MmpKernelPhysicalBegin h \<and> MmpKernelPhysicalEnd h1 = MmpKernelPhysicalEnd h"
proof -
  have boot: "EfiBootServices h" using assms by (auto simp: MmAllocatePages_def split: if_splits)
  then obtain rs where "pages_next h = Some p # rs" and q: "q = p" and h1: "h1 = MmpInsertMemoryTag 0 (EFI_PAGES_TO_SIZE n) p
      (h\<lparr>calls := calls h @ [AllocatePages t n a], pages_next := rs\<rparr>)"
  proof (cases "pages_next h")
    case Nil
    then show ?thesis using assms boot by (simp add: MmAllocatePages_def allocate_pages_def Let_def)
  next
    case (Cons r rs)
    then show ?thesis using assms boot that
      by (cases r) (simp_all add: MmAllocatePages_def allocate_pages_def Let_def)
  qed
  then show ?thesis
    using InsertMemoryTag_calls [of "h\<lparr>calls := calls h @ [AllocatePages t n a], pages_next := rs\<rparr>"] by auto
qed

section \<open>Properties\<close>

definition small_memory :: memory where
  "small_memory = \<lparr>MmpNextFreeMemoryTag = 100, MmpAllocatedMemoryTagPoolHead = 900, MmpAllocatedMemoryTagHead = 300,
     MmpKernelVirtualBegin = - 1, MmpKernelVirtualEnd = 0, MmpKernelPhysicalBegin = - 1, MmpKernelPhysicalEnd = 0,
     tag_at = (\<lambda>_. zero_tag)(300 := zero_tag\<lparr>VirtualAddress := 0x5000, BufferLength := 10, t_Next := 400\<rparr>,
       400 := zero_tag\<lparr>PhysicalAddress := 0x8000, BufferLength := 4097\<rparr>, 900 := zero_tag\<lparr>VirtualAddress := 900\<rparr>),
     EfiBootServices = True, pool_next = [(0x6000, 64)], pages_next = [Some 0x200000], calls = []\<rparr>"

lemma small_memory_inv: "mm_inv small_memory [300, 400] [100] [900]"
  by (simp add: mm_inv_def small_memory_def zero_tag_def pool_ok_def)



text \<open>
  C32. MmFinalize gives back to the boot services every allocation that has
  a tag, pages by their physical address and page count and buffers by their address, each once and
  in the order of the list, and then goes on to the pages that hold the tags. It reads the link of each such page after the page has been
  released: when the firmware leaves the links of released pages as they were, all pages go back, each once, MmFinalize ends, and the lists are empty
  afterwards; when that read is undefined, so is MmFinalize behind the release of the first page.
\<close>

theorem MmFinalize_releases_all:
  assumes "mm_inv h ts fl pg" and "EfiBootServices h"
  shows "((\<forall>p \<in> set pg. freed p = Some (t_Next (tag_at h p))) \<longrightarrow>
      MmFinalize freed h = Some (Inr (h\<lparr>calls := calls h @ concat (map release (entries h ts)) @ map FreePool pg,
        MmpAllocatedMemoryTagHead := 0, MmpAllocatedMemoryTagPoolHead := 0, MmpNextFreeMemoryTag := 0\<rparr>))) \<and>
    (pg \<noteq> [] \<and> freed (hd pg) = None \<longrightarrow>
      MmFinalize freed h = Some (Inl (h\<lparr>calls := calls h @ concat (map release (entries h ts)) @ [FreePool (hd pg)]\<rparr>)))"
proof -
  let ?h = "h\<lparr>calls := calls h @ concat (map release (entries h ts))\<rparr>"
  have "free_allocated (MmpAllocatedMemoryTagHead h) h = Some ?h"
    using assms(1) by (intro free_allocated_ok) (simp add: mm_inv_def)
  moreover have "free_tag_pools freed (MmpAllocatedMemoryTagPoolHead ?h) ?h = Some (Inr (?h\<lparr>calls := calls ?h @ map FreePool pg\<rparr>))"
    if "\<forall>p \<in> set pg. freed p = Some (t_Next (tag_at h p))"
    using assms(1) that by (intro free_tag_pools_ok) (simp_all add: mm_inv_def)
  moreover have "free_tag_pools freed (MmpAllocatedMemoryTagPoolHead ?h) ?h = Some (Inl (free_pool (hd pg) ?h))"
    if "pg \<noteq> []" "freed (hd pg) = None"
    using assms(1) that by (cases pg) (auto simp: mm_inv_def free_tag_pools.simps Let_def)
  ultimately show ?thesis using assms(2) by (simp add: MmFinalize_def free_pool_def)
qed

theorem MmFinalize_releases_all_witness:
  "map_option (map_sum calls calls) (MmFinalize (\<lambda>_. Some 0) small_memory) = Some (Inr [FreePool 0x5000, FreePages 0x8000 2, FreePool 900]) \<and>
   map_option (map_sum calls calls) (MmFinalize (\<lambda>_. None) small_memory) = Some (Inl [FreePool 0x5000, FreePages 0x8000 2, FreePool 900])"
proof -
  have "concat (map release (entries small_memory [300, 400])) = [FreePool 0x5000, FreePages 0x8000 2]"
    "calls small_memory = []" "EfiBootServices small_memory" "t_Next (tag_at small_memory 900) = 0"
    by (simp_all add: small_memory_def entries_def entry_def zero_tag_def release_def EFI_SIZE_TO_PAGES_def drop_bit_eq_div)
  then show ?thesis using MmFinalize_releases_all [OF small_memory_inv] by simp
qed

text \<open>
  MmAllocateKernelMemory rounds the length up to whole pages, takes the next address behind the
  kernel range when none is asked for, asks the firmware for the page range of that address,
  and leaves virtual and physical ranges of the kernel that have grown to include the new
  block and everything they had before.
\<close>

theorem MmAllocateKernelMemory_range:
  assumes run: "MmAllocateKernelMemory (Some len) virtualAddress h = (p, Some len', virtualAddress', h')" and p: "p \<noteq> 0"
    and "unat len + 4095 < 2 ^ 64"
  shows "\<exists>v. unat len' = (unat len + 4095) div 4096 * 4096 \<and>
     (virtualAddress = None \<or> virtualAddress = Some 0 \<longrightarrow> v = MmpKernelVirtualEnd h) \<and>
     (\<forall>a. virtualAddress = Some a \<and> a \<noteq> 0 \<longrightarrow> v = a) \<and> virtualAddress' = map_option (\<lambda>_. v) virtualAddress \<and>
     AllocatePages AllocateAddress (EFI_SIZE_TO_PAGES len) (LdrStaticVirtualToPhysical v) \<in> set (calls h') \<and>
     MmpKernelVirtualBegin h' = min (MmpKernelVirtualBegin h) v \<and>
     MmpKernelVirtualEnd h' = max (MmpKernelVirtualEnd h) (v + len') \<and>
     MmpKernelPhysicalBegin h' = min (MmpKernelPhysicalBegin h) p \<and>
     MmpKernelPhysicalEnd h' = max (MmpKernelPhysicalEnd h) (p + len')"
proof -
  define v where "v = (if virtualAddress = None \<or> virtualAddress = Some 0 then MmpKernelVirtualEnd h else the virtualAddress)"
  obtain q r h1 where pages: "MmAllocatePages AllocateAddress (EFI_SIZE_TO_PAGES len) (LdrStaticVirtualToPhysical v) h = (q, r, h1)"
    using prod_cases3 by blast
  have "p = r \<and> q \<noteq> 0 \<and> len' = push_bit 12 (EFI_SIZE_TO_PAGES len) \<and> virtualAddress' = map_option (\<lambda>_. v) virtualAddress \<and>
    h' = grow_kernel_range v r len' h1"
    using run p pages unfolding MmAllocateKernelMemory_def
    by (simp add: v_def [symmetric] Let_def split: if_splits) auto
  then show ?thesis using AllocatePages_run [OF pages] page_length [OF assms(3)]
    by (intro exI [of _ v]) (auto simp: v_def grow_kernel_range_fields)
qed

theorem MmAllocateKernelMemory_range_witness:
  "\<exists>len h'. MmAllocateKernelMemory (Some 5000) (Some 0xffffff8000200000) small_memory =
      (0x200000, Some len, Some 0xffffff8000200000, h') \<and> unat len = 8192 \<and>
    MmpKernelVirtualBegin h' = 0xffffff8000200000 \<and> MmpKernelVirtualEnd h' = 0xffffff8000202000"
proof -
  obtain h' where r: "MmAllocateKernelMemory (Some 5000) (Some 0xffffff8000200000) small_memory =
      (0x200000, Some 8192, Some 0xffffff8000200000, h')"
    by (simp add: MmAllocateKernelMemory_def MmAllocatePages_def allocate_pages_def small_memory_def Let_def
        EFI_SIZE_TO_PAGES_def drop_bit_eq_div push_bit_eq_mult)
  show ?thesis using MmAllocateKernelMemory_range [OF r] r
    by (simp add: small_memory_def min_def max_def word_order.extremum_unique)
qed

end
