(* ===== verification/MemoryMap.thy ===== *)
theory MemoryMap
  imports Memory Checksums "HOL-Library.Multiset"
begin

text \<open>
  The firmware memory map on its way to the kernel (MemoryMap.c). A map is the list of its
  descriptors: its size in bytes is the length times the descriptor size, which is what the
  loops of the source step by. The firmware calls GetMemoryMap and SetVirtualAddressMap are
  parameters. Physical memory is a map from addresses to bytes; the system table
  and the configuration tables are read from and written to it at the offsets that they have
  in the x64 build.
\<close>

section \<open>Descriptors\<close>

record EFI_MEMORY_DESCRIPTOR =
  Type :: u32
  PhysicalStart :: u64
  VirtualStart :: u64
  NumberOfPages :: u64
  Attribute :: u64

definition EfiReservedMemoryType :: u32 where "EfiReservedMemoryType = 0"
definition EfiRuntimeServicesCode :: u32 where "EfiRuntimeServicesCode = 5"
definition EfiRuntimeServicesData :: u32 where "EfiRuntimeServicesData = 6"
definition EfiConventionalMemory :: u32 where "EfiConventionalMemory = 7"
definition EFI_MEMORY_RUNTIME :: u64 where "EFI_MEMORY_RUNTIME = 0x8000000000000000"

definition runtime :: "EFI_MEMORY_DESCRIPTOR \<Rightarrow> bool" where
  "runtime d = (Attribute d AND EFI_MEMORY_RUNTIME \<noteq> 0)"

definition runtime_type :: "EFI_MEMORY_DESCRIPTOR \<Rightarrow> bool" where
  "runtime_type d = (Type d = EfiRuntimeServicesCode \<or> Type d = EfiRuntimeServicesData)"

definition byte_length :: "EFI_MEMORY_DESCRIPTOR \<Rightarrow> u64" where
  "byte_length d = push_bit 12 (NumberOfPages d)"

section \<open>Getting the map\<close>

text \<open>
  The firmware's GetMemoryMap: whether a buffer is given, its size, and the state of the
  firmware; the answer is the status, the size, the descriptors and the new state.
\<close>

type_synonym 'f get_map = "bool \<Rightarrow> u64 \<Rightarrow> 'f \<Rightarrow> EFI_STATUS \<times> u64 \<times> EFI_MEMORY_DESCRIPTOR list \<times> 'f"

text \<open>The buffer, its size and the size to ask for; the buffer is 0 when there is no memory for it.\<close>

definition get_map_buffer :: "nat \<Rightarrow> u64 \<Rightarrow> u64 \<Rightarrow> memory \<Rightarrow> (nat \<times> u64 \<times> memory) option" where
  "get_map_buffer allocatedMap currentSize allocatedSize h =
     (case (if allocatedMap \<noteq> 0 then MmFreePool allocatedMap h else Some h) of None \<Rightarrow> None
      | Some h \<Rightarrow>
          let allocatedSize = currentSize + 512;
              (allocatedMap, h) = MmAllocatePool allocatedSize h
          in Some (allocatedMap, allocatedSize, h))"

text \<open>
  The loop with the tries that are left; the result has the status and, on success, the buffer,
  the size of the map and its descriptors. A buffer of 0 in the call stands for NULL.
\<close>

fun get_map_loop :: "'f get_map \<Rightarrow> nat \<Rightarrow> EFI_STATUS \<Rightarrow> nat \<Rightarrow> u64 \<Rightarrow> memory \<Rightarrow> 'f \<Rightarrow>
    (EFI_STATUS \<times> (nat \<times> u64 \<times> EFI_MEMORY_DESCRIPTOR list) option \<times> memory \<times> 'f) option" where
  "get_map_loop GetMemoryMap 0 status allocatedMap allocatedSize h f = Some (status, None, h, f)"
| "get_map_loop GetMemoryMap (Suc n) status0 allocatedMap allocatedSize h f =
     (let (status, currentSize, _, f) = GetMemoryMap False 0 f in
      if status \<noteq> EFI_BUFFER_TOO_SMALL then Some (status, None, h, f)
      else
        let again = (\<lambda>allocatedMap allocatedSize currentSize h.
              let (status, currentSize, descriptors, f) = GetMemoryMap (allocatedMap \<noteq> 0) currentSize f in
              if \<not> EFI_ERROR status then Some (status, Some (allocatedMap, currentSize, descriptors), h, f)
              else get_map_loop GetMemoryMap n status allocatedMap allocatedSize h f)
        in if currentSize > allocatedSize then
             (case get_map_buffer allocatedMap currentSize allocatedSize h of None \<Rightarrow> None
              | Some (allocatedMap, allocatedSize, h) \<Rightarrow>
                  if allocatedMap = 0 then Some (EFI_OUT_OF_RESOURCES, None, h, f)
                  else again allocatedMap allocatedSize allocatedSize h)
           else again allocatedMap allocatedSize currentSize h)"

definition MmGetMemoryMap :: "'f get_map \<Rightarrow> memory \<Rightarrow> 'f \<Rightarrow>
    (EFI_STATUS \<times> (nat \<times> u64 \<times> EFI_MEMORY_DESCRIPTOR list) option \<times> memory \<times> 'f) option" where
  "MmGetMemoryMap GetMemoryMap h f = get_map_loop GetMemoryMap 5 EFI_SUCCESS 0 0 h f"

section \<open>Runtime descriptors\<close>

fun runtime_info :: "u64 \<Rightarrow> u64 \<Rightarrow> EFI_MEMORY_DESCRIPTOR list \<Rightarrow> u64 \<times> u64" where
  "runtime_info totalDescriptors totalPages [] = (totalDescriptors, totalPages)"
| "runtime_info totalDescriptors totalPages (d # ds) =
     (if \<not> runtime d then runtime_info totalDescriptors totalPages ds
      else runtime_info (totalDescriptors + 1) (totalPages + NumberOfPages d) ds)"

definition MmGetRuntimeMemoryInfo :: "EFI_MEMORY_DESCRIPTOR list \<Rightarrow> u64 \<times> u64" where
  "MmGetRuntimeMemoryInfo memoryMap = runtime_info 0 0 memoryMap"

text \<open>The position read from, the position written to, and the map; the result has the new number of descriptors.\<close>

function remove_loop :: "nat \<Rightarrow> nat \<Rightarrow> EFI_MEMORY_DESCRIPTOR list \<Rightarrow> EFI_MEMORY_DESCRIPTOR list \<times> nat" where
  "remove_loop i writePosition memoryMap =
     (if length memoryMap \<le> i then (memoryMap, writePosition)
      else
        let d = memoryMap ! i in
        if Type d = EfiReservedMemoryType \<or> \<not> runtime d then remove_loop (i + 1) writePosition memoryMap
        else
          let memoryMap = (if writePosition \<noteq> i then memoryMap[writePosition := d] else memoryMap)
          in remove_loop (i + 1) (writePosition + 1) memoryMap)"
  by pat_completeness auto
termination by (relation "measure (\<lambda>(i, w, m). length m - i)") (auto simp: Let_def split: if_splits)

declare remove_loop.simps [simp del]

definition MmRemoveNonRuntimeDescriptors :: "EFI_MEMORY_DESCRIPTOR list \<Rightarrow> EFI_STATUS \<times> EFI_MEMORY_DESCRIPTOR list \<times> nat" where
  "MmRemoveNonRuntimeDescriptors memoryMap =
     (let (memoryMap, newSize) = remove_loop 0 0 memoryMap in (EFI_SUCCESS, memoryMap, newSize))"

section \<open>Sorting\<close>

text \<open>Descriptors from position \<open>j\<close> to \<open>k\<close> move up by one, the last one first.\<close>

fun shift_up :: "nat \<Rightarrow> nat \<Rightarrow> EFI_MEMORY_DESCRIPTOR list \<Rightarrow> EFI_MEMORY_DESCRIPTOR list" where
  "shift_up n k memoryMap =
     (case n of 0 \<Rightarrow> memoryMap | Suc n \<Rightarrow> shift_up n (k - 1) (memoryMap[k + 1 := memoryMap ! k]))"

function insert_pass :: "nat \<Rightarrow> nat \<Rightarrow> EFI_MEMORY_DESCRIPTOR list \<Rightarrow> EFI_MEMORY_DESCRIPTOR list" where
  "insert_pass i j memoryMap =
     (if i \<le> j then memoryMap
      else if PhysicalStart (memoryMap ! j) \<le> PhysicalStart (memoryMap ! i) then insert_pass i (j + 1) memoryMap
      else
        let localDescriptor = memoryMap ! i;
            memoryMap = shift_up (i - j) (i - 1) memoryMap
        in memoryMap[j := localDescriptor])"
  by pat_completeness auto
termination by (relation "measure (\<lambda>(i, j, m). i - j)") auto

declare insert_pass.simps [simp del] shift_up.simps [simp del]

definition MmSortMemoryMap :: "EFI_MEMORY_DESCRIPTOR list \<Rightarrow> EFI_MEMORY_DESCRIPTOR list" where
  "MmSortMemoryMap memoryMap = fold (\<lambda>i. insert_pass i 0) [1..<length memoryMap] memoryMap"

section \<open>Splitting a region\<close>

text \<open>
  The split of the descriptor at position \<open>i\<close>: the part before the new address and the part behind
  the new region are added at the end of the map.
\<close>

definition split_region :: "nat \<Rightarrow> u64 \<Rightarrow> u64 \<Rightarrow> EFI_MEMORY_DESCRIPTOR list \<Rightarrow> EFI_MEMORY_DESCRIPTOR list" where
  "split_region i newPhysicalAddress pagesCount memoryMap =
     (let cur = memoryMap ! i;
          length0 = push_bit 12 pagesCount;
          (cur, curPagesCount, len, before) =
            (if newPhysicalAddress > PhysicalStart cur then
               let newPagesCount = EFI_SIZE_TO_PAGES (newPhysicalAddress - PhysicalStart cur);
                   newDescriptor = cur\<lparr>NumberOfPages := newPagesCount\<rparr>;
                   len = push_bit 12 newPagesCount;
                   moved = cur\<lparr>PhysicalStart := PhysicalStart cur + len, NumberOfPages := NumberOfPages cur - newPagesCount,
                     VirtualStart := (if VirtualStart cur \<noteq> 0 then VirtualStart cur + len else 0)\<rparr>
               in (moved, NumberOfPages cur - newPagesCount, len, [newDescriptor])
             else (cur, NumberOfPages cur, length0, []));
          (cur, behind) =
            (if curPagesCount > pagesCount then
               (cur\<lparr>NumberOfPages := pagesCount\<rparr>,
                [cur\<lparr>NumberOfPages := curPagesCount - pagesCount, PhysicalStart := PhysicalStart cur + len,
                   VirtualStart := (if VirtualStart cur \<noteq> 0 then VirtualStart cur + len else 0)\<rparr>])
             else (cur, []))
      in memoryMap[i := cur] @ before @ behind)"

definition contains :: "u64 \<Rightarrow> EFI_MEMORY_DESCRIPTOR \<Rightarrow> bool" where
  "contains a d = (\<not> (PhysicalStart d > a \<or> a \<ge> PhysicalStart d + byte_length d))"

fun region_of :: "u64 \<Rightarrow> nat \<Rightarrow> EFI_MEMORY_DESCRIPTOR list \<Rightarrow> nat option" where
  "region_of a i [] = None"
| "region_of a i (d # ds) = (if contains a d then Some i else region_of a (i + 1) ds)"

text \<open>The map afterwards and the position of the created descriptor, None for NULL.\<close>

definition MmpCreateSubRegion :: "EFI_MEMORY_DESCRIPTOR list \<Rightarrow> u64 \<Rightarrow> u64 \<Rightarrow> EFI_MEMORY_DESCRIPTOR list \<times> nat option" where
  "MmpCreateSubRegion memoryMap newPhysicalAddress pagesCount =
     (case region_of newPhysicalAddress 0 memoryMap of None \<Rightarrow> (memoryMap, None)
      | Some i \<Rightarrow> (split_region i newPhysicalAddress pagesCount memoryMap, Some i))"


section \<open>Physical memory\<close>

type_synonym phys = "u64 \<Rightarrow> u8"

fun read_bytes :: "phys \<Rightarrow> u64 \<Rightarrow> nat \<Rightarrow> u8 list" where
  "read_bytes m a 0 = []"
| "read_bytes m a (Suc n) = m a # read_bytes m (a + 1) n"

fun write_bytes :: "u64 \<Rightarrow> u8 list \<Rightarrow> phys \<Rightarrow> phys" where
  "write_bytes a [] m = m"
| "write_bytes a (b # bs) m = write_bytes (a + 1) bs (m(a := b))"

definition read32 :: "phys \<Rightarrow> u64 \<Rightarrow> u32" where
  "read32 m a = le32 (read_bytes m a 4) 0"

definition write32 :: "u64 \<Rightarrow> u32 \<Rightarrow> phys \<Rightarrow> phys" where
  "write32 a v m = write_bytes a (put_le32 v) m"

definition read64 :: "phys \<Rightarrow> u64 \<Rightarrow> u64" where
  "read64 m a = ucast (read32 m a) OR push_bit 32 (ucast (read32 m (a + 4)))"

definition write64 :: "u64 \<Rightarrow> u64 \<Rightarrow> phys \<Rightarrow> phys" where
  "write64 a v m = write32 (a + 4) (ucast (drop_bit 32 v)) (write32 a (ucast v) m)"

text \<open>memcpy, byte by byte from the start, and memset with zero.\<close>

fun move_bytes :: "nat \<Rightarrow> u64 \<Rightarrow> u64 \<Rightarrow> phys \<Rightarrow> phys" where
  "move_bytes 0 dst src m = m"
| "move_bytes (Suc n) dst src m = move_bytes n (dst + 1) (src + 1) (m(dst := m src))"

fun clear_bytes :: "nat \<Rightarrow> u64 \<Rightarrow> phys \<Rightarrow> phys" where
  "clear_bytes 0 a m = m"
| "clear_bytes (Suc n) a m = clear_bytes n (a + 1) (m(a := 0))"

text \<open>Offsets of the fields of EFI_SYSTEM_TABLE, its header and EFI_CONFIGURATION_TABLE.\<close>

definition off_HeaderSize :: u64 where "off_HeaderSize = 12"
definition off_CRC32 :: u64 where "off_CRC32 = 16"
definition off_RuntimeServices :: u64 where "off_RuntimeServices = 88"
definition off_NumberOfTableEntries :: u64 where "off_NumberOfTableEntries = 104"
definition off_ConfigurationTable :: u64 where "off_ConfigurationTable = 112"
definition off_VendorTable :: u64 where "off_VendorTable = 16"
definition sizeof_CONFIGURATION_TABLE :: u64 where "sizeof_CONFIGURATION_TABLE = 24"

record platform =
  phys_mem :: phys
  EfiSystemTable :: u64
  EfiRuntimeServices :: u64

section \<open>Conversion to virtual addresses\<close>

text \<open>The first pass: the status, the descriptors (changed up to an error) and the number of mapped pages.\<close>

fun setup_virtual :: "u64 \<Rightarrow> u64 \<Rightarrow> bool \<Rightarrow> u64 \<Rightarrow> u64 \<Rightarrow> EFI_MEMORY_DESCRIPTOR list \<Rightarrow>
    EFI_STATUS \<times> EFI_MEMORY_DESCRIPTOR list \<times> u64" where
  "setup_virtual rtPhysical runtimeEnd setupThunkCode curVirtualAddress mappedRuntimePages [] =
     (EFI_SUCCESS, [], mappedRuntimePages)"
| "setup_virtual rtPhysical runtimeEnd setupThunkCode curVirtualAddress mappedRuntimePages (d # ds) =
     (let d = (if Type d = EfiReservedMemoryType then d\<lparr>Attribute := Attribute d AND NOT EFI_MEMORY_RUNTIME\<rparr> else d) in
      if \<not> runtime d then
        (let (status, ds, n) = setup_virtual rtPhysical runtimeEnd setupThunkCode curVirtualAddress mappedRuntimePages ds
         in (status, d # ds, n))
      else if LdrStaticVirtualToPhysical curVirtualAddress < rtPhysical then (EFI_NO_MAPPING, d # ds, mappedRuntimePages)
      else
        let curVirtualAddressEnd = curVirtualAddress + byte_length d in
        if LdrStaticVirtualToPhysical curVirtualAddressEnd > runtimeEnd then (EFI_NO_MAPPING, d # ds, mappedRuntimePages)
        else
          let mappedRuntimePages = mappedRuntimePages + NumberOfPages d;
              d = d\<lparr>VirtualStart := (if setupThunkCode then LdrStaticVirtualToPhysical curVirtualAddress else curVirtualAddress)\<rparr>;
              (status, ds, n) = setup_virtual rtPhysical runtimeEnd setupThunkCode curVirtualAddressEnd mappedRuntimePages ds
          in (status, d # ds, n))"

definition adjust_virtual :: "u64 \<Rightarrow> EFI_MEMORY_DESCRIPTOR list \<Rightarrow> EFI_MEMORY_DESCRIPTOR list" where
  "adjust_virtual thunkOffset memoryMap =
     map (\<lambda>d. if \<not> runtime d then d else d\<lparr>VirtualStart := VirtualStart d + thunkOffset\<rparr>) memoryMap"

definition move_region :: "EFI_MEMORY_DESCRIPTOR \<Rightarrow> phys \<Rightarrow> phys" where
  "move_region d m =
     (let kernelPhysical = LdrStaticVirtualToPhysical (VirtualStart d) in
      if \<not> runtime_type d \<or> kernelPhysical = PhysicalStart d then m
      else
        let bufferLength = unat (byte_length d)
        in clear_bytes bufferLength (PhysicalStart d) (move_bytes bufferLength kernelPhysical (PhysicalStart d) m))"

text \<open>The first runtime region that has the system table; the result has *efiSysTablePhy too.\<close>

fun relocate_system_table :: "EFI_MEMORY_DESCRIPTOR list \<Rightarrow> u64 \<Rightarrow> platform \<Rightarrow> u64 \<times> platform" where
  "relocate_system_table [] efiSysTablePhy st = (efiSysTablePhy, st)"
| "relocate_system_table (d # ds) efiSysTablePhy st =
     (if \<not> runtime_type d \<or> EfiSystemTable st < PhysicalStart d \<or> EfiSystemTable st \<ge> PhysicalStart d + byte_length d
      then relocate_system_table ds efiSysTablePhy st
      else
        let newAddress = EfiSystemTable st + (VirtualStart d - PhysicalStart d);
            newTable = LdrStaticVirtualToPhysical newAddress
        in (newTable, st\<lparr>EfiSystemTable := newTable,
              EfiRuntimeServices := read64 (phys_mem st) (newTable + off_RuntimeServices)\<rparr>))"

definition relocate_pointer :: "bool \<Rightarrow> EFI_MEMORY_DESCRIPTOR \<Rightarrow> u64 \<Rightarrow> phys \<Rightarrow> phys" where
  "relocate_pointer setupThunkCode d a m =
     (let tableAddress = read64 m a in
      if tableAddress < PhysicalStart d \<or> tableAddress \<ge> PhysicalStart d + byte_length d then m
      else
        let tableAddress = tableAddress + (VirtualStart d - PhysicalStart d);
            tableAddress = (if setupThunkCode then LdrStaticVirtualToPhysical tableAddress else tableAddress)
        in write64 a tableAddress m)"

definition relocate_config_pointer :: "bool \<Rightarrow> u64 \<Rightarrow> EFI_MEMORY_DESCRIPTOR list \<Rightarrow> phys \<Rightarrow> phys" where
  "relocate_config_pointer setupThunkCode sysTable memoryMap m =
     fold (\<lambda>d m. if \<not> runtime_type d then m
       else relocate_pointer setupThunkCode d (sysTable + off_ConfigurationTable) m) memoryMap m"

text \<open>The loop over the entries; the number of entries is read again before every step.\<close>

function relocate_entries :: "bool \<Rightarrow> u64 \<Rightarrow> EFI_MEMORY_DESCRIPTOR \<Rightarrow> u64 \<Rightarrow> u64 \<Rightarrow> phys \<Rightarrow> phys" where
  "relocate_entries setupThunkCode sysTable d j configurationTable m =
     (if j < read64 m (sysTable + off_NumberOfTableEntries) then
        relocate_entries setupThunkCode sysTable d (j + 1) (configurationTable + sizeof_CONFIGURATION_TABLE)
          (relocate_pointer setupThunkCode d (configurationTable + off_VendorTable) m)
      else m)"
  by pat_completeness auto
termination
proof (relation "measure (\<lambda>(t, s, d, j, c, m). 2 ^ 64 - unat j)")
  fix setupThunkCode sysTable d j configurationTable m
  assume "j < read64 m (sysTable + off_NumberOfTableEntries)"
  then have "unat j < unat (read64 m (sysTable + off_NumberOfTableEntries))" by (simp add: word_less_nat_alt)
  then have "unat j + 1 < 2 ^ 64" using unat_bound [of "read64 m (sysTable + off_NumberOfTableEntries)"] by simp
  then have "unat (j + 1) = unat j + 1" by (subst unat_add_small) simp_all
  then show "((setupThunkCode, sysTable, d, j + 1, configurationTable + sizeof_CONFIGURATION_TABLE,
      relocate_pointer setupThunkCode d (configurationTable + off_VendorTable) m),
      setupThunkCode, sysTable, d, j, configurationTable, m) \<in> measure (\<lambda>(t, s, d, j, c, m). 2 ^ 64 - unat j)"
    using \<open>unat j + 1 < 2 ^ 64\<close> by simp
qed simp

declare relocate_entries.simps [simp del]

definition relocate_config_tables :: "bool \<Rightarrow> u64 \<Rightarrow> EFI_MEMORY_DESCRIPTOR list \<Rightarrow> phys \<Rightarrow> phys" where
  "relocate_config_tables setupThunkCode sysTable memoryMap m =
     fold (\<lambda>d m. if \<not> runtime_type d then m
       else relocate_entries setupThunkCode sysTable d 0
         (LdrStaticVirtualToPhysical (read64 m (sysTable + off_ConfigurationTable))) m) memoryMap m"

text \<open>
  The last pass. With createRegion the map may grow while the loop runs; None is a loop that
  does not end or the use of the NULL descriptor when no region has the new address.
\<close>

partial_function (option) fix_physical ::
  "bool \<Rightarrow> nat \<Rightarrow> EFI_MEMORY_DESCRIPTOR list \<Rightarrow> EFI_MEMORY_DESCRIPTOR list option" where
  "fix_physical createRegion i memoryMap =
     (if length memoryMap \<le> i then Some memoryMap
      else
        let d = memoryMap ! i; kernelPhysical = LdrStaticVirtualToPhysical (VirtualStart d) in
        if \<not> runtime_type d \<or> kernelPhysical = PhysicalStart d then fix_physical createRegion (i + 1) memoryMap
        else if createRegion then
          (let memoryMap = memoryMap[i := d\<lparr>VirtualStart := 0, Attribute := Attribute d AND NOT EFI_MEMORY_RUNTIME,
                 Type := EfiConventionalMemory\<rparr>];
               (memoryMap, newDescriptor) = MmpCreateSubRegion memoryMap kernelPhysical (NumberOfPages d)
           in case newDescriptor of None \<Rightarrow> None
              | Some n \<Rightarrow>
                  fix_physical createRegion (i + 1) (memoryMap[n := (memoryMap ! n)
                    \<lparr>Attribute := Attribute (memoryMap ! n) OR EFI_MEMORY_RUNTIME, VirtualStart := VirtualStart d, Type := Type d\<rparr>]))
        else fix_physical createRegion (i + 1) (memoryMap[i := d\<lparr>PhysicalStart := kernelPhysical\<rparr>]))"

definition fix_crc :: "u64 \<Rightarrow> phys \<Rightarrow> phys" where
  "fix_crc table m =
     (let m = write32 (table + off_CRC32) 0 m
      in write32 (table + off_CRC32) (BlCrc32 0 (read_bytes m table (unat (read32 m (table + off_HeaderSize))))) m)"

text \<open>
  SetVirtualAddressMap may change the memory of the firmware. The thunk code of the 32-bit
  build is empty on x64, and so are its two calls here.
\<close>

definition MmConvertPointers ::
  "(EFI_MEMORY_DESCRIPTOR list \<Rightarrow> phys \<Rightarrow> EFI_STATUS \<times> phys) \<Rightarrow> EFI_MEMORY_DESCRIPTOR list \<Rightarrow> u64 \<Rightarrow> u64 \<Rightarrow> u64 \<Rightarrow> u64 \<Rightarrow> bool \<Rightarrow>
   platform \<Rightarrow> (EFI_STATUS \<times> EFI_MEMORY_DESCRIPTOR list \<times> u64 \<times> platform) option" where
  "MmConvertPointers SetVirtualAddressMap memoryMap rtPhysical runtimePages rtVirtual efiSysTablePhy createRegion st =
     (let runtimeServicesPhyAddrEnd = rtPhysical + push_bit 12 runtimePages;
          setupThunkCode = rtVirtual > - 1;
          thunkOffset = (if setupThunkCode then rtVirtual - LdrStaticVirtualToPhysical rtVirtual else 0);
          (status, memoryMap, mappedRuntimePages) =
            setup_virtual rtPhysical runtimeServicesPhyAddrEnd setupThunkCode rtVirtual 0 memoryMap
      in if EFI_ERROR status then Some (EFI_NO_MAPPING, memoryMap, efiSysTablePhy, st)
         else
           let (ok, memoryMap, st) =
                 (if mappedRuntimePages \<noteq> 0 then
                    (let (status, m) = SetVirtualAddressMap memoryMap (phys_mem st);
                         st = st\<lparr>phys_mem := m\<rparr>
                     in if EFI_ERROR status then (False, memoryMap, st)
                        else (True, if setupThunkCode then adjust_virtual thunkOffset memoryMap else memoryMap, st))
                  else (True, memoryMap,
                    st\<lparr>phys_mem := write64 (EfiSystemTable st + off_RuntimeServices) 0 (phys_mem st)\<rparr>))
           in if \<not> ok then Some (EFI_NO_MAPPING, memoryMap, efiSysTablePhy, st)
              else
                let st = st\<lparr>phys_mem := fold move_region memoryMap (phys_mem st)\<rparr>;
                    (efiSysTablePhy, st) = relocate_system_table memoryMap efiSysTablePhy st;
                    m = relocate_config_pointer setupThunkCode (EfiSystemTable st) memoryMap (phys_mem st);
                    m = relocate_config_tables setupThunkCode (EfiSystemTable st) memoryMap m
                in case fix_physical createRegion 0 memoryMap of None \<Rightarrow> None
                   | Some memoryMap \<Rightarrow>
                       Some (EFI_SUCCESS, memoryMap, efiSysTablePhy, st\<lparr>phys_mem := fix_crc efiSysTablePhy m\<rparr>))"


section \<open>Sorting: the loops\<close>

lemma length_shift_up [simp]: "length (shift_up n k xs) = length xs"
  by (induction n arbitrary: k xs) (simp_all add: shift_up.simps)

lemma nth_shift_up:
  "n \<le> k + 1 \<Longrightarrow> k + 1 < length xs \<Longrightarrow> m < length xs \<Longrightarrow>
   shift_up n k xs ! m = (if k + 1 - n < m \<and> m \<le> k + 1 then xs ! (m - 1) else xs ! m)"
proof (induction n arbitrary: k xs)
  case (Suc n)
  show ?case
  proof (cases "k = 0")
    case True
    then show ?thesis using Suc.prems by (simp add: shift_up.simps nth_list_update)
  next
    case False
    let ?xs = "xs[k + 1 := xs ! k]"
    have "shift_up (Suc n) k xs ! m = shift_up n (k - 1) ?xs ! m" by (simp add: shift_up.simps)
    also have "\<dots> = (if k - n < m \<and> m \<le> k then ?xs ! (m - 1) else ?xs ! m)"
      using Suc.IH [of "k - 1" ?xs] Suc.prems False by simp
    finally show ?thesis using Suc.prems False by (auto simp: nth_list_update)
  qed
qed (auto simp: shift_up.simps)

definition ins :: "EFI_MEMORY_DESCRIPTOR \<Rightarrow> EFI_MEMORY_DESCRIPTOR list \<Rightarrow> EFI_MEMORY_DESCRIPTOR list" where
  "ins x ys = takeWhile (\<lambda>y. PhysicalStart y \<le> PhysicalStart x) ys @ x # dropWhile (\<lambda>y. PhysicalStart y \<le> PhysicalStart x) ys"

lemma place_at:
  assumes "p < i" and "i < length xs"
  shows "(shift_up (i - p) (i - 1) xs)[p := xs ! i] = take p xs @ xs ! i # drop p (take i xs) @ drop (Suc i) xs"
    (is "?l = ?r")
proof (rule nth_equalityI)
  show "length ?l = length ?r" using assms by simp
  fix m assume "m < length ?l"
  then have m: "m < length xs" by simp
  have "?l ! m = (if m = p then xs ! i else if p < m \<and> m \<le> i then xs ! (m - 1) else xs ! m)"
    using nth_shift_up [of "i - p" "i - 1" xs m] assms m by (auto simp: nth_list_update)
  moreover have "?r ! m = (if m = p then xs ! i else if p < m \<and> m \<le> i then xs ! (m - 1) else xs ! m)"
    using assms m by (auto simp: nth_append nth_Cons')
  ultimately show "?l ! m = ?r ! m" by simp
qed

lemma insert_pass_ins:
  assumes "i < length xs" and "j \<le> i" and "\<forall>k < j. PhysicalStart (xs ! k) \<le> PhysicalStart (xs ! i)"
  shows "insert_pass i j xs = ins (xs ! i) (take i xs) @ drop (Suc i) xs"
  using assms
proof (induction i j xs rule: insert_pass.induct)
  case (1 i j xs)
  let ?P = "\<lambda>y. PhysicalStart y \<le> PhysicalStart (xs ! i)"
  show ?case
  proof (cases "i \<le> j")
    case True
    then have "\<forall>y \<in> set (take i xs). ?P y" using 1(2-4) by (auto simp: in_set_conv_nth)
    then have "ins (xs ! i) (take i xs) = take i xs @ [xs ! i]" by (simp add: ins_def)
    then have "ins (xs ! i) (take i xs) @ drop (Suc i) xs = xs" using 1(2) by (simp add: id_take_nth_drop [symmetric])
    then show ?thesis using True by (subst insert_pass.simps) simp
  next
    case ij: False
    show ?thesis
    proof (cases "?P (xs ! j)")
      case True
      then have "\<forall>k < j + 1. ?P (xs ! k)" using 1(4) by (auto simp: less_Suc_eq)
      then have "insert_pass i (j + 1) xs = ins (xs ! i) (take i xs) @ drop (Suc i) xs"
        using 1(1) ij True 1(2) by simp
      then show ?thesis using ij True by (subst insert_pass.simps) simp
    next
      case False
      have "takeWhile ?P (take i xs) = take j (take i xs)"
        using 1(2,4) ij False by (intro takeWhile_eq_take_P_nth) auto
      then have "takeWhile ?P (take i xs) = take j xs" "dropWhile ?P (take i xs) = drop j (take i xs)"
        using ij 1(2) by (auto simp: dropWhile_eq_drop)
      then have "ins (xs ! i) (take i xs) @ drop (Suc i) xs = (shift_up (i - j) (i - 1) xs)[j := xs ! i]"
        using place_at [of j i xs] ij 1(2) by (simp add: ins_def)
      then show ?thesis using ij False by (subst insert_pass.simps) (simp add: Let_def)
    qed
  qed
qed

lemma length_ins [simp]: "length (ins x ys) = Suc (length ys)"
proof -
  have "length (takeWhile P ys) + length (dropWhile P ys) = length ys" for P
    by (metis length_append takeWhile_dropWhile_id)
  then show ?thesis by (simp add: ins_def)
qed

lemma mset_ins: "mset (ins x ys) = add_mset x (mset ys)"
proof -
  have "mset (takeWhile P ys) + mset (dropWhile P ys) = mset ys" for P
    by (metis mset_append takeWhile_dropWhile_id)
  then show ?thesis by (simp add: ins_def)
qed

lemma MmSort_fold:
  "n \<le> length xs \<Longrightarrow> fold (\<lambda>i. insert_pass i 0) [1..<n] xs = (if n = 0 then xs else fold ins (take n xs) [] @ drop n xs)"
proof (induction n)
  case (Suc n)
  have len: "length (fold ins ys zs) = length ys + length zs" for ys zs
    by (induction ys arbitrary: zs) simp_all
  show ?case
  proof (cases "n = 0")
    case True
    then show ?thesis using Suc.prems by (cases xs) (simp_all add: ins_def)
  next
    case False
    let ?ys = "fold ins (take n xs) []"
    have n: "n < length xs" "length ?ys = n" using Suc.prems len [of "take n xs" "[]"] by simp_all
    have "fold (\<lambda>i. insert_pass i 0) [1..<Suc n] xs = insert_pass n 0 (?ys @ drop n xs)"
      using Suc False by simp
    also have "\<dots> = ins (xs ! n) ?ys @ drop (Suc n) xs"
      using n by (subst insert_pass_ins) (simp_all add: nth_append)
    finally show ?thesis using n(1) by (simp add: take_Suc_conv_app_nth)
  qed
qed simp

lemma sorted_ins:
  assumes "sorted (map PhysicalStart ys)"
  shows "sorted (map PhysicalStart (ins x ys))" and "\<forall>y \<in> set (dropWhile (\<lambda>y. PhysicalStart y \<le> PhysicalStart x) ys). PhysicalStart x < PhysicalStart y"
proof -
  let ?P = "\<lambda>y. PhysicalStart y \<le> PhysicalStart x"
  have split: "sorted (map PhysicalStart (takeWhile ?P ys @ dropWhile ?P ys))" using assms by simp
  show big: "\<forall>y \<in> set (dropWhile ?P ys). PhysicalStart x < PhysicalStart y"
  proof (cases "dropWhile ?P ys")
    case (Cons z zs)
    then have "PhysicalStart x < PhysicalStart z" using hd_dropWhile [of ?P ys] by simp
    then show ?thesis using split Cons by (fastforce simp: sorted_append)
  next
    case Nil
    then show ?thesis unfolding Nil by simp
  qed
  have small: "\<forall>y \<in> set (takeWhile ?P ys). PhysicalStart y \<le> PhysicalStart x" by (auto dest: set_takeWhileD)
  have sorted_two: "sorted (map PhysicalStart (takeWhile ?P ys))" "sorted (map PhysicalStart (dropWhile ?P ys))"
    using split unfolding map_append sorted_append by blast+
  have less: "PhysicalStart x \<le> PhysicalStart y" if "y \<in> set (dropWhile ?P ys)" for y using big that by (blast intro: less_imp_le)
  have "sorted (map PhysicalStart (x # dropWhile ?P ys))" using sorted_two(2) less by simp
  moreover have "PhysicalStart y \<le> PhysicalStart z" if "y \<in> set (takeWhile ?P ys)" "z \<in> set (x # dropWhile ?P ys)" for y z
    using small less that by (auto intro: order_trans)
  ultimately show "sorted (map PhysicalStart (ins x ys))"
    unfolding ins_def map_append sorted_append using sorted_two(1) by simp
qed

lemma filter_ins:
  assumes "sorted (map PhysicalStart ys)"
  shows "filter (\<lambda>y. k = PhysicalStart y) (ins x ys) =
    (if k = PhysicalStart x then filter (\<lambda>y. k = PhysicalStart y) ys @ [x] else filter (\<lambda>y. k = PhysicalStart y) ys)"
proof -
  let ?P = "\<lambda>y. PhysicalStart y \<le> PhysicalStart x"
  have "filter (\<lambda>y. k = PhysicalStart y) ys = filter (\<lambda>y. k = PhysicalStart y) (takeWhile ?P ys) @
      filter (\<lambda>y. k = PhysicalStart y) (dropWhile ?P ys)" by (metis filter_append takeWhile_dropWhile_id)
  moreover have "k = PhysicalStart x \<Longrightarrow> filter (\<lambda>y. k = PhysicalStart y) (dropWhile ?P ys) = []"
    using sorted_ins(2) [OF assms, of x] by (auto simp: filter_empty_conv)
  ultimately show ?thesis by (cases "k = PhysicalStart x") (simp_all add: ins_def)
qed

lemma fold_ins:
  "sorted (map PhysicalStart zs) \<Longrightarrow> sorted (map PhysicalStart (fold ins xs zs)) \<and> mset (fold ins xs zs) = mset zs + mset xs \<and>
   filter (\<lambda>y. k = PhysicalStart y) (fold ins xs zs) = filter (\<lambda>y. k = PhysicalStart y) (zs @ xs)"
proof (induction xs arbitrary: zs)
  case (Cons x xs)
  then show ?case using Cons.IH [of "ins x zs"] sorted_ins(1) [OF Cons.prems, of x]
    by (simp add: mset_ins filter_ins)
qed simp

text \<open>
  C28. MmSortMemoryMap is a stable sort of the descriptors by physical start: the result is in
  ascending order, has the same descriptors, and equal ones keep their order.
\<close>

theorem MmSortMemoryMap_sorts: "MmSortMemoryMap memoryMap = sort_key PhysicalStart memoryMap"
proof -
  have "MmSortMemoryMap memoryMap = fold ins memoryMap []"
    using MmSort_fold [of "length memoryMap" memoryMap] by (auto simp: MmSortMemoryMap_def)
  moreover have "sort_key PhysicalStart memoryMap = fold ins memoryMap []"
    using fold_ins [of "[]" memoryMap] by (intro properties_for_sort_key) simp_all
  ultimately show ?thesis by simp
qed


section \<open>Runtime descriptors: the loops\<close>

lemma runtime_info_ok:
  "runtime_info c p ds = (c + of_nat (length (filter runtime ds)), p + (\<Sum>d \<leftarrow> filter runtime ds. NumberOfPages d))"
  by (induction c p ds rule: runtime_info.induct) (simp_all add: add.assoc)

lemma remove_loop_ok:
  "w \<le> i \<Longrightarrow> i \<le> length xs \<Longrightarrow> remove_loop i w xs = (ys, n) \<Longrightarrow>
   length ys = length xs \<and> n \<le> length xs \<and>
   take n ys = take w xs @ filter (\<lambda>d. Type d \<noteq> EfiReservedMemoryType \<and> runtime d) (drop i xs)"
proof (induction i w xs rule: remove_loop.induct)
  case (1 i w xs)
  show ?case
  proof (cases "length xs \<le> i")
    case True
    then show ?thesis using 1(4,5) 1(3) by (simp add: remove_loop.simps)
  next
    case i: False
    then have dr: "drop i xs = xs ! i # drop (Suc i) xs" by (simp add: Cons_nth_drop_Suc)
    show ?thesis
    proof (cases "Type (xs ! i) = EfiReservedMemoryType \<or> \<not> runtime (xs ! i)")
      case True
      then have "remove_loop (i + 1) w xs = (ys, n)" using 1(5) i by (subst (asm) remove_loop.simps) (auto simp: Let_def)
      then show ?thesis using 1(1) i True 1(3) dr by (auto simp: Let_def)
    next
      case False
      let ?xs = "if w \<noteq> i then xs[w := xs ! i] else xs"
      have "remove_loop (i + 1) (w + 1) ?xs = (ys, n)" using 1(5) i False by (subst (asm) remove_loop.simps) (simp add: Let_def)
      then have "length ys = length ?xs \<and> n \<le> length ?xs \<and> take n ys = take (w + 1) ?xs @
          filter (\<lambda>d. Type d \<noteq> EfiReservedMemoryType \<and> runtime d) (drop (i + 1) ?xs)"
        using 1(2) [OF i refl False refl] i 1(3) by simp
      moreover have "take (w + 1) ?xs = take w xs @ [xs ! i]" using i 1(3) by (simp add: take_Suc_conv_app_nth)
      moreover have "drop (i + 1) ?xs = drop (Suc i) xs" using 1(3) by simp
      moreover have "length ?xs = length xs" by simp
      ultimately show ?thesis using dr False by simp
    qed
  qed
qed

text \<open>
  MmGetRuntimeMemoryInfo counts the runtime descriptors and adds up their pages, and
  MmRemoveNonRuntimeDescriptors leaves exactly the runtime descriptors that are not reserved, in
  their order, at the start of the map.
\<close>

theorem runtime_descriptors_correct:
  "MmGetRuntimeMemoryInfo memoryMap =
     (of_nat (length (filter runtime memoryMap)), (\<Sum>d \<leftarrow> filter runtime memoryMap. NumberOfPages d)) \<and>
   (\<exists>ys n. MmRemoveNonRuntimeDescriptors memoryMap = (EFI_SUCCESS, ys, n) \<and> length ys = length memoryMap \<and>
     take n ys = filter (\<lambda>d. Type d \<noteq> EfiReservedMemoryType \<and> runtime d) memoryMap)"
proof -
  obtain ys n where "remove_loop 0 0 memoryMap = (ys, n)" by fastforce
  then show ?thesis using remove_loop_ok [of 0 0 memoryMap ys n]
    by (simp add: MmGetRuntimeMemoryInfo_def runtime_info_ok MmRemoveNonRuntimeDescriptors_def)
qed

section \<open>Virtual addresses\<close>

definition unreserve :: "EFI_MEMORY_DESCRIPTOR \<Rightarrow> EFI_MEMORY_DESCRIPTOR" where
  "unreserve d = (if Type d = EfiReservedMemoryType then d\<lparr>Attribute := Attribute d AND NOT EFI_MEMORY_RUNTIME\<rparr> else d)"

fun layout :: "u64 \<Rightarrow> EFI_MEMORY_DESCRIPTOR list \<Rightarrow> EFI_MEMORY_DESCRIPTOR list" where
  "layout v [] = []"
| "layout v (d # ds) = (if runtime d then d\<lparr>VirtualStart := v\<rparr> # layout (v + byte_length d) ds else d # layout v ds)"

lemma runtime_virtual [simp]: "runtime (d\<lparr>VirtualStart := v\<rparr>) = runtime d" "byte_length (d\<lparr>VirtualStart := v\<rparr>) = byte_length d"
  by (simp_all add: runtime_def byte_length_def)

lemma setup_virtual_ok:
  "setup_virtual lo hi False v n ds = (EFI_SUCCESS, ds', n') \<Longrightarrow>
   ds' = layout v (map unreserve ds) \<and> n' = n + (\<Sum>d \<leftarrow> filter runtime ds'. NumberOfPages d) \<and>
   (\<forall>d \<in> set ds'. runtime d \<longrightarrow> lo \<le> LdrStaticVirtualToPhysical (VirtualStart d) \<and>
      LdrStaticVirtualToPhysical (VirtualStart d + byte_length d) \<le> hi)"
proof (induction ds arbitrary: v n ds')
  case (Cons d ds)
  let ?d = "unreserve d"
  show ?case
  proof (cases "runtime ?d")
    case False
    then obtain es where es: "setup_virtual lo hi False v n ds = (EFI_SUCCESS, es, n')" "ds' = ?d # es"
      using Cons.prems by (auto simp: unreserve_def [symmetric] split: prod.splits)
    show ?thesis using Cons.IH [OF es(1)] False es(2) by simp
  next
    case True
    let ?e = "?d\<lparr>VirtualStart := v\<rparr>"
    obtain es where es: "setup_virtual lo hi False (v + byte_length ?d) (n + NumberOfPages ?d) ds = (EFI_SUCCESS, es, n')"
      "ds' = ?e # es" "\<not> LdrStaticVirtualToPhysical v < lo" "\<not> LdrStaticVirtualToPhysical (v + byte_length ?d) > hi"
      using Cons.prems True by (auto simp: unreserve_def [symmetric] Let_def split: prod.splits if_splits)
    show ?thesis using Cons.IH [OF es(1)] True es(2-4) by (simp add: add.assoc not_less)
  qed
qed simp

definition pages_sum :: "EFI_MEMORY_DESCRIPTOR list \<Rightarrow> nat" where
  "pages_sum ds = (\<Sum>d \<leftarrow> filter runtime ds. unat (NumberOfPages d))"

lemma layout_runtime [simp]: "filter runtime (layout v ds) = layout v (filter runtime ds)"
  by (induction ds arbitrary: v) auto

lemma byte_length_small: "unat (NumberOfPages d) * 4096 < 2 ^ 64 \<Longrightarrow> unat (byte_length d) = unat (NumberOfPages d) * 4096"
  by (simp add: byte_length_def push_bit_eq_mult unat_word_ariths)

lemma layout_apart:
  "unat v + pages_sum ds * 4096 < 2 ^ 64 \<Longrightarrow>
   (\<forall>d \<in> set (layout v (filter runtime ds)). unat v \<le> unat (VirtualStart d)) \<and>
   sorted_wrt (\<lambda>a b. unat (VirtualStart a) + unat (byte_length a) \<le> unat (VirtualStart b)) (layout v (filter runtime ds))"
proof (induction ds arbitrary: v)
  case (Cons d ds)
  show ?case
  proof (cases "runtime d")
    case True
    have bl: "unat (byte_length d) = unat (NumberOfPages d) * 4096"
      using Cons.prems True by (intro byte_length_small) (simp add: pages_sum_def)
    have v: "unat (v + byte_length d) = unat v + unat (NumberOfPages d) * 4096"
      using Cons.prems True bl by (subst unat_add_small) (simp_all add: pages_sum_def)
    have "unat (v + byte_length d) + pages_sum ds * 4096 < 2 ^ 64" using Cons.prems True v by (simp add: pages_sum_def)
    from Cons.IH [OF this] show ?thesis using True v bl by auto
  next
    case False
    then show ?thesis using Cons by (simp add: pages_sum_def)
  qed
qed simp

lemma layout_inside:
  "unat v + pages_sum ds * 4096 < 2 ^ 64 \<Longrightarrow> d \<in> set (layout v ds) \<Longrightarrow> runtime d \<Longrightarrow>
   unat v \<le> unat (VirtualStart d) \<and> unat (VirtualStart d) + unat (byte_length d) \<le> unat v + pages_sum ds * 4096"
proof (induction ds arbitrary: v)
  case (Cons e ds)
  show ?case
  proof (cases "runtime e")
    case True
    have bl: "unat (byte_length e) = unat (NumberOfPages e) * 4096"
      using Cons.prems(1) True by (intro byte_length_small) (simp add: pages_sum_def)
    have v: "unat (v + byte_length e) = unat v + unat (NumberOfPages e) * 4096"
      using Cons.prems(1) True bl by (subst unat_add_small) (simp_all add: pages_sum_def)
    have sum: "pages_sum (e # ds) = unat (NumberOfPages e) + pages_sum ds" using True by (simp add: pages_sum_def)
    show ?thesis
    proof (cases "d = e\<lparr>VirtualStart := v\<rparr>")
      case False
      then have "d \<in> set (layout (v + byte_length e) ds)" using Cons.prems(2) True by simp
      from Cons.IH [OF _ this Cons.prems(3)] show ?thesis using Cons.prems(1) v sum by simp
    qed (use bl sum in simp)
  next
    case False
    then have "pages_sum (e # ds) = pages_sum ds" by (simp add: pages_sum_def)
    moreover have "d \<in> set (layout v ds)" using False Cons.prems(2,3) by auto
    ultimately show ?thesis using Cons.IH [of v] Cons.prems(1,3) by simp
  qed
qed simp

lemma unat_static_physical: "unat (LdrStaticVirtualToPhysical v) = unat v mod 2 ^ 30"
  using unat_and_mask [of v 30] by (simp add: LdrStaticVirtualToPhysical_def mask_eq_exp_minus_1)

text \<open>Within one gigabyte the physical end of a region is its physical start and its length.\<close>

lemma physical_end:
  fixes s l lo :: u64
  assumes "unat lo \<le> unat s" and "unat s + unat l \<le> unat lo + n" and "unat lo mod 2 ^ 30 + n < 2 ^ 30" and "unat lo + n < 2 ^ 64"
  shows "unat (LdrStaticVirtualToPhysical (s + l)) = unat (LdrStaticVirtualToPhysical s) + unat l"
proof -
  define q where "q = unat lo div 2 ^ 30"
  have lo: "unat lo = q * 2 ^ 30 + unat lo mod 2 ^ 30" by (simp add: q_def)
  obtain k where k: "unat s = unat lo + k" using assms(1) le_Suc_ex by blast
  have kl: "k + unat l \<le> n" using assms(2) k by simp
  have s: "unat s = unat lo mod 2 ^ 30 + k + q * 2 ^ 30" using lo k by simp
  have "unat (s + l) = unat s + unat l" using assms(2,4) by (intro unat_add_small) simp
  then have "unat (s + l) = unat lo mod 2 ^ 30 + k + unat l + q * 2 ^ 30" using s by simp
  then have "unat (s + l) mod 2 ^ 30 = unat lo mod 2 ^ 30 + k + unat l" using assms(3) kl by (simp only: mod_mult_self1) simp
  moreover have "unat s mod 2 ^ 30 = unat lo mod 2 ^ 30 + k" using s assms(3) kl by (simp only: mod_mult_self1) simp
  ultimately show ?thesis unfolding unat_static_physical by simp
qed

text \<open>
  C29. When the first pass of MmConvertPointers succeeds (on x64, where there is no thunk code),
  the runtime regions that are not reserved get consecutive virtual ranges from rtVirtual on in the
  order of the map, and the pages are counted; if the pages fit behind rtVirtual no two ranges overlap. Every region starts behind the start of the physical window that
  was set aside, and its end, taken modulo one gigabyte, is not behind the end of the window; so the regions are inside the window if all the pages fit behind rtVirtual
  without leaving its gigabyte.
\<close>

theorem setup_virtual_layout:
  assumes "setup_virtual rtPhysical runtimeEnd False rtVirtual 0 memoryMap = (EFI_SUCCESS, ds, mapped)"
    and "unat rtVirtual + pages_sum (map unreserve memoryMap) * 4096 < 2 ^ 64"
  shows "ds = layout rtVirtual (map unreserve memoryMap) \<and> mapped = (\<Sum>d \<leftarrow> filter runtime ds. NumberOfPages d) \<and>
    sorted_wrt (\<lambda>a b. unat (VirtualStart a) + unat (byte_length a) \<le> unat (VirtualStart b)) (filter runtime ds) \<and>
    (\<forall>d \<in> set ds. runtime d \<longrightarrow> rtPhysical \<le> LdrStaticVirtualToPhysical (VirtualStart d) \<and>
      LdrStaticVirtualToPhysical (VirtualStart d + byte_length d) \<le> runtimeEnd) \<and>
    (unat rtVirtual mod 2 ^ 30 + pages_sum (map unreserve memoryMap) * 4096 < 2 ^ 30 \<longrightarrow>
      (\<forall>d \<in> set ds. runtime d \<longrightarrow> unat rtPhysical \<le> unat (LdrStaticVirtualToPhysical (VirtualStart d)) \<and>
        unat (LdrStaticVirtualToPhysical (VirtualStart d)) + unat (byte_length d) \<le> unat runtimeEnd))"
proof -
  note ok = setup_virtual_ok [OF assms(1)]
  have "unat (LdrStaticVirtualToPhysical (VirtualStart d)) + unat (byte_length d) \<le> unat runtimeEnd"
    if "unat rtVirtual mod 2 ^ 30 + pages_sum (map unreserve memoryMap) * 4096 < 2 ^ 30" "d \<in> set ds" "runtime d" for d
  proof -
    have "unat rtVirtual \<le> unat (VirtualStart d)"
      "unat (VirtualStart d) + unat (byte_length d) \<le> unat rtVirtual + pages_sum (map unreserve memoryMap) * 4096"
      using layout_inside [OF assms(2), of d] ok that(2,3) by simp_all
    from physical_end [OF this that(1) assms(2)] show ?thesis using ok that(2,3) by (metis word_le_nat_alt)
  qed
  then show ?thesis using ok layout_apart [OF assms(2)] by (simp add: word_le_nat_alt)
qed

theorem setup_virtual_layout_witness:
  "let code = \<lparr>Type = 5, PhysicalStart = 0x9000, VirtualStart = 0, NumberOfPages = 2, Attribute = EFI_MEMORY_RUNTIME\<rparr>;
       data = \<lparr>Type = 6, PhysicalStart = 0x5000, VirtualStart = 0, NumberOfPages = 1, Attribute = EFI_MEMORY_RUNTIME\<rparr>
   in layout 0xffffff8000200000 (map unreserve [code, data]) =
       [code\<lparr>VirtualStart := 0xffffff8000200000\<rparr>, data\<lparr>VirtualStart := 0xffffff8000202000\<rparr>] \<and>
     unat (0xffffff8000200000 :: u64) + unat (byte_length code) \<le> unat (0xffffff8000202000 :: u64)"
proof -
  define code data :: EFI_MEMORY_DESCRIPTOR
    where "code = \<lparr>Type = 5, PhysicalStart = 0x9000, VirtualStart = 0, NumberOfPages = 2, Attribute = EFI_MEMORY_RUNTIME\<rparr>"
      and "data = \<lparr>Type = 6, PhysicalStart = 0x5000, VirtualStart = 0, NumberOfPages = 1, Attribute = EFI_MEMORY_RUNTIME\<rparr>"
  note defs = code_def data_def
  have run: "setup_virtual 0x200000 0x203000 False 0xffffff8000200000 0 [code, data] =
      (EFI_SUCCESS, [code\<lparr>VirtualStart := 0xffffff8000200000\<rparr>, data\<lparr>VirtualStart := 0xffffff8000202000\<rparr>], 3)"
    by (simp add: defs runtime_def EFI_MEMORY_RUNTIME_def EfiReservedMemoryType_def byte_length_def
        push_bit_eq_mult LdrStaticVirtualToPhysical_def)
  have "pages_sum (map unreserve [code, data]) = 3"
    by (simp add: defs pages_sum_def unreserve_def runtime_def EFI_MEMORY_RUNTIME_def EfiReservedMemoryType_def)
  then show ?thesis using setup_virtual_layout [OF run] unfolding defs [symmetric] Let_def
    by (simp add: defs runtime_def EFI_MEMORY_RUNTIME_def byte_length_def)
qed


text \<open>
  The end of a region is compared modulo one gigabyte: a region of almost a gigabyte passes the test of a window of one page.
\<close>

lemma window_test_wraps:
  "fst (setup_virtual 0x200000 0x201000 False 0xffffff8000200000 0
     [\<lparr>Type = 5, PhysicalStart = 0, VirtualStart = 0, NumberOfPages = 0x3FE00, Attribute = EFI_MEMORY_RUNTIME\<rparr>]) = EFI_SUCCESS"
  by (simp add: runtime_def EFI_MEMORY_RUNTIME_def EfiReservedMemoryType_def byte_length_def
      push_bit_eq_mult LdrStaticVirtualToPhysical_def)

section \<open>The last pass\<close>

definition at_virtual :: "EFI_MEMORY_DESCRIPTOR \<Rightarrow> EFI_MEMORY_DESCRIPTOR" where
  "at_virtual d = (if runtime_type d then d\<lparr>PhysicalStart := LdrStaticVirtualToPhysical (VirtualStart d)\<rparr> else d)"

lemma fix_physical_in_place:
  "i \<le> length xs \<Longrightarrow> fix_physical False i xs = Some (take i xs @ map at_virtual (drop i xs))"
proof (induction "length xs - i" arbitrary: i xs)
  case 0
  then show ?case by (simp add: fix_physical.simps)
next
  case (Suc n)
  then have i: "i < length xs" by simp
  let ?d = "xs ! i"
  let ?xs = "xs[i := at_virtual ?d]"
  have "fix_physical False i xs = fix_physical False (i + 1) ?xs"
    using i by (subst fix_physical.simps) (auto simp: Let_def at_virtual_def)
  also have "\<dots> = Some (take (i + 1) ?xs @ map at_virtual (drop (i + 1) ?xs))"
    using Suc i by (intro Suc.hyps(1)) simp_all
  also have "take (i + 1) ?xs @ map at_virtual (drop (i + 1) ?xs) = take i xs @ map at_virtual (drop i xs)"
    using i by (simp add: take_Suc_conv_app_nth Cons_nth_drop_Suc [symmetric])
  finally show ?case .
qed

text \<open>
  C30. Without createRegion MmConvertPointers always ends, and it answers EFI_SUCCESS or
  EFI_NO_MAPPING; on success the descriptors are those of the first pass, and every runtime
  services region is described at the physical address that its virtual address stands for.
\<close>

theorem MmConvertPointers_in_place:
  "\<exists>status ds efiSysTablePhy' st'.
     MmConvertPointers SetVirtualAddressMap memoryMap rtPhysical runtimePages rtVirtual efiSysTablePhy False st =
       Some (status, ds, efiSysTablePhy', st') \<and> status \<in> {EFI_SUCCESS, EFI_NO_MAPPING} \<and>
     (status = EFI_SUCCESS \<longrightarrow>
       (\<exists>es n. setup_virtual rtPhysical (rtPhysical + push_bit 12 runtimePages) False rtVirtual 0 memoryMap = (EFI_SUCCESS, es, n) \<and>
         ds = map at_virtual es) \<and>
       (\<forall>d \<in> set ds. runtime_type d \<longrightarrow> PhysicalStart d = LdrStaticVirtualToPhysical (VirtualStart d)))"
proof -
  have thunk: "(rtVirtual > - 1) = False" by (simp add: word_order.not_eq_extremum [symmetric])
  obtain status es n where run: "setup_virtual rtPhysical (rtPhysical + push_bit 12 runtimePages) False rtVirtual 0 memoryMap = (status, es, n)"
    using prod_cases3 by blast
  have "\<forall>d \<in> set (map at_virtual es). runtime_type d \<longrightarrow> PhysicalStart d = LdrStaticVirtualToPhysical (VirtualStart d)"
    by (auto simp: at_virtual_def runtime_type_def)
  then show ?thesis using run fix_physical_in_place [of 0 es] unfolding MmConvertPointers_def thunk
    by (cases "SetVirtualAddressMap es (phys_mem st)")
       (simp add: Let_def split: prod.splits)
qed

lemma MmConvertPointers_status:
  assumes "setup_virtual rtPhysical (rtPhysical + push_bit 12 runtimePages) False rtVirtual 0 memoryMap = (EFI_SUCCESS, es, n)"
    and "\<And>ds m. fst (SetVirtualAddressMap ds m) = EFI_SUCCESS"
    and "MmConvertPointers SetVirtualAddressMap memoryMap rtPhysical runtimePages rtVirtual efiSysTablePhy False st =
       Some (status, ds, efiSysTablePhy', st')"
  shows "status = EFI_SUCCESS"
proof -
  have thunk: "(rtVirtual > - 1) = False" by (simp add: word_order.not_eq_extremum [symmetric])
  show ?thesis using assms(1,3) assms(2) [of es "phys_mem st"] fix_physical_in_place [of 0 es]
    unfolding MmConvertPointers_def thunk
    by (cases "SetVirtualAddressMap es (phys_mem st)") (auto simp: Let_def split: prod.splits if_splits)
qed

theorem MmConvertPointers_in_place_witness:
  "let code = \<lparr>Type = 5, PhysicalStart = 0x9000, VirtualStart = 0, NumberOfPages = 2, Attribute = EFI_MEMORY_RUNTIME\<rparr>;
       st = \<lparr>phys_mem = (\<lambda>a. 0), EfiSystemTable = 0x9100, EfiRuntimeServices = 0\<rparr>
   in \<exists>d a st'. MmConvertPointers (\<lambda>ds m. (EFI_SUCCESS, m)) [code] 0x200000 3 0xffffff8000200000 0 False st =
        Some (EFI_SUCCESS, [d], a, st') \<and> PhysicalStart d = 0x200000 \<and> VirtualStart d = 0xffffff8000200000"
proof -
  define code :: EFI_MEMORY_DESCRIPTOR
    where "code = \<lparr>Type = 5, PhysicalStart = 0x9000, VirtualStart = 0, NumberOfPages = 2, Attribute = EFI_MEMORY_RUNTIME\<rparr>"
  define st :: platform where "st = \<lparr>phys_mem = (\<lambda>a. 0), EfiSystemTable = 0x9100, EfiRuntimeServices = 0\<rparr>"
  have run: "setup_virtual 0x200000 (0x200000 + push_bit 12 3) False 0xffffff8000200000 0 [code] =
      (EFI_SUCCESS, [code\<lparr>VirtualStart := 0xffffff8000200000\<rparr>], 2)"
    by (simp add: code_def runtime_def EFI_MEMORY_RUNTIME_def EfiReservedMemoryType_def byte_length_def
        push_bit_eq_mult LdrStaticVirtualToPhysical_def)
  note conv = MmConvertPointers_in_place [of "\<lambda>ds m. (EFI_SUCCESS, m)" "[code]" "0x200000" 3 "0xffffff8000200000" 0 st]
  obtain status ds a st' where r: "MmConvertPointers (\<lambda>ds m. (EFI_SUCCESS, m)) [code] 0x200000 3 0xffffff8000200000 0 False st =
      Some (status, ds, a, st')" using conv by blast
  have "status = EFI_SUCCESS" by (rule MmConvertPointers_status [OF run _ r]) simp
  moreover from this have "ds = [at_virtual (code\<lparr>VirtualStart := 0xffffff8000200000\<rparr>)]" using conv r run by auto
  moreover have "PhysicalStart (at_virtual (code\<lparr>VirtualStart := 0xffffff8000200000\<rparr>)) = 0x200000"
    "VirtualStart (at_virtual (code\<lparr>VirtualStart := 0xffffff8000200000\<rparr>)) = 0xffffff8000200000"
    by (simp_all add: at_virtual_def runtime_type_def code_def EfiRuntimeServicesCode_def LdrStaticVirtualToPhysical_def)
  ultimately show ?thesis using r unfolding Let_def code_def [symmetric] st_def [symmetric] by blast
qed

section \<open>Splitting\<close>

lemma region_of_ok: "region_of a k ds = Some i \<Longrightarrow> k \<le> i \<and> i - k < length ds \<and> contains a (ds ! (i - k))"
proof (induction a k ds rule: region_of.induct)
  case (2 a k d ds)
  show ?case
  proof (cases "contains a d")
    case False
    then have "k + 1 \<le> i \<and> i - (k + 1) < length ds \<and> contains a (ds ! (i - (k + 1)))" using 2 by simp
    then show ?thesis by (auto simp: nth_Cons')
  qed (use 2 in auto)
qed simp

lemma low_bits_clear:
  assumes "x AND 0xFFF = (0 :: u64)"
  shows "push_bit 12 (drop_bit 12 x) = x"
proof -
  have "x AND mask 12 = 0" using assms by (simp add: mask_eq_exp_minus_1)
  then have "take_bit 12 x = 0" by (simp add: take_bit_eq_mask)
  then show ?thesis using bits_ident [of 12 x] by simp
qed

text \<open>
  MmpCreateSubRegion cuts a page-aligned region out of the descriptor that contains its
  start: the part in front keeps the old start, the created part has the requested start and
  length, and all pages are accounted for; but the part behind starts behind the created part
  only when nothing was cut off in front. Otherwise it starts at a distance equal to the
  length of the part in front.
\<close>

theorem MmpCreateSubRegion_parts:
  assumes "region_of a 0 memoryMap = Some i" and d: "d = memoryMap ! i" and off: "off = a - PhysicalStart d"
    and aligned: "off AND 0xFFF = 0" and pre: "pre = drop_bit 12 off" and fits: "n < NumberOfPages d - pre"
    and novirt: "VirtualStart d = 0"
  shows "MmpCreateSubRegion memoryMap a n =
    (memoryMap[i := d\<lparr>PhysicalStart := a, NumberOfPages := n\<rparr>] @
       (if a = PhysicalStart d then [] else [d\<lparr>NumberOfPages := pre\<rparr>]) @
       [d\<lparr>PhysicalStart := a + (if a = PhysicalStart d then push_bit 12 n else off),
          NumberOfPages := NumberOfPages d - pre - n\<rparr>], Some i)"
proof -
  have "i < length memoryMap \<and> contains a (memoryMap ! i)" using region_of_ok [OF assms(1)] by simp
  then have le: "PhysicalStart d \<le> a" using d by (simp add: contains_def not_less)
  have pages: "EFI_SIZE_TO_PAGES off = pre" using aligned pre by (simp add: EFI_SIZE_TO_PAGES_def)
  have whole: "push_bit 12 pre = off"
    using aligned unfolding pre by (simp add: low_bits_clear)
  have upd: "d\<lparr>PhysicalStart := x, VirtualStart := 0, NumberOfPages := y\<rparr> = d\<lparr>PhysicalStart := x, NumberOfPages := y\<rparr>" for x y
    using novirt by (cases d) simp
  show ?thesis
  proof (cases "a = PhysicalStart d")
    case True
    then have "pre = 0" using off pre by simp
    then show ?thesis using True assms(1) fits novirt d
      by (simp add: MmpCreateSubRegion_def split_region_def Let_def)
  next
    case False
    then have "a > PhysicalStart d" using le by simp
    then show ?thesis using False assms(1) fits novirt pages whole off
      by (simp add: upd MmpCreateSubRegion_def split_region_def Let_def d [symmetric])
  qed
qed

theorem MmpCreateSubRegion_parts_witness:
  "let d = \<lparr>Type = 7, PhysicalStart = 0x1000, VirtualStart = 0, NumberOfPages = 10, Attribute = 0\<rparr>
   in MmpCreateSubRegion [d] 0x2000 3 = ([d\<lparr>PhysicalStart := 0x2000, NumberOfPages := 3\<rparr>,
       d\<lparr>NumberOfPages := 1\<rparr>, d\<lparr>PhysicalStart := 0x3000, NumberOfPages := 6\<rparr>], Some 0)"
proof -
  define d :: EFI_MEMORY_DESCRIPTOR
    where "d = \<lparr>Type = 7, PhysicalStart = 0x1000, VirtualStart = 0, NumberOfPages = 10, Attribute = 0\<rparr>"
  have f: "PhysicalStart d = 0x1000" "VirtualStart d = 0" "NumberOfPages d = 10" by (simp_all add: d_def)
  have "region_of 0x2000 0 [d] = Some 0" by (simp add: f contains_def byte_length_def push_bit_eq_mult)
  from MmpCreateSubRegion_parts [OF this, where d = d and off = "0x1000" and pre = 1 and n = 3]
  show ?thesis unfolding Let_def d_def [symmetric] by (simp add: f drop_bit_eq_div)
qed

end
