(* ===== verification/Config.thy ===== *)
theory Config
  imports CString Base64 "HOL-Library.Monad_Syntax"
begin

text \<open>
  Configuration (Config.c): the property list parser with its symbol table and its store of
  tags, and the lookups in parsed lists and in the kernel command line.

  A chain of tags that are linked by NextTag is a list of tags, and a pointer to a tag stands
  for the chain from there on. The parser works in place: it puts terminators into the
  text, so the text is part of the state, and positions in it are absolute. The list of free
  tags is kept by its length. The outcome of the n-th pool allocation is given by
  \<open>pool_ok\<close>. The result None of an operation stands for undefined behaviour, an access
  outside of the text or of a string or the use of a damaged list of free tags; in the
  parser, which calls itself, it also stands for too little fuel.
\<close>

section \<open>Tags and state\<close>

definition XML_TAG_NONE :: nat where "XML_TAG_NONE = 0"
definition XML_TAG_DICT :: nat where "XML_TAG_DICT = 1"
definition XML_TAG_KEY :: nat where "XML_TAG_KEY = 2"
definition XML_TAG_STRING :: nat where "XML_TAG_STRING = 3"
definition XML_TAG_INTEGER :: nat where "XML_TAG_INTEGER = 4"
definition XML_TAG_DATA :: nat where "XML_TAG_DATA = 5"
definition XML_TAG_DATE :: nat where "XML_TAG_DATE = 6"
definition XML_TAG_FALSE :: nat where "XML_TAG_FALSE = 7"
definition XML_TAG_TRUE :: nat where "XML_TAG_TRUE = 8"
definition XML_TAG_ARRAY :: nat where "XML_TAG_ARRAY = 9"

text \<open>A string is held with its terminator, data with its length.\<close>

datatype XML_TAG = XML_TAG (Type: nat) (StringValue: "u8 list option") (IntegerValue: u64)
  (DataValue: "u8 list option") (TagValue: "XML_TAG list")

record XML_SYMBOL =
  RefCount :: int
  StringBuffer :: "u8 list"

record config =
  content :: "u8 list"
  CmpConfigPlistTag :: "XML_TAG option"
  free_tags :: "nat option"
  CmpSymbolsHead :: "XML_SYMBOL list"
  pool_ok :: "nat \<Rightarrow> bool"
  pool_calls :: nat
  pool_frees :: nat

text \<open>What is used of the allocator of Memory.c: whether there is memory, and the count of releases.\<close>

definition pool_allocate :: "config \<Rightarrow> bool \<times> config" where
  "pool_allocate c = (pool_ok c (pool_calls c), c\<lparr>pool_calls := pool_calls c + 1\<rparr>)"

definition pool_release :: "config \<Rightarrow> config" where
  "pool_release c = c\<lparr>pool_frees := pool_frees c + 1\<rparr>"

section \<open>Command line\<close>

text \<open>
  A token: the text from its start on and its length. The first function measures up to a
  terminator or a stop character.
\<close>

fun token_length :: "(u8 \<Rightarrow> bool) \<Rightarrow> u8 list \<Rightarrow> nat option" where
  "token_length stop [] = None"
| "token_length stop (ch # s) = (if ch \<noteq> 0 \<and> \<not> stop ch then map_option Suc (token_length stop s) else Some 0)"

definition CmpGetToken :: "u8 list \<Rightarrow> (u8 list \<times> nat) option" where
  "CmpGetToken inputBuffer = (case inputBuffer of [] \<Rightarrow> None
     | ch # s \<Rightarrow>
         if ch = 0x22 then map_option (Pair s) (token_length (\<lambda>ch. ch = 0x22) s)
         else map_option (Pair inputBuffer) (token_length (\<lambda>ch. isspace ch \<or> ch = 0x3d) inputBuffer))"

fun skip_blanks :: "u8 list \<Rightarrow> u8 list option" where
  "skip_blanks [] = None"
| "skip_blanks (ch # s) = (if isspace ch then skip_blanks s else Some (ch # s))"

lemma token_length_less: "token_length stop s = Some n \<Longrightarrow> n < length s"
  by (induction s arbitrary: n) (auto split: if_splits)

lemma skip_blanks_le: "skip_blanks s = Some s' \<Longrightarrow> length s' \<le> length s"
  by (induction s) (auto split: if_splits)

lemma CmpGetToken_le: "CmpGetToken s = Some (t, n) \<Longrightarrow> length t \<le> length s \<and> n < length t"
  by (auto simp: CmpGetToken_def dest: token_length_less split: list.splits if_splits)

text \<open>One key and its value: both with what follows, the lengths, and the command line behind them.\<close>

definition next_pair :: "u8 list \<Rightarrow> (u8 list \<times> nat \<times> u8 list \<times> nat \<times> u8 list) option" where
  "next_pair commandLine = do {
     commandLine \<leftarrow> skip_blanks commandLine;
     (theKey, keyLength) \<leftarrow> CmpGetToken commandLine;
     let commandLine = drop keyLength theKey;
     (case commandLine of [] \<Rightarrow> None
      | ch # rest \<Rightarrow>
          if ch \<noteq> 0 \<and> \<not> isspace ch then do {
            (theValue, localLength) \<leftarrow> CmpGetToken rest;
            Some (theKey, keyLength, theValue, localLength, drop localLength theValue)
          }
          else Some (theKey, keyLength, commandLine, 0, commandLine))
   }"

lemma skip_blanks_head: "skip_blanks s = Some s' \<Longrightarrow> \<exists>ch r. s' = ch # r \<and> \<not> isspace ch"
  by (induction s) (auto split: if_splits)

lemma next_pair_less:
  assumes "next_pair s = Some (k, kl, v, vl, rest)"
  shows "length rest < length s \<or> (\<exists>r. rest = 0 # r)"
proof -
  obtain s' where s': "skip_blanks s = Some s'" using assms by (auto simp: next_pair_def bind_eq_Some_conv Let_def)
  obtain ch r where ch: "s' = ch # r" "\<not> isspace ch" using skip_blanks_head [OF s'] by blast
  have tok: "CmpGetToken s' = Some (k, kl)"
  proof -
    obtain a b where ab: "CmpGetToken s' = Some (a, b)" using assms s' by (auto simp: next_pair_def bind_eq_Some_conv Let_def)
    then have "a = k \<and> b = kl" using assms s'
      by (cases "drop b a") (auto simp: next_pair_def bind_eq_Some_conv Let_def split: if_splits)
    then show ?thesis using ab by simp
  qed
  have len: "length s' \<le> length s" by (rule skip_blanks_le [OF s'])
  have kl: "kl < length k" "length k \<le> length s'" using CmpGetToken_le [OF tok] by auto
  obtain x t where x: "drop kl k = x # t" using kl(1) by (cases "drop kl k") auto
  have lx: "Suc (length t) = length k - kl" using arg_cong [OF x, of length] by simp
  show ?thesis
  proof (cases "x \<noteq> 0 \<and> \<not> isspace x")
    case True
    then obtain w n where w: "CmpGetToken t = Some (w, n)" "rest = drop n w"
      using assms s' tok x by (auto simp: next_pair_def bind_eq_Some_conv Let_def)
    then show ?thesis using CmpGetToken_le [OF w(1)] lx kl len by auto
  next
    case False
    then have rest: "rest = x # t" using assms s' tok x by (auto simp: next_pair_def Let_def split: if_splits)
    show ?thesis
    proof (cases "ch = 0x22 \<or> 0 < kl")
      case True
      then have "length k - kl < length s'" using tok ch kl by (auto simp: CmpGetToken_def)
      then show ?thesis using rest lx len by simp
    next
      case False
      then have "k = s'" "x = ch" using tok ch x by (auto simp: CmpGetToken_def)
      then show ?thesis using \<open>\<not> (x \<noteq> 0 \<and> \<not> isspace x)\<close> ch(2) rest by auto
    qed
  qed
qed

text \<open>
  The search: NULL is \<open>Some None\<close>, otherwise the value, with what follows it, and its length.
\<close>

definition key_differs :: "u8 list \<Rightarrow> u8 list \<Rightarrow> nat \<Rightarrow> bool option" where
  "key_differs keyName theKey keyLength = do {
     v \<leftarrow> strnicmp keyName theKey keyLength;
     if v \<noteq> 0 then Some True
     else if length keyName \<le> keyLength then None
     else Some (keyName ! keyLength \<noteq> 0 \<and> keyName ! keyLength \<noteq> 0x3d \<and> \<not> isspace (keyName ! keyLength))
   }"

function CmpGetCommandStringValueForKey :: "u8 list \<Rightarrow> u8 list \<Rightarrow> (u8 list \<times> nat) option option" where
  "CmpGetCommandStringValueForKey keyName commandLine =
     (if commandLine = [] then None
      else if hd commandLine = 0 then Some None
      else case next_pair commandLine of None \<Rightarrow> None
        | Some (theKey, keyLength, theValue, localLength, rest) \<Rightarrow>
            (case key_differs keyName theKey keyLength of None \<Rightarrow> None
             | Some differs \<Rightarrow>
                 if differs then CmpGetCommandStringValueForKey keyName rest else Some (Some (theValue, localLength))))"
  by pat_completeness auto
termination
proof (relation "measure (\<lambda>(k, s). if s \<noteq> [] \<and> hd s = 0 then 0 else Suc (length s))")
  fix keyName commandLine x theKey y keyLength z theValue w localLength rest differs
  assume "commandLine \<noteq> []" "hd commandLine \<noteq> 0" "next_pair commandLine = Some x" "(theKey, y) = x"
    "(keyLength, z) = y" "(theValue, w) = z" "(localLength, rest) = w"
  then have "length rest < length commandLine \<or> (\<exists>r. rest = 0 # r)" using next_pair_less by blast
  then show "((keyName, rest), keyName, commandLine) \<in> measure (\<lambda>(k, s). if s \<noteq> [] \<and> hd s = 0 then 0 else Suc (length s))"
    using \<open>hd commandLine \<noteq> 0\<close> by auto
qed simp

declare CmpGetCommandStringValueForKey.simps [simp del]

section \<open>Scanning the text\<close>

function scan :: "u8 \<Rightarrow> nat \<Rightarrow> u8 list \<Rightarrow> nat option" where
  "scan ch p b = (if length b \<le> p then None else if b ! p \<noteq> 0 \<and> b ! p \<noteq> ch then scan ch (p + 1) b else Some p)"
  by pat_completeness auto
termination by (relation "measure (\<lambda>(ch, p, b). length b - p)") auto

declare scan.simps [simp del]

lemma scan_Some: "scan ch p b = Some q \<Longrightarrow> p \<le> q \<and> q < length b \<and> (b ! q = 0 \<or> b ! q = ch)"
proof (induction ch p b rule: scan.induct)
  case (1 ch p b)
  then show ?case using scan.simps [of ch p b] by (auto split: if_splits)
qed

text \<open>
  The next tag from a position on: NULL for the value -1 of the source, otherwise the positions of the
  tag name, of the start of the tag and behind the tag.
\<close>

definition CmpGetNextTag :: "nat \<Rightarrow> config \<Rightarrow> ((nat \<times> nat \<times> nat) option \<times> config) option" where
  "CmpGetNextTag position c = do {
     curPosition \<leftarrow> scan 0x3c position (content c);
     if content c ! curPosition = 0 then Some (None, c)
     else do {
       endPosition \<leftarrow> scan 0x3e (curPosition + 1) (content c);
       if content c ! endPosition = 0 then Some (None, c)
       else Some (Some (curPosition + 1, curPosition, endPosition + 1), c\<lparr>content := (content c)[endPosition := 0]\<rparr>)
     }
   }"

lemma CmpGetNextTag_next:
  assumes "CmpGetNextTag p c = Some (Some (name, start, q), c')"
  shows "p < q \<and> q \<le> length (content c) \<and> length (content c') = length (content c)"
  using assms by (auto simp: CmpGetNextTag_def bind_eq_Some_conv dest!: scan_Some split: if_splits)

text \<open>The end tag of the given name; its start becomes the terminator of the text before it.\<close>

function CmpFixDataMatchingTag :: "nat \<Rightarrow> u8 list \<Rightarrow> config \<Rightarrow> (nat option \<times> config) option" where
  "CmpFixDataMatchingTag start tagName c =
     (case CmpGetNextTag start c of None \<Rightarrow> None
      | Some (None, c) \<Rightarrow> Some (None, c)
      | Some (Some (endTag, stop, next), c) \<Rightarrow>
          if length (content c) \<le> endTag then None
          else if content c ! endTag = 0x2f then
            (case strcmp (drop (endTag + 1) (content c)) tagName of None \<Rightarrow> None
             | Some v \<Rightarrow>
                 if v = 0 then Some (Some next, c\<lparr>content := (content c)[stop := 0]\<rparr>)
                 else CmpFixDataMatchingTag next tagName c)
          else CmpFixDataMatchingTag next tagName c)"
  by pat_completeness auto
termination
  by (relation "measure (\<lambda>(p, t, c). length (content c) - p)") (auto dest!: CmpGetNextTag_next)

declare CmpFixDataMatchingTag.simps [simp del]


section \<open>Symbols\<close>

text \<open>The symbols before the first one with the string, and the list from that one on.\<close>

fun CmpFindSymbol :: "u8 list \<Rightarrow> XML_SYMBOL list \<Rightarrow> (XML_SYMBOL list \<times> XML_SYMBOL list) option" where
  "CmpFindSymbol stringValue [] = Some ([], [])"
| "CmpFindSymbol stringValue (theSymbol # symbols) =
     (case strcmp (StringBuffer theSymbol) stringValue of None \<Rightarrow> None
      | Some v \<Rightarrow>
          if v = 0 then Some ([], theSymbol # symbols)
          else map_option (\<lambda>(prev, found). (theSymbol # prev, found)) (CmpFindSymbol stringValue symbols))"

text \<open>The string that the symbol holds; \<open>Some None\<close> is NULL.\<close>

definition CmpNewSymbol :: "u8 list \<Rightarrow> config \<Rightarrow> (u8 list option \<times> config) option" where
  "CmpNewSymbol stringValue c =
     (case CmpFindSymbol stringValue (CmpSymbolsHead c) of None \<Rightarrow> None
      | Some (prev, theSymbol # rest) \<Rightarrow>
          Some (Some (StringBuffer theSymbol),
            c\<lparr>CmpSymbolsHead := prev @ theSymbol\<lparr>RefCount := RefCount theSymbol + 1\<rparr> # rest\<rparr>)
      | Some (_, []) \<Rightarrow> do {
          len \<leftarrow> strlen stringValue;
          let (ok, c) = pool_allocate c;
          if \<not> ok then Some (None, c)
          else do {
            s \<leftarrow> strcpy (replicate (len + 1) 0) stringValue;
            Some (Some s, c\<lparr>CmpSymbolsHead := \<lparr>RefCount = 0 + 1, StringBuffer = s\<rparr> # CmpSymbolsHead c\<rparr>)
          }
        })"

definition CmpFreeSymbol :: "u8 list \<Rightarrow> config \<Rightarrow> config option" where
  "CmpFreeSymbol stringValue c =
     (case CmpFindSymbol stringValue (CmpSymbolsHead c) of None \<Rightarrow> None
      | Some (_, []) \<Rightarrow> Some c
      | Some (prev, theSymbol # rest) \<Rightarrow>
          let theSymbol = theSymbol\<lparr>RefCount := RefCount theSymbol - 1\<rparr> in
          if RefCount theSymbol \<noteq> 0 then Some (c\<lparr>CmpSymbolsHead := prev @ theSymbol # rest\<rparr>)
          else Some (pool_release (c\<lparr>CmpSymbolsHead := prev @ rest\<rparr>)))"

section \<open>Tags\<close>

text \<open>
  Whether there is a new tag. A page count of tags is allocated at a time. The list of free
  tags is damaged when \<open>free_tags\<close> is None.
\<close>

definition CmpNewTag :: "config \<Rightarrow> (bool \<times> config) option" where
  "CmpNewTag c =
     (case free_tags c of None \<Rightarrow> None
      | Some 0 \<Rightarrow>
          (let (ok, c) = pool_allocate c in
           if \<not> ok then Some (False, c) else Some (True, c\<lparr>free_tags := Some (4096 - 1)\<rparr>))
      | Some (Suc n) \<Rightarrow> Some (True, c\<lparr>free_tags := Some n\<rparr>))"

text \<open>A chain of tags, with everything that it owns.\<close>

function CmFreeTag :: "XML_TAG list \<Rightarrow> config \<Rightarrow> config option" where
  "CmFreeTag [] c = Some c"
| "CmFreeTag (theTag # nextTag) c = do {
     c \<leftarrow> (case StringValue theTag of None \<Rightarrow> Some c | Some s \<Rightarrow> CmpFreeSymbol s c);
     let c = (case DataValue theTag of None \<Rightarrow> c | Some _ \<Rightarrow> pool_release c);
     c \<leftarrow> CmFreeTag (TagValue theTag) c;
     c \<leftarrow> CmFreeTag nextTag c;
     Some (c\<lparr>free_tags := map_option Suc (free_tags c)\<rparr>)
   }"
  by pat_completeness auto
termination
proof (relation "measure (\<lambda>(ts, c). size_list size ts)", simp_all)
  fix theTag :: XML_TAG
  show "size_list size (TagValue theTag) < Suc (size theTag + size_list size nextTag)" for nextTag
    by (cases theTag) simp
qed

text \<open>
  The release of a tag that CmpNewTag has returned: its NextTag still points to what was then the
  list of free tags (its length is \<open>left\<close>), so all of them are freed again, and the list becomes a
  ring unless it was empty.
\<close>

definition free_new_tag :: "nat option \<Rightarrow> config \<Rightarrow> config" where
  "free_new_tag left c = c\<lparr>free_tags := (if left = Some 0 then map_option Suc (free_tags c) else None)\<rparr>"

section \<open>Parsing one tag\<close>

text \<open>
  Every parser takes the position behind the opening tag. It returns the position behind what it
  has read, or None for the value -1, and the tag.
\<close>

type_synonym parse_result = "((nat option \<times> XML_TAG option) \<times> config) option"

definition key_name :: "u8 list" where "key_name = [0x6b, 0x65, 0x79, 0]"
definition string_name :: "u8 list" where "string_name = [0x73, 0x74, 0x72, 0x69, 0x6e, 0x67, 0]"
definition integer_name :: "u8 list" where "integer_name = [0x69, 0x6e, 0x74, 0x65, 0x67, 0x65, 0x72, 0]"
definition data_name :: "u8 list" where "data_name = [0x64, 0x61, 0x74, 0x61, 0]"
definition date_name :: "u8 list" where "date_name = [0x64, 0x61, 0x74, 0x65, 0]"
definition dict_name :: "u8 list" where "dict_name = [0x64, 0x69, 0x63, 0x74, 0]"
definition empty_dict_name :: "u8 list" where "empty_dict_name = [0x64, 0x69, 0x63, 0x74, 0x2f, 0]"
definition array_name :: "u8 list" where "array_name = [0x61, 0x72, 0x72, 0x61, 0x79, 0]"
definition empty_array_name :: "u8 list" where "empty_array_name = [0x61, 0x72, 0x72, 0x61, 0x79, 0x2f, 0]"
definition false_name :: "u8 list" where "false_name = [0x66, 0x61, 0x6c, 0x73, 0x65, 0x2f, 0]"
definition true_name :: "u8 list" where "true_name = [0x74, 0x72, 0x75, 0x65, 0x2f, 0]"
definition plist_name :: "u8 list" where "plist_name = [0x70, 0x6c, 0x69, 0x73, 0x74, 0x20, 0]"

definition CmpParseTagString :: "nat \<Rightarrow> config \<Rightarrow> parse_result" where
  "CmpParseTagString position c = do {
     (length, c) \<leftarrow> CmpFixDataMatchingTag position string_name c;
     if length = None then Some ((None, None), c)
     else do {
       (ok, c) \<leftarrow> CmpNewTag c;
       if \<not> ok then Some ((None, None), c)
       else do {
         (stringValue, c) \<leftarrow> CmpNewSymbol (drop position (content c)) c;
         if stringValue = None then Some ((None, None), free_new_tag (free_tags c) c)
         else Some ((length, Some (XML_TAG XML_TAG_STRING stringValue 0 None [])), c)
       }
     }
   }"

definition CmpParseTagInteger :: "nat \<Rightarrow> config \<Rightarrow> parse_result" where
  "CmpParseTagInteger position c = do {
     (length, c) \<leftarrow> CmpFixDataMatchingTag position integer_name c;
     if length = None then Some ((None, None), c)
     else do {
       (ok, c) \<leftarrow> CmpNewTag c;
       if \<not> ok then Some ((None, None), c)
       else do {
         v \<leftarrow> atoi64 (drop position (content c));
         Some ((length, Some (XML_TAG XML_TAG_INTEGER None v None [])), c)
       }
     }
   }"

definition CmpParseTagData :: "nat \<Rightarrow> config \<Rightarrow> parse_result" where
  "CmpParseTagData position c = do {
     (length, c) \<leftarrow> CmpFixDataMatchingTag position data_name c;
     case length of None \<Rightarrow> Some ((None, None), c)
     | Some end_position \<Rightarrow> do {
         let dataLength = end_position - position + 1;
         let (ok, c) = pool_allocate c;
         if \<not> ok then Some ((None, None), c)
         else do {
           let (_, data) = Base64Decode (take (end_position - position) (drop position (content c))) dataLength;
           (ok, c) \<leftarrow> CmpNewTag c;
           if \<not> ok then Some ((None, None), c)
           else Some ((length, Some (XML_TAG XML_TAG_DATA None 0 (Some data) [])), c)
         }
       }
   }"

definition CmpParseTagDate :: "nat \<Rightarrow> config \<Rightarrow> parse_result" where
  "CmpParseTagDate position c = do {
     (length, c) \<leftarrow> CmpFixDataMatchingTag position date_name c;
     if length = None then Some ((None, None), c)
     else do {
       (ok, c) \<leftarrow> CmpNewTag c;
       if \<not> ok then Some ((None, None), c)
       else Some ((length, Some (XML_TAG XML_TAG_DATE None 0 None [])), c)
     }
   }"

definition CmpParseTagBoolean :: "nat \<Rightarrow> nat \<Rightarrow> config \<Rightarrow> parse_result" where
  "CmpParseTagBoolean position tagType c = do {
     (ok, c) \<leftarrow> CmpNewTag c;
     if \<not> ok then Some ((None, None), c)
     else Some ((Some position, Some (XML_TAG tagType None 0 None [])), c)
   }"

section \<open>Parsing\<close>

datatype tag_kind = Plist | Dict | Dict_empty | Key | String | Integer | Data | Date | False_tag | True_tag | Array | Array_empty

fun match_name :: "(u8 list \<times> tag_kind) list \<Rightarrow> u8 list \<Rightarrow> tag_kind option option" where
  "match_name [] tagName = Some None"
| "match_name ((s, k) # names) tagName =
     (case strcmp tagName s of None \<Rightarrow> None | Some v \<Rightarrow> if v = 0 then Some (Some k) else match_name names tagName)"

definition classify :: "u8 list \<Rightarrow> tag_kind option option" where
  "classify tagName =
     (case strnicmp tagName plist_name 6 of None \<Rightarrow> None
      | Some v \<Rightarrow> if v = 0 then Some (Some Plist)
          else match_name [(dict_name, Dict), (empty_dict_name, Dict_empty), (key_name, Key), (string_name, String),
            (integer_name, Integer), (data_name, Data), (date_name, Date), (false_name, False_tag), (true_name, True_tag),
            (array_name, Array), (empty_array_name, Array_empty)] tagName)"

text \<open>The tag of a list, when its elements have been read.\<close>

definition close_list :: "nat \<Rightarrow> nat \<Rightarrow> XML_TAG list \<Rightarrow> config \<Rightarrow> parse_result" where
  "close_list position tagType tagList c = do {
     (ok, c) \<leftarrow> CmpNewTag c;
     if \<not> ok then do { c \<leftarrow> CmFreeTag tagList c; Some ((None, None), c) }
     else Some ((Some position, Some (XML_TAG tagType None 0 None tagList)), c)
   }"

text \<open>The tag of a key, when the tag behind it has been read.\<close>

definition close_key :: "nat \<Rightarrow> nat \<Rightarrow> XML_TAG list \<Rightarrow> config \<Rightarrow> parse_result" where
  "close_key position end_position subTag c = do {
     (ok, c) \<leftarrow> CmpNewTag c;
     if \<not> ok then do { c \<leftarrow> CmFreeTag subTag c; Some ((None, None), c) }
     else do {
       (stringValue, c) \<leftarrow> CmpNewSymbol (drop position (content c)) c;
       if stringValue = None then do { let left = free_tags c; c \<leftarrow> CmFreeTag subTag c; Some ((None, None), free_new_tag left c) }
       else Some ((Some end_position, Some (XML_TAG XML_TAG_KEY stringValue 0 None subTag)), c)
     }
   }"

fun CmpParseNextTag :: "nat \<Rightarrow> nat \<Rightarrow> config \<Rightarrow> parse_result"
  and CmpParseTagList :: "nat \<Rightarrow> nat \<Rightarrow> XML_TAG list \<Rightarrow> nat \<Rightarrow> config \<Rightarrow> parse_result"
  and CmpParseTagKey :: "nat \<Rightarrow> nat \<Rightarrow> config \<Rightarrow> parse_result" where
  "CmpParseNextTag 0 position c = None"
| "CmpParseNextTag (Suc fuel) position c = do {
     (r, c) \<leftarrow> CmpGetNextTag position c;
     case r of None \<Rightarrow> Some ((None, None), c)
     | Some (tagName, _, position) \<Rightarrow> do {
         kind \<leftarrow> classify (drop tagName (content c));
         case kind of
           None \<Rightarrow> Some ((Some position, None), c)
         | Some Plist \<Rightarrow> Some ((Some position, None), c)
         | Some Dict \<Rightarrow> CmpParseTagList fuel position [] XML_TAG_DICT c
         | Some Dict_empty \<Rightarrow> close_list position XML_TAG_DICT [] c
         | Some Key \<Rightarrow> CmpParseTagKey fuel position c
         | Some String \<Rightarrow> CmpParseTagString position c
         | Some Integer \<Rightarrow> CmpParseTagInteger position c
         | Some Data \<Rightarrow> CmpParseTagData position c
         | Some Date \<Rightarrow> CmpParseTagDate position c
         | Some False_tag \<Rightarrow> CmpParseTagBoolean position XML_TAG_FALSE c
         | Some True_tag \<Rightarrow> CmpParseTagBoolean position XML_TAG_TRUE c
         | Some Array \<Rightarrow> CmpParseTagList fuel position [] XML_TAG_ARRAY c
         | Some Array_empty \<Rightarrow> close_list position XML_TAG_ARRAY [] c
       }
   }"
| "CmpParseTagList 0 position tagList tagType c = None"
| "CmpParseTagList (Suc fuel) position tagList tagType c = do {
     ((r, tempTag), c) \<leftarrow> CmpParseNextTag fuel position c;
     case r of None \<Rightarrow> do { c \<leftarrow> CmFreeTag tagList c; Some ((None, None), c) }
     | Some position \<Rightarrow>
         (case tempTag of None \<Rightarrow> close_list position tagType tagList c
          | Some t \<Rightarrow> CmpParseTagList fuel position (tagList @ [t]) tagType c)
   }"
| "CmpParseTagKey 0 position c = None"
| "CmpParseTagKey (Suc fuel) position c = do {
     (length, c) \<leftarrow> CmpFixDataMatchingTag position key_name c;
     case length of None \<Rightarrow> Some ((None, None), c)
     | Some position2 \<Rightarrow> do {
         ((r, subTag), c) \<leftarrow> CmpParseNextTag fuel position2 c;
         case r of None \<Rightarrow> do { c \<leftarrow> CmFreeTag (case subTag of None \<Rightarrow> [] | Some t \<Rightarrow> [t]) c; Some ((None, None), c) }
         | Some end_position \<Rightarrow> close_key position end_position (case subTag of None \<Rightarrow> [] | Some t \<Rightarrow> [t]) c
       }
   }"


text \<open>
  The whole file: everything before the first dictionary is read and dropped. The fuel is
  enough for every text: each call moves on in the text, and two calls are made per tag.
\<close>

fun xml_loop :: "nat \<Rightarrow> nat \<Rightarrow> nat \<Rightarrow> config \<Rightarrow> (XML_TAG option \<times> config) option" where
  "xml_loop 0 fuel position c = None"
| "xml_loop (Suc tries) fuel position c = do {
     ((r, dictTag), c) \<leftarrow> CmpParseNextTag fuel position c;
     case r of None \<Rightarrow> Some (None, c)
     | Some position \<Rightarrow>
         (case dictTag of None \<Rightarrow> xml_loop tries fuel position c
          | Some t \<Rightarrow>
              if Type t = XML_TAG_DICT then Some (Some t, c)
              else do { c \<leftarrow> CmFreeTag [t] c; xml_loop tries fuel position c })
   }"

text \<open>The tag goes to the given place, or to the global one when rootTag is NULL.\<close>

definition CmParseXmlFile :: "u8 list \<Rightarrow> bool \<Rightarrow> config \<Rightarrow> ((EFI_STATUS \<times> XML_TAG option) \<times> config) option" where
  "CmParseXmlFile fileBuffer rootTag c = do {
     let c = (if rootTag then c else c\<lparr>CmpConfigPlistTag := None\<rparr>);
     let n = 2 * length fileBuffer + 2;
     (dictTag, c) \<leftarrow> xml_loop n n 0 (c\<lparr>content := fileBuffer\<rparr>);
     case dictTag of None \<Rightarrow> Some ((EFI_INVALID_PARAMETER, None), c)
     | Some t \<Rightarrow>
         if rootTag then Some ((EFI_SUCCESS, Some t), c)
         else Some ((EFI_SUCCESS, Some t), c\<lparr>CmpConfigPlistTag := Some t\<rparr>)
   }"

section \<open>Lookup\<close>

fun find_key :: "u8 list \<Rightarrow> XML_TAG list \<Rightarrow> XML_TAG list option" where
  "find_key keyName [] = Some []"
| "find_key keyName (theKey # nextKey) =
     (if Type theKey = XML_TAG_KEY then
        (case StringValue theKey of None \<Rightarrow> None
         | Some s \<Rightarrow>
             (case strcmp s keyName of None \<Rightarrow> None
              | Some v \<Rightarrow> if v = 0 then Some (TagValue theKey) else find_key keyName nextKey))
      else find_key keyName nextKey)"

definition CmGetTagValueForKey :: "XML_TAG option \<Rightarrow> u8 list \<Rightarrow> XML_TAG list option" where
  "CmGetTagValueForKey dictTag keyName =
     (case dictTag of None \<Rightarrow> Some []
      | Some t \<Rightarrow> if Type t \<noteq> XML_TAG_DICT then Some [] else find_key keyName (TagValue t))"

definition CmGetIntegerValueForKey :: "u8 list \<Rightarrow> config \<Rightarrow> (EFI_STATUS \<times> u64 option) option" where
  "CmGetIntegerValueForKey keyName c =
     (case CmGetTagValueForKey (CmpConfigPlistTag c) keyName of None \<Rightarrow> None
      | Some [] \<Rightarrow> Some (EFI_NOT_FOUND, None)
      | Some (theTag # _) \<Rightarrow> Some (EFI_SUCCESS, Some (IntegerValue theTag)))"

text \<open>The string, or NULL, and its length.\<close>

definition CmGetStringValueForKey :: "XML_TAG option \<Rightarrow> u8 list \<Rightarrow> config \<Rightarrow> (u8 list option \<times> nat) option" where
  "CmGetStringValueForKey dictTag keyName c =
     (case CmGetTagValueForKey (if dictTag \<noteq> None then dictTag else CmpConfigPlistTag c) keyName of None \<Rightarrow> None
      | Some [] \<Rightarrow> Some (None, 0)
      | Some (theTag # _) \<Rightarrow>
          (case StringValue theTag of None \<Rightarrow> Some (None, 0)
           | Some s \<Rightarrow> map_option (Pair (Some s)) (strlen s)))"

definition CmGetStringValueForKeyAndCommandLine ::
  "u8 list option \<Rightarrow> u8 list \<Rightarrow> bool \<Rightarrow> config \<Rightarrow> (u8 list option \<times> nat) option" where
  "CmGetStringValueForKeyAndCommandLine commandLine keyName checkConfigFile c = do {
     found \<leftarrow> (case commandLine of None \<Rightarrow> Some None | Some s \<Rightarrow> CmpGetCommandStringValueForKey keyName s);
     case found of Some (v, n) \<Rightarrow> Some (Some v, n)
     | None \<Rightarrow> if checkConfigFile then CmGetStringValueForKey None keyName c else Some (None, 0)
   }"

definition CmGetListTagElementsCount :: "XML_TAG option \<Rightarrow> nat" where
  "CmGetListTagElementsCount listTag =
     (case listTag of None \<Rightarrow> 0 | Some t \<Rightarrow> if Type t \<noteq> XML_TAG_ARRAY then 0 else length (TagValue t))"

fun nth_tag :: "nat \<Rightarrow> XML_TAG list \<Rightarrow> XML_TAG list" where
  "nth_tag (Suc index) (t # ts) = nth_tag index ts"
| "nth_tag _ ts = ts"

definition CmGetListTagElementByIndex :: "XML_TAG option \<Rightarrow> nat \<Rightarrow> XML_TAG list" where
  "CmGetListTagElementByIndex listTag index =
     (case listTag of None \<Rightarrow> [] | Some t \<Rightarrow> if Type t \<noteq> XML_TAG_ARRAY then [] else nth_tag index (TagValue t))"

end
