(* ===== verification/ConfigSafe.thy ===== *)
theory ConfigSafe
  imports Config
begin

text \<open>
  The parser on arbitrary text and with any outcome of the allocations: when the text is terminated, parsing
  ends without any access outside of the text, and all strings of the result are terminated. The
  list of free tags is damaged only behind a failed allocation, and then there is no result.
\<close>

section \<open>The invariant\<close>

fun tag_ok :: "XML_TAG \<Rightarrow> bool" where
  "tag_ok (XML_TAG ty s i d ts) \<longleftrightarrow> (\<forall>b. s = Some b \<longrightarrow> 0 \<in> set b) \<and> (\<forall>t \<in> set ts. tag_ok t)"

definition cfg_part :: "config \<Rightarrow> bool" where
  "cfg_part c \<longleftrightarrow> content c \<noteq> [] \<and> last (content c) = 0 \<and> (\<forall>s \<in> set (CmpSymbolsHead c). 0 \<in> set (StringBuffer s))"

definition cfg_ok :: "config \<Rightarrow> bool" where
  "cfg_ok c \<longleftrightarrow> cfg_part c \<and> free_tags c \<noteq> None"

text \<open>One of the allocations between two states has failed.\<close>

definition alloc_failed :: "config \<Rightarrow> config \<Rightarrow> bool" where
  "alloc_failed c c' \<longleftrightarrow> (\<exists>n. pool_calls c \<le> n \<and> n < pool_calls c' \<and> \<not> pool_ok c n)"

lemma last_in_drop: "p < length b \<Longrightarrow> last b = 0 \<Longrightarrow> 0 \<in> set (drop p (b :: u8 list))"
  by (metis drop_eq_Nil last_drop last_in_set not_le)

lemma last_update: "last b = 0 \<Longrightarrow> last (b[i := 0]) = (0 :: u8)"
  by (cases b rule: rev_cases) (auto simp: list_update_append split: nat.splits)

lemma nonzero_not_last: "i < length b \<Longrightarrow> last b = 0 \<Longrightarrow> b ! i \<noteq> (0 :: u8) \<Longrightarrow> i + 1 < length b"
  by (cases b rule: rev_cases) (auto simp: nth_append split: if_splits)

lemma scan_ok: "p < length b \<Longrightarrow> last b = 0 \<Longrightarrow> \<exists>q. scan ch p b = Some q"
proof (induction ch p b rule: scan.induct)
  case (1 ch p b)
  show ?case
  proof (cases "b ! p \<noteq> 0 \<and> b ! p \<noteq> ch")
    case True
    then have "p + 1 < length b" using 1(2,3) nonzero_not_last by blast
    then show ?thesis using 1 True by (subst scan.simps) auto
  qed (use 1 in \<open>subst scan.simps, auto\<close>)
qed

definition step_ok :: "config \<Rightarrow> config \<Rightarrow> bool" where
  "step_ok c c' \<longleftrightarrow> cfg_part c' \<and> length (content c') = length (content c) \<and> pool_ok c' = pool_ok c \<and>
     pool_calls c \<le> pool_calls c' \<and> (free_tags c \<noteq> None \<longrightarrow> free_tags c' = None \<longrightarrow> alloc_failed c c')"

definition keeps :: "config \<Rightarrow> config \<Rightarrow> bool" where
  "keeps c c' \<longleftrightarrow> step_ok c c' \<and> (free_tags c \<noteq> None \<longrightarrow> free_tags c' \<noteq> None)"

lemma step_ok_trans: "step_ok c c' \<Longrightarrow> step_ok c' c'' \<Longrightarrow> step_ok c c''"
  unfolding step_ok_def alloc_failed_def by (metis le_trans order_less_le_trans)

lemma keeps_trans: "keeps c c' \<Longrightarrow> keeps c' c'' \<Longrightarrow> keeps c c''"
  using step_ok_trans by (auto simp: keeps_def)

lemma keeps_refl: "cfg_part c \<Longrightarrow> keeps c c"
  by (auto simp: keeps_def step_ok_def)

lemma keeps_step: "keeps c c' \<Longrightarrow> step_ok c c'"
  by (simp add: keeps_def)

lemma keeps_ok: "keeps c c' \<Longrightarrow> cfg_ok c \<Longrightarrow> cfg_ok c' \<and> length (content c') = length (content c)"
  by (auto simp: keeps_def step_ok_def cfg_ok_def)

lemma keeps_same:
  "cfg_part c' \<Longrightarrow> length (content c') = length (content c) \<Longrightarrow> pool_ok c' = pool_ok c \<Longrightarrow> pool_calls c \<le> pool_calls c' \<Longrightarrow>
   (free_tags c \<noteq> None \<Longrightarrow> free_tags c' \<noteq> None) \<Longrightarrow> keeps c c'"
  by (auto simp: keeps_def step_ok_def)

lemma GetNextTag_ok:
  assumes "cfg_part c" and "p < length (content c)"
  shows "\<exists>r c'. CmpGetNextTag p c = Some (r, c') \<and> keeps c c' \<and>
    (\<forall>name start q. r = Some (name, start, q) \<longrightarrow> p \<le> start \<and> name = start + 1 \<and> name < q \<and> q < length (content c))"
proof -
  have b: "last (content c) = 0" using assms(1) by (simp add: cfg_part_def)
  obtain s where s: "scan 0x3c p (content c) = Some s" using scan_ok [OF assms(2) b] by blast
  note s' = scan_Some [OF s]
  show ?thesis
  proof (cases "content c ! s = 0")
    case True
    then show ?thesis using assms s by (simp add: CmpGetNextTag_def keeps_refl)
  next
    case False
    then have "s + 1 < length (content c)" using b s' nonzero_not_last by blast
    then obtain e where e: "scan 0x3e (s + 1) (content c) = Some e" using scan_ok b by blast
    note e' = scan_Some [OF e]
    show ?thesis
    proof (cases "content c ! e = 0")
      case True
      then show ?thesis using assms s e False by (simp add: CmpGetNextTag_def keeps_refl)
    next
      case e0: False
      then have "e + 1 < length (content c)" using b e' nonzero_not_last by blast
      then show ?thesis using assms s e False e0 s' e' b
        by (auto simp: CmpGetNextTag_def keeps_def step_ok_def cfg_part_def last_update)
    qed
  qed
qed

lemma name_terminated: "0 \<in> set s \<Longrightarrow> 0 \<in> set t \<Longrightarrow> \<exists>v. strcmp s t = Some v"
  using strcmp_sign by blast

lemma FixDataMatchingTag_ok:
  assumes "cfg_part c" and "p < length (content c)" and "0 \<in> set nm"
  shows "\<exists>r c'. CmpFixDataMatchingTag p nm c = Some (r, c') \<and> keeps c c' \<and>
    (\<forall>q. r = Some q \<longrightarrow> p < q \<and> q < length (content c))"
  using assms
proof (induction p nm c rule: CmpFixDataMatchingTag.induct)
  case (1 p nm c)
  obtain r c1 where g: "CmpGetNextTag p c = Some (r, c1)" "keeps c c1"
    "\<And>name start q. r = Some (name, start, q) \<Longrightarrow> p \<le> start \<and> name = start + 1 \<and> name < q \<and> q < length (content c)"
    using GetNextTag_ok [OF 1(3,4)] by blast
  show ?case
  proof (cases r)
    case None
    then show ?thesis using g(1,2) by (subst CmpFixDataMatchingTag.simps) simp
  next
    case (Some x)
    obtain name start q where x: "x = (name, start, q)" by (cases x)
    have pos: "p \<le> start" "name = start + 1" "name < q" "q < length (content c)" using g(3) Some x by blast+
    have c1: "cfg_part c1" "length (content c1) = length (content c)" using g(2) by (auto simp: keeps_def step_ok_def)
    have again: "\<exists>r c'. CmpFixDataMatchingTag q nm c1 = Some (r, c') \<and> keeps c c' \<and>
        (\<forall>q. r = Some q \<longrightarrow> p < q \<and> q < length (content c))"
      if "\<exists>r c'. CmpFixDataMatchingTag q nm c1 = Some (r, c') \<and> keeps c1 c' \<and>
        (\<forall>q'. r = Some q' \<longrightarrow> q < q' \<and> q' < length (content c1))"
      using that keeps_trans [OF g(2)] c1(2) pos by fastforce
    show ?thesis
    proof (cases "content c1 ! name = 0x2f")
      case True
      have "name + 1 < length (content c1)" using pos c1(2) by simp
      then have "0 \<in> set (drop (name + 1) (content c1))" using last_in_drop c1(1) by (auto simp: cfg_part_def)
      then obtain v where v: "strcmp (drop (name + 1) (content c1)) nm = Some v" using name_terminated 1(5) by blast
      show ?thesis
      proof (cases "v = 0")
        case True
        have "keeps c (c1\<lparr>content := (content c1)[start := 0]\<rparr>)"
          using c1 g(2) by (auto simp: keeps_def step_ok_def cfg_part_def alloc_failed_def last_update)
        then show ?thesis using g(1) Some x v True \<open>content c1 ! name = 0x2f\<close> pos c1(2)
          by (subst CmpFixDataMatchingTag.simps) auto
      next
        case False
        then have "\<exists>r c'. CmpFixDataMatchingTag q nm c1 = Some (r, c') \<and> keeps c1 c' \<and>
            (\<forall>q'. r = Some q' \<longrightarrow> q < q' \<and> q' < length (content c1))"
          using 1(1) g(1) Some x v \<open>content c1 ! name = 0x2f\<close> pos c1 1(5) by auto
        then show ?thesis using again g(1) Some x v False \<open>content c1 ! name = 0x2f\<close> pos c1
          by (subst CmpFixDataMatchingTag.simps) auto
      qed
    next
      case False
      then have "\<exists>r c'. CmpFixDataMatchingTag q nm c1 = Some (r, c') \<and> keeps c1 c' \<and>
            (\<forall>q'. r = Some q' \<longrightarrow> q < q' \<and> q' < length (content c1))"
        using 1(2) g(1) Some x pos c1 1(5) by auto
      then show ?thesis using again g(1) Some x False pos c1
        by (subst CmpFixDataMatchingTag.simps) auto
    qed
  qed
qed


section \<open>Symbols and tags\<close>

lemma FindSymbol_ok:
  "0 \<in> set nm \<Longrightarrow> \<forall>s \<in> set ss. 0 \<in> set (StringBuffer s) \<Longrightarrow>
   \<exists>prev found. CmpFindSymbol nm ss = Some (prev, found) \<and> ss = prev @ found"
proof (induction ss)
  case (Cons s ss)
  obtain v where "strcmp (StringBuffer s) nm = Some v" using name_terminated [of "StringBuffer s" nm] Cons.prems by auto
  then show ?case using Cons by auto
qed simp

lemma NewSymbol_ok:
  assumes "cfg_part c" and "0 \<in> set nm"
  shows "\<exists>s c'. CmpNewSymbol nm c = Some (s, c') \<and> keeps c c' \<and> (\<forall>b. s = Some b \<longrightarrow> 0 \<in> set b) \<and> (s = None \<longrightarrow> alloc_failed c c')"
proof -
  obtain prev found where f: "CmpFindSymbol nm (CmpSymbolsHead c) = Some (prev, found)" "CmpSymbolsHead c = prev @ found"
    using FindSymbol_ok [OF assms(2), of "CmpSymbolsHead c"] assms(1) by (auto simp: cfg_part_def)
  show ?thesis
  proof (cases found)
    case Nil
    have "strcpy (replicate (length (c_str nm) + 1) 0) nm = Some (overlay (replicate (length (c_str nm) + 1) 0) 0 (c_str nm @ [0]))"
      using str_put_correct [OF assms(2), of 0 "replicate (length (c_str nm) + 1) 0"] by (simp add: strcpy_def)
    then show ?thesis using f Nil assms strlen_c_str [OF assms(2)]
      by (auto simp: CmpNewSymbol_def pool_allocate_def keeps_def step_ok_def cfg_part_def alloc_failed_def overlay_def Let_def)
  next
    case (Cons x xs)
    then show ?thesis using f assms by (auto simp: CmpNewSymbol_def keeps_def step_ok_def cfg_part_def)
  qed
qed

lemma FreeSymbol_ok:
  assumes "cfg_part c" and "0 \<in> set nm"
  shows "\<exists>c'. CmpFreeSymbol nm c = Some c' \<and> keeps c c'"
proof -
  obtain prev found where "CmpFindSymbol nm (CmpSymbolsHead c) = Some (prev, found)" "CmpSymbolsHead c = prev @ found"
    using FindSymbol_ok [OF assms(2), of "CmpSymbolsHead c"] assms(1) by (auto simp: cfg_part_def)
  then show ?thesis using assms
    by (cases found) (auto simp: CmpFreeSymbol_def pool_release_def keeps_def step_ok_def cfg_part_def Let_def)
qed

lemma NewTag_ok:
  assumes "cfg_ok c"
  shows "\<exists>ok c'. CmpNewTag c = Some (ok, c') \<and> keeps c c'"
proof -
  obtain n where "free_tags c = Some n" using assms by (auto simp: cfg_ok_def)
  then show ?thesis using assms
    by (cases n) (auto simp: CmpNewTag_def pool_allocate_def keeps_def step_ok_def cfg_ok_def cfg_part_def)
qed

lemma FreeTag_ok: "cfg_part c \<Longrightarrow> \<forall>t \<in> set ts. tag_ok t \<Longrightarrow> \<exists>c'. CmFreeTag ts c = Some c' \<and> keeps c c'"
proof (induction ts c rule: CmFreeTag.induct)
  case (2 t ts c)
  obtain ty s i d us where t: "t = XML_TAG ty s i d us" by (cases t)
  have part: "cfg_part b" if "keeps a b" for a b using that by (simp add: keeps_def step_ok_def)
  obtain c1 where c1: "(case StringValue t of None \<Rightarrow> Some c | Some s \<Rightarrow> CmpFreeSymbol s c) = Some c1" "keeps c c1"
  proof (cases s)
    case (Some b)
    then have "0 \<in> set b" using 2(4) t by auto
    then show ?thesis using that FreeSymbol_ok [OF 2(3)] Some t by auto
  qed (use that 2(3) t keeps_refl in auto)
  let ?c2 = "case DataValue t of None \<Rightarrow> c1 | Some _ \<Rightarrow> pool_release c1"
  have "keeps c1 ?c2" using part [OF c1(2)] by (auto simp: pool_release_def keeps_def step_ok_def cfg_part_def split: option.splits)
  then have c2: "keeps c ?c2" by (rule keeps_trans [OF c1(2)])
  obtain c3 where c3: "CmFreeTag (TagValue t) ?c2 = Some c3" "keeps ?c2 c3"
    using 2(1) [OF c1(1) refl part [OF c2]] 2(4) t by auto
  obtain c4 where c4: "CmFreeTag ts c3 = Some c4" "keeps c3 c4"
    using 2(2) [OF c1(1) refl c3(1) part [OF c3(2)]] 2(4) by auto
  have "keeps c c4" using keeps_trans c2 c3(2) c4(2) by blast
  moreover have "keeps c4 (c4\<lparr>free_tags := map_option Suc (free_tags c4)\<rparr>)"
    using part [OF c4(2)] by (auto simp: keeps_def step_ok_def cfg_part_def)
  ultimately have "keeps c (c4\<lparr>free_tags := map_option Suc (free_tags c4)\<rparr>)" by (rule keeps_trans)
  then show ?case using c1(1) c3(1) c4(1) by simp
qed (simp add: keeps_refl)

text \<open>The release of a new tag behind a failed allocation.\<close>

lemma free_new_tag_ok: "step_ok c c' \<Longrightarrow> alloc_failed c c' \<Longrightarrow> step_ok c (free_new_tag left c')"
  by (auto simp: free_new_tag_def step_ok_def cfg_part_def alloc_failed_def)

lemma alloc_failed_step: "step_ok c c1 \<Longrightarrow> alloc_failed c1 c2 \<Longrightarrow> step_ok c2 c3 \<Longrightarrow> alloc_failed c c3"
  unfolding step_ok_def alloc_failed_def by (metis le_trans order_less_le_trans)

section \<open>Leaves\<close>

lemma names_terminated [simp]:
  "0 \<in> set key_name" "0 \<in> set string_name" "0 \<in> set integer_name" "0 \<in> set data_name" "0 \<in> set date_name"
  "0 \<in> set dict_name" "0 \<in> set empty_dict_name" "0 \<in> set array_name" "0 \<in> set empty_array_name"
  "0 \<in> set false_name" "0 \<in> set true_name" "0 \<in> set plist_name"
  by (simp_all add: key_name_def string_name_def integer_name_def data_name_def date_name_def dict_name_def
      empty_dict_name_def array_name_def empty_array_name_def false_name_def true_name_def plist_name_def)

lemma strnicmp_Some: "0 \<in> set s \<Longrightarrow> 0 \<in> set t \<Longrightarrow> \<exists>v. strnicmp s t n = Some v"
proof (induction s t n rule: strnicmp.induct)
  case (1 c1 s1 c2 s2 n)
  show ?case
  proof (cases "c1 \<noteq> 0 \<and> c2 \<noteq> 0 \<and> n \<noteq> 0")
    case True
    then have "\<exists>v. strnicmp s1 s2 (n - 1) = Some v" if "uint (c1 OR 0x20) - uint (c2 OR 0x20) = 0"
      using 1 that by auto
    then show ?thesis using True by (auto simp: Let_def)
  qed auto
qed auto

lemma match_name_ok: "0 \<in> set nm \<Longrightarrow> \<forall>(s, k) \<in> set names. 0 \<in> set s \<Longrightarrow> \<exists>r. match_name names nm = Some r"
proof (induction names)
  case (Cons x names)
  obtain s k where x: "x = (s, k)" by (cases x)
  obtain v where "strcmp nm s = Some v" using name_terminated [of nm s] Cons.prems x by auto
  then show ?case using Cons x by auto
qed simp

lemma classify_ok: "0 \<in> set nm \<Longrightarrow> \<exists>r. classify nm = Some r"
proof -
  assume nm: "0 \<in> set nm"
  obtain v where "strnicmp nm plist_name 6 = Some v" using strnicmp_Some [OF nm names_terminated(12)] by blast
  then show ?thesis unfolding classify_def using match_name_ok [OF nm] by (simp del: match_name.simps)
qed

lemma skip_space_ok: "0 \<in> set s \<Longrightarrow> \<exists>ch r. skip_space s = Some (ch, r) \<and> (ch = 0 \<or> 0 \<in> set r)"
  by (induction s) (auto simp: isspace_def)

lemma atoi_digits_ok: "ch = 0 \<or> 0 \<in> set s \<Longrightarrow> \<exists>v. atoi_digits value ch s = Some v"
proof (induction "value" ch s rule: atoi_digits.induct)
  case (1 "value" ch s)
  show ?case
  proof (cases "isdigit ch")
    case True
    then have "ch \<noteq> 0" by (auto simp: isdigit_def)
    then obtain ch' s' where s: "s = ch' # s'" "ch' = 0 \<or> 0 \<in> set s'" using 1(2) by (cases s) auto
    then show ?thesis using 1(1) [OF True s(1)] True by (subst atoi_digits.simps) auto
  qed (subst atoi_digits.simps, simp)
qed

lemma atoi64_ok: "0 \<in> set s \<Longrightarrow> \<exists>v. atoi64 s = Some v"
proof -
  assume "0 \<in> set s"
  then obtain ch r where r: "skip_space s = Some (ch, r)" "ch = 0 \<or> 0 \<in> set r" using skip_space_ok by blast
  show ?thesis
  proof (cases "ch = 0x2b \<or> ch = 0x2d")
    case True
    then obtain d t where "r = d # t" "d = 0 \<or> 0 \<in> set t" using r(2) by (cases r) auto
    then show ?thesis using r(1) True atoi_digits_ok [of d t 0] by (auto simp: atoi64_def simp del: atoi_digits.simps)
  next
    case False
    then show ?thesis using r atoi_digits_ok [of ch r 0] by (auto simp: atoi64_def simp del: atoi_digits.simps)
  qed
qed

text \<open>What every parser promises: an answer, the invariant, and progress in the text.\<close>

definition parse_ok :: "nat \<Rightarrow> config \<Rightarrow> parse_result \<Rightarrow> bool" where
  "parse_ok p c res \<longleftrightarrow> (\<exists>r t c'. res = Some ((r, t), c') \<and> step_ok c c' \<and>
     (\<forall>q. r = Some q \<longrightarrow> p \<le> q \<and> q < length (content c) \<and> free_tags c' \<noteq> None) \<and> (\<forall>u. t = Some u \<longrightarrow> tag_ok u))"

lemma parse_ok_step:
  assumes "step_ok c c1" and "parse_ok p c1 res" and "p' \<le> p"
  shows "parse_ok p' c res"
proof -
  obtain r t c' where "res = Some ((r, t), c')" "step_ok c1 c'" "\<forall>q. r = Some q \<longrightarrow> p \<le> q \<and> q < length (content c1) \<and> free_tags c' \<noteq> None"
    "\<forall>u. t = Some u \<longrightarrow> tag_ok u" using assms(2) by (auto simp: parse_ok_def)
  moreover have "step_ok c c'" by (rule step_ok_trans [OF assms(1) \<open>step_ok c1 c'\<close>])
  moreover have "length (content c1) = length (content c)" using assms(1) by (simp add: step_ok_def)
  ultimately show ?thesis using assms(3) by (auto simp: parse_ok_def)
qed

lemma parse_fails: "step_ok c c' \<Longrightarrow> parse_ok p c (Some ((None, None), c'))"
  by (simp add: parse_ok_def)

lemma parse_gives: "keeps c c' \<Longrightarrow> cfg_ok c \<Longrightarrow> p \<le> q \<Longrightarrow> q < length (content c) \<Longrightarrow> tag_ok u \<Longrightarrow> parse_ok p c (Some ((Some q, Some u), c'))"
  by (simp add: parse_ok_def keeps_def cfg_ok_def)

lemma rest_terminated: "keeps c c' \<Longrightarrow> p < length (content c) \<Longrightarrow> 0 \<in> set (drop p (content c'))"
  using last_in_drop by (simp add: keeps_def step_ok_def cfg_part_def)

lemma cfg_ok_part: "cfg_ok c \<Longrightarrow> cfg_part c"
  by (simp add: cfg_ok_def)

lemma keeps_part: "keeps c c' \<Longrightarrow> cfg_part c'"
  by (simp add: keeps_def step_ok_def)

text \<open>The parsers of the leaves begin alike: the end tag, then a new tag.\<close>

lemma leaf_cases:
  assumes c: "cfg_ok c" "p < length (content c)" and nm: "0 \<in> set nm"
  obtains c1 where "CmpFixDataMatchingTag p nm c = Some (None, c1)" "keeps c c1"
  | q c1 c2 where "CmpFixDataMatchingTag p nm c = Some (Some q, c1)" "CmpNewTag c1 = Some (False, c2)" "keeps c c2"
  | q c1 c2 where "CmpFixDataMatchingTag p nm c = Some (Some q, c1)" "CmpNewTag c1 = Some (True, c2)" "keeps c c2"
      "p \<le> q" "q < length (content c)"
proof -
  obtain r c1 where r: "CmpFixDataMatchingTag p nm c = Some (r, c1)" "keeps c c1" "\<forall>q. r = Some q \<longrightarrow> p < q \<and> q < length (content c)"
    using FixDataMatchingTag_ok [OF cfg_ok_part [OF c(1)] c(2) nm] by blast
  obtain ok c2 where c2: "CmpNewTag c1 = Some (ok, c2)" "keeps c1 c2" using NewTag_ok keeps_ok [OF r(2) c(1)] by blast
  have "keeps c c2" by (rule keeps_trans [OF r(2) c2(2)])
  then show ?thesis using that r c2(1) by (cases r; cases ok) auto
qed

lemma string_ok:
  assumes c: "cfg_ok c" and p: "p < length (content c)"
  shows "parse_ok p c (CmpParseTagString p c)"
proof (cases rule: leaf_cases [OF c p names_terminated(2)])
  case r: (3 q c1 c2)
  obtain s c3 where s: "CmpNewSymbol (drop p (content c2)) c2 = Some (s, c3)" "keeps c2 c3" "\<forall>b. s = Some b \<longrightarrow> 0 \<in> set b"
    "s = None \<longrightarrow> alloc_failed c2 c3"
    using NewSymbol_ok [OF keeps_part [OF r(3)] rest_terminated [OF r(3) p]] by blast
  have k: "keeps c c3" by (rule keeps_trans [OF r(3) s(2)])
  show ?thesis
  proof (cases s)
    case None
    have "step_ok c c3" "step_ok c3 c3" using k by (auto simp: keeps_def step_ok_def)
    then have "step_ok c (free_new_tag (free_tags c3) c3)"
      using s(4) None alloc_failed_step [OF keeps_step [OF r(3)], of c3 c3] by (intro free_new_tag_ok) auto
    then show ?thesis using r s None by (simp add: CmpParseTagString_def parse_fails)
  next
    case (Some b)
    then show ?thesis using r s parse_gives [OF k c r(4,5)] by (simp add: CmpParseTagString_def)
  qed
qed (auto simp: CmpParseTagString_def intro: parse_fails keeps_step)

lemma integer_ok:
  assumes c: "cfg_ok c" and p: "p < length (content c)"
  shows "parse_ok p c (CmpParseTagInteger p c)"
proof (cases rule: leaf_cases [OF c p names_terminated(3)])
  case r: (3 q c1 c2)
  obtain v where "atoi64 (drop p (content c2)) = Some v" using atoi64_ok rest_terminated [OF r(3) p] by blast
  then show ?thesis using r parse_gives [OF r(3) c r(4,5)] by (simp add: CmpParseTagInteger_def)
qed (auto simp: CmpParseTagInteger_def intro: parse_fails keeps_step)

lemma date_ok:
  assumes c: "cfg_ok c" and p: "p < length (content c)"
  shows "parse_ok p c (CmpParseTagDate p c)"
proof (cases rule: leaf_cases [OF c p names_terminated(5)])
  case r: (3 q c1 c2)
  then show ?thesis using parse_gives [OF r(3) c r(4,5)] by (simp add: CmpParseTagDate_def)
qed (auto simp: CmpParseTagDate_def intro: parse_fails keeps_step)

lemma data_ok:
  assumes c: "cfg_ok c" and p: "p < length (content c)"
  shows "parse_ok p c (CmpParseTagData p c)"
proof -
  obtain r c1 where r: "CmpFixDataMatchingTag p data_name c = Some (r, c1)" "keeps c c1" "\<forall>q. r = Some q \<longrightarrow> p < q \<and> q < length (content c)"
    using FixDataMatchingTag_ok [OF cfg_ok_part [OF c] p names_terminated(4)] by blast
  let ?c1 = "c1\<lparr>pool_calls := pool_calls c1 + 1\<rparr>"
  have k: "keeps c ?c1" using r(2) by (auto simp: keeps_def step_ok_def cfg_part_def alloc_failed_def)
  obtain ok c2 where c2: "CmpNewTag ?c1 = Some (ok, c2)" "keeps ?c1 c2" using NewTag_ok keeps_ok [OF k c] by blast
  have k2: "keeps c c2" by (rule keeps_trans [OF k c2(2)])
  show ?thesis
  proof (cases r)
    case None
    then show ?thesis using r by (simp add: CmpParseTagData_def parse_fails keeps_step)
  next
    case (Some q)
    then have "p \<le> q" "q < length (content c)" using r(3) by auto
    then show ?thesis using r(1) Some c2(1) k k2 parse_gives [OF k2 c]
      by (cases "pool_ok c1 (pool_calls c1)"; cases ok)
        (auto simp: CmpParseTagData_def pool_allocate_def Let_def split: prod.splits intro: parse_fails keeps_step)
  qed
qed

lemma boolean_ok:
  assumes c: "cfg_ok c" and p: "p < length (content c)"
  shows "parse_ok p c (CmpParseTagBoolean p ty c)"
proof -
  obtain ok c1 where "CmpNewTag c = Some (ok, c1)" "keeps c c1" using NewTag_ok [OF c] by blast
  then show ?thesis using parse_gives [OF _ c _ p] by (cases ok) (simp_all add: CmpParseTagBoolean_def parse_fails keeps_step)
qed

lemma close_list_ok:
  assumes c: "cfg_ok c" "p < length (content c)" and ts: "\<forall>t \<in> set ts. tag_ok t"
  shows "parse_ok p c (close_list p ty ts c)"
proof -
  obtain ok c1 where c1: "CmpNewTag c = Some (ok, c1)" "keeps c c1" using NewTag_ok [OF c(1)] by blast
  obtain c2 where c2: "CmFreeTag ts c1 = Some c2" "keeps c1 c2" using FreeTag_ok [OF keeps_part [OF c1(2)] ts] by blast
  show ?thesis using c1(1) c2(1) parse_gives [OF c1(2) c(1) _ c(2)] ts parse_fails [OF keeps_step [OF keeps_trans [OF c1(2) c2(2)]]]
    by (cases ok) (simp_all add: close_list_def)
qed

lemma close_key_ok:
  assumes c: "cfg_ok c" "p \<le> q" "q < length (content c)" and ts: "\<forall>t \<in> set ts. tag_ok t"
  shows "parse_ok p c (close_key p q ts c)"
proof -
  obtain ok c1 where c1: "CmpNewTag c = Some (ok, c1)" "keeps c c1" using NewTag_ok [OF c(1)] by blast
  obtain c2 where c2: "CmFreeTag ts c1 = Some c2" "keeps c1 c2" using FreeTag_ok [OF keeps_part [OF c1(2)] ts] by blast
  have p: "p < length (content c)" using c(2,3) by simp
  obtain s c3 where s: "CmpNewSymbol (drop p (content c1)) c1 = Some (s, c3)" "keeps c1 c3" "\<forall>b. s = Some b \<longrightarrow> 0 \<in> set b"
    "s = None \<longrightarrow> alloc_failed c1 c3"
    using NewSymbol_ok [OF keeps_part [OF c1(2)] rest_terminated [OF c1(2) p]] by blast
  obtain c4 where c4: "CmFreeTag ts c3 = Some c4" "keeps c3 c4" using FreeTag_ok [OF keeps_part [OF s(2)] ts] by blast
  have k: "keeps c c3" "keeps c c4" using keeps_trans c1(2) s(2) c4(2) by blast+
  consider "\<not> ok" | "ok" "s = None" | b where "ok" "s = Some b" by (cases s) auto
  then show ?thesis
  proof cases
    case 1
    then show ?thesis using c1(1) c2(1) parse_fails [OF keeps_step [OF keeps_trans [OF c1(2) c2(2)]]] by (simp add: close_key_def)
  next
    case 2
    then have "step_ok c (free_new_tag (free_tags c3) c4)"
      using s(4) alloc_failed_step [OF keeps_step [OF c1(2)] _ keeps_step [OF c4(2)]] k(2) by (intro free_new_tag_ok) (auto simp: keeps_def)
    then show ?thesis using 2 c1(1) s(1) c4(1) by (simp add: close_key_def parse_fails)
  next
    case 3
    then show ?thesis using c1(1) s(1,3) ts parse_gives [OF k(1) c] by (simp add: close_key_def)
  qed
qed

lemmas leaves_ok = string_ok integer_ok data_ok date_ok boolean_ok

section \<open>The parser\<close>

lemma parser_ok:
  "(\<forall>p c. cfg_ok c \<longrightarrow> p < length (content c) \<longrightarrow> 2 * (length (content c) - p) < fuel \<longrightarrow>
      parse_ok (p + 1) c (CmpParseNextTag fuel p c)) \<and>
   (\<forall>p c ts ty. cfg_ok c \<longrightarrow> p < length (content c) \<longrightarrow> 2 * (length (content c) - p) + 1 < fuel \<longrightarrow> (\<forall>t \<in> set ts. tag_ok t) \<longrightarrow>
      parse_ok p c (CmpParseTagList fuel p ts ty c)) \<and>
   (\<forall>p c. cfg_ok c \<longrightarrow> p < length (content c) \<longrightarrow> 2 * (length (content c) - p) < fuel \<longrightarrow>
      parse_ok p c (CmpParseTagKey fuel p c))"
proof (induction fuel)
  case (Suc f)
  note next_ok = Suc.IH [THEN conjunct1, rule_format]
  note list_ok = Suc.IH [THEN conjunct2, THEN conjunct1, rule_format]
  note key_ok = Suc.IH [THEN conjunct2, THEN conjunct2, rule_format]
  have "parse_ok (p + 1) c (CmpParseNextTag (Suc f) p c)"
    if c: "cfg_ok c" "p < length (content c)" "2 * (length (content c) - p) < Suc f" for p c
  proof -
    obtain r c1 where g: "CmpGetNextTag p c = Some (r, c1)" "keeps c c1"
      "\<And>name start q. r = Some (name, start, q) \<Longrightarrow> p \<le> start \<and> name = start + 1 \<and> name < q \<and> q < length (content c)"
      using GetNextTag_ok [OF cfg_ok_part [OF c(1)] c(2)] by blast
    have c1: "cfg_ok c1" "length (content c1) = length (content c)" using keeps_ok [OF g(2) c(1)] by auto
    show ?thesis
    proof (cases r)
      case None
      then show ?thesis using g(1) parse_fails [OF keeps_step [OF g(2)]] by simp
    next
      case (Some x)
      obtain name start q where x: "x = (name, start, q)" by (cases x)
      have pos: "p + 1 < q" "q < length (content c1)" "name < length (content c1)" using g(3) Some x c1(2) by fastforce+
      have fuel: "2 * (length (content c1) - q) + 1 < f" using c(3) pos c1(2) by linarith
      have "0 \<in> set (drop name (content c1))" using c1(1) pos(3) last_in_drop by (auto simp: cfg_ok_def cfg_part_def)
      then obtain k where k: "classify (drop name (content c1)) = Some k" using classify_ok by blast
      have l: "parse_ok q c1 (CmpParseTagList f q [] ty c1)" for ty by (rule list_ok [OF c1(1) pos(2) fuel]) simp
      have y: "parse_ok q c1 (CmpParseTagKey f q c1)" using key_ok [OF c1(1) pos(2)] fuel by simp
      have skipped: "parse_ok q c1 (Some ((Some q, None), c1))"
        using pos(2) c1(1) keeps_step [OF keeps_refl [OF cfg_ok_part [OF c1(1)]]] by (simp add: parse_ok_def cfg_ok_def)
      have "parse_ok q c1 (CmpParseNextTag (Suc f) p c)"
      proof (cases k)
        case None
        then show ?thesis using g(1) Some x k pos(2) skipped by simp
      next
        case (Some kind)
        then show ?thesis using g(1) \<open>r = Some x\<close> x k pos(2) l y leaves_ok [OF c1(1) pos(2)] close_list_ok [OF c1(1) pos(2)] skipped
          by (cases kind) simp_all
      qed
      then show ?thesis using parse_ok_step [OF keeps_step [OF g(2)]] pos(1) by simp
    qed
  qed
  moreover have "parse_ok p c (CmpParseTagList (Suc f) p ts ty c)"
    if c: "cfg_ok c" "p < length (content c)" "2 * (length (content c) - p) + 1 < Suc f" and ts: "\<forall>t \<in> set ts. tag_ok t" for p c ts ty
  proof -
    obtain r t c1 where g: "CmpParseNextTag f p c = Some ((r, t), c1)" "step_ok c c1"
      "\<And>q. r = Some q \<Longrightarrow> p < q \<and> q < length (content c) \<and> free_tags c1 \<noteq> None" "\<And>u. t = Some u \<Longrightarrow> tag_ok u"
      using next_ok [OF c(1,2)] c(3) by (auto simp: parse_ok_def Suc_le_eq)
    have c1: "cfg_part c1" "length (content c1) = length (content c)" using g(2) by (auto simp: step_ok_def)
    show ?thesis
    proof (cases r)
      case None
      obtain c2 where c2: "CmFreeTag ts c1 = Some c2" "keeps c1 c2" using FreeTag_ok [OF c1(1) ts] by blast
      then show ?thesis using None g(1) parse_fails [OF step_ok_trans [OF g(2) keeps_step [OF c2(2)]]] by simp
    next
      case (Some q)
      then have pos: "p < q" "q < length (content c1)" and c1': "cfg_ok c1" using g(3) c1 by (auto simp: cfg_ok_def)
      have "parse_ok q c1 (CmpParseTagList (Suc f) p ts ty c)"
      proof (cases t)
        case None
        then show ?thesis using close_list_ok [OF c1' pos(2) ts] g(1) Some by simp
      next
        case (Some u)
        have "2 * (length (content c1) - q) + 1 < f" using c(3) pos c1(2) by linarith
        then have "parse_ok q c1 (CmpParseTagList f q (ts @ [u]) ty c1)"
          using ts g(4) [OF Some] by (intro list_ok [OF c1' pos(2)]) auto
        then show ?thesis using g(1) Some \<open>r = Some q\<close> by simp
      qed
      then show ?thesis using parse_ok_step [OF g(2)] pos(1) by simp
    qed
  qed
  moreover have "parse_ok p c (CmpParseTagKey (Suc f) p c)"
    if c: "cfg_ok c" "p < length (content c)" "2 * (length (content c) - p) < Suc f" for p c
  proof -
    obtain r c1 where g: "CmpFixDataMatchingTag p key_name c = Some (r, c1)" "keeps c c1"
      "\<And>q. r = Some q \<Longrightarrow> p < q \<and> q < length (content c)"
      using FixDataMatchingTag_ok [OF cfg_ok_part [OF c(1)] c(2) names_terminated(1)] by blast
    have c1: "cfg_ok c1" "length (content c1) = length (content c)" using keeps_ok [OF g(2) c(1)] by auto
    show ?thesis
    proof (cases r)
      case None
      then show ?thesis using g(1) parse_fails [OF keeps_step [OF g(2)]] by simp
    next
      case (Some q)
      then have pos: "p < q" "q < length (content c1)" using g(3) c1(2) by auto
      have "2 * (length (content c1) - q) < f" using c(3) pos c1(2) by linarith
      then obtain r2 t c2 where n: "CmpParseNextTag f q c1 = Some ((r2, t), c2)" "step_ok c1 c2"
        "\<And>q'. r2 = Some q' \<Longrightarrow> q < q' \<and> q' < length (content c1) \<and> free_tags c2 \<noteq> None" "\<And>u. t = Some u \<Longrightarrow> tag_ok u"
        using next_ok [OF c1(1) pos(2)] by (auto simp: parse_ok_def Suc_le_eq)
      let ?ts = "case t of None \<Rightarrow> [] | Some t \<Rightarrow> [t]"
      have ts: "\<forall>u \<in> set ?ts. tag_ok u" using n(4) by (auto split: option.splits)
      have c2: "cfg_part c2" "length (content c2) = length (content c1)" using n(2) by (auto simp: step_ok_def)
      have s2: "step_ok c c2" by (rule step_ok_trans [OF keeps_step [OF g(2)] n(2)])
      show ?thesis
      proof (cases r2)
        case None
        obtain c3 where c3: "CmFreeTag ?ts c2 = Some c3" "keeps c2 c3" using FreeTag_ok [OF c2(1) ts] by blast
        then show ?thesis using None g(1) n(1) Some parse_fails [OF step_ok_trans [OF s2 keeps_step [OF c3(2)]]] by simp
      next
        case (Some q')
        have "parse_ok p c2 (close_key p q' ?ts c2)"
          using close_key_ok [of c2 p q', OF _ _ _ ts] n(3) [OF Some] pos c2 by (simp add: cfg_ok_def)
        then have "parse_ok p c2 (CmpParseTagKey (Suc f) p c)" using g(1) n(1) Some \<open>r = Some q\<close> by simp
        then show ?thesis using parse_ok_step [OF s2] by blast
      qed
    qed
  qed
  ultimately show ?case by blast
qed simp

lemma xml_loop_ok:
  "cfg_ok c \<Longrightarrow> p < length (content c) \<Longrightarrow> length (content c) - p < tries \<Longrightarrow> 2 * length (content c) < fuel \<Longrightarrow>
   \<exists>t c'. xml_loop tries fuel p c = Some (t, c') \<and> step_ok c c' \<and>
     (\<forall>u. t = Some u \<longrightarrow> tag_ok u \<and> Type u = XML_TAG_DICT \<and> free_tags c' \<noteq> None)"
proof (induction tries arbitrary: p c)
  case (Suc tries)
  have "2 * (length (content c) - p) < fuel" using Suc.prems(4) by linarith
  then obtain r t c1 where g: "CmpParseNextTag fuel p c = Some ((r, t), c1)" "step_ok c c1"
    "\<And>q. r = Some q \<Longrightarrow> p < q \<and> q < length (content c) \<and> free_tags c1 \<noteq> None" "\<And>u. t = Some u \<Longrightarrow> tag_ok u"
    using parser_ok [of fuel, THEN conjunct1, rule_format, OF Suc.prems(1,2)] by (auto simp: parse_ok_def Suc_le_eq)
  show ?case
  proof (cases r)
    case None
    then show ?thesis using g by simp
  next
    case (Some q)
    have c1: "cfg_part c1" "cfg_ok c1" using g(2) g(3) [OF Some] by (auto simp: step_ok_def cfg_ok_def)
    have loop: "\<exists>t c'. xml_loop tries fuel q c2 = Some (t, c') \<and> step_ok c c' \<and>
        (\<forall>u. t = Some u \<longrightarrow> tag_ok u \<and> Type u = XML_TAG_DICT \<and> free_tags c' \<noteq> None)"
      if k: "keeps c1 c2" for c2
    proof -
      have "cfg_ok c2" "length (content c2) = length (content c)" using keeps_ok [OF k c1(2)] g(2) by (auto simp: step_ok_def)
      moreover have "length (content c) - q < tries" "q < length (content c)" using g(3) [OF Some] Suc.prems(3) by linarith+
      ultimately obtain t c' where "xml_loop tries fuel q c2 = Some (t, c')" "step_ok c2 c'"
        "\<forall>u. t = Some u \<longrightarrow> tag_ok u \<and> Type u = XML_TAG_DICT \<and> free_tags c' \<noteq> None"
        using Suc.IH [of c2 q] Suc.prems(4) by metis
      then show ?thesis using step_ok_trans [OF step_ok_trans [OF g(2) keeps_step [OF k]]] by blast
    qed
    show ?thesis
    proof (cases t)
      case None
      then show ?thesis using loop [OF keeps_refl [OF c1(1)]] g(1) Some by simp
    next
      case (Some u)
      have "\<forall>v \<in> set [u]. tag_ok v" using g(4) Some by auto
      then obtain c2 where "CmFreeTag [u] c1 = Some c2" "keeps c1 c2" using FreeTag_ok [OF c1(1)] by blast
      then show ?thesis using loop [of c2] g Some \<open>r = Some q\<close>
        by (cases "Type u = XML_TAG_DICT") (auto simp del: CmFreeTag.simps)
    qed
  qed
qed simp

end
