(* ===== verification/ConfigTrip.thy ===== *)
theory ConfigTrip
  imports ConfigSafe
begin

text \<open>
  The parser on well-formed property lists: it reads back what a printer of property lists
  writes.
\<close>

section \<open>Property lists\<close>

datatype plist =
    PString "u8 list"
  | PInteger "u8 list"
  | PData "u8 list"
  | PDate "u8 list"
  | PTrue
  | PFalse
  | PArray "plist list"
  | PDict "(u8 list \<times> plist) list"

definition open_tag :: "u8 list \<Rightarrow> u8 list" where "open_tag nm = 0x3c # butlast nm @ [0x3e]"
definition close_tag :: "u8 list \<Rightarrow> u8 list" where "close_tag nm = 0x3c # 0x2f # butlast nm @ [0x3e]"

text \<open>The text, with a separator in front of every tag but those that end a string.\<close>

fun render :: "u8 list \<Rightarrow> plist \<Rightarrow> u8 list" where
  "render sep (PString s) = sep @ open_tag string_name @ s @ close_tag string_name"
| "render sep (PInteger s) = sep @ open_tag integer_name @ s @ close_tag integer_name"
| "render sep (PData s) = sep @ open_tag data_name @ s @ close_tag data_name"
| "render sep (PDate s) = sep @ open_tag date_name @ s @ close_tag date_name"
| "render sep PTrue = sep @ open_tag true_name"
| "render sep PFalse = sep @ open_tag false_name"
| "render sep (PArray vs) = sep @ open_tag array_name @ concat (map (render sep) vs) @ sep @ close_tag array_name"
| "render sep (PDict kvs) = sep @ open_tag dict_name @
     concat (map (\<lambda>(k, v). sep @ open_tag key_name @ k @ close_tag key_name @ render sep v) kvs) @ sep @ close_tag dict_name"

fun to_tag :: "plist \<Rightarrow> XML_TAG" where
  "to_tag (PString s) = XML_TAG XML_TAG_STRING (Some (s @ [0])) 0 None []"
| "to_tag (PInteger s) = XML_TAG XML_TAG_INTEGER None (the (atoi64 (s @ [0]))) None []"
| "to_tag (PData s) = XML_TAG XML_TAG_DATA None 0 (Some (decode64 (map base64_value (plain64 s)))) []"
| "to_tag (PDate s) = XML_TAG XML_TAG_DATE None 0 None []"
| "to_tag PTrue = XML_TAG XML_TAG_TRUE None 0 None []"
| "to_tag PFalse = XML_TAG XML_TAG_FALSE None 0 None []"
| "to_tag (PArray vs) = XML_TAG XML_TAG_ARRAY None 0 None (map to_tag vs)"
| "to_tag (PDict kvs) = XML_TAG XML_TAG_DICT None 0 None
     (map (\<lambda>(k, v). XML_TAG XML_TAG_KEY (Some (k @ [0])) 0 None [to_tag v]) kvs)"

definition plain :: "u8 list \<Rightarrow> bool" where
  "plain s \<longleftrightarrow> 0 \<notin> set s \<and> 0x3c \<notin> set s"

fun plist_ok :: "plist \<Rightarrow> bool" where
  "plist_ok (PString s) = plain s"
| "plist_ok (PInteger s) = plain s"
| "plist_ok (PData s) = plain s"
| "plist_ok (PDate s) = plain s"
| "plist_ok PTrue = True"
| "plist_ok PFalse = True"
| "plist_ok (PArray vs) = (\<forall>v \<in> set vs. plist_ok v)"
| "plist_ok (PDict kvs) = (\<forall>(k, v) \<in> set kvs. plain k \<and> plist_ok v)"

section \<open>Scanning known text\<close>

lemma scan_text:
  assumes "\<forall>b \<in> set s. b \<noteq> 0 \<and> b \<noteq> ch" and "x = 0 \<or> x = ch"
  shows "scan ch (length A) (A @ s @ x # B) = Some (length A + length s)"
  using assms(1)
proof (induction s arbitrary: A)
  case Nil
  then show ?case using assms(2) by (subst scan.simps) (auto simp: nth_append)
next
  case (Cons a s)
  have "scan ch (length (A @ [a])) ((A @ [a]) @ s @ x # B) = Some (length (A @ [a]) + length s)"
    using Cons by (intro Cons.IH) simp
  then show ?case using Cons.prems by (subst scan.simps) (simp add: nth_append)
qed

lemma GetNextTag_text:
  assumes "content c = A @ pre @ 0x3c # nm @ 0x3e # B" and "plain pre" and "0 \<notin> set nm" "0x3e \<notin> set nm"
  shows "CmpGetNextTag (length A) c = Some (Some (length A + length pre + 1, length A + length pre,
      length A + length pre + length nm + 2), c\<lparr>content := A @ pre @ 0x3c # nm @ 0 # B\<rparr>)"
proof -
  have s: "scan 0x3c (length A) (content c) = Some (length A + length pre)"
    unfolding assms(1) using assms(2) by (intro scan_text) (auto simp: plain_def)
  have e: "scan 0x3e (length A + length pre + 1) (content c) = Some (length A + length pre + 1 + length nm)"
    using scan_text [of nm "0x3e" "0x3e" "A @ pre @ [0x3c]" B] assms(3,4) unfolding assms(1) by auto
  have n: "content c ! (length A + length pre) = 0x3c" "content c ! (length A + length pre + 1 + length nm) = 0x3e"
    unfolding assms(1) by (simp_all add: nth_append nth_Cons')
  have u: "(content c)[length A + length pre + 1 + length nm := 0] = A @ pre @ 0x3c # nm @ 0 # B"
    unfolding assms(1) by (simp add: list_update_append)
  show ?thesis using s e n u by (simp add: CmpGetNextTag_def)
qed

lemma strcmp_same: "0 \<notin> set nm \<Longrightarrow> strcmp (nm @ 0 # B) (nm @ [0]) = Some 0"
  by (induction nm) auto

lemma FixData_text:
  assumes "content c = A @ s @ close_tag (nm @ [0]) @ B" and "plain s" and "0 \<notin> set nm" "0x3e \<notin> set nm"
  shows "CmpFixDataMatchingTag (length A) (nm @ [0]) c = Some (Some (length A + length s + length (close_tag (nm @ [0]))),
      c\<lparr>content := A @ s @ 0 # 0x2f # nm @ 0 # B\<rparr>)"
proof -
  have b: "content c = A @ s @ 0x3c # (0x2f # nm) @ 0x3e # B" using assms(1) by (simp add: close_tag_def)
  have g: "CmpGetNextTag (length A) c = Some (Some (length A + length s + 1, length A + length s,
      length A + length s + length (0x2f # nm) + 2), c\<lparr>content := A @ s @ 0x3c # (0x2f # nm) @ 0 # B\<rparr>)"
    using assms(2-4) by (intro GetNextTag_text [OF b]) auto
  let ?c = "A @ s @ 0x3c # (0x2f # nm) @ 0 # B"
  have "?c ! (length A + length s + 1) = 0x2f" "drop (length A + length s + 1 + 1) ?c = nm @ 0 # B"
    "?c[length A + length s := 0] = A @ s @ 0 # 0x2f # nm @ 0 # B"
    by (simp_all add: nth_append list_update_append)
  then show ?thesis using g strcmp_same [OF assms(3), of B]
    by (subst CmpFixDataMatchingTag.simps) (simp add: close_tag_def)
qed


section \<open>Symbols and tags\<close>

definition good :: "config \<Rightarrow> bool" where
  "good c \<longleftrightarrow> free_tags c \<noteq> None \<and> (\<forall>n \<ge> pool_calls c. pool_ok c n) \<and>
     (\<forall>s \<in> set (CmpSymbolsHead c). \<exists>t. 0 \<notin> set t \<and> StringBuffer s = t @ [0])"

lemma good_content [simp]: "good (c\<lparr>content := b\<rparr>) = good c"
  by (simp add: good_def)

lemma c_str_append [simp]: "0 \<notin> set s \<Longrightarrow> c_str (s @ 0 # B) = s"
  by (induction s) (auto simp: c_str_def)

lemma FindSymbol_text:
  assumes "0 \<notin> set s" and "\<forall>x \<in> set ss. \<exists>t. 0 \<notin> set t \<and> StringBuffer x = t @ [0]"
  shows "\<exists>prev found. CmpFindSymbol (s @ 0 # B) ss = Some (prev, found) \<and> ss = prev @ found \<and>
    (\<forall>x xs. found = x # xs \<longrightarrow> StringBuffer x = s @ [0])"
  using assms(2)
proof (induction ss)
  case (Cons x ss)
  obtain t where t: "0 \<notin> set t" "StringBuffer x = t @ [0]" using Cons.prems by auto
  obtain v where v: "strcmp (StringBuffer x) (s @ 0 # B) = Some v" "v = 0 \<longleftrightarrow> c_str (StringBuffer x) = c_str (s @ 0 # B)"
    using strcmp_sign [of "StringBuffer x" "s @ 0 # B"] t by auto
  have "v = 0 \<longleftrightarrow> t = s" using v(2) t assms(1) by simp
  then show ?case using Cons v t by auto
qed simp

lemma NewSymbol_text:
  assumes "good c" and "0 \<notin> set s"
  shows "\<exists>c'. CmpNewSymbol (s @ 0 # B) c = Some (Some (s @ [0]), c') \<and> good c' \<and> content c' = content c \<and> free_tags c' = free_tags c"
proof -
  obtain prev found where f: "CmpFindSymbol (s @ 0 # B) (CmpSymbolsHead c) = Some (prev, found)" "CmpSymbolsHead c = prev @ found"
    "\<forall>x xs. found = x # xs \<longrightarrow> StringBuffer x = s @ [0]"
    using FindSymbol_text [OF assms(2), of "CmpSymbolsHead c" B] assms(1) by (auto simp: good_def)
  show ?thesis
  proof (cases found)
    case Nil
    have "strcpy (replicate (length s + 1) 0) (s @ 0 # B) = Some (s @ [0])"
      using str_put_correct [of "s @ 0 # B" 0 "replicate (length s + 1) 0"] assms(2) by (simp add: strcpy_def overlay_def)
    moreover have "strlen (s @ 0 # B) = Some (length s)" using strlen_c_str [of "s @ 0 # B"] assms(2) by simp
    ultimately show ?thesis using f Nil assms
      by (auto simp: CmpNewSymbol_def pool_allocate_def good_def)
  next
    case (Cons x xs)
    then show ?thesis using f assms by (auto simp: CmpNewSymbol_def good_def)
  qed
qed

lemma NewTag_text: "good c \<Longrightarrow> \<exists>c'. CmpNewTag c = Some (True, c') \<and> good c' \<and> content c' = content c"
proof -
  assume c: "good c"
  then obtain n where "free_tags c = Some n" by (auto simp: good_def)
  then show ?thesis using c by (cases n) (auto simp: CmpNewTag_def pool_allocate_def good_def)
qed

section \<open>What is read back\<close>

text \<open>A text that is read as one tag, wherever it stands.\<close>

definition parses :: "u8 list \<Rightarrow> XML_TAG \<Rightarrow> bool" where
  "parses txt tag \<longleftrightarrow> (\<forall>A B c fuel. good c \<longrightarrow> content c = A @ txt @ B \<longrightarrow> 2 * length txt \<le> fuel \<longrightarrow>
     (\<exists>M c'. CmpParseNextTag fuel (length A) c = Some ((Some (length A + length txt), Some tag), c') \<and>
        content c' = A @ M @ B \<and> length M = length txt \<and> good c'))"

text \<open>The same for a parser that is called behind the opening tag.\<close>

definition reads :: "(nat \<Rightarrow> config \<Rightarrow> parse_result) \<Rightarrow> u8 list \<Rightarrow> XML_TAG \<Rightarrow> bool" where
  "reads f txt tag \<longleftrightarrow> (\<forall>A B c. good c \<longrightarrow> content c = A @ txt @ B \<longrightarrow>
     (\<exists>M c'. f (length A) c = Some ((Some (length A + length txt), Some tag), c') \<and>
        content c' = A @ M @ B \<and> length M = length txt \<and> good c'))"

lemma skip_space_stop:
  "0 \<notin> set s \<Longrightarrow> (\<exists>ch t. skip_space (s @ 0 # B) = Some (ch, t @ 0 # B) \<and> skip_space (s @ [0]) = Some (ch, t @ [0])) \<or>
     skip_space (s @ 0 # B) = Some (0, B) \<and> skip_space (s @ [0]) = Some (0, [])"
  by (induction s) (auto simp: isspace_def)

lemma atoi_digits_append: "atoi_digits v ch (t @ 0 # B) = atoi_digits v ch (t @ [0])"
proof (induction t arbitrary: v ch)
  case Nil
  then show ?case by (simp add: isdigit_def)
next
  case (Cons a t)
  show ?case by (subst (1 2) atoi_digits.simps) (simp add: Cons del: atoi_digits.simps)
qed

lemma atoi64_append:
  assumes "0 \<notin> set s"
  shows "atoi64 (s @ 0 # B) = atoi64 (s @ [0])"
  using skip_space_stop [OF assms, of B]
proof (elim disjE exE conjE)
  fix ch t assume r: "skip_space (s @ 0 # B) = Some (ch, t @ 0 # B)" "skip_space (s @ [0]) = Some (ch, t @ [0])"
  show ?thesis
  proof (cases t)
    case Nil
    then show ?thesis using r by (simp add: atoi64_def isdigit_def)
  next
    case (Cons d u)
    then show ?thesis using r atoi_digits_append [of 0 d u B] atoi_digits_append [of 0 ch t B]
      by (simp add: atoi64_def del: atoi_digits.simps)
  qed
qed (simp add: atoi64_def isdigit_def)

definition name_ok :: "u8 list \<Rightarrow> bool" where
  "name_ok nm \<longleftrightarrow> nm = butlast nm @ [0] \<and> 0 \<notin> set (butlast nm) \<and> 0x3e \<notin> set (butlast nm)"

lemma names_ok [simp]:
  "name_ok key_name" "name_ok string_name" "name_ok integer_name" "name_ok data_name" "name_ok date_name"
  "name_ok dict_name" "name_ok array_name" "name_ok true_name" "name_ok false_name"
  by (simp_all add: name_ok_def key_name_def string_name_def integer_name_def data_name_def date_name_def dict_name_def
      array_name_def false_name_def true_name_def)

lemma reads_leaf:
  assumes "name_ok nm" and s: "plain s"
    and body: "\<And>A B c c1. good c1 \<Longrightarrow> content c1 = A @ s @ 0 # 0x2f # nm @ B \<Longrightarrow>
      CmpFixDataMatchingTag (length A) nm c = Some (Some (length A + length (s @ close_tag nm)), c1) \<Longrightarrow>
      \<exists>c'. f (length A) c = Some ((Some (length A + length (s @ close_tag nm)), Some tag), c') \<and> content c' = content c1 \<and> good c'"
  shows "reads f (s @ close_tag nm) tag"
  unfolding reads_def
proof (intro allI impI)
  have nm: "nm = butlast nm @ [0]" "0 \<notin> set (butlast nm)" "0x3e \<notin> set (butlast nm)" using assms(1) by (auto simp: name_ok_def)
  fix A B c assume c: "good c" "content c = A @ (s @ close_tag nm) @ B"
  let ?M = "s @ 0 # 0x2f # nm"
  let ?c = "c\<lparr>content := A @ ?M @ B\<rparr>"
  have "CmpFixDataMatchingTag (length A) (butlast nm @ [0]) c =
      Some (Some (length A + length s + length (close_tag (butlast nm @ [0]))), c\<lparr>content := A @ s @ 0 # 0x2f # butlast nm @ 0 # B\<rparr>)"
    using c(2) nm s by (intro FixData_text) simp_all
  moreover have "A @ s @ 0 # 0x2f # butlast nm @ 0 # B = A @ ?M @ B"
    by (subst (2) nm(1)) simp
  ultimately have "CmpFixDataMatchingTag (length A) nm c = Some (Some (length A + length (s @ close_tag nm)), ?c)"
    using nm(1) by (simp add: add.assoc)
  from body [OF _ _ this] c(1) obtain c' where "f (length A) c = Some ((Some (length A + length (s @ close_tag nm)), Some tag), c')"
    "content c' = A @ ?M @ B" "good c'" by auto
  moreover have "length ?M = length (s @ close_tag nm)" using arg_cong [OF nm(1), of length] by (simp add: close_tag_def)
  ultimately show "\<exists>M c'. f (length A) c = Some ((Some (length A + length (s @ close_tag nm)), Some tag), c') \<and>
      content c' = A @ M @ B \<and> length M = length (s @ close_tag nm) \<and> good c'" by blast
qed


lemma reads_string: "plain s \<Longrightarrow> reads CmpParseTagString (s @ close_tag string_name) (to_tag (PString s))"
proof (rule reads_leaf)
  fix A B c c1
  assume s: "plain s" and c1: "good c1" "content c1 = A @ s @ 0 # 0x2f # string_name @ B"
    "CmpFixDataMatchingTag (length A) string_name c = Some (Some (length A + length (s @ close_tag string_name)), c1)"
  obtain c2 where c2: "CmpNewTag c1 = Some (True, c2)" "good c2" "content c2 = content c1" using NewTag_text [OF c1(1)] by blast
  have "drop (length A) (content c2) = s @ 0 # 0x2f # string_name @ B" using c2(3) c1(2) by simp
  moreover obtain c3 where "CmpNewSymbol (s @ 0 # 0x2f # string_name @ B) c2 = Some (Some (s @ [0]), c3)" "good c3" "content c3 = content c2"
    using NewSymbol_text [OF c2(2), of s] s by (auto simp: plain_def)
  ultimately show "\<exists>c'. CmpParseTagString (length A) c =
      Some ((Some (length A + length (s @ close_tag string_name)), Some (to_tag (PString s))), c') \<and> content c' = content c1 \<and> good c'"
    using c1(3) c2 by (simp add: CmpParseTagString_def)
qed simp_all

lemma reads_integer: "plain s \<Longrightarrow> reads CmpParseTagInteger (s @ close_tag integer_name) (to_tag (PInteger s))"
proof (rule reads_leaf)
  fix A B c c1
  assume s: "plain s" and c1: "good c1" "content c1 = A @ s @ 0 # 0x2f # integer_name @ B"
    "CmpFixDataMatchingTag (length A) integer_name c = Some (Some (length A + length (s @ close_tag integer_name)), c1)"
  obtain c2 where c2: "CmpNewTag c1 = Some (True, c2)" "good c2" "content c2 = content c1" using NewTag_text [OF c1(1)] by blast
  obtain v where v: "atoi64 (s @ [0]) = Some v" using atoi64_ok [of "s @ [0]"] by auto
  have "atoi64 (drop (length A) (content c2)) = atoi64 (s @ 0 # 0x2f # integer_name @ B)" using c2(3) c1(2) by simp
  also have "\<dots> = Some v" using atoi64_append [of s] s v by (simp add: plain_def)
  finally have "atoi64 (drop (length A) (content c2)) = Some v" .
  then show "\<exists>c'. CmpParseTagInteger (length A) c =
      Some ((Some (length A + length (s @ close_tag integer_name)), Some (to_tag (PInteger s))), c') \<and> content c' = content c1 \<and> good c'"
    using c1(3) c2 v by (simp add: CmpParseTagInteger_def)
qed simp_all

lemma reads_date: "plain s \<Longrightarrow> reads CmpParseTagDate (s @ close_tag date_name) (to_tag (PDate s))"
proof (rule reads_leaf)
  fix A B c c1
  assume c1: "good c1" "CmpFixDataMatchingTag (length A) date_name c = Some (Some (length A + length (s @ close_tag date_name)), c1)"
  obtain c2 where "CmpNewTag c1 = Some (True, c2)" "good c2" "content c2 = content c1" using NewTag_text [OF c1(1)] by blast
  then show "\<exists>c'. CmpParseTagDate (length A) c =
      Some ((Some (length A + length (s @ close_tag date_name)), Some (to_tag (PDate s))), c') \<and> content c' = content c1 \<and> good c'"
    using c1(2) by (simp add: CmpParseTagDate_def)
qed simp_all

lemma plain64_stop: "0 \<notin> set s \<Longrightarrow> plain64 (s @ 0 # B) = plain64 s"
proof -
  assume "0 \<notin> set s"
  then have "takeWhile (\<lambda>v. v \<noteq> 0) s = s" by (auto simp: takeWhile_eq_all_conv)
  moreover from \<open>0 \<notin> set s\<close> have "takeWhile (\<lambda>v. v \<noteq> 0) (s @ 0 # B) = s" by (subst takeWhile_append2) auto
  ultimately show ?thesis unfolding plain64_def by (simp only:)
qed

lemma decode64_le: "length (decode64 (map base64_value (plain64 input))) \<le> length input"
proof -
  have "length (plain64 input) \<le> length input"
    unfolding plain64_def by (meson length_filter_le length_takeWhile_le order_trans)
  then show ?thesis using length_decode64 [of "map base64_value (plain64 input)"] by simp
qed

lemma reads_data: "plain s \<Longrightarrow> reads CmpParseTagData (s @ close_tag data_name) (to_tag (PData s))"
proof (rule reads_leaf)
  fix A B c c1
  assume s: "plain s" and c1: "good c1" "content c1 = A @ s @ 0 # 0x2f # data_name @ B"
    "CmpFixDataMatchingTag (length A) data_name c = Some (Some (length A + length (s @ close_tag data_name)), c1)"
  let ?n = "length (s @ close_tag data_name)" and ?in = "s @ 0 # 0x2f # data_name"
  let ?c1 = "c1\<lparr>pool_calls := pool_calls c1 + 1\<rparr>"
  have "good ?c1" "pool_ok c1 (pool_calls c1)" using c1(1) by (auto simp: good_def)
  moreover from this obtain c2 where c2: "CmpNewTag ?c1 = Some (True, c2)" "good c2" "content c2 = content c1"
    using NewTag_text [of ?c1] by auto
  moreover have "take ?n (drop (length A) (content c1)) = ?in"
    using c1(2) by (simp add: close_tag_def data_name_def)
  moreover have "snd (Base64Decode ?in (?n + 1)) = decode64 (map base64_value (plain64 s))"
  proof -
    have "length ?in \<le> ?n + 1" by (simp add: close_tag_def data_name_def)
    then have "length (decode64 (map base64_value (plain64 ?in))) \<le> ?n + 1" using decode64_le [of ?in] by linarith
    then have "snd (Base64Decode ?in (?n + 1)) = decode64 (map base64_value (plain64 ?in))"
      using base64_loop_decode [of "[]" ?in "?n + 1"] by (simp add: Base64Decode_def split_beta)
    then show ?thesis using plain64_stop [of s] s by (simp add: plain_def)
  qed
  ultimately show "\<exists>c'. CmpParseTagData (length A) c =
      Some ((Some (length A + ?n), Some (to_tag (PData s))), c') \<and> content c' = content c1 \<and> good c'"
    using c1(3) by (simp add: CmpParseTagData_def pool_allocate_def Let_def split_beta)
qed simp_all

section \<open>Opening tags\<close>

lemma GetNextTag_open:
  assumes "content c = A @ (sep @ 0x3c # nm @ [0x3e]) @ B" and "plain sep" and "0 \<notin> set nm" "0x3e \<notin> set nm"
  shows "CmpGetNextTag (length A) c = Some (Some (length A + length sep + 1, length A + length sep,
      length (A @ sep @ 0x3c # nm @ [0])), c\<lparr>content := (A @ sep @ 0x3c # nm @ [0]) @ B\<rparr>)"
  using GetNextTag_text [of c A sep nm B] assms by simp

lemma drop_name: "drop (length A + length sep + 1) ((A @ sep @ 0x3c # nm @ [0]) @ B) = nm @ 0 # B"
  by simp

text \<open>The parsers that the names select.\<close>

lemma classify_names:
  "classify (butlast dict_name @ 0 # B) = Some (Some Dict)" "classify (butlast array_name @ 0 # B) = Some (Some Array)"
  "classify (butlast key_name @ 0 # B) = Some (Some Key)" "classify (butlast string_name @ 0 # B) = Some (Some String)"
  "classify (butlast integer_name @ 0 # B) = Some (Some Integer)" "classify (butlast data_name @ 0 # B) = Some (Some Data)"
  "classify (butlast date_name @ 0 # B) = Some (Some Date)" "classify (butlast true_name @ 0 # B) = Some (Some True_tag)"
  "classify (butlast false_name @ 0 # B) = Some (Some False_tag)"
  "classify (0x2f # butlast dict_name @ 0 # B) = Some None" "classify (0x2f # butlast array_name @ 0 # B) = Some None"
  by (simp_all add: classify_def key_name_def string_name_def integer_name_def data_name_def date_name_def dict_name_def
      empty_dict_name_def array_name_def empty_array_name_def false_name_def true_name_def plist_name_def)

lemma parses_open:
  assumes "name_ok nm" and sep: "plain sep"
    and body: "\<And>A B c fuel. good c \<Longrightarrow> content c = A @ txt @ B \<Longrightarrow> 2 * length txt + 1 \<le> fuel \<Longrightarrow>
      \<exists>M c'. f fuel (length A) c = Some ((Some (length A + length txt), Some tag), c') \<and>
        content c' = A @ M @ B \<and> length M = length txt \<and> good c'"
    and sel: "\<And>fuel p c c1 q name start B. CmpGetNextTag p c = Some (Some (name, start, q), c1) \<Longrightarrow>
      drop name (content c1) = butlast nm @ 0 # B \<Longrightarrow> CmpParseNextTag (Suc fuel) p c = f fuel q c1"
  shows "parses (sep @ open_tag nm @ txt) tag"
  unfolding parses_def
proof (intro allI impI)
  have nm: "nm = butlast nm @ [0]" "0 \<notin> set (butlast nm)" "0x3e \<notin> set (butlast nm)" using assms(1) by (auto simp: name_ok_def)
  fix A B c fuel
  assume c: "good c" "content c = A @ (sep @ open_tag nm @ txt) @ B" and fuel: "2 * length (sep @ open_tag nm @ txt) \<le> fuel"
  let ?A = "A @ sep @ 0x3c # butlast nm @ [0]"
  let ?c = "c\<lparr>content := ?A @ (txt @ B)\<rparr>"
  have g: "CmpGetNextTag (length A) c = Some (Some (length A + length sep + 1, length A + length sep, length ?A), ?c)"
    using c(2) sep nm by (intro GetNextTag_open) (simp_all add: open_tag_def)
  obtain f' where f': "fuel = Suc f'" "2 * length txt + 1 \<le> f'" using fuel by (cases fuel) (auto simp: open_tag_def)
  have "good ?c" "content ?c = ?A @ txt @ B" using c(1) by simp_all
  from body [OF this f'(2)] obtain M c' where r: "f f' (length ?A) ?c = Some ((Some (length ?A + length txt), Some tag), c')"
    "content c' = ?A @ M @ B" "length M = length txt" "good c'" by blast
  have "CmpParseNextTag fuel (length A) c = f f' (length ?A) ?c"
    unfolding f'(1) by (rule sel [OF g]) (use drop_name [of A sep "butlast nm" "txt @ B"] in simp)
  then show "\<exists>M c'. CmpParseNextTag fuel (length A) c =
      Some ((Some (length A + length (sep @ open_tag nm @ txt)), Some tag), c') \<and>
      content c' = A @ M @ B \<and> length M = length (sep @ open_tag nm @ txt) \<and> good c'"
    using r by (intro exI [of _ "sep @ 0x3c # butlast nm @ 0 # M"] exI [of _ c']) (simp add: open_tag_def add.assoc)
qed

lemma parses_leaf:
  assumes "name_ok nm" and "plain sep" and "reads f txt tag"
    and "\<And>fuel p c c1 q name start B. CmpGetNextTag p c = Some (Some (name, start, q), c1) \<Longrightarrow>
      drop name (content c1) = butlast nm @ 0 # B \<Longrightarrow> CmpParseNextTag (Suc fuel) p c = f q c1"
  shows "parses (sep @ open_tag nm @ txt) tag"
  by (rule parses_open [where f = "\<lambda>_. f"]) (use assms in \<open>auto simp: reads_def\<close>)

lemma reads_boolean: "reads (\<lambda>p c. CmpParseTagBoolean p ty c) [] (XML_TAG ty None 0 None [])"
  unfolding reads_def
proof (intro allI impI)
  fix A B c assume "good c" "content c = A @ [] @ B"
  moreover from this obtain c' where "CmpNewTag c = Some (True, c')" "good c'" "content c' = content c" using NewTag_text by blast
  ultimately show "\<exists>M c'. CmpParseTagBoolean (length A) ty c = Some ((Some (length A + length []), Some (XML_TAG ty None 0 None [])), c') \<and>
      content c' = A @ M @ B \<and> length M = length [] \<and> good c'"
    by (auto simp: CmpParseTagBoolean_def)
qed

section \<open>Lists\<close>

text \<open>An end tag behind the separator ends the list.\<close>

lemma list_end:
  assumes "good c" and "content c = A @ (sep @ close_tag nm) @ B" and "plain sep" and "name_ok nm"
    and "\<And>B. classify (0x2f # butlast nm @ 0 # B) = Some None"
  shows "\<exists>M c'. CmpParseTagList (Suc (Suc fuel)) (length A) ts ty c =
      Some ((Some (length A + length (sep @ close_tag nm)), Some (XML_TAG ty None 0 None ts)), c') \<and>
      content c' = A @ M @ B \<and> length M = length (sep @ close_tag nm) \<and> good c'"
proof -
  let ?M = "sep @ 0x3c # (0x2f # butlast nm) @ [0]"
  let ?c = "c\<lparr>content := (A @ ?M) @ B\<rparr>"
  have "CmpGetNextTag (length A) c = Some (Some (length A + length sep + 1, length A + length sep, length (A @ ?M)), ?c)"
    using assms(2-4) by (intro GetNextTag_open) (auto simp: close_tag_def name_ok_def)
  moreover have "drop (length A + length sep + 1) (content ?c) = 0x2f # butlast nm @ 0 # B"
    using drop_name [of A sep "0x2f # butlast nm" B] by simp
  ultimately have "CmpParseNextTag (Suc fuel) (length A) c = Some ((Some (length (A @ ?M)), None), ?c)"
    using assms(5) [of B] by simp
  moreover obtain c' where "CmpNewTag ?c = Some (True, c')" "good c'" "content c' = content ?c"
    using NewTag_text [of ?c] assms(1) by auto
  ultimately show ?thesis by (intro exI [of _ ?M] exI [of _ c']) (simp add: close_list_def close_tag_def)
qed

lemma list_items:
  assumes "list_all2 parses txts tags" and "[] \<notin> set txts" and "plain sep" and "name_ok nm"
    and "\<And>B. classify (0x2f # butlast nm @ 0 # B) = Some None"
    and "good c" and "content c = A @ (concat txts @ sep @ close_tag nm) @ B"
    and "2 * length (concat txts @ sep @ close_tag nm) + 1 \<le> fuel"
  shows "\<exists>M c'. CmpParseTagList fuel (length A) ts ty c =
      Some ((Some (length A + length (concat txts @ sep @ close_tag nm)), Some (XML_TAG ty None 0 None (ts @ tags))), c') \<and>
      content c' = A @ M @ B \<and> length M = length (concat txts @ sep @ close_tag nm) \<and> good c'"
  using assms(1,2,6-8)
proof (induction txts tags arbitrary: A c fuel ts rule: list_all2_induct)
  case Nil
  obtain f where "fuel = Suc (Suc f)" using Nil(4) that [of "fuel - 2"] by (auto simp: close_tag_def)
  then show ?case using list_end [OF Nil(2) _ assms(3,4,5)] Nil(3) by auto
next
  case (Cons x txts tag tags)
  let ?rest = "concat txts @ sep @ close_tag nm"
  have c: "good c" "content c = A @ x @ (?rest @ B)" using Cons.prems by simp_all
  have "x \<noteq> []" using Cons.prems(1) by auto
  then obtain f where f: "fuel = Suc f" "2 * length x \<le> f" "2 * length ?rest + 1 \<le> f"
    using Cons.prems(4) by (cases fuel) (auto simp: neq_Nil_conv)
  obtain M c1 where M: "CmpParseNextTag f (length A) c = Some ((Some (length A + length x), Some tag), c1)"
    "content c1 = A @ M @ (?rest @ B)" "length M = length x" "good c1"
    using Cons.hyps(1) c f(2) unfolding parses_def by blast
  have "content c1 = (A @ M) @ ?rest @ B" using M(2) by simp
  then obtain N c2 where N: "CmpParseTagList f (length (A @ M)) (ts @ [tag]) ty c1 =
      Some ((Some (length (A @ M) + length ?rest), Some (XML_TAG ty None 0 None ((ts @ [tag]) @ tags))), c2)"
      "content c2 = (A @ M) @ N @ B" "length N = length ?rest" "good c2"
    using Cons.IH [of c1 "A @ M" f "ts @ [tag]"] M(4) f(3) Cons.prems(1) by auto
  have "CmpParseTagList fuel (length A) ts ty c = CmpParseTagList f (length (A @ M)) (ts @ [tag]) ty c1"
    using f(1) M(1,3) by simp
  then show ?case using N M(3) by (intro exI [of _ "M @ N"] exI [of _ c2]) (simp add: add.assoc)
qed

lemma parses_list:
  assumes "list_all2 parses txts tags" and "[] \<notin> set txts" and "plain sep"
    and "(nm, ty) = (dict_name, XML_TAG_DICT) \<or> (nm, ty) = (array_name, XML_TAG_ARRAY)"
  shows "parses (sep @ open_tag nm @ concat txts @ sep @ close_tag nm) (XML_TAG ty None 0 None tags)"
proof -
  have nm: "name_ok nm" and cl: "\<And>B. classify (0x2f # butlast nm @ 0 # B) = Some None"
    using assms(4) classify_names(10,11) by auto
  have "parses (sep @ open_tag nm @ (concat txts @ sep @ close_tag nm)) (XML_TAG ty None 0 None tags)"
  proof (rule parses_open [OF nm assms(3), where f = "\<lambda>fuel p c. CmpParseTagList fuel p [] ty c"])
    fix A B c fuel
    assume "good c" "content c = A @ (concat txts @ sep @ close_tag nm) @ B" "2 * length (concat txts @ sep @ close_tag nm) + 1 \<le> fuel"
    from list_items [OF assms(1-3) nm cl this, of "[]" ty]
    show "\<exists>M c'. CmpParseTagList fuel (length A) [] ty c =
        Some ((Some (length A + length (concat txts @ sep @ close_tag nm)), Some (XML_TAG ty None 0 None tags)), c') \<and>
        content c' = A @ M @ B \<and> length M = length (concat txts @ sep @ close_tag nm) \<and> good c'" by simp
  next
    fix fuel p c c1 q name start B
    assume "CmpGetNextTag p c = Some (Some (name, start, q), c1)" "drop name (content c1) = butlast nm @ 0 # B"
    then show "CmpParseNextTag (Suc fuel) p c = CmpParseTagList fuel q [] ty c1"
      using assms(4) by (elim disjE) (simp_all add: classify_names)
  qed
  then show ?thesis by simp
qed

section \<open>Keys\<close>

lemma parses_key:
  assumes "parses v tag" and "plain k" and "plain sep"
  shows "parses (sep @ open_tag key_name @ k @ close_tag key_name @ v) (XML_TAG XML_TAG_KEY (Some (k @ [0])) 0 None [tag])"
proof -
  let ?txt = "k @ close_tag key_name @ v" and ?tag = "XML_TAG XML_TAG_KEY (Some (k @ [0])) 0 None [tag]"
  have "parses (sep @ open_tag key_name @ ?txt) ?tag"
  proof (rule parses_open [OF _ assms(3), where f = CmpParseTagKey])
    fix A B c fuel
    assume c: "good c" "content c = A @ ?txt @ B" and fuel: "2 * length ?txt + 1 \<le> fuel"
    let ?nm = "butlast key_name" and ?M = "k @ 0 # 0x2f # key_name"
    have kn: "?nm @ [0] = key_name" "0 \<notin> set ?nm" "0x3e \<notin> set ?nm" using names_ok(1) by (simp_all add: name_ok_def)
    let ?c = "c\<lparr>content := (A @ ?M) @ (v @ B)\<rparr>"
    have len: "length ?M = length (k @ close_tag key_name)" by (simp add: close_tag_def key_name_def)
    have "CmpFixDataMatchingTag (length A) (?nm @ [0]) c = Some (Some (length A + length k + length (close_tag (?nm @ [0]))),
        c\<lparr>content := A @ k @ 0 # 0x2f # ?nm @ 0 # (v @ B)\<rparr>)"
      using c(2) assms(2) kn by (intro FixData_text) simp_all
    moreover have "A @ k @ 0 # 0x2f # ?nm @ 0 # (v @ B) = (A @ ?M) @ (v @ B)" by (simp add: key_name_def)
    ultimately have g: "CmpFixDataMatchingTag (length A) key_name c = Some (Some (length (A @ ?M)), ?c)"
      unfolding kn(1) using len by simp
    obtain f where f: "fuel = Suc f" "2 * length v \<le> f" using fuel by (cases fuel) auto
    have "good ?c" "content ?c = (A @ ?M) @ v @ B" using c(1) by simp_all
    then obtain N c1 where N: "CmpParseNextTag f (length (A @ ?M)) ?c = Some ((Some (length (A @ ?M) + length v), Some tag), c1)"
      "content c1 = (A @ ?M) @ N @ B" "length N = length v" "good c1"
      using assms(1) f(2) unfolding parses_def by blast
    obtain c2 where c2: "CmpNewTag c1 = Some (True, c2)" "good c2" "content c2 = content c1" using NewTag_text [OF N(4)] by blast
    have d: "drop (length A) (content c2) = k @ 0 # (0x2f # key_name @ N @ B)" using c2(3) N(2) by simp
    obtain c3 where c3: "CmpNewSymbol (k @ 0 # (0x2f # key_name @ N @ B)) c2 = Some (Some (k @ [0]), c3)" "good c3" "content c3 = content c2"
      using NewSymbol_text [OF c2(2), of k] assms(2) by (auto simp: plain_def)
    have "CmpParseTagKey fuel (length A) c = Some ((Some (length A + length ?txt), Some ?tag), c3)"
      unfolding f(1) using g N(1) c2(1) c3(1) d len by (simp add: close_key_def)
    then show "\<exists>M c'. CmpParseTagKey fuel (length A) c = Some ((Some (length A + length ?txt), Some ?tag), c') \<and>
        content c' = A @ M @ B \<and> length M = length ?txt \<and> good c'"
      using c3 c2(3) N(2,3) len by (intro exI [of _ "?M @ N"] exI [of _ c3]) simp
  qed (simp_all add: classify_names)
  then show ?thesis by simp
qed

section \<open>Property lists\<close>

lemma render_nonempty [simp]: "render sep v \<noteq> []" "[] \<noteq> render sep v"
  by (cases v; simp add: open_tag_def)+

lemma parses_render: "plain sep \<Longrightarrow> plist_ok v \<Longrightarrow> parses (render sep v) (to_tag v)"
proof (induction sep v rule: render.induct)
  case (1 sep s)
  then show ?case unfolding render.simps by (intro parses_leaf [OF _ _ reads_string]) (simp_all add: classify_names)
next
  case (2 sep s)
  then show ?case unfolding render.simps by (intro parses_leaf [OF _ _ reads_integer]) (simp_all add: classify_names)
next
  case (3 sep s)
  then show ?case unfolding render.simps by (intro parses_leaf [OF _ _ reads_data]) (simp_all add: classify_names)
next
  case (4 sep s)
  then show ?case unfolding render.simps by (intro parses_leaf [OF _ _ reads_date]) (simp_all add: classify_names)
next
  case (5 sep)
  have "parses (sep @ open_tag true_name @ []) (to_tag PTrue)"
    unfolding to_tag.simps by (rule parses_leaf [OF _ 5(1) reads_boolean]) (simp_all add: classify_names)
  then show ?case by simp
next
  case (6 sep)
  have "parses (sep @ open_tag false_name @ []) (to_tag PFalse)"
    unfolding to_tag.simps by (rule parses_leaf [OF _ 6(1) reads_boolean]) (simp_all add: classify_names)
  then show ?case by simp
next
  case (7 sep vs)
  have "list_all2 parses (map (render sep) vs) (map to_tag vs)"
    using 7 by (auto simp: list_all2_conv_all_nth)
  from parses_list [OF this _ 7(2), of array_name XML_TAG_ARRAY] show ?case by (auto simp: image_iff)
next
  case (8 sep kvs)
  let ?txts = "map (\<lambda>(k, v). sep @ open_tag key_name @ k @ close_tag key_name @ render sep v) kvs"
  have "list_all2 parses ?txts (map (\<lambda>(k, v). XML_TAG XML_TAG_KEY (Some (k @ [0])) 0 None [to_tag v]) kvs)"
    unfolding list_all2_map1 list_all2_map2
  proof (rule list_all2_same [THEN iffD2], rule ballI)
    fix x assume x: "x \<in> set kvs"
    obtain k v where kv: "x = (k, v)" by (cases x)
    have "plain k" "plist_ok v" using 8(3) x kv by auto
    then have "parses (render sep v) (to_tag v)" using 8(1) [OF x kv [symmetric]] 8(2) by blast
    from parses_key [OF this \<open>plain k\<close> 8(2)]
    show "parses (case x of (k, v) \<Rightarrow> sep @ open_tag key_name @ k @ close_tag key_name @ render sep v)
      (case x of (k, v) \<Rightarrow> XML_TAG XML_TAG_KEY (Some (k @ [0])) 0 None [to_tag v])" using kv by simp
  qed
  from parses_list [OF this _ 8(2), of dict_name XML_TAG_DICT] show ?case
    by (simp add: open_tag_def image_iff case_prod_beta)
qed

section \<open>Files\<close>

text \<open>Tags in front of the list: processing instructions, document types, the opening plist tag, comments.\<close>

definition skipped :: "u8 list \<Rightarrow> bool" where
  "skipped n \<longleftrightarrow> 0 \<notin> set n \<and> 0x3e \<notin> set n \<and> classify (n @ [0]) \<in> {Some None, Some (Some Plist)}"

definition prologue :: "u8 list \<Rightarrow> u8 list list \<Rightarrow> u8 list" where
  "prologue sep ns = concat (map (\<lambda>n. sep @ 0x3c # n @ [0x3e]) ns)"

lemma strcmp_stop: "0 \<notin> set n \<Longrightarrow> strcmp (n @ 0 # B) t = strcmp (n @ [0]) t"
proof (induction n arbitrary: t)
  case Nil
  then show ?case by (cases t) auto
next
  case (Cons a n)
  then show ?case by (cases t) auto
qed

lemma strnicmp_stop: "0 \<notin> set n \<Longrightarrow> strnicmp (n @ 0 # B) t k = strnicmp (n @ [0]) t k"
proof (induction n arbitrary: t k)
  case Nil
  then show ?case by (cases t) auto
next
  case (Cons a n)
  then show ?case by (cases t) auto
qed

lemma match_name_stop: "0 \<notin> set n \<Longrightarrow> match_name names (n @ 0 # B) = match_name names (n @ [0])"
  by (induction names) (auto simp: strcmp_stop [of n B] split: option.splits)

lemma classify_stop: "0 \<notin> set n \<Longrightarrow> classify (n @ 0 # B) = classify (n @ [0])"
  unfolding classify_def by (subst strnicmp_stop, assumption, subst match_name_stop, assumption) (rule refl)

lemma xml_loop_prologue:
  assumes "plain sep" and "\<forall>n \<in> set ns. skipped n" and "parses txt t" and "Type t = XML_TAG_DICT"
    and "good c" and "content c = A @ prologue sep ns @ txt @ B" and "length ns < tries" and "2 * length txt \<le> fuel" and "0 < fuel"
  shows "\<exists>c'. xml_loop tries fuel (length A) c = Some (Some t, c') \<and> good c'"
  using assms(2,5-7)
proof (induction ns arbitrary: A c tries)
  case Nil
  obtain tr where "tries = Suc tr" using Nil(4) by (cases tries) auto
  then show ?case using Nil(2,3) assms(3,4,8) by (fastforce simp: prologue_def parses_def)
next
  case (Cons n ns)
  let ?A = "A @ sep @ 0x3c # n @ [0]"
  let ?c = "c\<lparr>content := ?A @ (prologue sep ns @ txt @ B)\<rparr>"
  obtain tr where tr: "tries = Suc tr" "length ns < tr" using Cons.prems(4) by (cases tries) auto
  obtain f where f: "fuel = Suc f" using assms(9) by (cases fuel) auto
  have n: "0 \<notin> set n" "0x3e \<notin> set n" "classify (n @ [0]) \<in> {Some None, Some (Some Plist)}"
    using Cons.prems(1) by (auto simp: skipped_def)
  have g: "CmpGetNextTag (length A) c = Some (Some (length A + length sep + 1, length A + length sep, length ?A), ?c)"
    using Cons.prems(3) assms(1) n by (intro GetNextTag_open) (simp_all add: prologue_def)
  have d: "drop (length A + length sep + 1) (content ?c) = n @ 0 # (prologue sep ns @ txt @ B)"
    using drop_name [of A sep n] by simp
  have "CmpParseNextTag fuel (length A) c = Some ((Some (length ?A), None), ?c)"
    using g d n(3) classify_stop [OF n(1), of "prologue sep ns @ txt @ B"] f by auto
  moreover have "\<exists>c'. xml_loop tr fuel (length ?A) ?c = Some (Some t, c') \<and> good c'"
    using Cons.prems(1,2) tr(2) by (intro Cons.IH) simp_all
  ultimately show ?case unfolding tr(1) by simp
qed

lemma CmParseXmlFile_dict:
  assumes "plain sep" and "\<forall>n \<in> set ns. skipped n" and "plist_ok (PDict kvs)" and "good c"
  shows "\<exists>c'. CmParseXmlFile (prologue sep ns @ render sep (PDict kvs) @ rest) rootTag c =
      Some ((EFI_SUCCESS, Some (to_tag (PDict kvs))), c') \<and>
    (\<not> rootTag \<longrightarrow> CmpConfigPlistTag c' = Some (to_tag (PDict kvs)))"
proof -
  let ?txt = "render sep (PDict kvs)" and ?t = "to_tag (PDict kvs)"
  let ?file = "prologue sep ns @ ?txt @ rest"
  let ?c = "(if rootTag then c else c\<lparr>CmpConfigPlistTag := None\<rparr>)\<lparr>content := ?file\<rparr>"
  let ?n = "2 * length ?file + 2"
  have p: "parses ?txt ?t" using assms(1,3) by (rule parses_render)
  have "good ?c" using assms(4) by (simp add: good_def)
  moreover have "length ns < ?n"
  proof -
    have "length ns \<le> length (prologue sep ns)" by (induction ns) (auto simp: prologue_def)
    then show ?thesis by simp
  qed
  ultimately obtain c' where "xml_loop ?n ?n (length []) ?c = Some (Some ?t, c')" "good c'"
    using xml_loop_prologue [OF assms(1,2) p, of ?c "[]" rest ?n ?n] by (auto simp del: render.simps)
  then show ?thesis unfolding CmParseXmlFile_def Let_def by (simp del: render.simps xml_loop.simps)
qed

end
