(* ===== verification/ConfigCommand.thy ===== *)
theory ConfigCommand
  imports Config
begin

text \<open>
  Looking up a key in the kernel command line: the search through the tokens is the lookup in
  the list of options that the command line spells.
\<close>

section \<open>Command lines\<close>

text \<open>An option is a name, or a name and a value, after some white space.\<close>

type_synonym cmd_option = "u8 list \<times> u8 list \<times> u8 list option"

fun option_text :: "cmd_option \<Rightarrow> u8 list" where
  "option_text (blanks, k, None) = blanks @ k"
| "option_text (blanks, k, Some v) = blanks @ k @ 0x3d # v"

definition word_char :: "u8 \<Rightarrow> bool" where
  "word_char ch \<longleftrightarrow> ch \<noteq> 0 \<and> \<not> isspace ch \<and> ch \<noteq> 0x3d \<and> ch \<noteq> 0x22"

fun option_ok :: "cmd_option \<Rightarrow> bool" where
  "option_ok (blanks, k, v) \<longleftrightarrow> (\<forall>ch \<in> set blanks. isspace ch) \<and> k \<noteq> [] \<and> (\<forall>ch \<in> set k. word_char ch) \<and>
     (\<forall>ch \<in> set (case v of None \<Rightarrow> [] | Some v \<Rightarrow> v). word_char ch)"

definition cmdline_text :: "cmd_option list \<Rightarrow> u8 list" where
  "cmdline_text os = concat (map option_text os) @ [0]"

definition cmdline_ok :: "cmd_option list \<Rightarrow> bool" where
  "cmdline_ok os \<longleftrightarrow> (\<forall>p \<in> set os. option_ok p) \<and> (\<forall>p \<in> set (tl os). fst p \<noteq> [])"

text \<open>The first option with the name, by folded characters; an option without a value has the empty one.\<close>

fun cmd_lookup :: "u8 list \<Rightarrow> cmd_option list \<Rightarrow> u8 list option" where
  "cmd_lookup key [] = None"
| "cmd_lookup key ((_, k, v) # os) =
     (if map fold20 k = map fold20 key then Some (case v of None \<Rightarrow> [] | Some v \<Rightarrow> v) else cmd_lookup key os)"

section \<open>Tokens\<close>

lemma in_set_tl: "x \<in> set (tl xs) \<Longrightarrow> x \<in> set xs"
  by (cases xs) auto

text \<open>What follows an option: the terminator or the white space of the next one.\<close>

definition at_end :: "u8 list \<Rightarrow> bool" where
  "at_end r \<longleftrightarrow> (\<exists>ch t. r = ch # t \<and> (ch = 0 \<or> isspace ch))"

lemma token_length_append:
  "\<forall>ch \<in> set w. ch \<noteq> 0 \<and> \<not> stop ch \<Longrightarrow> x = 0 \<or> stop x \<Longrightarrow> token_length stop (w @ x # r) = Some (length w)"
  by (induction w) auto

lemma skip_blanks_append: "\<forall>ch \<in> set b. isspace ch \<Longrightarrow> skip_blanks (b @ s) = skip_blanks s"
  by (induction b) auto

lemma CmpGetToken_word:
  assumes "\<forall>ch \<in> set w. word_char ch" and "x = 0 \<or> isspace x \<or> x = 0x3d"
  shows "CmpGetToken (w @ x # r) = Some (w @ x # r, length w)"
proof -
  have "token_length (\<lambda>ch. isspace ch \<or> ch = 0x3d) (w @ x # r) = Some (length w)"
    using assms by (intro token_length_append) (auto simp: word_char_def)
  moreover have "hd (w @ x # r) \<noteq> 0x22" using assms by (cases w) (auto simp: word_char_def isspace_def)
  ultimately show ?thesis by (cases "w @ x # r") (auto simp: CmpGetToken_def)
qed

lemma option_text_head: "option_ok p \<Longrightarrow> \<exists>ch t. option_text p = ch # t \<and> ch \<noteq> 0"
proof -
  assume p: "option_ok p"
  obtain b k v where q: "p = (b, k, v)" by (cases p)
  obtain ch t where t: "b @ k = ch # t" using p q by (cases "b @ k") auto
  then have "ch \<in> set b \<union> set k" by (cases b) auto
  then have "ch \<noteq> 0" using p q by (auto simp: word_char_def isspace_def)
  then show ?thesis using t q by (cases v) (auto simp flip: append_assoc)
qed

lemma next_pair_option:
  assumes "option_ok (b, k, v)" and "at_end r"
  shows "\<exists>t. next_pair (option_text (b, k, v) @ r) =
    Some (k @ t, length k, (case v of None \<Rightarrow> [] | Some v \<Rightarrow> v) @ r, length (case v of None \<Rightarrow> [] | Some v \<Rightarrow> v), r) \<and>
    t \<noteq> []"
proof -
  obtain ch u where r: "r = ch # u" "ch = 0 \<or> isspace ch" using assms(2) by (auto simp: at_end_def)
  obtain a k' where k: "k = a # k'" "\<forall>ch \<in> set k. word_char ch" using assms(1) by (cases k) auto
  have s: "skip_blanks (b @ k @ t) = Some (k @ t)" for t
    using assms(1) k by (simp add: skip_blanks_append word_char_def)
  show ?thesis
  proof (cases v)
    case None
    have "CmpGetToken (k @ r) = Some (k @ r, length k)" using CmpGetToken_word [OF k(2)] r by auto
    then show ?thesis using None s [of r] r by (intro exI [of _ r]) (auto simp: next_pair_def Let_def)
  next
    case (Some w)
    have w: "\<forall>ch \<in> set w. word_char ch" using assms(1) Some by simp
    have "CmpGetToken (k @ 0x3d # w @ r) = Some (k @ 0x3d # w @ r, length k)" using CmpGetToken_word [OF k(2)] by auto
    moreover have "CmpGetToken (w @ r) = Some (w @ r, length w)" using CmpGetToken_word [OF w] r by auto
    moreover have "\<not> isspace (0x3d :: u8)" by (simp add: isspace_def)
    ultimately show ?thesis using Some s [of "0x3d # w @ r"] by (simp add: next_pair_def Let_def)
  qed
qed

section \<open>The search\<close>

lemma bit32: "bit (0x20 :: u8) n \<longleftrightarrow> n = 5"
  using bit_exp_iff [of 5 n, where 'a = "8 word"] by auto

lemma fold20_word: "word_char ch \<Longrightarrow> fold20 ch \<noteq> 0x20"
proof
  assume ch: "word_char ch" and "fold20 ch = 0x20"
  moreover have "ch AND (ch OR 0x20) = ch" by (rule bit_word_eqI) (auto simp: bit_and_iff bit_or_iff)
  ultimately have "ch = ch AND 0x20" by (simp add: fold20_def)
  also have "\<dots> = (if bit ch 5 then 2 ^ 5 else 0)"
    by (rule bit_word_eqI) (auto simp: bit_and_iff bit32 simp del: bit_numeral_word_iff)
  finally show False using ch by (auto simp: word_char_def isspace_def split: if_splits)
qed

lemma key_differs_step:
  assumes "a \<noteq> 0" and "b \<noteq> 0"
  shows "key_differs (a # s) (b # u) (Suc n) = (if fold20 a = fold20 b then key_differs s u n else Some True)"
proof -
  have "uint (a OR 0x20) - uint (b OR 0x20) = 0 \<longleftrightarrow> fold20 a = fold20 b" by (simp add: fold20_def word_uint_eq_iff)
  then show ?thesis using assms by (cases "strnicmp s u n") (simp_all add: key_differs_def Let_def)
qed

lemma key_differs_fold:
  assumes "\<forall>ch \<in> set key. word_char ch" and "\<forall>ch \<in> set k. word_char ch" and "t \<noteq> []"
  shows "key_differs (key @ [0]) (k @ t) (length k) = Some (map fold20 k \<noteq> map fold20 key)"
  using assms
proof (induction key arbitrary: k)
  case Nil
  show ?case
  proof (cases k)
    case Nil
    obtain x u where "t = x # u" using assms(3) by (cases t) auto
    then show ?thesis using Nil by (simp add: key_differs_def)
  next
    case (Cons b k')
    then have "fold20 b \<noteq> 0x20" using Nil.prems fold20_word by auto
    then have "uint (0 OR 0x20 :: u8) - uint (b OR 0x20) \<noteq> 0" by (auto simp: fold20_def word_uint_eq_iff)
    then show ?thesis using Cons by (simp add: key_differs_def)
  qed
next
  case (Cons a key)
  show ?case
  proof (cases k)
    case Nil
    obtain x u where "t = x # u" using assms(3) by (cases t) auto
    then show ?thesis using Nil Cons.prems(1) by (simp add: key_differs_def word_char_def)
  next
    case k: (Cons b k')
    have "a \<noteq> 0" "b \<noteq> 0" using Cons.prems(1,2) k by (auto simp: word_char_def)
    then show ?thesis using Cons.IH [of k'] Cons.prems k key_differs_step [of a b "key @ [0]" "k' @ t" "length k'"] by auto
  qed
qed

lemma command_lookup:
  assumes "\<forall>ch \<in> set key. word_char ch" and "key \<noteq> []" and "cmdline_ok os"
  shows "case cmd_lookup key os of None \<Rightarrow> CmpGetCommandStringValueForKey (key @ [0]) (cmdline_text os) = Some None
    | Some v \<Rightarrow> \<exists>t. CmpGetCommandStringValueForKey (key @ [0]) (cmdline_text os) = Some (Some (v @ t, length v))"
  using assms(3)
proof (induction os)
  case Nil
  then show ?case by (simp add: cmdline_text_def CmpGetCommandStringValueForKey.simps)
next
  case (Cons p os)
  obtain b k v where p: "p = (b, k, v)" by (cases p)
  let ?v = "case v of None \<Rightarrow> [] | Some v \<Rightarrow> v"
  have ok: "option_ok (b, k, v)" "cmdline_ok os"
    using Cons.prems p by (auto simp: cmdline_ok_def dest: in_set_tl)
  have "at_end (cmdline_text os)"
  proof (cases os)
    case (Cons q qs)
    obtain b' k' v' where q: "q = (b', k', v')" by (cases q)
    then have "b' \<noteq> []" "\<forall>ch \<in> set b'. isspace ch" using Cons.prems Cons by (auto simp: cmdline_ok_def)
    then show ?thesis using Cons q by (cases b'; cases v') (auto simp: at_end_def cmdline_text_def)
  qed (simp add: at_end_def cmdline_text_def)
  from next_pair_option [OF ok(1) this] obtain t where t: "next_pair (cmdline_text (p # os)) =
      Some (k @ t, length k, ?v @ cmdline_text os, length ?v, cmdline_text os)" "t \<noteq> []"
    using p by (auto simp: cmdline_text_def)
  have d: "key_differs (key @ [0]) (k @ t) (length k) = Some (map fold20 k \<noteq> map fold20 key)"
    using key_differs_fold [OF assms(1) _ t(2), of k] ok(1) by simp
  have ne: "cmdline_text (p # os) \<noteq> []" "hd (cmdline_text (p # os)) \<noteq> 0"
    using option_text_head [OF ok(1)] p by (auto simp: cmdline_text_def)
  show ?case using t(1) d ne p Cons.IH [OF ok(2)]
    by (subst (1 2) CmpGetCommandStringValueForKey.simps) (auto split: option.splits)
qed

end
