(* ===== verification/ConfigProps.thy ===== *)
theory ConfigProps
  imports ConfigTrip ConfigCommand
begin

text \<open>
  What the configuration component promises: the parser is safe on every text, it reads back what a
  property list printer writes, and options are looked up in the command line first and in the
  parsed file then.
\<close>

section \<open>Lookup in parsed dictionaries\<close>

lemma strcmp_terminated:
  assumes "0 \<notin> set s" and "0 \<notin> set t"
  shows "\<exists>v. strcmp (s @ [0]) (t @ [0]) = Some v \<and> (v = 0 \<longleftrightarrow> s = t)"
  using strcmp_sign [of "s @ [0]" "t @ [0]"] assms by auto

lemma find_key_map:
  assumes "0 \<notin> set key" and "\<forall>(k, v) \<in> set kvs. plain k"
  shows "find_key (key @ [0]) (map (\<lambda>(k, v). XML_TAG XML_TAG_KEY (Some (k @ [0])) 0 None [to_tag v]) kvs) =
    Some (case map_of kvs key of None \<Rightarrow> [] | Some v \<Rightarrow> [to_tag v])"
  using assms(2)
proof (induction kvs)
  case (Cons p kvs)
  obtain k v where p: "p = (k, v)" by (cases p)
  have "0 \<notin> set k" using Cons.prems p by (auto simp: plain_def)
  then obtain d where "strcmp (k @ [0]) (key @ [0]) = Some d" "d = 0 \<longleftrightarrow> k = key"
    using strcmp_terminated [OF _ assms(1)] by blast
  then show ?case using Cons p by auto
qed simp

lemma lookup_dict:
  assumes "0 \<notin> set key" and "plist_ok (PDict kvs)"
  shows "CmGetTagValueForKey (Some (to_tag (PDict kvs))) (key @ [0]) =
    Some (case map_of kvs key of None \<Rightarrow> [] | Some v \<Rightarrow> [to_tag v])"
  using find_key_map [OF assms(1), of kvs] assms(2) by (auto simp: CmGetTagValueForKey_def)

text \<open>The string that a value holds, with its length.\<close>

fun string_of :: "plist option \<Rightarrow> u8 list option \<times> nat" where
  "string_of (Some (PString s)) = (Some (s @ [0]), length s)"
| "string_of _ = (None, 0)"

lemma lookup_string:
  assumes "0 \<notin> set key" and "plist_ok (PDict kvs)" and "CmpConfigPlistTag c = Some (to_tag (PDict kvs))"
  shows "CmGetStringValueForKey None (key @ [0]) c = Some (string_of (map_of kvs key))"
proof (cases "map_of kvs key")
  case None
  then show ?thesis using lookup_dict [OF assms(1,2)] assms(3) by (simp add: CmGetStringValueForKey_def)
next
  case (Some v)
  then have "plist_ok v" using assms(2) map_of_SomeD [OF Some] by auto
  then have "strlen (s @ [0]) = Some (length s)" if "v = PString s" for s
    using strlen_c_str [of "s @ [0]"] that by (simp add: plain_def)
  then show ?thesis using lookup_dict [OF assms(1,2)] assms(3) Some
    by (cases v) (simp_all add: CmGetStringValueForKey_def)
qed

text \<open>The state before anything has been parsed, with a pool that has memory.\<close>

definition fresh_config :: config where
  "fresh_config = \<lparr>content = [], CmpConfigPlistTag = None, free_tags = Some 0, CmpSymbolsHead = [],
     pool_ok = (\<lambda>_. True), pool_calls = 0, pool_frees = 0\<rparr>"

lemma CmParseXmlFile_ends:
  assumes "fileBuffer \<noteq> []" and "last fileBuffer = 0" and "free_tags c \<noteq> None"
    and "\<forall>s \<in> set (CmpSymbolsHead c). 0 \<in> set (StringBuffer s)"
  shows "\<exists>status t c'. CmParseXmlFile fileBuffer rootTag c = Some ((status, t), c') \<and>
    (status = EFI_SUCCESS \<and> (\<exists>u. t = Some u \<and> Type u = XML_TAG_DICT \<and> tag_ok u) \<or> status = EFI_INVALID_PARAMETER \<and> t = None) \<and>
    length (content c') = length fileBuffer \<and>
    (free_tags c' = None \<longrightarrow> status = EFI_INVALID_PARAMETER \<and> (\<exists>n. pool_calls c \<le> n \<and> n < pool_calls c' \<and> \<not> pool_ok c n))"
proof -
  let ?c = "(if rootTag then c else c\<lparr>CmpConfigPlistTag := None\<rparr>)\<lparr>content := fileBuffer\<rparr>"
  let ?n = "2 * length fileBuffer + 2"
  have c: "cfg_ok ?c" "free_tags ?c \<noteq> None" "pool_calls ?c = pool_calls c" "pool_ok ?c = pool_ok c"
    using assms by (simp_all add: cfg_ok_def cfg_part_def)
  then obtain t c' where "xml_loop ?n ?n 0 ?c = Some (t, c')" and s: "step_ok ?c c'"
    and "\<forall>u. t = Some u \<longrightarrow> tag_ok u \<and> Type u = XML_TAG_DICT \<and> free_tags c' \<noteq> None"
    using xml_loop_ok [of ?c 0 ?n ?n] assms(1) by auto
  moreover have "free_tags c' = None \<longrightarrow> (\<exists>n. pool_calls c \<le> n \<and> n < pool_calls c' \<and> \<not> pool_ok c n)" "length (content c') = length fileBuffer"
    using s c(2-4) by (auto simp: step_ok_def alloc_failed_def)
  ultimately show ?thesis unfolding CmParseXmlFile_def Let_def by (cases t) auto
qed

section \<open>Properties\<close>

text \<open>
  C6. Whatever the text of a configuration file is, as long as it is terminated, and whichever allocations fail: CmParseXmlFile
  ends, reads and writes only inside the text, and answers EFI_SUCCESS with a dictionary or
  EFI_INVALID_PARAMETER without one; all strings of the result are terminated. The list of free tags, intact before, is
  intact afterwards, unless an allocation of this call has failed, and then the answer is EFI_INVALID_PARAMETER. (The symbols that are there before are
  terminated.)
\<close>

theorem CmParseXmlFile_safe:
  assumes "fileBuffer \<noteq> []" and "last fileBuffer = 0" and "free_tags c \<noteq> None"
    and "\<forall>s \<in> set (CmpSymbolsHead c). 0 \<in> set (StringBuffer s)"
  shows "\<exists>status t c'. CmParseXmlFile fileBuffer rootTag c = Some ((status, t), c') \<and>
    (status = EFI_SUCCESS \<and> (\<exists>u. t = Some u \<and> Type u = XML_TAG_DICT \<and> tag_ok u) \<or> status = EFI_INVALID_PARAMETER \<and> t = None) \<and>
    length (content c') = length fileBuffer \<and>
    (free_tags c' = None \<longrightarrow> status = EFI_INVALID_PARAMETER \<and> (\<exists>n. pool_calls c \<le> n \<and> n < pool_calls c' \<and> \<not> pool_ok c n))"
  by (rule CmParseXmlFile_ends [OF assms])

theorem CmParseXmlFile_safe_witness:
  "\<exists>status t c'. CmParseXmlFile [0x3c, 0x64, 0x69, 0x63, 0x74, 0x3e, 0x3c, 0] True (fresh_config\<lparr>pool_ok := \<lambda>n. n < 1\<rparr>) = Some ((status, t), c') \<and>
    (status = EFI_SUCCESS \<and> (\<exists>u. t = Some u \<and> Type u = XML_TAG_DICT \<and> tag_ok u) \<or> status = EFI_INVALID_PARAMETER \<and> t = None) \<and>
    length (content c') = length [0x3c, 0x64, 0x69, 0x63, 0x74, 0x3e, 0x3c, 0 :: u8]"
  using CmParseXmlFile_safe [of "[0x3c, 0x64, 0x69, 0x63, 0x74, 0x3e, 0x3c, 0]" "fresh_config\<lparr>pool_ok := \<lambda>n. n < 1\<rparr>" True]
  by (auto simp: fresh_config_def)

text \<open>
  C5. The parser reads back what a property list printer writes: a file that consists of tags
  that are skipped (the plist tag and tags of unknown names), a dictionary in any nesting of dictionaries, arrays, strings, integers, data,
  dates and booleans, and anything behind it, is parsed to exactly the tags of that dictionary,
  and they become the global configuration when no place for them is given. The allocations that are made succeed: the predicate good says so of
  every allocation from then on, and that the list of free tags and the symbols are intact.
\<close>

theorem CmParseXmlFile_roundtrip:
  assumes "plain sep" and "\<forall>n \<in> set ns. skipped n" and "plist_ok (PDict kvs)" and "good c"
  shows "\<exists>c'. CmParseXmlFile (prologue sep ns @ render sep (PDict kvs) @ rest) rootTag c =
      Some ((EFI_SUCCESS, Some (to_tag (PDict kvs))), c') \<and>
    (\<not> rootTag \<longrightarrow> CmpConfigPlistTag c' = Some (to_tag (PDict kvs)))"
  by (rule CmParseXmlFile_dict [OF assms])

theorem CmParseXmlFile_roundtrip_witness:
  "\<exists>c'. CmParseXmlFile (prologue [0x0a] [butlast plist_name @ [0x76]] @
      render [0x0a] (PDict [([0x41], PArray [PInteger [0x31, 0x32], PTrue])]) @ [0]) False fresh_config =
      Some ((EFI_SUCCESS, Some (to_tag (PDict [([0x41], PArray [PInteger [0x31, 0x32], PTrue])]))), c') \<and>
    (\<not> False \<longrightarrow> CmpConfigPlistTag c' = Some (to_tag (PDict [([0x41], PArray [PInteger [0x31, 0x32], PTrue])])))"
proof (rule CmParseXmlFile_roundtrip)
  show "\<forall>n \<in> set [butlast plist_name @ [0x76]]. skipped n"
    by (simp add: skipped_def classify_def plist_name_def)
qed (simp_all add: plain_def good_def fresh_config_def)

text \<open>
  C7. An option is looked up in the command line first, where the first option with the
  name counts, without regard to case (bit 5 of the characters is not compared), and then in the configuration that has been
  parsed, where the first key counts and only string values are found. The command line and the name consist of words without
  quotes: quoted tokens are not covered, and behind a quoted value the search goes wrong.
\<close>

theorem option_lookup:
  assumes "\<forall>ch \<in> set key. word_char ch" and "key \<noteq> []" and "cmdline_ok os"
    and "plist_ok (PDict kvs)" and "CmpConfigPlistTag c = Some (to_tag (PDict kvs))"
  shows "case cmd_lookup key os of
       Some v \<Rightarrow> \<exists>t. CmGetStringValueForKeyAndCommandLine (Some (cmdline_text os)) (key @ [0]) True c = Some (Some (v @ t), length v)
     | None \<Rightarrow> CmGetStringValueForKeyAndCommandLine (Some (cmdline_text os)) (key @ [0]) True c = Some (string_of (map_of kvs key))"
proof -
  have "0 \<notin> set key" using assms(1) by (auto simp: word_char_def)
  then show ?thesis using command_lookup [OF assms(1-3)] lookup_string [OF _ assms(4,5)]
    by (auto simp: CmGetStringValueForKeyAndCommandLine_def split: option.splits)
qed

theorem option_lookup_witness:
  "CmGetStringValueForKeyAndCommandLine (Some (cmdline_text [([], [0x61], Some [0x31])])) [0x62, 0] True
     (fresh_config\<lparr>CmpConfigPlistTag := Some (to_tag (PDict [([0x62], PString [0x79])]))\<rparr>) = Some (Some [0x79, 0], 1)"
proof -
  have "cmdline_ok [([], [0x61], Some [0x31])]" by (simp add: cmdline_ok_def word_char_def isspace_def)
  moreover have "cmd_lookup [0x62] [([], [0x61], Some [0x31])] = None" by (simp add: fold20_def)
  ultimately show ?thesis
    using option_lookup [of "[0x62]" "[([], [0x61], Some [0x31])]" "[([0x62], PString [0x79])]"
        "fresh_config\<lparr>CmpConfigPlistTag := Some (to_tag (PDict [([0x62], PString [0x79])]))\<rparr>"]
    by (simp add: word_char_def isspace_def plain_def del: cmd_lookup.simps)
qed

section \<open>Deviations\<close>

text \<open>
  A quoted value hides what follows: the search goes on at the closing quote, which then opens the next
  key. In the command line \<open>a="x" b=1\<close> there is no key b.
\<close>

lemma quoted_value_hides_rest:
  "CmpGetCommandStringValueForKey [0x62, 0] [0x61, 0x3d, 0x22, 0x78, 0x22, 0x20, 0x62, 0x3d, 0x31, 0] = Some None"
  by (simp add: CmpGetCommandStringValueForKey.simps next_pair_def key_differs_def CmpGetToken_def isspace_def Let_def)

text \<open>
  When CmpNewSymbol fails behind CmpNewTag, the release of the new tag destroys the list of free
  tags, unless that was empty: the next CmpNewTag is undefined.
\<close>

lemma failed_symbol_damages_free_list:
  assumes "free_tags c = Some (Suc (Suc n))" and "CmpSymbolsHead c = []" and "\<not> pool_ok c (pool_calls c)"
    and "content c = s @ close_tag string_name @ B" and "plain s"
  shows "\<exists>c'. CmpParseTagString 0 c = Some ((None, None), c') \<and> CmpNewTag c' = None"
proof -
  let ?c = "c\<lparr>content := s @ 0 # 0x2f # string_name @ B\<rparr>"
  have nm: "butlast string_name @ [0] = string_name" by (simp add: string_name_def)
  have f: "CmpFixDataMatchingTag 0 string_name c = Some (Some (length s + length (close_tag string_name)), ?c)"
    using FixData_text [of c "[]" s "butlast string_name" B] assms(4,5) nm by (simp add: string_name_def)
  moreover have "strlen (s @ 0 # 0x2f # string_name @ B) = Some (length s)"
    using strlen_c_str [of "s @ 0 # 0x2f # string_name @ B"] assms(5) by (simp add: plain_def)
  ultimately show ?thesis using assms(1-3)
    by (simp add: CmpParseTagString_def CmpNewTag_def CmpNewSymbol_def pool_allocate_def free_new_tag_def)
qed

end
