(* ===== verification/ConfigPrint.thy ===== *)
theory ConfigPrint
  imports Config Printf
begin

text \<open>
  The other direction in Config.c: writing tags as text, for the value of a key that is handed to
  the kernel. The output is the bytes written and the size of the buffer that holds them;
  the static buffer of CmpEmitFormatString is part of the state. None stands for undefined behaviour.
\<close>

record emitter =
  output_bytes :: "u8 list"
  outputLength :: nat
  format_buffer :: "u8 list"

definition escape_char :: "u8 \<Rightarrow> u8 list" where
  "escape_char theChar =
     (if theChar = 0x3c then [0x26, 0x6c, 0x74, 0x3b]
      else if theChar = 0x3e then [0x26, 0x67, 0x74, 0x3b]
      else if theChar = 0x26 then [0x26, 0x61, 0x6d, 0x70, 0x3b]
      else [theChar])"

text \<open>
  Room for some bytes: a larger buffer takes the place of the one there is (at first there is
  none to free). None when there is no memory for it.
\<close>

definition make_room :: "nat \<Rightarrow> emitter \<Rightarrow> config \<Rightarrow> emitter option \<times> config" where
  "make_room theLength out c =
     (if outputLength out \<le> length (output_bytes out) + theLength then
        (let (ok, c) = pool_allocate c in
         if \<not> ok then (None, c)
         else (Some (out\<lparr>outputLength := outputLength out + 1024\<rparr>), if outputLength out = 0 then c else pool_release c))
      else (Some out, c))"

text \<open>The loop has no exit at the terminator: it runs on behind the string.\<close>

fun CmpEmitString :: "u8 list \<Rightarrow> bool \<Rightarrow> emitter \<Rightarrow> config \<Rightarrow> (emitter \<times> config) option" where
  "CmpEmitString [] escapeXMLChar out c = None"
| "CmpEmitString (theChar # theString) escapeXMLChar out c =
     (let writeString = (if escapeXMLChar then escape_char theChar else [theChar]) in
      case make_room (length writeString) out c of
        (None, c) \<Rightarrow> Some (out, c)
      | (Some out, c) \<Rightarrow>
          CmpEmitString theString escapeXMLChar (out\<lparr>output_bytes := output_bytes out @ writeString\<rparr>) c)"

definition CmpEmitFormatString :: "u8 list \<Rightarrow> bool \<Rightarrow> va_arg list \<Rightarrow> emitter \<Rightarrow> config \<Rightarrow> (emitter \<times> config) option" where
  "CmpEmitFormatString formatString escapeXMLChar marker out c =
     (case vsnprintf (format_buffer out) (length (format_buffer out) - 1) formatString marker of
        Inl _ \<Rightarrow> None
      | Inr (buffer, _) \<Rightarrow> CmpEmitString buffer escapeXMLChar (out\<lparr>format_buffer := buffer\<rparr>) c)"

definition tagNameArray :: "u8 list list" where
  "tagNameArray = [[0x6e, 0x6f, 0x6e, 0x65, 0], dict_name, key_name, string_name, integer_name, data_name, date_name,
     [0x66, 0x61, 0x6c, 0x73, 0x65, 0], [0x74, 0x72, 0x75, 0x65, 0], array_name]"

definition tag_name :: "nat \<Rightarrow> u8 list" where
  "tag_name ty = (if length tagNameArray \<le> ty then [0x75, 0x6e, 0x6b, 0x6e, 0x6f, 0x77, 0x6e, 0] else tagNameArray ! ty)"

definition emit_close :: "u8 list \<Rightarrow> emitter \<Rightarrow> config \<Rightarrow> (emitter \<times> config) option" where
  "emit_close tagName = CmpEmitFormatString [0x3c, 0x2f, 0x25, 0x61, 0x3e, 0] False [Va_ascii (Some tagName)]"

text \<open>The part before the nested tags; it tells whether the opening tag still has no end.\<close>

definition emit_head :: "XML_TAG \<Rightarrow> emitter \<Rightarrow> config \<Rightarrow> (bool \<times> emitter \<times> config) option" where
  "emit_head theTag out c = do {
     (out, c) \<leftarrow> CmpEmitFormatString [0x3c, 0x25, 0x61, 0] False [Va_ascii (Some (tag_name (Type theTag)))] out c;
     let tagOpened = True;
     (tagOpened, out, c) \<leftarrow> (case StringValue theTag of None \<Rightarrow> Some (tagOpened, out, c)
       | Some s \<Rightarrow> do {
           (out, c) \<leftarrow> CmpEmitString [0x3e, 0] False out c;
           (out, c) \<leftarrow> CmpEmitString s True out c;
           Some (False, out, c)
         });
     if Type theTag = XML_TAG_INTEGER then do {
       (out, c) \<leftarrow> CmpEmitString [0x3e, 0] False out c;
       (out, c) \<leftarrow> CmpEmitFormatString [0x25, 0x64, 0] False [Va_int (IntegerValue theTag)] out c;
       Some (False, out, c)
     }
     else Some (tagOpened, out, c)
   }"

function CmpTagToString :: "XML_TAG list \<Rightarrow> emitter \<Rightarrow> config \<Rightarrow> (emitter \<times> config) option" where
  "CmpTagToString [] out c = Some (out, c)"
| "CmpTagToString (theTag # nextTag) out c = do {
     (tagOpened, out, c) \<leftarrow> emit_head theTag out c;
     (out, c) \<leftarrow>
       (if TagValue theTag \<noteq> [] then do {
          (out, c) \<leftarrow> (if tagOpened then CmpEmitString [0x3e, 0] False out c else Some (out, c));
          (out, c) \<leftarrow> (if Type theTag = XML_TAG_KEY then emit_close (tag_name (Type theTag)) out c else Some (out, c));
          (out, c) \<leftarrow> CmpTagToString (TagValue theTag) out c;
          if Type theTag = XML_TAG_KEY then Some (out, c) else emit_close (tag_name (Type theTag)) out c
        }
        else if tagOpened then CmpEmitString [0x2f, 0x3e, 0] False out c
        else emit_close (tag_name (Type theTag)) out c);
     CmpTagToString nextTag out c
   }"
  by pat_completeness auto
termination
proof (relation "measure (\<lambda>(ts, out, c). size_list size ts)", simp_all)
  fix theTag :: XML_TAG
  show "size_list size (TagValue theTag) < Suc (size theTag + size_list size nextTag)" for nextTag
    by (cases theTag) simp
qed

text \<open>The text and its length, or NULL when there is no such key.\<close>

definition CmSerializeValueForKey :: "u8 list \<Rightarrow> u8 list \<Rightarrow> config \<Rightarrow> ((u8 list option \<times> nat) \<times> u8 list \<times> config) option" where
  "CmSerializeValueForKey keyName static_buffer c =
     (case CmGetTagValueForKey (CmpConfigPlistTag c) keyName of None \<Rightarrow> None
      | Some [] \<Rightarrow> Some ((None, 0), static_buffer, c)
      | Some (theTag # nextTag) \<Rightarrow> do {
          (out, c) \<leftarrow> CmpTagToString (theTag # nextTag) \<lparr>output_bytes = [], outputLength = 0, format_buffer = static_buffer\<rparr> c;
          Some ((if outputLength out = 0 then None else Some (output_bytes out), length (output_bytes out)), format_buffer out, c)
        })"

section \<open>The missing exit\<close>

lemma make_room_ok: "\<forall>n. pool_ok c n \<Longrightarrow> \<exists>out' c'. make_room k out c = (Some out', c') \<and> (\<forall>n. pool_ok c' n)"
  by (auto simp: make_room_def pool_allocate_def pool_release_def)

lemma CmpEmitString_runs_on: "\<forall>n. pool_ok c n \<Longrightarrow> CmpEmitString s e out c = None"
proof (induction s e out c rule: CmpEmitString.induct)
  case (2 ch s e out c)
  let ?w = "if e then escape_char ch else [ch]"
  obtain out' c' where m: "make_room (length ?w) out c = (Some out', c')" "\<forall>n. pool_ok c' n"
    using make_room_ok [OF 2(2)] by blast
  then show ?case using 2(1) [OF refl m(1) [symmetric] refl] by (auto simp: Let_def)
qed simp

lemma serialize_runs_on:
  assumes "\<forall>n. pool_ok c n" and "CmGetTagValueForKey (CmpConfigPlistTag c) keyName = Some (t # ts)"
  shows "CmSerializeValueForKey keyName static_buffer c = None"
proof -
  have "CmpEmitFormatString fmt e marker out c = None" for fmt e marker out
    using CmpEmitString_runs_on [OF assms(1)] by (auto simp: CmpEmitFormatString_def split: sum.splits prod.splits)
  then show ?thesis using assms(2) by (simp add: CmSerializeValueForKey_def emit_head_def)
qed

end
