(* ===== verification/FileIo.thy ===== *)
theory FileIo
  imports Memory
begin

text \<open>
  Files (FileIo.c): the handle with its three ways to the data, a firmware file, a file that
  is loaded as a whole over the network, and the cache of the latter. The firmware's file and load
  protocols are a parameter: functions on a firmware state of any type. Buffers that are read into
  are results; memory from the pool is taken to be zero at first. None as a result stands for
  undefined behaviour: an answer of the firmware that is longer than the buffer, a NULL
  buffer, or a list of tags that does not end.
\<close>

section \<open>Handles\<close>

record 'w firmware =
  SetPosition :: "u64 \<Rightarrow> 'w \<Rightarrow> EFI_STATUS \<times> 'w"
  Read :: "nat \<Rightarrow> 'w \<Rightarrow> EFI_STATUS \<times> u8 list \<times> 'w"
  GetInfo :: "nat \<Rightarrow> 'w \<Rightarrow> EFI_STATUS \<times> nat \<times> u64 \<times> 'w"
  LoadFile :: "nat option \<Rightarrow> 'w \<Rightarrow> EFI_STATUS \<times> nat \<times> u8 list \<times> 'w"
  Close :: "'w \<Rightarrow> 'w"

record IO_FILE_HANDLE =
  EfiFileHandle :: bool
  EfiLoadFileProtocol :: bool
  EfiFilePath :: nat
  FileBuffer :: "(nat \<times> u8 list) option"
  FileOffset :: nat
  FileSize :: nat

definition zero_handle :: IO_FILE_HANDLE where
  "zero_handle = \<lparr>EfiFileHandle = False, EfiLoadFileProtocol = False, EfiFilePath = 0, FileBuffer = None,
     FileOffset = 0, FileSize = 0\<rparr>"

text \<open>The handle, the firmware's state and the memory manager.\<close>

record 'w io =
  handle :: IO_FILE_HANDLE
  world :: 'w
  memory :: memory

section \<open>Operations\<close>

definition IoSetFilePosition :: "'w firmware \<Rightarrow> u64 \<Rightarrow> 'w io \<Rightarrow> EFI_STATUS \<times> 'w io" where
  "IoSetFilePosition fw filePosition st =
     (if EfiFileHandle (handle st) then
        (let (status, w) = SetPosition fw filePosition (world st) in (status, st\<lparr>world := w\<rparr>))
      else (EFI_SUCCESS, st\<lparr>handle := (handle st)\<lparr>FileOffset := unat filePosition\<rparr>\<rparr>))"

definition io_allocate :: "nat \<Rightarrow> 'w io \<Rightarrow> nat \<times> 'w io" where
  "io_allocate n st = (let (a, h) = MmAllocatePool (of_nat n) (memory st) in (a, st\<lparr>memory := h\<rparr>))"

definition io_free :: "nat \<Rightarrow> 'w io \<Rightarrow> 'w io option" where
  "io_free a st = map_option (\<lambda>h. st\<lparr>memory := h\<rparr>) (MmFreePool a (memory st))"

definition file_info_size :: nat where "file_info_size = 80 + 2 * 64"

text \<open>The address of the information and the file size in it; address 0 for NULL.\<close>

definition IoGetFileInfo :: "'w firmware \<Rightarrow> 'w io \<Rightarrow> ((EFI_STATUS \<times> nat \<times> u64) \<times> 'w io) option" where
  "IoGetFileInfo fw st =
     (if \<not> EfiFileHandle (handle st) then Some ((EFI_INVALID_PARAMETER, 0, 0), st)
      else
        let (infoBuffer, st) = io_allocate file_info_size st in
        if infoBuffer = 0 then Some ((EFI_OUT_OF_RESOURCES, 0, 0), st)
        else
          case GetInfo fw file_info_size (world st) of (status, infoSize, fsize, w) \<Rightarrow>
          let st = st\<lparr>world := w\<rparr> in
          case (if status = EFI_BUFFER_TOO_SMALL then
                  (case io_free infoBuffer st of None \<Rightarrow> None
                   | Some st \<Rightarrow>
                       let (infoBuffer, st) = io_allocate infoSize st in
                       if infoBuffer = 0 then None
                       else case GetInfo fw infoSize (world st) of (status, _, fsize, w) \<Rightarrow>
                         Some (status, infoBuffer, fsize, st\<lparr>world := w\<rparr>))
                else Some (status, infoBuffer, fsize, st)) of None \<Rightarrow> None
          | Some (status, infoBuffer, fsize, st) \<Rightarrow>
              if EFI_ERROR status then map_option (Pair (status, 0, 0)) (io_free infoBuffer st)
              else Some ((status, infoBuffer, fsize), st))"

definition IoGetFileSize :: "'w firmware \<Rightarrow> 'w io \<Rightarrow> ((EFI_STATUS \<times> nat) \<times> 'w io) option" where
  "IoGetFileSize fw st =
     (if EfiLoadFileProtocol (handle st) then
        (if FileSize (handle st) = 0 then
           (case LoadFile fw None (world st) of (status, fsize, _, w) \<Rightarrow>
              let st = st\<lparr>world := w, handle := (handle st)\<lparr>FileSize := fsize\<rparr>\<rparr> in
              if status \<noteq> EFI_BUFFER_TOO_SMALL then Some ((status, 0), st)
              else Some ((EFI_SUCCESS, FileSize (handle st)), st))
         else Some ((EFI_SUCCESS, FileSize (handle st)), st))
      else if FileBuffer (handle st) \<noteq> None then Some ((EFI_SUCCESS, FileSize (handle st)), st)
      else if EfiFileHandle (handle st) then
        (case IoGetFileInfo fw st of None \<Rightarrow> None
         | Some ((status, fileInfo, fsize), st) \<Rightarrow>
             if EFI_ERROR status \<or> fileInfo = 0 then Some ((status, 0), st)
             else map_option (Pair (EFI_SUCCESS, unat fsize)) (io_free fileInfo st))
      else Some ((EFI_INVALID_PARAMETER, 0), st))"

text \<open>Reading from the firmware's file, at most one megabyte at a time.\<close>

definition run_length :: "nat \<Rightarrow> nat" where
  "run_length bufferSize = (if bufferSize > 1024 * 1024 then 1024 * 1024 else bufferSize)"

function read_runs :: "'w firmware \<Rightarrow> nat \<Rightarrow> bool \<Rightarrow> u8 list \<Rightarrow> 'w \<Rightarrow> (EFI_STATUS \<times> u8 list \<times> 'w) option" where
  "read_runs fw bufferSize directoryFile done w =
     (if bufferSize = 0 then Some (EFI_SUCCESS, done, w)
      else
        let lengthThisRun = run_length bufferSize in
        case Read fw lengthThisRun w of (status, data, w) \<Rightarrow>
        if EFI_ERROR status \<or> data = [] then Some (status, done, w)
        else if lengthThisRun < length data then None
        else if directoryFile then Some (status, done @ data, w)
        else read_runs fw (bufferSize - length data) directoryFile (done @ data) w)"
  by pat_completeness auto
termination by (relation "measure (\<lambda>(fw, n, d, b, w). n)") (auto simp: length_greater_0_conv)

declare read_runs.simps [simp del]

text \<open>The cache of a file that is loaded as a whole.\<close>

definition load_cache :: "'w firmware \<Rightarrow> nat \<Rightarrow> 'w io \<Rightarrow> (EFI_STATUS \<times> 'w io) option" where
  "load_cache fw fileSize st =
     (let (a, st) = io_allocate fileSize st in
      if a = 0 then Some (EFI_OUT_OF_RESOURCES, st)
      else
        case LoadFile fw (Some fileSize) (world st) of (status, read_length, data, w) \<Rightarrow>
        if fileSize < length data then None
        else
          let st = st\<lparr>world := w, handle := (handle st)\<lparr>FileBuffer := Some (a, overlay (replicate fileSize 0) 0 data)\<rparr>\<rparr> in
          if EFI_ERROR status then Some (status, st)
          else if read_length \<noteq> FileSize (handle st) then
            map_option (\<lambda>st. (EFI_DEVICE_ERROR, st\<lparr>handle := (handle st)\<lparr>FileBuffer := None\<rparr>\<rparr>)) (io_free a st)
          else Some (status, st))"

definition read_cache :: "nat \<Rightarrow> u8 list \<Rightarrow> 'w io \<Rightarrow> ((EFI_STATUS \<times> u8 list) \<times> 'w io) option" where
  "read_cache bufferSize buffer st =
     (let h = handle st;
          copyLength = (if FileOffset h \<ge> FileSize h then 0 else FileSize h - FileOffset h);
          copyLength = (if copyLength > bufferSize then bufferSize else copyLength)
      in if length buffer < FileOffset h + copyLength \<and> copyLength \<noteq> 0 then None
         else Some ((EFI_SUCCESS, take copyLength (drop (FileOffset h) buffer)),
           st\<lparr>handle := h\<lparr>FileOffset := FileOffset h + copyLength\<rparr>\<rparr>))"

definition read_handle :: "'w firmware \<Rightarrow> nat \<Rightarrow> bool \<Rightarrow> 'w io \<Rightarrow> ((EFI_STATUS \<times> u8 list) \<times> 'w io) option" where
  "read_handle fw bufferSize directoryFile st =
     (case FileBuffer (handle st) of Some (_, buffer) \<Rightarrow> read_cache bufferSize buffer st
      | None \<Rightarrow>
          if \<not> EfiFileHandle (handle st) then Some ((EFI_INVALID_PARAMETER, []), st)
          else map_option (\<lambda>(status, data, w). ((status, data), st\<lparr>world := w\<rparr>)) (read_runs fw bufferSize directoryFile [] (world st)))"

text \<open>The bytes that are put into the buffer; their number is *readLength.\<close>

definition IoReadFile :: "'w firmware \<Rightarrow> nat \<Rightarrow> bool \<Rightarrow> 'w io \<Rightarrow> ((EFI_STATUS \<times> u8 list) \<times> 'w io) option" where
  "IoReadFile fw bufferSize directoryFile st =
     (if \<not> EfiLoadFileProtocol (handle st) then read_handle fw bufferSize directoryFile st
      else case IoGetFileSize fw st of None \<Rightarrow> None
      | Some ((status, fileSize), st) \<Rightarrow>
          if EFI_ERROR status then Some ((status, []), st)
          else if FileBuffer (handle st) = None \<and> FileOffset (handle st) = 0 \<and> bufferSize = fileSize then
            (case LoadFile fw (Some bufferSize) (world st) of (status, n, data, w) \<Rightarrow>
               if bufferSize < n then None
               else Some ((status, take n (data @ replicate n 0)), st\<lparr>world := w\<rparr>))
          else if fileSize \<le> FileOffset (handle st) then Some ((status, []), st)
          else
            let st = st\<lparr>handle := (handle st)\<lparr>FileSize := fileSize\<rparr>\<rparr> in
            if FileBuffer (handle st) = None then
              (case load_cache fw fileSize st of None \<Rightarrow> None
               | Some (status, st) \<Rightarrow> if EFI_ERROR status then Some ((status, []), st) else read_handle fw bufferSize directoryFile st)
            else read_handle fw bufferSize directoryFile st)"

definition IoCloseFile :: "'w firmware \<Rightarrow> 'w io \<Rightarrow> 'w io option" where
  "IoCloseFile fw st =
     (case (case FileBuffer (handle st) of None \<Rightarrow> Some st | Some (a, _) \<Rightarrow> io_free a st) of None \<Rightarrow> None
      | Some st \<Rightarrow>
          case (if EfiFilePath (handle st) = 0 then Some st else io_free (EfiFilePath (handle st)) st) of None \<Rightarrow> None
          | Some st \<Rightarrow>
              let st = (if EfiFileHandle (handle st) then st\<lparr>world := Close fw (world st)\<rparr> else st)
              in Some (st\<lparr>handle := zero_handle\<rparr>))"

text \<open>
  The whole file, when it has been opened with the given status: the buffer, with a terminator
  when it is a text file, and the size. The address 0 stands for NULL.
\<close>

definition whole_fails :: "'w firmware \<Rightarrow> EFI_STATUS \<Rightarrow> nat \<Rightarrow> 'w io \<Rightarrow> ((EFI_STATUS \<times> (nat \<times> u8 list) option \<times> nat) \<times> 'w io) option" where
  "whole_fails fw status a st =
     (case IoCloseFile fw st of None \<Rightarrow> None
      | Some st \<Rightarrow> map_option (Pair (status, None, 0)) (if a = 0 then Some st else io_free a st))"

definition IoReadWholeFile :: "'w firmware \<Rightarrow> EFI_STATUS \<Rightarrow> bool \<Rightarrow> 'w io \<Rightarrow> ((EFI_STATUS \<times> (nat \<times> u8 list) option \<times> nat) \<times> 'w io) option" where
  "IoReadWholeFile fw openStatus asTextFile st =
     (if EFI_ERROR openStatus then whole_fails fw openStatus 0 st
      else case IoGetFileSize fw st of None \<Rightarrow> None
      | Some ((status, localFileSize), st) \<Rightarrow>
          if EFI_ERROR status then whole_fails fw status 0 st
          else
            let totalSize = localFileSize + (if asTextFile then 1 else 0);
                (a, st) = io_allocate totalSize st
            in if a = 0 then whole_fails fw EFI_OUT_OF_RESOURCES 0 st
               else case IoReadFile fw localFileSize False st of None \<Rightarrow> None
               | Some ((status, data), st) \<Rightarrow>
                   if EFI_ERROR status then whole_fails fw status a st
                   else
                     let buffer = overlay (replicate totalSize 0) 0 data;
                         buffer = (if asTextFile then buffer[length data := 0] else buffer)
                     in map_option (Pair (EFI_SUCCESS, Some (a, buffer), localFileSize)) (IoCloseFile fw st))"

section \<open>Files that the firmware keeps\<close>

text \<open>
  What the firmware's documentation promises for a file with the given bytes, every call being free to answer an error
  (EFI_DEVICE_ERROR, EFI_NO_MEDIA and so on): a successful read returns the bytes from the position on, as many as were
  asked for unless the file ends, and moves the position; the position can be set, all ones standing for the end of the file;
  the information has the size of the file and itself takes \<open>infoSize\<close> bytes, and a smaller buffer is answered with
  EFI_BUFFER_TOO_SMALL and the size that is needed.
\<close>

definition firmware_file :: "'w firmware \<Rightarrow> u8 list \<Rightarrow> nat \<Rightarrow> ('w \<Rightarrow> nat) \<Rightarrow> bool" where
  "firmware_file fw bytes infoSize position \<longleftrightarrow> length bytes < 2 ^ 64 \<and>
     (\<forall>n w status data w'. Read fw n w = (status, data, w') \<longrightarrow>
        status = EFI_SUCCESS \<and> data = take n (drop (position w) bytes) \<and> position w' = position w + length data \<or> EFI_ERROR status) \<and>
     (\<forall>p w status w'. SetPosition fw p w = (status, w') \<longrightarrow>
        status = EFI_SUCCESS \<and> position w' = (if p = - 1 then length bytes else unat p) \<or> EFI_ERROR status) \<and>
     (\<forall>n w status k size w'. GetInfo fw n w = (status, k, size, w') \<longrightarrow> position w' = position w \<and>
        ((if n < infoSize then status = EFI_BUFFER_TOO_SMALL \<and> k = infoSize else status = EFI_SUCCESS \<and> size = of_nat (length bytes)) \<or>
         EFI_ERROR status \<and> status \<noteq> EFI_BUFFER_TOO_SMALL))"

text \<open>An error that the firmware answers, EFI_BUFFER_TOO_SMALL of GetInfo apart.\<close>

definition fw_error :: "'w firmware \<Rightarrow> EFI_STATUS \<Rightarrow> bool" where
  "fw_error fw status \<longleftrightarrow> EFI_ERROR status \<and>
     ((\<exists>n w. fst (Read fw n w) = status) \<or> (\<exists>p w. fst (SetPosition fw p w) = status) \<or>
      (\<exists>n w. fst (GetInfo fw n w) = status \<and> status \<noteq> EFI_BUFFER_TOO_SMALL))"

lemma fw_errorD: "fw_error fw status \<Longrightarrow> EFI_ERROR status"
  by (simp add: fw_error_def)

text \<open>
  The pool has no memory for so many bytes; and the second allocation of IoGetFileInfo, for information that is
  longer than its first buffer, gets none.
\<close>

definition no_memory :: "nat \<Rightarrow> memory \<Rightarrow> bool" where
  "no_memory n h \<longleftrightarrow> fst (MmAllocatePool (of_nat n) h) = 0"

definition retry_fails :: "nat \<Rightarrow> memory \<Rightarrow> bool" where
  "retry_fails infoSize h \<longleftrightarrow> file_info_size < infoSize \<and>
     (case MmAllocatePool (of_nat file_info_size) h of (a, h1) \<Rightarrow>
        case MmFreePool a h1 of None \<Rightarrow> True | Some h2 \<Rightarrow> no_memory infoSize h2)"

definition mem_ok :: "memory \<Rightarrow> bool" where
  "mem_ok h \<longleftrightarrow> (\<exists>ts fl pg. mm_inv h ts fl pg)"

text \<open>A handle to the bytes at a position, over the firmware or over a buffer.\<close>

definition file_at :: "u8 list \<Rightarrow> ('w \<Rightarrow> nat) \<Rightarrow> 'w io \<Rightarrow> nat \<Rightarrow> bool" where
  "file_at bytes position st pos \<longleftrightarrow> \<not> EfiLoadFileProtocol (handle st) \<and> mem_ok (memory st) \<and>
     (EfiFileHandle (handle st) \<and> FileBuffer (handle st) = None \<and> position (world st) = pos \<or>
      \<not> EfiFileHandle (handle st) \<and> (\<exists>a. FileBuffer (handle st) = Some (a, bytes)) \<and> FileSize (handle st) = length bytes \<and>
        FileOffset (handle st) = pos)"

text \<open>
  A firmware that keeps the promise: the state is the position in the given bytes, the information needs 480 bytes, and
  no call fails otherwise.
\<close>

definition memory_file :: "u8 list \<Rightarrow> nat firmware" where
  "memory_file bytes = \<lparr>SetPosition = (\<lambda>p _. (EFI_SUCCESS, if p = - 1 then length bytes else unat p)),
     Read = (\<lambda>n w. (EFI_SUCCESS, take n (drop w bytes), w + length (take n (drop w bytes)))),
     GetInfo = (\<lambda>n w. if n < 480 then (EFI_BUFFER_TOO_SMALL, 480, 0, w) else (EFI_SUCCESS, 480, of_nat (length bytes), w)),
     LoadFile = (\<lambda>n w. (EFI_UNSUPPORTED, 0, [], w)), Close = (\<lambda>w. w)\<rparr>"

lemma memory_file_ok: "length bytes < 2 ^ 64 \<Longrightarrow> firmware_file (memory_file bytes) bytes 480 id"
  by (auto simp: firmware_file_def memory_file_def split: if_splits)

lemma mem_ok_allocate: "mem_ok h \<Longrightarrow> MmAllocatePool n h = (a, h') \<Longrightarrow> mem_ok h'"
proof -
  assume h: "mem_ok h" and run: "MmAllocatePool n h = (a, h')"
  then obtain ts fl pg where inv: "mm_inv h ts fl pg" by (auto simp: mem_ok_def)
  show "mem_ok h'"
  proof (cases "a = 0")
    case True
    then have "h' = h \<or> h' = snd (allocate_pool (unat n) h)"
      using run by (auto simp: MmAllocatePool_def split: if_splits prod.splits)
    then show ?thesis using inv allocate_pool_inv [OF inv, of "unat n"] by (auto simp: mem_ok_def)
  next
    case False
    then show ?thesis using AllocatePool_tracked [OF inv run] by (auto simp: mem_ok_def)
  qed
qed

lemma mem_ok_free: "mem_ok h \<Longrightarrow> \<exists>h'. MmFreePool a h = Some h' \<and> mem_ok h'"
proof (cases "a = 0")
  case False
  assume "mem_ok h"
  then show ?thesis using FreePool_tracked [OF _ False] by (fastforce simp: mem_ok_def)
qed (simp add: MmFreePool_def)

lemma io_allocate_ok:
  assumes "mem_ok (memory st)"
  obtains a st' where "io_allocate n st = (a, st')" "mem_ok (memory st')" "handle st' = handle st" "world st' = world st"
proof -
  obtain a h where "MmAllocatePool (of_nat n) (memory st) = (a, h)" by fastforce
  then show ?thesis using that mem_ok_allocate [OF assms] by (simp add: io_allocate_def)
qed

lemma io_free_ok:
  assumes "mem_ok (memory st)"
  obtains st' where "io_free a st = Some st'" "mem_ok (memory st')" "handle st' = handle st" "world st' = world st"
  using mem_ok_free [OF assms, of a] that by (auto simp: io_free_def)

lemma take_length_take: "take (length (take k xs)) xs = take k xs"
  by (cases "k \<le> length xs") auto

lemma read_runs_step:
  assumes "Read fw (run_length n) w = (EFI_SUCCESS, d, w1)" and "d \<noteq> []" and "length d \<le> run_length n" and "n \<noteq> 0"
  shows "read_runs fw n False b w = read_runs fw (n - length d) False (b @ d) w1"
  using assms(3) by (subst read_runs.simps) (simp add: assms(1,2,4))

lemma read_runs_ok:
  assumes "firmware_file fw bytes infoSize position"
  shows "\<exists>status d w'. read_runs fw n False b w = Some (status, b @ d, w') \<and>
    (status = EFI_SUCCESS \<and> d = take n (drop (position w) bytes) \<and> position w' = position w + length d \<or>
     fw_error fw status \<and> (\<exists>k \<le> n. d = take k (drop (position w) bytes)))"
proof (induction n arbitrary: b w rule: less_induct)
  case (less n)
  define k where k: "k = run_length n"
  have kn: "k \<le> n" "n \<noteq> 0 \<Longrightarrow> k \<noteq> 0" by (auto simp: k run_length_def)
  obtain status d w1 where r: "Read fw k w = (status, d, w1)" by (rule prod_cases3)
  then have r': "status = EFI_SUCCESS \<and> d = take k (drop (position w) bytes) \<and> position w1 = position w + length d \<or> EFI_ERROR status"
    using assms unfolding firmware_file_def by blast
  show ?case
  proof (cases "n = 0 \<or> EFI_ERROR status \<or> d = []")
    case True
    then consider "n = 0" | "n \<noteq> 0" "EFI_ERROR status" | "n \<noteq> 0" "\<not> EFI_ERROR status" "d = []" by blast
    then show ?thesis
    proof cases
      case 1
      then show ?thesis by (subst read_runs.simps) simp
    next
      case 2
      then have "read_runs fw n False b w = Some (status, b @ [], w1)"
        using r by (subst read_runs.simps) (simp add: Let_def k [symmetric])
      moreover have "fw_error fw status" using 2(2) r unfolding fw_error_def by (metis fst_conv)
      moreover have "[] = take 0 (drop (position w) bytes)" by simp
      ultimately show ?thesis by (metis le0)
    next
      case 3
      then have "take n (drop (position w) bytes) = []" "status = EFI_SUCCESS" "position w1 = position w" using r' kn by auto
      then show ?thesis using 3 r by (subst read_runs.simps) (simp add: Let_def k [symmetric])
    qed
  next
    case False
    then have r2: "status = EFI_SUCCESS" "d = take k (drop (position w) bytes)" "position w1 = position w + length d" using r' by auto
    let ?m = "n - length d"
    have d: "d \<noteq> []" "length d \<le> k" "k \<le> n" using False kn r2(2) by auto
    then have "?m < n" using False by (metis diff_less length_greater_0_conv neq0_conv)
    from less [OF this, of "b @ d" w1] obtain s e w' where
      w': "read_runs fw ?m False (b @ d) w1 = Some (s, (b @ d) @ e, w')"
      "s = EFI_SUCCESS \<and> e = take ?m (drop (position w1) bytes) \<and> position w' = position w1 + length e \<or>
       fw_error fw s \<and> (\<exists>k \<le> ?m. e = take k (drop (position w1) bytes))" by blast
    have split: "take (length d + j) (drop (position w) bytes) = d @ take j (drop (position w1) bytes)" for j
      using take_add [of "length d" j "drop (position w) bytes"] take_length_take [of k "drop (position w) bytes"]
      by (simp add: r2 add.commute)
    have run: "read_runs fw n False b w = Some (s, b @ (d @ e), w')"
      using read_runs_step [OF r [unfolded k r2(1)] d(1) d(2) [unfolded k], of b] False w'(1) by simp
    show ?thesis
    proof (cases "fw_error fw s \<and> (\<exists>k \<le> ?m. e = take k (drop (position w1) bytes))")
      case True
      then obtain j where "j \<le> ?m" "e = take j (drop (position w1) bytes)" by blast
      then have "length d + j \<le> n" "d @ e = take (length d + j) (drop (position w) bytes)" using split d(2,3) by auto
      then show ?thesis using run True by blast
    next
      case False
      then have "s = EFI_SUCCESS" "d @ e = take n (drop (position w) bytes)" "position w' = position w + length (d @ e)"
        using w'(2) split [of ?m] d(2,3) r2(3) by auto
      then show ?thesis using run by blast
    qed
  qed
qed

lemma IoReadFile_at:
  assumes "firmware_file fw bytes infoSize position" and "file_at bytes position st pos"
  shows "\<exists>status data st'. IoReadFile fw n False st = Some ((status, data), st') \<and> memory st' = memory st \<and>
    (status = EFI_SUCCESS \<and> data = take n (drop pos bytes) \<and> file_at bytes position st' (pos + length data) \<or>
     fw_error fw status \<and> (\<exists>k \<le> n. data = take k (drop pos bytes)) \<and> (\<exists>pos'. file_at bytes position st' pos'))"
proof (cases "EfiFileHandle (handle st)")
  case True
  then have p: "position (world st) = pos" using assms(2) by (auto simp: file_at_def)
  obtain status d w' where "read_runs fw n False [] (world st) = Some (status, [] @ d, w')"
    "status = EFI_SUCCESS \<and> d = take n (drop pos bytes) \<and> position w' = pos + length d \<or>
     fw_error fw status \<and> (\<exists>k \<le> n. d = take k (drop pos bytes))"
    using read_runs_ok [OF assms(1), of n "[]" "world st"] unfolding p by blast
  then show ?thesis using True assms(2)
    by (auto simp: IoReadFile_def read_handle_def file_at_def)
next
  case False
  have "(if length bytes \<le> pos then 0 else length bytes - pos) = length bytes - pos" by simp
  then show ?thesis using False assms(2)
    by (auto simp: IoReadFile_def read_handle_def read_cache_def file_at_def Let_def min_def)
qed

lemma IoSetFilePosition_at:
  assumes "firmware_file fw bytes infoSize position" and "file_at bytes position st pos"
  shows "\<exists>status st' pos'. IoSetFilePosition fw p st = (status, st') \<and> memory st' = memory st \<and> file_at bytes position st' pos' \<and>
    (status = EFI_SUCCESS \<and> drop pos' bytes = drop (unat p) bytes \<and> (p \<noteq> - 1 \<longrightarrow> pos' = unat p) \<or> fw_error fw status)"
proof (cases "EfiFileHandle (handle st)")
  case True
  obtain status w' where s: "SetPosition fw p (world st) = (status, w')" by (cases "SetPosition fw p (world st)")
  have at: "file_at bytes position (st\<lparr>world := w'\<rparr>) (position w')" using True assms(2) by (auto simp: file_at_def)
  have "status = EFI_SUCCESS \<and> position w' = (if p = - 1 then length bytes else unat p) \<or> EFI_ERROR status"
    using assms(1) s unfolding firmware_file_def by blast
  moreover have "EFI_ERROR status \<Longrightarrow> fw_error fw status" using s unfolding fw_error_def by (metis fst_conv)
  moreover have "length bytes \<le> unat (- 1 :: u64)" using assms(1) by (simp add: firmware_file_def unsigned_minus_1_eq_mask mask_eq_exp_minus_1)
  ultimately show ?thesis using True s at by (auto simp: IoSetFilePosition_def split: if_splits)
next
  case False
  then show ?thesis using assms(2) by (auto simp: IoSetFilePosition_def file_at_def)
qed

lemma GetInfo_cases:
  assumes "firmware_file fw bytes infoSize position" and "GetInfo fw n w = (status, k, fsize, w')"
  shows "position w' = position w"
    and "n < infoSize \<and> status = EFI_BUFFER_TOO_SMALL \<and> k = infoSize \<or> infoSize \<le> n \<and> status = EFI_SUCCESS \<and> fsize = of_nat (length bytes) \<or>
      fw_error fw status \<and> status \<noteq> EFI_BUFFER_TOO_SMALL"
proof -
  have g: "position w' = position w \<and>
        ((if n < infoSize then status = EFI_BUFFER_TOO_SMALL \<and> k = infoSize else status = EFI_SUCCESS \<and> fsize = of_nat (length bytes)) \<or>
         EFI_ERROR status \<and> status \<noteq> EFI_BUFFER_TOO_SMALL)"
    using assms unfolding firmware_file_def by blast
  then show "position w' = position w" ..
  have "EFI_ERROR status \<and> status \<noteq> EFI_BUFFER_TOO_SMALL \<Longrightarrow> fw_error fw status" using assms(2) unfolding fw_error_def by (metis fst_conv)
  then show "n < infoSize \<and> status = EFI_BUFFER_TOO_SMALL \<and> k = infoSize \<or> infoSize \<le> n \<and> status = EFI_SUCCESS \<and> fsize = of_nat (length bytes) \<or>
      fw_error fw status \<and> status \<noteq> EFI_BUFFER_TOO_SMALL"
    using g by (auto split: if_splits)
qed

text \<open>The end of IoGetFileInfo, when the last call of the firmware has answered: the buffer is released on an error.\<close>

lemma info_end:
  assumes "mem_ok (memory st)"
  shows "\<exists>st'. map_option (Pair (status, 0 :: nat, 0 :: u64)) (io_free a st) = Some ((status, 0, 0), st') \<and> mem_ok (memory st') \<and>
    handle st' = handle st \<and> world st' = world st"
  using io_free_ok [OF assms, of a] by (metis option.simps(9))

lemma IoGetFileInfo_at:
  assumes fw: "firmware_file fw bytes infoSize position" and st: "EfiFileHandle (handle st)" "mem_ok (memory st)"
  shows "case IoGetFileInfo fw st of None \<Rightarrow> retry_fails infoSize (memory st)
    | Some ((status, a, fsize), st') \<Rightarrow> handle st' = handle st \<and> mem_ok (memory st') \<and> position (world st') = position (world st) \<and>
        (status = EFI_SUCCESS \<and> a \<noteq> 0 \<and> fsize = of_nat (length bytes) \<or>
         status = EFI_OUT_OF_RESOURCES \<and> no_memory file_info_size (memory st) \<or> fw_error fw status)"
proof -
  obtain a st1 where a: "io_allocate file_info_size st = (a, st1)" "mem_ok (memory st1)" "handle st1 = handle st" "world st1 = world st"
    using io_allocate_ok [OF st(2)] by blast
  then have al: "MmAllocatePool (of_nat file_info_size) (memory st) = (a, memory st1)" by (auto simp: io_allocate_def split: prod.splits)
  obtain s1 k1 size1 w1 where g1: "GetInfo fw file_info_size (world st) = (s1, k1, size1, w1)" by (rule prod_cases4)
  note c1 = GetInfo_cases [OF fw g1]
  let ?st1 = "st1\<lparr>world := w1\<rparr>"
  have ok1: "mem_ok (memory ?st1)" using a(2) by simp
  show ?thesis
  proof (cases "a = 0")
    case True
    then show ?thesis using a st al by (auto simp: IoGetFileInfo_def no_memory_def)
  next
    case a0: False
    show ?thesis
    proof (cases "s1 = EFI_BUFFER_TOO_SMALL")
      case False
      then show ?thesis using a0 a g1 c1 st(1) info_end [OF ok1, of s1 a] fw_errorD [of fw s1]
        by (auto simp: IoGetFileInfo_def)
    next
      case True
      then have k1: "k1 = infoSize" "file_info_size < infoSize" using c1(2) by auto
      obtain st2 where f: "io_free a ?st1 = Some st2" "mem_ok (memory st2)" "handle st2 = handle st" "world st2 = w1"
        using io_free_ok [OF ok1, of a] a(3) by auto
      obtain a' st3 where a': "io_allocate infoSize st2 = (a', st3)" "mem_ok (memory st3)" "handle st3 = handle st" "world st3 = w1"
        using io_allocate_ok [OF f(2)] f(3,4) by metis
      have "MmFreePool a (memory st1) = Some (memory st2)" using f(1) by (auto simp: io_free_def)
      moreover have "fst (MmAllocatePool (of_nat infoSize) (memory st2)) = a'"
        using a'(1) by (auto simp: io_allocate_def split: prod.splits)
      ultimately have retry: "retry_fails infoSize (memory st) \<longleftrightarrow> a' = 0"
        using k1(2) al by (simp add: retry_fails_def no_memory_def)
      obtain s2 k2 size2 w2 where g2: "GetInfo fw infoSize w1 = (s2, k2, size2, w2)" by (rule prod_cases4)
      note c2 = GetInfo_cases [OF fw g2]
      have ok3: "mem_ok (memory (st3\<lparr>world := w2\<rparr>))" using a'(2) by simp
      show ?thesis using a0 a g1 True k1 f a' g2 c1(1) c2 st(1) retry info_end [OF ok3, of s2 a'] fw_errorD [of fw s2]
        by (auto simp: IoGetFileInfo_def)
    qed
  qed
qed

lemma IoGetFileSize_at:
  assumes fw: "firmware_file fw bytes infoSize position" and st: "file_at bytes position st pos"
  shows "case IoGetFileSize fw st of None \<Rightarrow> EfiFileHandle (handle st) \<and> retry_fails infoSize (memory st)
    | Some ((status, n), st') \<Rightarrow> file_at bytes position st' pos \<and>
        (status = EFI_SUCCESS \<and> n = length bytes \<or>
         status = EFI_OUT_OF_RESOURCES \<and> no_memory file_info_size (memory st) \<or> fw_error fw status)"
proof (cases "EfiFileHandle (handle st)")
  case True
  have h: "\<not> EfiLoadFileProtocol (handle st)" "FileBuffer (handle st) = None" "mem_ok (memory st)" "position (world st) = pos"
    using True st by (auto simp: file_at_def)
  have un: "unat (of_nat (length bytes) :: u64) = length bytes" using fw by (simp add: firmware_file_def unat_of_nat_small)
  show ?thesis
  proof (cases "IoGetFileInfo fw st")
    case None
    then show ?thesis using IoGetFileInfo_at [OF fw True h(3)] True h by (simp add: IoGetFileSize_def)
  next
    case (Some x)
    obtain status a fsize st1 where x: "x = ((status, a, fsize), st1)" by (metis prod.exhaust)
    have i: "handle st1 = handle st" "mem_ok (memory st1)" "position (world st1) = pos"
      "status = EFI_SUCCESS \<and> a \<noteq> 0 \<and> fsize = of_nat (length bytes) \<or>
       status = EFI_OUT_OF_RESOURCES \<and> no_memory file_info_size (memory st) \<or> fw_error fw status"
      using IoGetFileInfo_at [OF fw True h(3)] h(4) unfolding Some x by auto
    obtain st2 where f: "io_free a st1 = Some st2" "mem_ok (memory st2)" "handle st2 = handle st" "world st2 = world st1"
      using io_free_ok [OF i(2), of a] i(1) by metis
    show ?thesis using True h i f un fw_errorD [of fw status] by (auto simp: IoGetFileSize_def Some x file_at_def)
  qed
qed (use st in \<open>auto simp: IoGetFileSize_def file_at_def\<close>)

lemma file_at_memory: "file_at bytes position st pos \<Longrightarrow> mem_ok (memory st)"
  by (simp add: file_at_def)

lemma IoCloseFile_ok: "mem_ok (memory st) \<Longrightarrow> \<exists>st'. IoCloseFile fw st = Some st' \<and> mem_ok (memory st') \<and> handle st' = zero_handle"
proof -
  assume st: "mem_ok (memory st)"
  obtain st1 where st1: "(case FileBuffer (handle st) of None \<Rightarrow> Some st | Some (a, _) \<Rightarrow> io_free a st) = Some st1"
    "mem_ok (memory st1)" "handle st1 = handle st"
  proof (cases "FileBuffer (handle st)")
    case (Some x)
    then show ?thesis using that io_free_ok [OF st, of "fst x"] by (cases x) auto
  qed (use that st in auto)
  obtain st2 where st2: "(if EfiFilePath (handle st1) = 0 then Some st1 else io_free (EfiFilePath (handle st1)) st1) = Some st2"
    "mem_ok (memory st2)"
    using that io_free_ok [OF st1(2), of "EfiFilePath (handle st1)"] st1(2) by (cases "EfiFilePath (handle st1) = 0") auto
  show ?thesis unfolding IoCloseFile_def st1(1) option.case st2(1) using st2(2) by (auto simp: Let_def)
qed

lemma whole_fails_ok: "mem_ok (memory st) \<Longrightarrow> \<exists>st'. whole_fails fw status a st = Some ((status, None, 0), st') \<and> mem_ok (memory st')"
  using IoCloseFile_ok [of st fw] mem_ok_free [of _ a] by (fastforce simp: whole_fails_def io_free_def)

text \<open>The whole of a text file: what is left to chance is the memory and the firmware.\<close>

definition whole_fault :: "'w firmware \<Rightarrow> u8 list \<Rightarrow> 'w io \<Rightarrow> EFI_STATUS \<Rightarrow> bool" where
  "whole_fault fw bytes st status \<longleftrightarrow> fw_error fw status \<or> status = EFI_OUT_OF_RESOURCES \<and>
     (no_memory file_info_size (memory st) \<or>
      (\<exists>st1. IoGetFileSize fw st = Some ((EFI_SUCCESS, length bytes), st1) \<and> no_memory (length bytes + 1) (memory st1)))"

lemma IoReadWholeFile_text:
  assumes fw: "firmware_file fw bytes infoSize position" and st: "file_at bytes position st 0"
  shows "case IoReadWholeFile fw EFI_SUCCESS True st of None \<Rightarrow> retry_fails infoSize (memory st)
    | Some ((status, buffer, n), st') \<Rightarrow> mem_ok (memory st') \<and>
        (buffer = None \<and> n = 0 \<and> whole_fault fw bytes st status \<or>
         (\<exists>a. status = EFI_SUCCESS \<and> buffer = Some (a, bytes @ [0]) \<and> n = length bytes))"
proof (cases "IoGetFileSize fw st")
  case None
  then show ?thesis using IoGetFileSize_at [OF fw st] by (simp add: IoReadWholeFile_def)
next
  case (Some x)
  then obtain status n st1 where x: "x = ((status, n), st1)" by (metis prod.exhaust)
  have s: "file_at bytes position st1 0" "status = EFI_SUCCESS \<and> n = length bytes \<or>
      status = EFI_OUT_OF_RESOURCES \<and> no_memory file_info_size (memory st) \<or> fw_error fw status"
    using IoGetFileSize_at [OF fw st] unfolding Some x by auto
  show ?thesis
  proof (cases "EFI_ERROR status")
    case True
    then have "whole_fault fw bytes st status" using s(2) by (auto simp: whole_fault_def)
    then show ?thesis using True whole_fails_ok [OF file_at_memory [OF s(1)], of fw status 0]
      by (auto simp: IoReadWholeFile_def Some x)
  next
    case False
    then have n: "n = length bytes" "status = EFI_SUCCESS" using s(2) by (auto simp: fw_error_def)
    obtain a st2 where a: "io_allocate (n + 1) st1 = (a, st2)" "mem_ok (memory st2)" "handle st2 = handle st1" "world st2 = world st1"
      using io_allocate_ok [OF file_at_memory [OF s(1)]] by blast
    show ?thesis
    proof (cases "a = 0")
      case a0: True
      have "no_memory (n + 1) (memory st1)" using a(1) a0 by (auto simp: io_allocate_def no_memory_def split: prod.splits)
      then have "whole_fault fw bytes st EFI_OUT_OF_RESOURCES" using Some x n by (auto simp: whole_fault_def)
      then show ?thesis using Some x n a a0 whole_fails_ok [OF a(2), of fw EFI_OUT_OF_RESOURCES 0]
        by (auto simp: IoReadWholeFile_def)
    next
      case False
      have "file_at bytes position st2 0" using s(1) a by (auto simp: file_at_def)
      from IoReadFile_at [OF fw this, of n] obtain s3 d st3 where r: "IoReadFile fw n False st2 = Some ((s3, d), st3)"
        "mem_ok (memory st3)" "s3 = EFI_SUCCESS \<and> d = bytes \<or> fw_error fw s3" using n a(2) by (auto simp: file_at_def)
      show ?thesis
      proof (cases "EFI_ERROR s3")
        case True
        then have "whole_fault fw bytes st s3" using r(3) by (auto simp: whole_fault_def)
        then show ?thesis using True Some x n a(1) False r(1) whole_fails_ok [OF r(2), of fw s3 a]
          by (auto simp: IoReadWholeFile_def)
      next
        case s3: False
        then have d: "d = bytes" "s3 = EFI_SUCCESS" using r(3) by (auto simp: fw_error_def)
        obtain st4 where "IoCloseFile fw st3 = Some st4" "mem_ok (memory st4)" using IoCloseFile_ok [OF r(2)] by blast
        moreover have "(overlay (replicate (n + 1) 0) 0 bytes)[length bytes := 0] = bytes @ [0]"
          using n by (simp add: overlay_def list_update_append Suc_diff_le del: replicate_Suc) simp
        ultimately show ?thesis using Some x n a(1) False r(1) d
          by (auto simp: IoReadWholeFile_def Let_def)
      qed
    qed
  qed
qed

section \<open>Properties\<close>

text \<open>
  C14. An open handle is a sequence of bytes and a position, whether the firmware keeps the
  file or it lies in a buffer: a read returns the next bytes, as many as asked for unless the file
  ends, in spite of the limit of one megabyte per call of the firmware, and moves the position; seeking
  sets the position (all ones apart, which the firmware takes for the end of the file); the size is the number of bytes, also when
  the file information is longer than the first buffer for it. Otherwise the error that the firmware has answered is returned, after a
  read of some of the bytes at most, or EFI_OUT_OF_RESOURCES when the pool has no memory for the file information; and
  asking for the size is undefined only when the second, longer buffer is needed and cannot be allocated.
\<close>

theorem file_access:
  assumes "firmware_file fw bytes infoSize position" and "file_at bytes position st pos"
  shows "(\<exists>status data st'. IoReadFile fw n False st = Some ((status, data), st') \<and>
      (status = EFI_SUCCESS \<and> data = take n (drop pos bytes) \<and> file_at bytes position st' (pos + length data) \<or>
       fw_error fw status \<and> (\<exists>k \<le> n. data = take k (drop pos bytes)))) \<and>
    (\<exists>status st' pos'. IoSetFilePosition fw p st = (status, st') \<and> file_at bytes position st' pos' \<and>
      (status = EFI_SUCCESS \<and> drop pos' bytes = drop (unat p) bytes \<and> (p \<noteq> - 1 \<longrightarrow> pos' = unat p) \<or> fw_error fw status)) \<and>
    (case IoGetFileSize fw st of None \<Rightarrow> EfiFileHandle (handle st) \<and> retry_fails infoSize (memory st)
     | Some ((status, m), st') \<Rightarrow> file_at bytes position st' pos \<and>
         (status = EFI_SUCCESS \<and> m = length bytes \<or>
          status = EFI_OUT_OF_RESOURCES \<and> no_memory file_info_size (memory st) \<or> fw_error fw status))"
  using IoReadFile_at [OF assms, of n] IoSetFilePosition_at [OF assms, of p] IoGetFileSize_at [OF assms] by blast

lemma memory_file_errors: "\<not> fw_error (memory_file bytes) status"
  by (auto simp: fw_error_def memory_file_def split: if_splits)

definition roomy_memory :: memory where
  "roomy_memory = small_memory\<lparr>pool_next := [(0x10000, 4096), (0x20000, 4096), (0x30000, 4096)]\<rparr>"

lemma roomy_memory_facts:
  "mem_ok roomy_memory" "\<not> no_memory file_info_size roomy_memory" "\<not> retry_fails 480 roomy_memory"
proof -
  have "mm_inv roomy_memory [300, 400] [100] [900]"
    by (simp add: mm_inv_def roomy_memory_def small_memory_def zero_tag_def pool_ok_def apart_def)
  then show "mem_ok roomy_memory" by (auto simp: mem_ok_def)
  have n: "(of_nat file_info_size :: u64) = 208" "unat (208 :: u64) = 208" by (simp_all add: file_info_size_def)
  note run = MmAllocatePool_def allocate_pool_def MmpInsertMemoryTag_def MmpGetMemoryTag_def upd_tag_def Let_def
    roomy_memory_def small_memory_def zero_tag_def
  show "\<not> no_memory file_info_size roomy_memory" by (simp add: no_memory_def n run)
  show "\<not> retry_fails 480 roomy_memory"
    by (simp add: retry_fails_def no_memory_def n run MmFreePool_def free_pool_def MmpRemoveMemoryTag_def MmpFindMemoryTag_def
        find_tag.simps MmpFreeMemoryTag_def)
qed

definition roomy_file :: "nat io" where
  "roomy_file = \<lparr>handle = zero_handle\<lparr>EfiFileHandle := True\<rparr>, world = 0, memory = roomy_memory\<rparr>"

lemma roomy_file_at: "file_at bytes id roomy_file 0"
  using roomy_memory_facts(1) by (simp add: roomy_file_def file_at_def zero_handle_def)

lemma roomy_file_size:
  "\<exists>st1. IoGetFileSize (memory_file [0x3c, 0x3e, 1]) roomy_file = Some ((EFI_SUCCESS, 3), st1) \<and> \<not> no_memory 4 (memory st1)"
  by (simp add: roomy_file_def memory_file_def zero_handle_def IoGetFileSize_def IoGetFileInfo_def io_allocate_def io_free_def
      file_info_size_def no_memory_def MmAllocatePool_def allocate_pool_def MmpInsertMemoryTag_def MmpGetMemoryTag_def
      upd_tag_def Let_def roomy_memory_def small_memory_def zero_tag_def MmFreePool_def free_pool_def MmpRemoveMemoryTag_def
      MmpFindMemoryTag_def find_tag.simps MmpFreeMemoryTag_def)

lemma roomy_file_no_fault:
  "\<not> whole_fault (memory_file [0x3c, 0x3e, 1]) [0x3c, 0x3e, 1] roomy_file status" "\<not> retry_fails 480 (memory roomy_file)"
  using roomy_file_size memory_file_errors [of "[0x3c, 0x3e, 1]"] roomy_memory_facts(2,3)
  by (auto simp: whole_fault_def roomy_file_def eval_nat_numeral)

theorem file_access_witness:
  "let st = \<lparr>handle = zero_handle\<lparr>EfiFileHandle := True\<rparr>, world = 1, memory = roomy_memory\<rparr> in
   (\<exists>st'. IoReadFile (memory_file [1, 2, 3]) 5 False st = Some ((EFI_SUCCESS, [2, 3]), st')) \<and>
   (\<exists>st'. IoGetFileSize (memory_file [1, 2, 3]) st = Some ((EFI_SUCCESS, 3), st'))"
proof -
  let ?st = "\<lparr>handle = zero_handle\<lparr>EfiFileHandle := True\<rparr>, world = 1, memory = roomy_memory\<rparr>"
  have fw: "firmware_file (memory_file [1, 2, 3]) [1, 2, 3] 480 id" by (rule memory_file_ok) simp
  have at: "file_at [1, 2, 3] id ?st 1" using roomy_memory_facts(1) by (simp add: file_at_def zero_handle_def)
  have mem: "memory ?st = roomy_memory" by simp
  show ?thesis
    using file_access [OF fw at, of 5 0] memory_file_errors [of "[1, 2, 3]"] roomy_memory_facts(2,3) unfolding Let_def mem
    by (auto split: option.splits)
qed

end
