(* ===== verification/MachO.thy ===== *)
theory MachO
  imports FileIo MemoryMap CString "HOL-Library.Monad_Syntax"
begin

text \<open>
  The Mach-O loader (MachO.c): finding the 64-bit image in a fat file, loading its segments into
  kernel memory, moving it by the displacement of the address space randomization, and symbols. Structures
  are records that are decoded from bytes. The load commands lie in a buffer from the pool,
  and a read behind its end is undefined behaviour, None; loaded segments lie in physical memory,
  every address of which can be read and written. The build is that of the Makefile: loadExecutable is
  patched, readStartupExtensions is not.
\<close>

section \<open>Structures\<close>

definition FAT_MAGIC :: u32 where "FAT_MAGIC = 0xcafebabe"
definition FAT_CIGAM :: u32 where "FAT_CIGAM = 0xbebafeca"
definition MH_MAGIC_64 :: u32 where "MH_MAGIC_64 = 0xfeedfacf"
definition KERNEL_CACHE_MAGIC :: u32 where "KERNEL_CACHE_MAGIC = 0x636f6d70"
definition MACH_O_COMMAND_SEGMENT32 :: u32 where "MACH_O_COMMAND_SEGMENT32 = 0x01"
definition MACH_O_COMMAND_SYMTAB :: u32 where "MACH_O_COMMAND_SYMTAB = 0x02"
definition MACH_O_COMMAND_UNIX_THREAD :: u32 where "MACH_O_COMMAND_UNIX_THREAD = 0x05"
definition MACH_O_COMMAND_DYSYMTAB :: u32 where "MACH_O_COMMAND_DYSYMTAB = 0x0b"
definition MACH_O_COMMAND_SEGMENT64 :: u32 where "MACH_O_COMMAND_SEGMENT64 = 0x19"
definition THREAD_STATE_FLAVOR_X64 :: u32 where "THREAD_STATE_FLAVOR_X64 = 4"
definition MH_PIE :: u32 where "MH_PIE = 0x200000"
definition CPU_TYPE_X64 :: u32 where "CPU_TYPE_X64 = 0x1000007"
definition LOAD_EXECUTABLE_TARGET :: u64 where "LOAD_EXECUTABLE_TARGET = 0x487074db8548c389"
definition LOAD_EXECUTABLE_PATCH :: u64 where "LOAD_EXECUTABLE_PATCH = 0x4812ebdb8548c389"

definition SWAP32 :: "u32 \<Rightarrow> u32" where
  "SWAP32 v = push_bit 24 (v AND 0xff) OR push_bit 8 (v AND 0xff00) OR drop_bit 8 (v AND 0xff0000) OR
     drop_bit 24 (v AND 0xff000000)"

definition le64 :: "u8 list \<Rightarrow> nat \<Rightarrow> u64" where
  "le64 b i = ucast (le32 b i) OR push_bit 32 (ucast (le32 b (i + 4)))"

record FAT_HEADER =
  fat_Magic :: u32
  ArchHeadersCount :: u32

record FAT_ARCH_HEADER =
  arch_CpuType :: u32
  arch_CpuSubType :: u32
  OffsetInFile :: u32
  arch_Size :: u32
  Align :: u32

record MACH_HEADER64 =
  Magic :: u32
  CpuType :: u32
  CpuSubType :: u32
  FileType :: u32
  CommandsCount :: u32
  CommandsLength :: u32
  Flags :: u32

definition sizeof_FAT_HEADER :: nat where "sizeof_FAT_HEADER = 8"
definition sizeof_FAT_ARCH_HEADER :: nat where "sizeof_FAT_ARCH_HEADER = 20"
definition sizeof_MACH_HEADER :: nat where "sizeof_MACH_HEADER = 28"
definition sizeof_MACH_HEADER64 :: nat where "sizeof_MACH_HEADER64 = 32"

definition fat_header :: "u8 list \<Rightarrow> FAT_HEADER" where
  "fat_header b = \<lparr>fat_Magic = le32 b 0, ArchHeadersCount = le32 b 4\<rparr>"

definition fat_arch_header :: "u8 list \<Rightarrow> FAT_ARCH_HEADER" where
  "fat_arch_header b = \<lparr>arch_CpuType = le32 b 0, arch_CpuSubType = le32 b 4, OffsetInFile = le32 b 8, arch_Size = le32 b 12,
     Align = le32 b 16\<rparr>"

definition mach_header :: "u8 list \<Rightarrow> MACH_HEADER64" where
  "mach_header b = \<lparr>Magic = le32 b 0, CpuType = le32 b 4, CpuSubType = le32 b 8, FileType = le32 b 12,
     CommandsCount = le32 b 16, CommandsLength = le32 b 20, Flags = le32 b 24\<rparr>"

text \<open>Load commands: offsets of their fields.\<close>

definition off_CommandLength :: nat where "off_CommandLength = 4"
definition off_Name :: nat where "off_Name = 8"
definition off_VirtualAddress :: nat where "off_VirtualAddress = 24"
definition off_VirtualSize :: nat where "off_VirtualSize = 32"
definition off_FileOffset :: nat where "off_FileOffset = 40"
definition off_FileSize :: nat where "off_FileSize = 48"
definition off_SectionCount :: nat where "off_SectionCount = 64"
definition sizeof_SEGMENT_COMMAND64 :: nat where "sizeof_SEGMENT_COMMAND64 = 72"
definition off_FileOffset32 :: nat where "off_FileOffset32 = 32"
definition off_Address :: nat where "off_Address = 32"
definition sizeof_SECTION64 :: nat where "sizeof_SECTION64 = 80"
definition off_SymbolTableOffset :: nat where "off_SymbolTableOffset = 8"
definition off_SymbolCount :: nat where "off_SymbolCount = 12"
definition off_StringTableOffset :: nat where "off_StringTableOffset = 16"
definition off_LocalRelocationOffset :: nat where "off_LocalRelocationOffset = 72"
definition off_LocalRelocationCount :: nat where "off_LocalRelocationCount = 76"
definition off_ThreadStateFlavor :: nat where "off_ThreadStateFlavor = 8"
definition off_Rip :: nat where "off_Rip = 16 + 16 * 8"

lemmas mach_offsets = off_CommandLength_def off_Name_def off_VirtualAddress_def off_VirtualSize_def off_FileOffset_def
  off_FileSize_def off_SectionCount_def sizeof_SEGMENT_COMMAND64_def off_FileOffset32_def off_Address_def
  sizeof_SECTION64_def off_SymbolTableOffset_def off_SymbolCount_def off_StringTableOffset_def
  off_LocalRelocationOffset_def off_LocalRelocationCount_def off_ThreadStateFlavor_def off_Rip_def

record SYMTAB_ENTRY64 =
  StringIndex :: u32
  sym_Type :: u8
  SectionIndex :: u8
  Description :: u16
  Value :: u64

definition sizeof_SYMTAB_ENTRY64 :: u64 where "sizeof_SYMTAB_ENTRY64 = 16"
definition off_Value :: u64 where "off_Value = 8"

definition symbol_at :: "phys \<Rightarrow> u64 \<Rightarrow> SYMTAB_ENTRY64" where
  "symbol_at m a = \<lparr>StringIndex = read32 m a, sym_Type = m (a + 4), SectionIndex = m (a + 5),
     Description = ucast (m (a + 6)) OR push_bit 8 (ucast (m (a + 7))), Value = read64 m (a + off_Value)\<rparr>"

record RELOCATION_INFO =
  SectionOffset :: u32
  SymbolTableIndex :: u32
  PCRelative :: bool
  rel_Length :: u32
  External :: bool
  rel_Type :: u32

definition sizeof_RELOCATION_INFO :: u64 where "sizeof_RELOCATION_INFO = 8"

definition relocation_at :: "phys \<Rightarrow> u64 \<Rightarrow> RELOCATION_INFO" where
  "relocation_at m a =
     (let w = read32 m (a + 4) in
      \<lparr>SectionOffset = read32 m a, SymbolTableIndex = w AND 0xffffff, PCRelative = bit w 24,
       rel_Length = drop_bit 25 w AND 3, External = bit w 27, rel_Type = drop_bit 28 w AND 0xf\<rparr>)"

record MACH_O_LOADED_INFO =
  ImageBasePhysicalAddress :: u64
  TextSegmentFileSize :: u64
  ImageBaseVirtualAddress :: u64
  MinPhysicalAddress :: u64
  MaxPhysicalAddress :: u64
  EntryPointPhysicalAddress :: u64
  MinVirtualAddress :: u64
  MaxVirtualAddress :: u64
  EntryPointVirtualAddress :: u64
  ArchType :: u32
  IdlePML4VirtualAddress :: u64

section \<open>Fat files\<close>

text \<open>The status, and offset and size of the image when they are set.\<close>

definition MachpLoadMachOThinFatFile :: "'w firmware \<Rightarrow> 'w io \<Rightarrow> ((EFI_STATUS \<times> (u64 \<times> u64) option) \<times> 'w io) option" where
  "MachpLoadMachOThinFatFile fw st =
     (let (status, st) = IoSetFilePosition fw 0 st in
      if EFI_ERROR status then Some ((status, None), st)
      else do {
        ((status, data), st) \<leftarrow> IoReadFile fw sizeof_MACH_HEADER False st;
        if EFI_ERROR status then Some ((status, None), st)
        else if length data < sizeof_MACH_HEADER then Some ((EFI_DEVICE_ERROR, None), st)
        else
          let (status, st) = IoSetFilePosition fw 0 st in
          if EFI_ERROR status then Some ((status, None), st)
          else do {
            ((status, fileSize), st) \<leftarrow> IoGetFileSize fw st;
            if EFI_ERROR status then Some ((status, None), st)
            else if Magic (mach_header data) \<noteq> MH_MAGIC_64 then Some ((EFI_NOT_FOUND, None), st)
            else if CpuType (mach_header data) \<noteq> CPU_TYPE_X64 then Some ((EFI_NOT_FOUND, None), st)
            else Some ((status, Some (0, ucast (of_nat fileSize :: u32))), st)
          }
      })"

text \<open>The first header of the 64-bit processor among those that are left.\<close>

fun find_arch :: "'w firmware \<Rightarrow> nat \<Rightarrow> bool \<Rightarrow> 'w io \<Rightarrow> ((EFI_STATUS \<times> FAT_ARCH_HEADER option) \<times> 'w io) option" where
  "find_arch fw 0 needSwap st = Some ((EFI_SUCCESS, None), st)"
| "find_arch fw (Suc i) needSwap st = do {
     ((status, data), st) \<leftarrow> IoReadFile fw sizeof_FAT_ARCH_HEADER False st;
     if EFI_ERROR status then Some ((status, None), st)
     else if length data < sizeof_FAT_ARCH_HEADER then Some ((EFI_DEVICE_ERROR, None), st)
     else
       let a = fat_arch_header data;
           a = (if needSwap then a\<lparr>arch_CpuType := SWAP32 (arch_CpuType a), OffsetInFile := SWAP32 (OffsetInFile a),
                  arch_Size := SWAP32 (arch_Size a)\<rparr> else a)
       in if arch_CpuType a = CPU_TYPE_X64 then Some ((EFI_SUCCESS, Some a), st) else find_arch fw i needSwap st
   }"

definition MachLoadThinFatFile :: "'w firmware \<Rightarrow> 'w io \<Rightarrow> ((EFI_STATUS \<times> (u64 \<times> u64) option) \<times> 'w io) option" where
  "MachLoadThinFatFile fw st = do {
     ((status, data), st) \<leftarrow> IoReadFile fw sizeof_FAT_HEADER False st;
     if EFI_ERROR status then Some ((status, None), st)
     else if length data < sizeof_FAT_HEADER then Some ((EFI_DEVICE_ERROR, None), st)
     else if fat_Magic (fat_header data) = SWAP32 KERNEL_CACHE_MAGIC then
       (let (status, st) = IoSetFilePosition fw 0 st in Some ((status, None), st))
     else if fat_Magic (fat_header data) \<noteq> FAT_MAGIC \<and> fat_Magic (fat_header data) \<noteq> FAT_CIGAM then
       MachpLoadMachOThinFatFile fw st
     else do {
       let needSwap = (fat_Magic (fat_header data) \<noteq> FAT_MAGIC);
       let count = (if needSwap then SWAP32 (ArchHeadersCount (fat_header data)) else ArchHeadersCount (fat_header data));
       ((status, arch), st) \<leftarrow> find_arch fw (unat count) needSwap st;
       if EFI_ERROR status then Some ((status, None), st)
       else case arch of None \<Rightarrow> Some ((EFI_NOT_FOUND, None), st)
       | Some a \<Rightarrow>
           if arch_Size a = 0 then Some ((EFI_NOT_FOUND, None), st)
           else
             let st = (if OffsetInFile a \<noteq> 0 then snd (IoSetFilePosition fw (ucast (OffsetInFile a)) st) else st)
             in Some ((status, Some (ucast (OffsetInFile a), ucast (arch_Size a))), st)
     }
   }"

section \<open>Segments and sections of a loaded image\<close>

text \<open>Pointers into physical memory; None is NULL.\<close>

definition command_length :: "phys \<Rightarrow> u64 \<Rightarrow> u64" where
  "command_length m a = ucast (read32 m (a + of_nat off_CommandLength))"

fun find_segment :: "phys \<Rightarrow> nat \<Rightarrow> u64 \<Rightarrow> u64 option" where
  "find_segment m 0 a = None"
| "find_segment m (Suc i) a =
     (if read32 m a = MACH_O_COMMAND_SEGMENT64 then Some a else find_segment m i (a + command_length m a))"

definition commands_count :: "phys \<Rightarrow> u64 \<Rightarrow> nat" where
  "commands_count m machHeader = unat (read32 m (machHeader + 16))"

definition MachpGetFirstSegment64 :: "phys \<Rightarrow> u64 \<Rightarrow> u64 option" where
  "MachpGetFirstSegment64 m machHeader =
     find_segment m (commands_count m machHeader) (machHeader + of_nat sizeof_MACH_HEADER64)"

text \<open>The commands up to the segment: how many are left, and where the walk has come to.\<close>

fun find_command :: "phys \<Rightarrow> nat \<Rightarrow> u64 \<Rightarrow> u64 \<Rightarrow> nat \<times> u64" where
  "find_command m 0 a segment64 = (0, a)"
| "find_command m (Suc i) a segment64 =
     (if a \<noteq> segment64 then find_command m i (a + command_length m a) segment64 else (Suc i, a))"

definition MachpGetNextSegment64 :: "phys \<Rightarrow> u64 \<Rightarrow> u64 \<Rightarrow> u64 option" where
  "MachpGetNextSegment64 m machHeader segment64 =
     (let (left, a) = find_command m (commands_count m machHeader) (machHeader + of_nat sizeof_MACH_HEADER64) segment64
      in find_segment m (left - 1) (a + command_length m a))"

definition section_count :: "phys \<Rightarrow> u64 \<Rightarrow> u64" where
  "section_count m segment64 = ucast (read32 m (segment64 + of_nat off_SectionCount))"

definition MachpGetFirstSection64 :: "phys \<Rightarrow> u64 \<Rightarrow> u64 option" where
  "MachpGetFirstSection64 m segment64 =
     (if section_count m segment64 \<noteq> 0 then Some (segment64 + of_nat sizeof_SEGMENT_COMMAND64) else None)"

definition MachpGetNextSection64 :: "phys \<Rightarrow> u64 \<Rightarrow> u64 \<Rightarrow> u64 option" where
  "MachpGetNextSection64 m segment64 section64 =
     (if section_count m segment64 = 0 then None
      else
        let index = (section64 - (segment64 + of_nat sizeof_SEGMENT_COMMAND64)) div of_nat sizeof_SECTION64
        in if index + 1 \<ge> section_count m segment64 then None else Some (section64 + of_nat sizeof_SECTION64))"

definition add64 :: "u64 \<Rightarrow> u64 \<Rightarrow> phys \<Rightarrow> phys" where
  "add64 a d m = write64 a (read64 m a + d) m"

partial_function (option) slide_sections :: "u64 \<Rightarrow> u64 \<Rightarrow> u64 option \<Rightarrow> phys \<Rightarrow> phys option" where
  "slide_sections d segment64 section64 m =
     (case section64 of None \<Rightarrow> Some m
      | Some s \<Rightarrow>
          let m = add64 (s + of_nat off_Address) d m
          in slide_sections d segment64 (MachpGetNextSection64 m segment64 s) m)"

partial_function (option) slide_segments :: "u64 \<Rightarrow> u64 \<Rightarrow> u64 option \<Rightarrow> phys \<Rightarrow> phys option" where
  "slide_segments d machHeader segment64 m =
     (case segment64 of None \<Rightarrow> Some m
      | Some s \<Rightarrow>
          let m = add64 (s + of_nat off_VirtualAddress) d m
          in case slide_sections d s (MachpGetFirstSection64 m s) m of None \<Rightarrow> None
             | Some m \<Rightarrow> slide_segments d machHeader (MachpGetNextSegment64 m machHeader s) m)"

section \<open>Loading\<close>

record 'w loader =
  fileHandle :: "'w io"
  ram :: phys
  loadedInfo :: MACH_O_LOADED_INFO
  ASLRDisplacement :: u64
  aslr_mode :: bool

record locals =
  readLength :: u64
  dataSegment :: u64
  linkEditSegment :: u64
  linkEditSegmentOffset :: u64

definition name_TEXT :: "u8 list" where "name_TEXT = [0x5f, 0x5f, 0x54, 0x45, 0x58, 0x54, 0]"
definition name_DATA :: "u8 list" where "name_DATA = [0x5f, 0x5f, 0x44, 0x41, 0x54, 0x41, 0]"
definition name_LINKEDIT :: "u8 list" where
  "name_LINKEDIT = [0x5f, 0x5f, 0x4c, 0x49, 0x4e, 0x4b, 0x45, 0x44, 0x49, 0x54, 0]"
definition name_IdlePML4 :: "u8 list" where
  "name_IdlePML4 = [0x5f, 0x49, 0x64, 0x6c, 0x65, 0x50, 0x4d, 0x4c, 0x34, 0]"
definition name_loadExecutable :: "u8 list" where
  "name_loadExecutable = [0x5f, 0x5f, 0x5a, 0x4e, 0x36, 0x4f, 0x53, 0x4b, 0x65, 0x78, 0x74, 0x31, 0x34, 0x6c, 0x6f, 0x61,
     0x64, 0x45, 0x78, 0x65, 0x63, 0x75, 0x74, 0x61, 0x62, 0x6c, 0x65, 0x45, 0x76, 0]"

text \<open>Fields of a load command in the buffer, when they lie inside.\<close>

definition field32 :: "u8 list \<Rightarrow> nat \<Rightarrow> u32 option" where
  "field32 b i = (if i + 4 \<le> length b then Some (le32 b i) else None)"

definition field64 :: "u8 list \<Rightarrow> nat \<Rightarrow> u64 option" where
  "field64 b i = (if i + 8 \<le> length b then Some (le64 b i) else None)"

definition same_name :: "u8 list \<Rightarrow> u8 list \<Rightarrow> bool option" where
  "same_name a b = map_option (\<lambda>v. v = 0) (strcmp a b)"

text \<open>Whether the terminated string is the one in memory.\<close>

definition ram_string :: "phys \<Rightarrow> u8 list \<Rightarrow> u64 \<Rightarrow> bool option" where
  "ram_string m s a = same_name s (read_bytes m a (length s))"

text \<open>How a handler ends: go on with the next command, or leave the function with a status.\<close>

datatype 'w outcome = Go_on locals "'w loader" | Leave EFI_STATUS "'w loader"

definition free_commands :: "nat \<Rightarrow> EFI_STATUS \<Rightarrow> 'w loader \<Rightarrow> 'w outcome option" where
  "free_commands commandsBuffer status st =
     map_option (\<lambda>io. Leave status (st\<lparr>fileHandle := io\<rparr>)) (io_free commandsBuffer (fileHandle st))"

definition update_range :: "u64 \<Rightarrow> u64 \<Rightarrow> MACH_O_LOADED_INFO \<Rightarrow> MACH_O_LOADED_INFO" where
  "update_range virtualAddress allocatedLength i =
     (let i = (if MinVirtualAddress i = 0 \<or> virtualAddress < MinVirtualAddress i
               then i\<lparr>MinVirtualAddress := virtualAddress, MinPhysicalAddress := LdrStaticVirtualToPhysical virtualAddress\<rparr>
               else i)
      in if MaxVirtualAddress i = 0 \<or> MaxVirtualAddress i < virtualAddress + allocatedLength
         then i\<lparr>MaxVirtualAddress := virtualAddress + allocatedLength,
                MaxPhysicalAddress := LdrStaticVirtualToPhysical (virtualAddress + allocatedLength)\<rparr>
         else i)"

text \<open>What is noted of a segment by its name.\<close>

definition note_segment :: "u8 list \<Rightarrow> u64 \<Rightarrow> u64 \<Rightarrow> u64 \<Rightarrow> u64 \<Rightarrow> locals \<Rightarrow> 'w loader \<Rightarrow> (locals \<times> 'w loader) option" where
  "note_segment nm physicalAddress virtualAddress segmentFileSize segmentFileOffset l st = do {
     isText \<leftarrow> same_name nm name_TEXT;
     st \<leftarrow>
       (if isText then do {
          let st = st\<lparr>loadedInfo := (loadedInfo st)\<lparr>ImageBasePhysicalAddress := physicalAddress,
                ImageBaseVirtualAddress := virtualAddress, TextSegmentFileSize := segmentFileSize\<rparr>\<rparr>;
          if ASLRDisplacement st \<noteq> 0 then do {
            m \<leftarrow> slide_segments (ASLRDisplacement st) physicalAddress (MachpGetFirstSegment64 (ram st) physicalAddress) (ram st);
            Some (st\<lparr>ram := m\<rparr>)
          }
          else Some st
        }
        else Some st);
     isData \<leftarrow> (if dataSegment l = 0 then same_name nm name_DATA else Some False);
     let l = (if isData then l\<lparr>dataSegment := physicalAddress\<rparr> else l);
     isLinkEdit \<leftarrow> (if linkEditSegment l = 0 then same_name nm name_LINKEDIT else Some False);
     Some (if isLinkEdit then l\<lparr>linkEditSegment := physicalAddress, linkEditSegmentOffset := segmentFileOffset\<rparr> else l, st)
   }"

text \<open>
  Reading the data of a segment in. When there is none, readLength keeps its value from the read
  before. The rest up to the allocated length, as far as readLength tells, is cleared.
\<close>

definition read_segment :: "'w firmware \<Rightarrow> u64 \<Rightarrow> u64 \<Rightarrow> locals \<Rightarrow> 'w loader \<Rightarrow> (EFI_STATUS \<times> locals \<times> 'w loader) option" where
  "read_segment fw fileLength physicalAddress l st =
     (if fileLength \<noteq> 0 then do {
        ((status, data), io) \<leftarrow> IoReadFile fw (unat fileLength) False (fileHandle st);
        Some (status, l\<lparr>readLength := of_nat (length data)\<rparr>,
          st\<lparr>fileHandle := io, ram := write_bytes physicalAddress data (ram st)\<rparr>)
      }
      else Some (EFI_SUCCESS, l, st))"

definition clear_rest :: "u64 \<Rightarrow> u64 \<Rightarrow> locals \<Rightarrow> 'w loader \<Rightarrow> 'w loader" where
  "clear_rest allocatedLength physicalAddress l st =
     (if readLength l \<noteq> allocatedLength
      then st\<lparr>ram := clear_bytes (unat (allocatedLength - readLength l)) (physicalAddress + readLength l) (ram st)\<rparr>
      else st)"

definition load_segment :: "'w firmware \<Rightarrow> u64 \<Rightarrow> nat \<Rightarrow> u8 list \<Rightarrow> nat \<Rightarrow> locals \<Rightarrow> 'w loader \<Rightarrow> 'w outcome option" where
  "load_segment fw machOffset commandsBuffer buf cmd l st = do {
     va \<leftarrow> field64 buf (cmd + off_VirtualAddress);
     let segmentVirtualAddress = va + ASLRDisplacement st;
     segmentVirtualSize \<leftarrow> field64 buf (cmd + off_VirtualSize);
     segmentFileSize \<leftarrow> field64 buf (cmd + off_FileSize);
     segmentFileOffset \<leftarrow> field64 buf (cmd + off_FileOffset);
     if segmentVirtualSize = 0 then Some (Go_on l st)
     else case IoSetFilePosition fw (machOffset + segmentFileOffset) (fileHandle st) of (status, io) \<Rightarrow>
       if EFI_ERROR status then free_commands commandsBuffer status (st\<lparr>fileHandle := io\<rparr>)
       else case MmAllocateKernelMemory (Some segmentVirtualSize) (Some segmentVirtualAddress) (memory io) of
         (physicalAddress, allocated, virt, h) \<Rightarrow> do {
           let st = st\<lparr>fileHandle := io\<lparr>memory := h\<rparr>\<rparr>;
           if physicalAddress = 0 then free_commands commandsBuffer EFI_OUT_OF_RESOURCES st
           else do {
             let fileLength = (if segmentVirtualSize > segmentFileSize then segmentFileSize else segmentVirtualSize);
             (status, l, st) \<leftarrow> read_segment fw fileLength physicalAddress l st;
             if EFI_ERROR status then free_commands commandsBuffer status st
             else do {
               let st = clear_rest (the allocated) physicalAddress l st;
               (l, st) \<leftarrow> note_segment (drop (cmd + off_Name) buf) physicalAddress (the virt) segmentFileSize segmentFileOffset l st;
               Some (Go_on l (st\<lparr>loadedInfo := update_range (the virt) (the allocated) (loadedInfo st)\<rparr>))
             }
           }
         }
   }"

text \<open>Local relocations: pointers in the data segment are moved; the result tells whether all entries are of the one kind.\<close>

definition relocation_ok :: "RELOCATION_INFO \<Rightarrow> bool" where
  "relocation_ok r \<longleftrightarrow> rel_Type r = 0 \<and> rel_Length r = 3 \<and> \<not> PCRelative r \<and> \<not> External r"

fun relocate :: "nat \<Rightarrow> u64 \<Rightarrow> u64 \<Rightarrow> u64 \<Rightarrow> phys \<Rightarrow> bool \<times> phys" where
  "relocate 0 relocationInfo data d m = (True, m)"
| "relocate (Suc n) relocationInfo data d m =
     (let r = relocation_at m relocationInfo in
      if \<not> relocation_ok r then (False, m)
      else relocate n (relocationInfo + sizeof_RELOCATION_INFO) data d (add64 (data + scast (SectionOffset r)) d m))"

definition load_dysymtab :: "nat \<Rightarrow> u8 list \<Rightarrow> nat \<Rightarrow> locals \<Rightarrow> 'w loader \<Rightarrow> 'w outcome option" where
  "load_dysymtab commandsBuffer buf cmd l st = do {
     count \<leftarrow> field32 buf (cmd + off_LocalRelocationCount);
     if count = 0 \<or> ASLRDisplacement st = 0 then Some (Go_on l st)
     else if dataSegment l = 0 \<or> linkEditSegment l = 0 then free_commands commandsBuffer EFI_LOAD_ERROR st
     else do {
       offset \<leftarrow> field32 buf (cmd + off_LocalRelocationOffset);
       let (ok, m) = relocate (unat count) (linkEditSegment l + (ucast offset - linkEditSegmentOffset l)) (dataSegment l)
             (ASLRDisplacement st) (ram st);
       let st = st\<lparr>ram := m\<rparr>;
       if ok then Some (Go_on l st) else free_commands commandsBuffer EFI_LOAD_ERROR st
     }
   }"

text \<open>The patch of loadExecutable: the first place from p to the end that has the eight bytes.\<close>

partial_function (option) patch_code :: "u64 \<Rightarrow> u64 \<Rightarrow> phys \<Rightarrow> (bool \<times> phys) option" where
  "patch_code p endAddress m =
     (if p > endAddress then Some (False, m)
      else if read64 m p = LOAD_EXECUTABLE_TARGET then Some (True, write64 p LOAD_EXECUTABLE_PATCH m)
      else patch_code (p + 1) endAddress m)"

definition visit_symbol :: "u64 \<Rightarrow> u64 \<Rightarrow> bool \<Rightarrow> 'w loader \<Rightarrow> (bool \<times> 'w loader) option" where
  "visit_symbol stringTable symbolEntry patched st = do {
     let st = (if ASLRDisplacement st \<noteq> 0 \<and> sym_Type (symbol_at (ram st) symbolEntry) \<le> 0x1f
       then st\<lparr>ram := add64 (symbolEntry + off_Value) (ASLRDisplacement st) (ram st)\<rparr> else st);
     let s = symbol_at (ram st) symbolEntry;
     if \<not> patched \<and> SectionIndex s = 1 then do {
       same \<leftarrow> ram_string (ram st) name_loadExecutable (stringTable + ucast (StringIndex s));
       if same then do {
         let startAddress = ImageBasePhysicalAddress (loadedInfo st) + (Value s - ImageBaseVirtualAddress (loadedInfo st));
         (patched, m) \<leftarrow> patch_code startAddress (startAddress + TextSegmentFileSize (loadedInfo st)) (ram st);
         Some (patched, st\<lparr>ram := m\<rparr>)
       }
       else Some (patched, st)
     }
     else if SectionIndex s = 15 then do {
       same \<leftarrow> ram_string (ram st) name_IdlePML4 (stringTable + ucast (StringIndex s));
       Some (patched, if same then st\<lparr>loadedInfo := (loadedInfo st)\<lparr>IdlePML4VirtualAddress := Value s\<rparr>\<rparr> else st)
     }
     else Some (patched, st)
   }"

fun visit_symbols :: "nat \<Rightarrow> u64 \<Rightarrow> u64 \<Rightarrow> bool \<Rightarrow> 'w loader \<Rightarrow> 'w loader option" where
  "visit_symbols 0 stringTable symbolEntry patched st = Some st"
| "visit_symbols (Suc n) stringTable symbolEntry patched st = do {
     (patched, st) \<leftarrow> visit_symbol stringTable symbolEntry patched st;
     visit_symbols n stringTable (symbolEntry + sizeof_SYMTAB_ENTRY64) patched st
   }"

definition load_symtab :: "u8 list \<Rightarrow> nat \<Rightarrow> locals \<Rightarrow> 'w loader \<Rightarrow> 'w outcome option" where
  "load_symtab buf cmd l st = do {
     strings \<leftarrow> field32 buf (cmd + off_StringTableOffset);
     symbols \<leftarrow> field32 buf (cmd + off_SymbolTableOffset);
     count \<leftarrow> field32 buf (cmd + off_SymbolCount);
     st \<leftarrow> visit_symbols (unat count) (linkEditSegment l + (ucast strings - linkEditSegmentOffset l))
       (linkEditSegment l + (ucast symbols - linkEditSegmentOffset l)) False st;
     Some (Go_on l st)
   }"

text \<open>An entry point of another processor leaves without freeing the commands.\<close>

definition load_thread :: "u8 list \<Rightarrow> nat \<Rightarrow> locals \<Rightarrow> 'w loader \<Rightarrow> 'w outcome option" where
  "load_thread buf cmd l st = do {
     flavor \<leftarrow> field32 buf (cmd + off_ThreadStateFlavor);
     if flavor \<noteq> THREAD_STATE_FLAVOR_X64 then Some (Leave EFI_LOAD_ERROR st)
     else do {
       rip \<leftarrow> field64 buf (cmd + off_Rip);
       let v = rip + ASLRDisplacement st;
       Some (Go_on l (st\<lparr>loadedInfo := (loadedInfo st)\<lparr>EntryPointVirtualAddress := v,
         EntryPointPhysicalAddress := LdrStaticVirtualToPhysical v\<rparr>\<rparr>))
     }
   }"

definition load_command :: "'w firmware \<Rightarrow> u64 \<Rightarrow> nat \<Rightarrow> u8 list \<Rightarrow> nat \<Rightarrow> locals \<Rightarrow> 'w loader \<Rightarrow> 'w outcome option" where
  "load_command fw machOffset commandsBuffer buf cmd l st = do {
     ty \<leftarrow> field32 buf cmd;
     if ty = MACH_O_COMMAND_SEGMENT64 then load_segment fw machOffset commandsBuffer buf cmd l st
     else if ty = MACH_O_COMMAND_DYSYMTAB then load_dysymtab commandsBuffer buf cmd l st
     else if ty = MACH_O_COMMAND_SYMTAB then load_symtab buf cmd l st
     else if ty = MACH_O_COMMAND_UNIX_THREAD then load_thread buf cmd l st
     else Some (Go_on l st)
   }"

fun load_commands :: "'w firmware \<Rightarrow> u64 \<Rightarrow> nat \<Rightarrow> u8 list \<Rightarrow> nat \<Rightarrow> nat \<Rightarrow> locals \<Rightarrow> 'w loader \<Rightarrow> 'w outcome option" where
  "load_commands fw machOffset commandsBuffer buf 0 cmd l st = Some (Go_on l st)"
| "load_commands fw machOffset commandsBuffer buf (Suc n) cmd l st = do {
     r \<leftarrow> load_command fw machOffset commandsBuffer buf cmd l st;
     case r of Leave status st \<Rightarrow> Some (Leave status st)
     | Go_on l st \<Rightarrow> do {
         len \<leftarrow> field32 buf (cmd + off_CommandLength);
         load_commands fw machOffset commandsBuffer buf n (cmd + unat len) l st
       }
   }"

text \<open>The commands of the image, and the buffer for them.\<close>

definition load_image :: "'w firmware \<Rightarrow> u64 \<Rightarrow> MACH_HEADER64 \<Rightarrow> 'w loader \<Rightarrow> (EFI_STATUS \<times> 'w loader) option" where
  "load_image fw machOffset machHeader st = do {
     let st = (if aslr_mode st \<and> Flags machHeader AND MH_PIE = 0 then st\<lparr>aslr_mode := False, ASLRDisplacement := 0\<rparr> else st);
     let (commandsBuffer, io) = io_allocate (unat (CommandsLength machHeader)) (fileHandle st);
     let st = st\<lparr>fileHandle := io\<rparr>;
     if commandsBuffer = 0 then Some (EFI_OUT_OF_RESOURCES, st)
     else do {
       ((status, buf), io) \<leftarrow> IoReadFile fw (unat (CommandsLength machHeader)) False (fileHandle st);
       let st = st\<lparr>fileHandle := io\<rparr>;
       r \<leftarrow>
         (if EFI_ERROR status then free_commands commandsBuffer status st
          else if length buf \<noteq> unat (CommandsLength machHeader) then free_commands commandsBuffer EFI_LOAD_ERROR st
          else do {
            r \<leftarrow> load_commands fw machOffset commandsBuffer buf (unat (CommandsCount machHeader)) 0
              \<lparr>readLength = of_nat (length buf), dataSegment = 0, linkEditSegment = 0, linkEditSegmentOffset = 0\<rparr> st;
            case r of Leave status st \<Rightarrow> Some (Leave status st)
            | Go_on _ st \<Rightarrow>
                free_commands commandsBuffer EFI_SUCCESS (st\<lparr>loadedInfo := (loadedInfo st)\<lparr>ArchType := CpuType machHeader\<rparr>\<rparr>)
          });
       case r of Leave status st \<Rightarrow> Some (status, st) | Go_on _ st \<Rightarrow> Some (EFI_SUCCESS, st)
     }
   }"

definition MachLoadMachO :: "'w firmware \<Rightarrow> 'w loader \<Rightarrow> (EFI_STATUS \<times> 'w loader) option" where
  "MachLoadMachO fw st = do {
     ((status, place), io) \<leftarrow> MachLoadThinFatFile fw (fileHandle st);
     let st = st\<lparr>fileHandle := io\<rparr>;
     if EFI_ERROR status then Some (status, st)
     else case place of None \<Rightarrow> Some (EFI_NOT_FOUND, st)
     | Some (machOffset, machLength) \<Rightarrow>
         if machLength = 0 then Some (EFI_NOT_FOUND, st)
         else do {
           ((status, data), io) \<leftarrow> IoReadFile fw sizeof_MACH_HEADER False (fileHandle st);
           let st = st\<lparr>fileHandle := io\<rparr>;
           if EFI_ERROR status then Some (status, st)
           else if length data \<noteq> sizeof_MACH_HEADER then Some (EFI_LOAD_ERROR, st)
           else if Magic (mach_header data) \<noteq> MH_MAGIC_64 then Some (EFI_LOAD_ERROR, st)
           else do {
             ((status, reserved), io) \<leftarrow> IoReadFile fw 4 False (fileHandle st);
             let st = st\<lparr>fileHandle := io\<rparr>;
             if EFI_ERROR status then Some (status, st)
             else if length reserved \<noteq> 4 then Some (EFI_LOAD_ERROR, st)
             else load_image fw machOffset (mach_header data) st
           }
         }
   }"

section \<open>Symbols\<close>

text \<open>The link edit segment, its offset in the file and the symbol table command, 0 for none.\<close>

fun find_tables :: "phys \<Rightarrow> bool \<Rightarrow> nat \<Rightarrow> u64 \<Rightarrow> u64 \<times> u64 \<times> u64 \<Rightarrow> (u64 \<times> u64 \<times> u64) option" where
  "find_tables m is64Bits 0 a t = Some t"
| "find_tables m is64Bits (Suc n) a (link, offset, symtab) = do {
     t \<leftarrow>
       (if read32 m a = MACH_O_COMMAND_SEGMENT32 \<or> read32 m a = MACH_O_COMMAND_SEGMENT64 then do {
          same \<leftarrow> map_option (\<lambda>v. v = 0) (strcmp (read_bytes m (a + of_nat off_Name) (length name_LINKEDIT)) name_LINKEDIT);
          Some (if \<not> same then (link, offset, symtab)
            else if is64Bits then
              (LdrStaticVirtualToPhysical (read64 m (a + of_nat off_VirtualAddress)), read64 m (a + of_nat off_FileOffset), symtab)
            else (LdrStaticVirtualToPhysical (ucast (read32 m (a + of_nat off_VirtualAddress))),
              ucast (read32 m (a + of_nat off_FileOffset32)), symtab))
        }
        else Some (if read32 m a = MACH_O_COMMAND_SYMTAB then (link, offset, a) else (link, offset, symtab)));
     find_tables m is64Bits n (a + command_length m a) t
   }"

fun find_symbol :: "phys \<Rightarrow> u8 list \<Rightarrow> nat \<Rightarrow> u64 \<Rightarrow> u64 \<Rightarrow> u64 option" where
  "find_symbol m symbolName 0 stringTable symbolEntry = Some 0"
| "find_symbol m symbolName (Suc n) stringTable symbolEntry = do {
     same \<leftarrow> ram_string m symbolName (stringTable + ucast (StringIndex (symbol_at m symbolEntry)));
     if same then Some (Value (symbol_at m symbolEntry))
     else find_symbol m symbolName n stringTable (symbolEntry + sizeof_SYMTAB_ENTRY64)
   }"

definition MachFindSymbolVirtualAddressByName :: "phys \<Rightarrow> MACH_O_LOADED_INFO \<Rightarrow> u8 list \<Rightarrow> u64 option" where
  "MachFindSymbolVirtualAddressByName m info symbolName = do {
     let machHeader = ImageBasePhysicalAddress info;
     let is64Bits = (read32 m machHeader = MH_MAGIC_64);
     (link, offset, symtab) \<leftarrow> find_tables m is64Bits (commands_count m machHeader)
       (machHeader + of_nat (if is64Bits then sizeof_MACH_HEADER64 else sizeof_MACH_HEADER)) (0, 0, 0);
     if link = 0 \<or> offset = 0 \<or> symtab = 0 then Some 0
     else find_symbol m symbolName (unat (read32 m (symtab + of_nat off_SymbolCount)))
       (link + (ucast (read32 m (symtab + of_nat off_StringTableOffset)) - offset))
       (link + (ucast (read32 m (symtab + of_nat off_SymbolTableOffset)) - offset))
   }"

end
