(* ===== verification/MachOFat.thy ===== *)
theory MachOFat
  imports MachO
begin

text \<open>
  Finding the image in a file: fat files as they are written, in big-endian order, and files that are
  one image.
\<close>

section \<open>Byte order\<close>

lemma byte_cases: "n < 32 \<Longrightarrow> n < 8 \<or> 8 \<le> n \<and> n < 16 \<or> 16 \<le> n \<and> n < 24 \<or> 24 \<le> n \<and> n < (32 :: nat)"
  by linarith

lemma swap_bytes:
  "SWAP32 (ucast a OR push_bit 8 (ucast b) OR push_bit 16 (ucast c) OR push_bit 24 (ucast d)) =
   push_bit 24 (ucast (a :: u8)) OR push_bit 16 (ucast (b :: u8)) OR push_bit 8 (ucast (c :: u8)) OR ucast (d :: u8)"
proof (rule bit_eqI)
  fix n assume "possible_bit TYPE(u32) n"
  then have n: "n < 32" by simp
  have m: "(0xff :: u32) = mask 8" "(0xff00 :: u32) = push_bit 8 (mask 8)" "(0xff0000 :: u32) = push_bit 16 (mask 8)"
    "(0xff000000 :: u32) = push_bit 24 (mask 8)" by (simp_all add: mask_eq_exp_minus_1 push_bit_eq_mult)
  show "bit (SWAP32 (ucast a OR push_bit 8 (ucast b) OR push_bit 16 (ucast c) OR push_bit 24 (ucast d))) n =
    bit (push_bit 24 (ucast a) OR push_bit 16 (ucast b) OR push_bit 8 (ucast c) OR ucast d :: u32) n"
    unfolding SWAP32_def m using byte_cases [OF n]
    by (elim disjE conjE) (auto simp: bit_simps dest: bit_imp_le_length)
qed

lemma SWAP32_le32: "SWAP32 (le32 b i) = be32 b i"
  unfolding le32_def be32_def by (rule swap_bytes)

lemma be_bytes_join:
  "push_bit 24 (ucast (ucast (drop_bit 24 c) :: u8)) OR push_bit 16 (ucast (ucast (drop_bit 16 c) :: u8)) OR
   push_bit 8 (ucast (ucast (drop_bit 8 c) :: u8)) OR ucast (ucast c :: u8) = (c :: u32)"
proof (rule bit_eqI)
  fix n assume "possible_bit TYPE(u32) n"
  then have "n < 32" by simp
  from byte_cases [OF this] show "bit (push_bit 24 (ucast (ucast (drop_bit 24 c) :: u8)) OR push_bit 16 (ucast (ucast (drop_bit 16 c) :: u8)) OR
   push_bit 8 (ucast (ucast (drop_bit 8 c) :: u8)) OR ucast (ucast c :: u8) :: u32) n = bit c n"
    by (elim disjE conjE) (auto simp: bit_simps)
qed

lemma be32_put: "be32 (A @ put_be32 v @ B) (length A) = v"
  using be_bytes_join [of v] by (simp add: be32_def put_be32_def nth_append)
section \<open>Fat files\<close>

definition arch_bytes :: "FAT_ARCH_HEADER \<Rightarrow> u8 list" where
  "arch_bytes a = put_be32 (arch_CpuType a) @ put_be32 (arch_CpuSubType a) @ put_be32 (OffsetInFile a) @
     put_be32 (arch_Size a) @ put_be32 (Align a)"

definition fat_bytes :: "FAT_ARCH_HEADER list \<Rightarrow> u8 list" where
  "fat_bytes archs = put_be32 FAT_MAGIC @ put_be32 (of_nat (length archs)) @ concat (map arch_bytes archs)"

definition x64_arch :: "FAT_ARCH_HEADER list \<Rightarrow> FAT_ARCH_HEADER option" where
  "x64_arch archs = find (\<lambda>a. arch_CpuType a = CPU_TYPE_X64) archs"

lemma length_arch_bytes [simp]: "length (arch_bytes a) = 20"
  by (simp add: arch_bytes_def)

lemma decode_arch:
  "SWAP32 (arch_CpuType (fat_arch_header (arch_bytes a))) = arch_CpuType a"
  "SWAP32 (OffsetInFile (fat_arch_header (arch_bytes a))) = OffsetInFile a"
  "SWAP32 (arch_Size (fat_arch_header (arch_bytes a))) = arch_Size a"
  using be32_put [of "[]"] be32_put [of "put_be32 (arch_CpuType a) @ put_be32 (arch_CpuSubType a)"]
    be32_put [of "put_be32 (arch_CpuType a) @ put_be32 (arch_CpuSubType a) @ put_be32 (OffsetInFile a)"]
  by (simp_all add: fat_arch_header_def arch_bytes_def SWAP32_le32)

lemma find_arch_x64:
  assumes fw: "firmware_file fw bytes infoSize position"
  shows "bytes = P @ concat (map arch_bytes archs) @ R \<Longrightarrow> file_at bytes position st (length P) \<Longrightarrow>
    \<exists>status r st' pos. find_arch fw (length archs) True st = Some ((status, r), st') \<and> file_at bytes position st' pos \<and>
      (status = EFI_SUCCESS \<and>
        map_option (\<lambda>a. (OffsetInFile a, arch_Size a)) r = map_option (\<lambda>a. (OffsetInFile a, arch_Size a)) (x64_arch archs) \<or>
       fw_error fw status)"
proof (induction archs arbitrary: P st)
  case Nil
  then show ?case by (auto simp: x64_arch_def)
next
  case (Cons a archs)
  have d: "take 20 (drop (length P) bytes) = arch_bytes a" using Cons.prems(1) by simp
  obtain status data st1 where r: "IoReadFile fw 20 False st = Some ((status, data), st1)"
    "status = EFI_SUCCESS \<and> data = arch_bytes a \<and> file_at bytes position st1 (length P + length data) \<or>
     fw_error fw status \<and> (\<exists>pos'. file_at bytes position st1 pos')"
    using IoReadFile_at [OF fw Cons.prems(2), of 20] unfolding d by blast
  show ?case
  proof (cases "EFI_ERROR status")
    case True
    then show ?thesis using r by (auto simp: sizeof_FAT_ARCH_HEADER_def)
  next
    case False
    then have s: "status = EFI_SUCCESS" "data = arch_bytes a" "file_at bytes position st1 (length (P @ arch_bytes a))"
      using r(2) fw_errorD [of fw status] by auto
    show ?thesis
    proof (cases "arch_CpuType a = CPU_TYPE_X64")
      case True
      then show ?thesis using r(1) s by (auto simp: sizeof_FAT_ARCH_HEADER_def decode_arch x64_arch_def Let_def)
    next
      case other: False
      have "bytes = (P @ arch_bytes a) @ concat (map arch_bytes archs) @ R" using Cons.prems(1) by simp
      from Cons.IH [OF this s(3)] show ?thesis
        using r(1) s(1,2) other by (simp add: sizeof_FAT_ARCH_HEADER_def decode_arch x64_arch_def Let_def)
    qed
  qed
qed

definition fat_answer :: "FAT_ARCH_HEADER list \<Rightarrow> EFI_STATUS \<times> (u64 \<times> u64) option" where
  "fat_answer archs = (case x64_arch archs of None \<Rightarrow> (EFI_NOT_FOUND, None)
     | Some a \<Rightarrow> if arch_Size a = 0 then (EFI_NOT_FOUND, None)
         else (EFI_SUCCESS, Some (ucast (OffsetInFile a), ucast (arch_Size a))))"

text \<open>The choice once the file has been found to be a fat file with these headers.\<close>

lemma fat_choice:
  assumes fw: "firmware_file fw bytes infoSize position" and at: "file_at bytes position st pos"
    and x: "map_option (\<lambda>a. (OffsetInFile a, arch_Size a)) x = map_option (\<lambda>a. (OffsetInFile a, arch_Size a)) (x64_arch archs)"
  shows "\<exists>st' pos. (case x of None \<Rightarrow> Some ((EFI_NOT_FOUND, None), st)
       | Some a \<Rightarrow>
           if arch_Size a = 0 then Some ((EFI_NOT_FOUND, None), st)
           else
             let st = (if OffsetInFile a \<noteq> 0 then snd (IoSetFilePosition fw (ucast (OffsetInFile a)) st) else st)
             in Some ((EFI_SUCCESS, Some (ucast (OffsetInFile a), ucast (arch_Size a))), st)) = Some (fat_answer archs, st') \<and>
    file_at bytes position st' pos \<and>
    (\<forall>a. x64_arch archs = Some a \<and> arch_Size a \<noteq> 0 \<and> OffsetInFile a \<noteq> 0 \<longrightarrow>
      pos = unat (OffsetInFile a) \<or> (\<exists>st2. fw_error fw (fst (IoSetFilePosition fw (ucast (OffsetInFile a)) st2))))"
proof (cases "x64_arch archs")
  case None
  then show ?thesis using x at by (auto simp: fat_answer_def)
next
  case (Some a)
  then obtain y where y: "x = Some y" "OffsetInFile y = OffsetInFile a" "arch_Size y = arch_Size a" using x by auto
  let ?p = "ucast (OffsetInFile a) :: u64"
  have u: "unat ?p = unat (OffsetInFile a)" by (simp add: unat_ucast_up)
  moreover have "unat ?p < 2 ^ 32" using u unat_bound [of "OffsetInFile a"] by simp
  then have "?p \<noteq> - 1" by (auto simp: unsigned_minus_1_eq_mask mask_eq_exp_minus_1)
  ultimately obtain status st' pos' where s: "IoSetFilePosition fw ?p st = (status, st')" "file_at bytes position st' pos'"
    "pos' = unat (OffsetInFile a) \<or> fw_error fw status" using IoSetFilePosition_at [OF fw at, of ?p] by auto
  then have "pos' = unat (OffsetInFile a) \<or> (\<exists>st2. fw_error fw (fst (IoSetFilePosition fw ?p st2)))" by (metis fst_conv)
  then show ?thesis using s(1,2) at y Some by (auto simp: fat_answer_def)
qed

lemma fat_selects:
  assumes fw: "firmware_file fw (fat_bytes archs @ R) infoSize position" and st: "file_at (fat_bytes archs @ R) position st 0"
    and n: "length archs < 2 ^ 32"
  shows "\<exists>status r st' pos. MachLoadThinFatFile fw st = Some ((status, r), st') \<and> file_at (fat_bytes archs @ R) position st' pos \<and>
    (fw_error fw status \<and> r = None \<or> (status, r) = fat_answer archs \<and>
      (\<forall>a. x64_arch archs = Some a \<and> arch_Size a \<noteq> 0 \<and> OffsetInFile a \<noteq> 0 \<longrightarrow>
        pos = unat (OffsetInFile a) \<or> (\<exists>st2. fw_error fw (fst (IoSetFilePosition fw (ucast (OffsetInFile a)) st2)))))"
proof -
  let ?b = "fat_bytes archs @ R"
  let ?h = "put_be32 FAT_MAGIC @ put_be32 (of_nat (length archs))"
  have b: "?b = ?h @ concat (map arch_bytes archs) @ R" by (simp add: fat_bytes_def)
  have d: "take 8 (drop 0 ?b) = ?h" unfolding b by simp
  obtain s1 data st1 where r: "IoReadFile fw 8 False st = Some ((s1, data), st1)"
    "s1 = EFI_SUCCESS \<and> data = ?h \<and> file_at ?b position st1 (0 + length data) \<or> fw_error fw s1 \<and> (\<exists>pos'. file_at ?b position st1 pos')"
    using IoReadFile_at [OF fw st, of 8] unfolding d by blast
  show ?thesis
  proof (cases "EFI_ERROR s1")
    case True
    then show ?thesis using r by (auto simp: MachLoadThinFatFile_def sizeof_FAT_HEADER_def)
  next
    case False
    then have s: "s1 = EFI_SUCCESS" "data = ?h" "file_at ?b position st1 (length ?h)" using r(2) fw_errorD [of fw s1] by auto
    have magic: "fat_Magic (fat_header ?h) = FAT_CIGAM" by (simp add: fat_header_def le32_def put_be32_def FAT_MAGIC_def FAT_CIGAM_def)
    have count: "SWAP32 (ArchHeadersCount (fat_header ?h)) = of_nat (length archs)"
      using be32_put [of "put_be32 FAT_MAGIC" "of_nat (length archs)" "[]"] by (simp add: fat_header_def SWAP32_le32)
    have un: "unat (of_nat (length archs) :: u32) = length archs" using n by (simp add: unat_of_nat_small)
    have k: "FAT_CIGAM \<noteq> SWAP32 KERNEL_CACHE_MAGIC" "FAT_CIGAM \<noteq> FAT_MAGIC"
      by (simp_all add: FAT_CIGAM_def FAT_MAGIC_def KERNEL_CACHE_MAGIC_def SWAP32_def push_bit_eq_mult drop_bit_eq_div)
    obtain s2 x st2 pos where f: "find_arch fw (length archs) True st1 = Some ((s2, x), st2)" "file_at ?b position st2 pos"
      "s2 = EFI_SUCCESS \<and> map_option (\<lambda>a. (OffsetInFile a, arch_Size a)) x = map_option (\<lambda>a. (OffsetInFile a, arch_Size a)) (x64_arch archs) \<or>
       fw_error fw s2"
      using find_arch_x64 [OF fw b s(3)] by blast
    show ?thesis
    proof (cases "EFI_ERROR s2")
      case True
      then have "fw_error fw s2" using f(3) by auto
      moreover have "MachLoadThinFatFile fw st = Some ((s2, None), st2)"
        using r(1) s f(1) magic count un k True by (simp add: MachLoadThinFatFile_def sizeof_FAT_HEADER_def Let_def)
      ultimately show ?thesis using f(2) by blast
    next
      case False
      then have x: "s2 = EFI_SUCCESS" "map_option (\<lambda>a. (OffsetInFile a, arch_Size a)) x = map_option (\<lambda>a. (OffsetInFile a, arch_Size a)) (x64_arch archs)"
        using f(3) fw_errorD [of fw s2] by auto
      then have run: "MachLoadThinFatFile fw st = (case x of None \<Rightarrow> Some ((EFI_NOT_FOUND, None), st2)
         | Some a \<Rightarrow>
             if arch_Size a = 0 then Some ((EFI_NOT_FOUND, None), st2)
             else
               let st = (if OffsetInFile a \<noteq> 0 then snd (IoSetFilePosition fw (ucast (OffsetInFile a)) st2) else st2)
               in Some ((EFI_SUCCESS, Some (ucast (OffsetInFile a), ucast (arch_Size a))), st))"
        using r(1) s f(1) magic count un k by (simp add: MachLoadThinFatFile_def sizeof_FAT_HEADER_def Let_def)
      obtain status r' where ans: "fat_answer archs = (status, r')" by (cases "fat_answer archs")
      show ?thesis unfolding run using fat_choice [OF fw f(2) x(2)] unfolding ans by blast
    qed
  qed
qed

end
