(* ===== verification/MachOLoad.thy ===== *)
theory MachOLoad
  imports MachOFat
begin

text \<open>
  Loading a segment: what physical memory holds afterwards.
\<close>

section \<open>Ranges of physical memory\<close>

lemma word_minus_Suc:
  fixes x a :: u64
  assumes "x \<noteq> a"
  shows "unat (x - (a + 1)) = unat (x - a) - 1" and "0 < unat (x - a)"
proof -
  have "x - a \<noteq> 0" using assms by simp
  then show "0 < unat (x - a)" by (simp add: unat_gt_0)
  have "x - (a + 1) = (x - a) - 1" by simp
  then show "unat (x - (a + 1)) = unat (x - a) - 1" using \<open>x - a \<noteq> 0\<close> by (metis unat_minus_one)
qed

lemma write_bytes_at:
  "length bs \<le> 2 ^ 64 \<Longrightarrow> write_bytes a bs m x = (if unat (x - a) < length bs then bs ! unat (x - a) else m x)"
proof (induction bs arbitrary: a m)
  case (Cons b bs)
  have l: "length bs < 2 ^ 64" using Cons.prems by simp
  show ?case
  proof (cases "x = a")
    case True
    have "unat (a - (a + 1)) = 2 ^ 64 - 1" by (simp add: unsigned_minus_1_eq_mask mask_eq_exp_minus_1)
    then have "\<not> unat (a - (a + 1)) < length bs" using l by linarith
    then show ?thesis using True Cons l by auto
  next
    case False
    have "(m(a := b)) x = m x" using False by simp
    then show ?thesis using Cons.IH [of "a + 1" "m(a := b)"] l word_minus_Suc [OF False]
      by (cases "unat (x - a)") (simp_all del: fun_upd_apply)
  qed
qed simp

lemma clear_bytes_write: "clear_bytes n a m = write_bytes a (replicate n 0) m"
  by (induction n arbitrary: a m) simp_all

lemma clear_bytes_at: "n \<le> 2 ^ 64 \<Longrightarrow> clear_bytes n a m x = (if unat (x - a) < n then 0 else m x)"
  using write_bytes_at [of "replicate n 0" a m x] by (simp add: clear_bytes_write)

lemma read_bytes_map: "read_bytes m a n = map (\<lambda>i. m (a + of_nat i)) [0..<n]"
proof (induction n arbitrary: a)
  case (Suc n)
  show ?case unfolding upt_conv_Cons [OF zero_less_Suc] map_Suc_upt [symmetric] by (simp add: Suc o_def add.assoc)
qed simp

text \<open>Data and zeros behind it.\<close>

lemma write_clear_at:
  fixes p len :: u64
  assumes "length bs \<le> unat len"
  shows "(if of_nat (length bs) \<noteq> len then clear_bytes (unat (len - of_nat (length bs))) (p + of_nat (length bs)) (write_bytes p bs m)
      else write_bytes p bs m) x =
    (if unat (x - p) < length bs then bs ! unat (x - p) else if unat (x - p) < unat len then 0 else m x)"
proof -
  let ?r = "of_nat (length bs) :: u64"
  have l: "length bs < 2 ^ 64" using assms unat_bound [of len] by (simp add: le_less_trans)
  then have r: "unat ?r = length bs" by (simp add: unat_of_nat_small)
  have d: "unat (len - ?r) = unat len - length bs" using assms r by (simp add: unat_sub word_le_nat_alt)
  have w: "write_bytes p bs m x = (if unat (x - p) < length bs then bs ! unat (x - p) else m x)" using l by (intro write_bytes_at) simp
  have e: "x - (p + ?r) = (x - p) - ?r" by simp
  show ?thesis
  proof (cases "?r = len")
    case True
    then show ?thesis using w r by auto
  next
    case False
    have c: "clear_bytes (unat (len - ?r)) (p + ?r) (write_bytes p bs m) x =
        (if unat (x - p - ?r) < unat len - length bs then 0 else write_bytes p bs m x)"
      using clear_bytes_at [of "unat (len - ?r)" "p + ?r" "write_bytes p bs m" x] unat_bound [of "len - ?r"] e d by simp
    show ?thesis
    proof (cases "unat (x - p) < length bs")
      case True
      have "unat (x - p - ?r) = 2 ^ 64 + unat (x - p) - length bs"
        using True r unat_sub_if' [of "x - p" ?r] by (simp add: word_le_nat_alt)
      then have "\<not> unat (x - p - ?r) < unat len - length bs" using unat_bound [of len] l by simp
      then show ?thesis using c w True False by simp
    next
      case ge: False
      then have "unat (x - p - ?r) = unat (x - p) - length bs" using r by (simp add: unat_sub word_le_nat_alt)
      then show ?thesis using c w ge False by auto
    qed
  qed
qed

section \<open>Kernel memory\<close>

lemma grow_kernel_range_inv: "mm_inv (grow_kernel_range v p n h) ts fl pg = mm_inv h ts fl pg"
  by (simp add: grow_kernel_range_def mm_inv_def Let_def)

lemma mem_ok_pages: "mem_ok h \<Longrightarrow> MmAllocatePages t n a h = (q, p, h') \<Longrightarrow> mem_ok h'"
proof -
  assume "mem_ok h" and run: "MmAllocatePages t n a h = (q, p, h')"
  then obtain ts fl pg where inv: "mm_inv h ts fl pg" by (auto simp: mem_ok_def)
  have i: "mm_inv (h\<lparr>calls := c\<rparr>) ts fl pg" "mm_inv (h\<lparr>calls := c, pages_next := r\<rparr>) ts fl pg" for c r
    using inv by (simp_all add: mm_inv_def)
  show "mem_ok h'"
  proof (cases "EfiBootServices h")
    case True
    then show ?thesis using run i InsertMemoryTag_ok [OF i(2)]
      by (cases "pages_next h") (fastforce simp: MmAllocatePages_def allocate_pages_def mem_ok_def Let_def split: option.splits)+
  qed (use run inv in \<open>auto simp: MmAllocatePages_def mem_ok_def\<close>)
qed

lemma mem_ok_kernel:
  assumes "mem_ok h" and "MmAllocateKernelMemory (Some n) v h = (p, len, v', h')"
  shows "mem_ok h'"
proof -
  let ?a = "if v = None \<or> v = Some 0 then MmpKernelVirtualEnd h else the v"
  obtain q r h1 where pages: "MmAllocatePages AllocateAddress (EFI_SIZE_TO_PAGES n) (LdrStaticVirtualToPhysical ?a) h = (q, r, h1)"
    using prod_cases3 by blast
  then have "mem_ok h1" by (rule mem_ok_pages [OF assms(1)])
  then have "mem_ok (grow_kernel_range a b c h1)" for a b c by (simp add: mem_ok_def grow_kernel_range_inv)
  then show ?thesis using assms pages \<open>mem_ok h1\<close>
    by (simp add: MmAllocateKernelMemory_def Let_def split: if_splits) blast+
qed

lemma kernel_length:
  assumes "MmAllocateKernelMemory (Some n) v h = (p, Some len, v', h')" and "p \<noteq> 0" and "unat n + 4095 < 2 ^ 64"
  shows "unat n \<le> unat len"
proof -
  have "len = push_bit 12 (EFI_SIZE_TO_PAGES n)"
    using assms(1,2) by (auto simp: MmAllocateKernelMemory_def Let_def split: if_splits prod.splits)
  then show ?thesis using page_length [OF assms(3)] by simp
qed

section \<open>One segment\<close>

lemma same_name_terminated: "0 \<in> set s \<Longrightarrow> 0 \<in> set t \<Longrightarrow> \<exists>b. same_name s t = Some b"
  using strcmp_sign by (fastforce simp: same_name_def)

lemma names_end [simp]: "0 \<in> set name_TEXT" "0 \<in> set name_DATA" "0 \<in> set name_LINKEDIT"
  by (simp_all add: name_TEXT_def name_DATA_def name_LINKEDIT_def)

lemma note_segment_ok:
  assumes "0 \<in> set nm" and "same_name nm name_TEXT = Some True \<longrightarrow> ASLRDisplacement st = 0"
  shows "\<exists>l' st'. note_segment nm p v fs fo l st = Some (l', st') \<and> ram st' = ram st \<and> fileHandle st' = fileHandle st \<and>
    readLength l' = readLength l \<and> ASLRDisplacement st' = ASLRDisplacement st"
proof -
  obtain t d k where "same_name nm name_TEXT = Some t" "same_name nm name_DATA = Some d" "same_name nm name_LINKEDIT = Some k"
    using same_name_terminated [OF assms(1)] names_end by metis
  then show ?thesis using assms(2) by (cases t) (simp_all add: note_segment_def)
qed

lemma read_segment_ok:
  assumes "firmware_file fw bytes infoSize position" and "file_at bytes position (fileHandle st) pos" and "fl \<noteq> 0 \<or> readLength l = 0"
  shows "\<exists>status l' st' k. read_segment fw fl p l st = Some (status, l', st') \<and> k \<le> unat fl \<and>
    ram st' = write_bytes p (take k (drop pos bytes)) (ram st) \<and> (\<exists>pos'. file_at bytes position (fileHandle st') pos') \<and>
    ASLRDisplacement st' = ASLRDisplacement st \<and>
    (status = EFI_SUCCESS \<and> k = unat fl \<and> readLength l' = of_nat (length (take k (drop pos bytes))) \<or> fw_error fw status)"
proof (cases "fl = 0")
  case True
  then have "read_segment fw fl p l st = Some (EFI_SUCCESS, l, st)" "0 \<le> unat fl" "ram st = write_bytes p (take 0 (drop pos bytes)) (ram st)"
    "0 = unat fl" "readLength l = of_nat (length (take 0 (drop pos bytes)))" using assms(3) by (auto simp: read_segment_def)
  then show ?thesis using assms(2) by blast
next
  case False
  then show ?thesis using IoReadFile_at [OF assms(1,2), of "unat fl"] by (fastforce simp: read_segment_def)
qed

lemma free_commands_ok:
  "mem_ok (memory (fileHandle st)) \<Longrightarrow> \<exists>st'. free_commands a status st = Some (Leave status st') \<and> ram st' = ram st"
  using mem_ok_free [of "memory (fileHandle st)" a] by (auto simp: free_commands_def io_free_def)

lemma load_segment_ok:
  assumes fw: "firmware_file fw bytes infoSize position" and at: "file_at bytes position (fileHandle st) pos"
    and fields: "field64 buf (cmd + off_VirtualAddress) = Some va" "field64 buf (cmd + off_VirtualSize) = Some vsize"
      "field64 buf (cmd + off_FileSize) = Some fsize" "field64 buf (cmd + off_FileOffset) = Some foff"
    and nm: "0 \<in> set (drop (cmd + off_Name) buf)"
    and txt0: "same_name (drop (cmd + off_Name) buf) name_TEXT = Some True \<longrightarrow> ASLRDisplacement st = 0"
    and size: "vsize \<noteq> 0" "unat vsize + 4095 < 2 ^ 64" and fsize: "fsize \<noteq> 0 \<or> readLength l = 0"
    and alloc: "MmAllocateKernelMemory (Some vsize) (Some (va + ASLRDisplacement st)) (memory (fileHandle st)) = (p, Some len, Some v, h)" "p \<noteq> 0"
    and data: "data = take (unat (min vsize fsize)) (drop (unat (machOffset + foff)) bytes)"
  shows "(\<exists>l' st'. load_segment fw machOffset commandsBuffer buf cmd l st = Some (Go_on l' st') \<and>
      (\<forall>x. ram st' x = (if unat (x - p) < length data then data ! unat (x - p) else if unat (x - p) < unat len then 0 else ram st x)) \<and>
      (\<exists>pos'. file_at bytes position (fileHandle st') pos')) \<or>
    (\<exists>status st'. load_segment fw machOffset commandsBuffer buf cmd l st = Some (Leave status st') \<and> fw_error fw status \<and>
      (\<exists>k. ram st' = write_bytes p (take k data) (ram st)))"
proof -
  let ?fl = "if vsize > fsize then fsize else vsize"
  have fl: "?fl = min vsize fsize" by (auto simp: min_def)
  obtain s0 io pos0 where io: "IoSetFilePosition fw (machOffset + foff) (fileHandle st) = (s0, io)"
    "file_at bytes position io pos0" "memory io = memory (fileHandle st)"
    "s0 = EFI_SUCCESS \<and> drop pos0 bytes = drop (unat (machOffset + foff)) bytes \<or> fw_error fw s0"
    using IoSetFilePosition_at [OF fw at] by blast
  let ?st = "st\<lparr>fileHandle := io\<lparr>memory := h\<rparr>\<rparr>"
  have mem: "mem_ok (memory io)" "mem_ok h" using mem_ok_kernel [OF _ alloc(1)] file_at_memory [OF at] io(3) by simp_all
  show ?thesis
  proof (cases "EFI_ERROR s0")
    case True
    moreover obtain st' where "free_commands commandsBuffer s0 (st\<lparr>fileHandle := io\<rparr>) = Some (Leave s0 st')" "ram st' = ram st"
      using free_commands_ok [of "st\<lparr>fileHandle := io\<rparr>" commandsBuffer s0] mem(1) by auto
    ultimately have "load_segment fw machOffset commandsBuffer buf cmd l st = Some (Leave s0 st')" "fw_error fw s0"
      "ram st' = write_bytes p (take 0 data) (ram st)"
      using io(1,4) fields size(1) by (auto simp: load_segment_def)
    then show ?thesis by blast
  next
    case False
    then have seek: "s0 = EFI_SUCCESS" "drop pos0 bytes = drop (unat (machOffset + foff)) bytes" using io(4) fw_errorD [of fw s0] by auto
    have at1: "file_at bytes position (fileHandle ?st) pos0" using io(2) mem(2) by (simp add: file_at_def)
    have same: "ram ?st = ram st" "ASLRDisplacement ?st = ASLRDisplacement st" by simp_all
    have "?fl \<noteq> 0 \<or> readLength l = 0" using fsize size(1) by auto
    from read_segment_ok [OF fw at1 this, of p] obtain s1 l1 st1 k where r: "read_segment fw ?fl p l ?st = Some (s1, l1, st1)"
      "k \<le> unat ?fl" "ram st1 = write_bytes p (take k (drop (unat (machOffset + foff)) bytes)) (ram st)"
      "\<exists>pos'. file_at bytes position (fileHandle st1) pos'" "ASLRDisplacement st1 = ASLRDisplacement st"
      "s1 = EFI_SUCCESS \<and> k = unat ?fl \<and> readLength l1 = of_nat (length (take k (drop (unat (machOffset + foff)) bytes))) \<or> fw_error fw s1"
      unfolding seek(2) same by blast
    have part: "take k (drop (unat (machOffset + foff)) bytes) = take k data" using r(2) unfolding data fl by (simp add: min_absorb1)
    show ?thesis
    proof (cases "EFI_ERROR s1")
      case True
      moreover obtain st' where "free_commands commandsBuffer s1 st1 = Some (Leave s1 st')" "ram st' = ram st1"
        using free_commands_ok [of st1 commandsBuffer s1] r(4) file_at_memory by blast
      ultimately have "load_segment fw machOffset commandsBuffer buf cmd l st = Some (Leave s1 st')" "fw_error fw s1"
        "ram st' = write_bytes p (take k data) (ram st)"
        using io(1,3) seek(1) fields size(1) alloc r(1,3,6) part by (auto simp: load_segment_def)
      then show ?thesis by blast
    next
      case False
      then have ok: "s1 = EFI_SUCCESS" "ram st1 = write_bytes p data (ram st)" "readLength l1 = of_nat (length data)"
        using r(3,6) fw_errorD [of fw s1] unfolding data fl by auto
      let ?st2 = "clear_rest len p l1 st1"
      have st2: "fileHandle ?st2 = fileHandle st1" "ASLRDisplacement ?st2 = ASLRDisplacement st" using r(5) by (simp_all add: clear_rest_def)
      obtain l3 st3 where n: "note_segment (drop (cmd + off_Name) buf) p v fsize foff l1 ?st2 = Some (l3, st3)"
        "ram st3 = ram ?st2" "fileHandle st3 = fileHandle ?st2"
        using note_segment_ok [OF nm, of ?st2 p v fsize foff l1] txt0 st2 by auto
      have "length data \<le> unat (min vsize fsize)" unfolding data by simp
      also have "\<dots> \<le> unat vsize" by (simp add: min_def word_le_nat_alt)
      also have "\<dots> \<le> unat len" by (rule kernel_length [OF alloc size(2)])
      finally have "length data \<le> unat len" .
      from write_clear_at [OF this, of p "ram st"] have ram: "ram st3 x = (if unat (x - p) < length data then data ! unat (x - p)
          else if unat (x - p) < unat len then 0 else ram st x)" for x
        using ok unfolding n(2) clear_rest_def by auto
      have "load_segment fw machOffset commandsBuffer buf cmd l st =
          Some (Go_on l3 (st3\<lparr>loadedInfo := update_range v len (loadedInfo st3)\<rparr>))"
        using fields size(1) io(1,3) seek(1) alloc r(1) ok(1) n(1) by (simp add: load_segment_def)
      then show ?thesis using ram n(3) st2(1) r(4) by auto
    qed
  qed
qed

end
