(* ===== verification/MachOSlide.thy ===== *)
theory MachOSlide
  imports MachOLoad
begin

text \<open>
  Moving a loaded image: the walk over segments and sections ends, and it adds the displacement to their
  addresses and to nothing else.
\<close>

section \<open>Words in memory\<close>

lemma read32_bytes: "read32 m a = le32 [m a, m (a + 1), m (a + 2), m (a + 3)] 0"
  by (simp add: read32_def numeral_eq_Suc ac_simps)

lemma write_bytes_append: "write_bytes a (xs @ ys) m = write_bytes (a + of_nat (length xs)) ys (write_bytes a xs m)"
  by (induction xs arbitrary: a m) (simp_all add: ac_simps)

lemma write64_bytes: "write64 a v m = write_bytes a (put_le32 (ucast v) @ put_le32 (ucast (drop_bit 32 v))) m"
  by (simp add: write64_def write32_def write_bytes_append)

lemma write64_at: "8 \<le> unat (x - a) \<Longrightarrow> write64 a v m x = m x"
  by (simp add: write64_bytes write_bytes_at)

lemma read32_write32: "read32 (write32 a v m) a = v"
  using le_bytes_join [of v] by (simp add: read32_bytes write32_def put_le32_def le32_def)

lemma join64: "ucast (ucast v :: u32) OR push_bit 32 (ucast (ucast (drop_bit 32 v) :: u32)) = (v :: u64)"
proof (rule bit_eqI)
  fix n assume "possible_bit TYPE(u64) n"
  then have "n < 64" by simp
  then have "n < 32 \<or> 32 \<le> n \<and> n < 64" by linarith
  then show "bit (ucast (ucast v :: u32) OR push_bit 32 (ucast (ucast (drop_bit 32 v) :: u32)) :: u64) n = bit v n"
    by (elim disjE conjE) (auto simp: bit_simps)
qed

text \<open>Offsets from a base that do not wrap around.\<close>

lemma offset_minus:
  assumes "f < 2 ^ 64" and "g < 2 ^ 64"
  shows "f \<le> g \<Longrightarrow> unat ((b + of_nat g) - (b + of_nat f) :: u64) = g - f"
    and "g < f \<Longrightarrow> unat ((b + of_nat g) - (b + of_nat f) :: u64) = 2 ^ 64 + g - f"
proof -
  have e: "(b + of_nat g) - (b + of_nat f) = (of_nat g - of_nat f :: u64)" by simp
  have u: "unat (of_nat g :: u64) = g" "unat (of_nat f :: u64) = f" using assms by (simp_all add: unat_of_nat_small)
  show "f \<le> g \<Longrightarrow> unat ((b + of_nat g) - (b + of_nat f) :: u64) = g - f"
    unfolding e using u by (simp add: unat_sub word_le_nat_alt)
  show "g < f \<Longrightarrow> unat ((b + of_nat g) - (b + of_nat f) :: u64) = 2 ^ 64 + g - f"
    unfolding e using u unat_sub_if' [of "of_nat g :: u64" "of_nat f"] by (simp add: word_le_nat_alt)
qed

lemma offset_apart:
  "f < 2 ^ 63 \<Longrightarrow> g < 2 ^ 63 \<Longrightarrow> g < f \<or> f + 8 \<le> g \<Longrightarrow> 8 \<le> unat ((b + of_nat g) - (b + of_nat f) :: u64)"
  using offset_minus [of f g b] by (cases "f \<le> g") auto

lemma write64_keeps: "f < 2 ^ 63 \<Longrightarrow> g < 2 ^ 63 \<Longrightarrow> g < f \<or> f + 8 \<le> g \<Longrightarrow>
  write64 (b + of_nat f) v m (b + of_nat g) = m (b + of_nat g)"
  by (intro write64_at offset_apart)

lemma read32_keeps:
  assumes "f < 2 ^ 62" and "g < 2 ^ 62" and "g + 4 \<le> f \<or> f + 8 \<le> g"
  shows "read32 (write64 (b + of_nat f) v m) (b + of_nat g) = read32 m (b + of_nat g)"
proof -
  have "write64 (b + of_nat f) v m (b + of_nat (g + i)) = m (b + of_nat (g + i))" if "i < 4" for i
    using assms that by (intro write64_keeps) auto
  from this [of 0] this [of 1] this [of 2] this [of 3] show ?thesis by (simp add: read32_bytes ac_simps)
qed

lemma read64_write64: "read64 (write64 a v m) a = v"
proof -
  have "read32 (write64 a v m) (a + 4) = ucast (drop_bit 32 v)" by (simp add: write64_def read32_write32)
  moreover have "read32 (write64 a v m) a = ucast v"
    using le_bytes_join [of "ucast v :: u32"] by (simp add: write64_def read32_bytes write32_def put_le32_def le32_def)
  ultimately show ?thesis by (simp add: read64_def join64)
qed

lemma read64_keeps:
  assumes "f < 2 ^ 61" and "g < 2 ^ 61" and "g + 8 \<le> f \<or> f + 8 \<le> g"
  shows "read64 (write64 (b + of_nat f) v m) (b + of_nat g) = read64 m (b + of_nat g)"
proof -
  have "read32 (write64 (b + of_nat f) v m) (b + of_nat (g + i)) = read32 m (b + of_nat (g + i))" if "i \<in> {0, 4}" for i
    using assms that by (intro read32_keeps) auto
  from this [of 0] this [of 4] show ?thesis by (simp add: read64_def ac_simps)
qed

section \<open>Layout of an image\<close>

text \<open>
  The load commands of an image from an offset on: the length of each, and the number of sections when it
  is a segment.
\<close>

type_synonym layout = "(nat \<times> nat option) list"

fun layout_size :: "layout \<Rightarrow> nat" where
  "layout_size [] = 0"
| "layout_size ((len, _) # cs) = len + layout_size cs"

fun layout_at :: "phys \<Rightarrow> u64 \<Rightarrow> nat \<Rightarrow> layout \<Rightarrow> bool" where
  "layout_at m hdr k [] \<longleftrightarrow> True"
| "layout_at m hdr k ((len, s) # cs) \<longleftrightarrow> unat (read32 m (hdr + of_nat (k + 4))) = len \<and>
     (case s of None \<Rightarrow> read32 m (hdr + of_nat k) \<noteq> MACH_O_COMMAND_SEGMENT64 \<and> 8 \<le> len
      | Some n \<Rightarrow> read32 m (hdr + of_nat k) = MACH_O_COMMAND_SEGMENT64 \<and> unat (read32 m (hdr + of_nat (k + 64))) = n \<and> 72 + 80 * n \<le> len) \<and>
     layout_at m hdr (k + len) cs"

text \<open>The words that the walk looks at, and the address fields, as offsets.\<close>

fun layout_words :: "nat \<Rightarrow> layout \<Rightarrow> nat list" where
  "layout_words k [] = []"
| "layout_words k ((len, s) # cs) = [k, k + 4] @ (case s of None \<Rightarrow> [] | Some _ \<Rightarrow> [k + 64]) @ layout_words (k + len) cs"

fun address_fields :: "nat \<Rightarrow> layout \<Rightarrow> nat list" where
  "address_fields k [] = []"
| "address_fields k ((len, s) # cs) =
     (case s of None \<Rightarrow> [] | Some n \<Rightarrow> (k + 24) # map (\<lambda>j. k + 72 + 80 * j + 32) [0..<n]) @ address_fields (k + len) cs"

fun first_segment :: "u64 \<Rightarrow> nat \<Rightarrow> layout \<Rightarrow> u64 option" where
  "first_segment hdr k [] = None"
| "first_segment hdr k ((len, None) # cs) = first_segment hdr (k + len) cs"
| "first_segment hdr k ((len, Some _) # cs) = Some (hdr + of_nat k)"

lemma layout_at_append: "layout_at m hdr k (cs @ ds) \<longleftrightarrow> layout_at m hdr k cs \<and> layout_at m hdr (k + layout_size cs) ds"
  by (induction m hdr k cs rule: layout_at.induct) (auto simp: add.assoc)

lemma layout_size_append [simp]: "layout_size (cs @ ds) = layout_size cs + layout_size ds"
  by (induction cs rule: layout_size.induct) auto

lemma address_fields_append: "address_fields k (cs @ ds) = address_fields k cs @ address_fields (k + layout_size cs) ds"
  by (induction k cs rule: address_fields.induct) (auto simp: add.assoc)

lemma layout_at_cong:
  "(\<And>g. g \<in> set (layout_words k cs) \<Longrightarrow> read32 m' (hdr + of_nat g) = read32 m (hdr + of_nat g)) \<Longrightarrow>
   layout_at m' hdr k cs = layout_at m hdr k cs"
proof (induction k cs rule: layout_words.induct)
  case (2 k len s cs)
  have "read32 m' (hdr + of_nat g) = read32 m (hdr + of_nat g)" if "g \<in> {k, k + 4} \<or> s \<noteq> None \<and> g = k + 64" for g
    using that by (intro 2(2)) (auto split: option.splits)
  moreover have "layout_at m' hdr (k + len) cs = layout_at m hdr (k + len) cs" using 2 by simp
  ultimately show ?case by (cases s) (simp_all del: of_nat_add)
qed simp

lemma layout_lens: "layout_at m hdr k cs \<Longrightarrow> (len, s) \<in> set cs \<Longrightarrow> 8 \<le> len \<and> (\<forall>n. s = Some n \<longrightarrow> 72 + 80 * n \<le> len)"
  by (induction m hdr k cs rule: layout_at.induct) (auto split: option.splits)

text \<open>All commands are long enough.\<close>

definition lens_ok :: "layout \<Rightarrow> bool" where
  "lens_ok cs \<longleftrightarrow> (\<forall>(len, s) \<in> set cs. 8 \<le> len \<and> (case s of None \<Rightarrow> True | Some n \<Rightarrow> 72 + 80 * n \<le> len))"

lemma layout_at_lens: "layout_at m hdr k cs \<Longrightarrow> lens_ok cs"
  unfolding lens_ok_def using layout_lens by (fastforce split: option.splits)

lemma words_range: "lens_ok cs \<Longrightarrow> g \<in> set (layout_words k cs) \<Longrightarrow> k \<le> g \<and> g + 4 \<le> k + layout_size cs"
proof (induction k cs rule: layout_words.induct)
  case (2 k len s cs)
  then have "lens_ok cs" "8 \<le> len" "s \<noteq> None \<longrightarrow> 72 \<le> len" by (auto simp: lens_ok_def split: option.splits)
  then show ?case using 2 by (fastforce split: option.splits)
qed simp

lemma fields_range: "lens_ok cs \<Longrightarrow> f \<in> set (address_fields k cs) \<Longrightarrow> k + 24 \<le> f \<and> f + 8 \<le> k + layout_size cs"
proof (induction k cs rule: address_fields.induct)
  case (2 k len s cs)
  then have ok: "lens_ok cs" "8 \<le> len" "\<And>n. s = Some n \<Longrightarrow> 72 + 80 * n \<le> len" by (auto simp: lens_ok_def)
  show ?case
  proof (cases "f \<in> set (address_fields (k + len) cs)")
    case True
    then show ?thesis using 2(1) ok(1) by fastforce
  next
    case False
    then obtain n where s: "s = Some n" "f = k + 24 \<or> (\<exists>j < n. f = k + 72 + 80 * j + 32)" using 2(3) by (auto split: option.splits)
    then show ?thesis using ok(3) [OF s(1)] by auto
  qed
qed simp

lemma words_fields_apart:
  "lens_ok cs \<Longrightarrow> g \<in> set (layout_words k cs) \<Longrightarrow> f \<in> set (address_fields k cs) \<Longrightarrow> g + 4 \<le> f \<or> f + 8 \<le> g"
proof (induction k cs rule: address_fields.induct)
  case (2 k len s cs)
  then have ok: "lens_ok cs" "8 \<le> len" "\<And>n. s = Some n \<Longrightarrow> 72 + 80 * n \<le> len" by (auto simp: lens_ok_def)
  have here_f: "k + 24 \<le> f \<and> f + 8 \<le> k + len \<and> (f + 8 \<le> k + 64 \<or> k + 72 \<le> f)" if nf: "f \<notin> set (address_fields (k + len) cs)"
  proof -
    obtain n where s: "s = Some n" "f = k + 24 \<or> (\<exists>j < n. f = k + 72 + 80 * j + 32)" using 2(4) nf by (auto split: option.splits)
    then show ?thesis using ok(3) [OF s(1)] by auto
  qed
  have here_g: "(g = k \<or> g = k + 4 \<or> g = k + 64) \<and> g + 4 \<le> k + len" if "g \<notin> set (layout_words (k + len) cs)"
    using 2(3) that ok(2) ok(3) by (force split: option.splits)
  show ?case
  proof (cases "f \<in> set (address_fields (k + len) cs)"; cases "g \<in> set (layout_words (k + len) cs)")
    assume "f \<in> set (address_fields (k + len) cs)" "g \<in> set (layout_words (k + len) cs)"
    then show ?thesis using 2(1) ok(1) by blast
  next
    assume "f \<in> set (address_fields (k + len) cs)" "g \<notin> set (layout_words (k + len) cs)"
    then show ?thesis using fields_range [OF ok(1), of f "k + len"] here_g by auto
  next
    assume "f \<notin> set (address_fields (k + len) cs)" "g \<in> set (layout_words (k + len) cs)"
    then show ?thesis using words_range [OF ok(1), of g "k + len"] here_f by auto
  next
    assume "f \<notin> set (address_fields (k + len) cs)" "g \<notin> set (layout_words (k + len) cs)"
    then show ?thesis using here_f here_g by auto
  qed
qed simp

lemma fields_apart: "lens_ok cs \<Longrightarrow> sorted_wrt (\<lambda>f g. f + 8 \<le> g) (address_fields k cs)"
proof (induction k cs rule: address_fields.induct)
  case (2 k len s cs)
  then have ok: "lens_ok cs" "\<And>n. s = Some n \<Longrightarrow> 72 + 80 * n \<le> len" by (auto simp: lens_ok_def)
  have "k + len + 24 \<le> g" if "g \<in> set (address_fields (k + len) cs)" for g
    using fields_range [OF ok(1) that] by simp
  moreover have "sorted_wrt (\<lambda>f g. f + 8 \<le> g) (map (\<lambda>j. k + 72 + 80 * j + 32) [0..<n])" for n
    by (simp add: sorted_wrt_map sorted_wrt_upt [THEN sorted_wrt_mono_rel [rotated]])
  ultimately show ?case using 2(1) [OF ok(1)] ok(2)
    by (fastforce simp: sorted_wrt_append split: option.splits)
qed simp

section \<open>The walk\<close>

lemma ucast_of_nat_unat: "ucast (x :: u32) = (of_nat (unat x) :: u64)"
  by (simp add: of_nat_unat)

lemma command_length_at: "unat (read32 m (hdr + of_nat (k + 4))) = len \<Longrightarrow> command_length m (hdr + of_nat k) = of_nat len"
  unfolding command_length_def ucast_of_nat_unat by (simp add: off_CommandLength_def add.assoc)

lemma find_segment_layout: "layout_at m hdr k cs \<Longrightarrow> find_segment m (length cs) (hdr + of_nat k) = first_segment hdr k cs"
proof (induction k cs rule: layout_words.induct)
  case (2 k len s cs)
  have "command_length m (hdr + of_nat k) = of_nat len" using 2(2) by (intro command_length_at) simp
  then show ?case using 2 by (cases s) (simp_all add: add.assoc)
qed simp

lemma offset_neq: "k < 2 ^ 63 \<Longrightarrow> n < 2 ^ 63 \<Longrightarrow> k \<noteq> n \<Longrightarrow> hdr + of_nat k \<noteq> (hdr + of_nat n :: u64)"
proof -
  assume "k < 2 ^ 63" "n < 2 ^ 63" "k \<noteq> n"
  then have "unat (of_nat k :: u64) \<noteq> unat (of_nat n :: u64)" by (simp add: unat_of_nat_small)
  then show ?thesis by auto
qed

lemma find_command_step:
  "a \<noteq> seg \<Longrightarrow> a + command_length m a = b \<Longrightarrow> find_command m (Suc n) a seg = find_command m n b seg"
  by simp

lemma find_command_layout:
  "layout_at m hdr k (pre @ c # post) \<Longrightarrow> k + layout_size (pre @ c # post) < 2 ^ 63 \<Longrightarrow>
   find_command m (length (pre @ c # post)) (hdr + of_nat k) (hdr + of_nat (k + layout_size pre)) =
     (Suc (length post), hdr + of_nat (k + layout_size pre))"
proof (induction pre arbitrary: k)
  case (Cons x pre)
  obtain len s where x: "x = (len, s)" by (cases x)
  have len: "8 \<le> len" using layout_lens [OF Cons.prems(1)] x by auto
  have l: "layout_at m hdr (k + len) (pre @ c # post)" using Cons.prems(1) x by simp
  have c: "command_length m (hdr + of_nat k) = of_nat len" using Cons.prems(1) x by (intro command_length_at) simp
  have ne: "hdr + of_nat k \<noteq> hdr + of_nat (k + layout_size (x # pre))" using Cons.prems(2) len x by (intro offset_neq) auto
  have "find_command m (length (pre @ c # post)) (hdr + of_nat (k + len)) (hdr + of_nat (k + len + layout_size pre)) =
      (Suc (length post), hdr + of_nat (k + len + layout_size pre))" using Cons.prems(2) x by (intro Cons.IH [OF l]) simp
  moreover have k: "k + layout_size (x # pre) = k + len + layout_size pre" using x by simp
  moreover have "(hdr + of_nat k) + command_length m (hdr + of_nat k) = hdr + of_nat (k + len)" using c by simp
  ultimately show ?case using find_command_step [OF ne] by (simp only: append_Cons length_Cons k)
qed simp

lemma next_segment_layout:
  assumes "layout_at m hdr 32 (pre @ (len, s) # post)" and "32 + layout_size (pre @ (len, s) # post) < 2 ^ 63"
    and "commands_count m hdr = length (pre @ (len, s) # post)"
  shows "MachpGetNextSegment64 m hdr (hdr + of_nat (32 + layout_size pre)) = first_segment hdr (32 + layout_size pre + len) post"
proof -
  let ?k = "32 + layout_size pre"
  have l: "layout_at m hdr ?k ((len, s) # post)" using assms(1) unfolding layout_at_append by blast
  then have "command_length m (hdr + of_nat ?k) = of_nat len" by (intro command_length_at) simp
  then have n: "hdr + of_nat ?k + command_length m (hdr + of_nat ?k) = hdr + of_nat (?k + len)" by simp
  have "hdr + of_nat sizeof_MACH_HEADER64 = hdr + of_nat 32" by (simp add: sizeof_MACH_HEADER64_def)
  then have "MachpGetNextSegment64 m hdr (hdr + of_nat ?k) = find_segment m (length post) (hdr + of_nat (?k + len))"
    unfolding MachpGetNextSegment64_def assms(3) by (simp only: find_command_layout [OF assms(1,2)] Let_def prod.case n diff_Suc_1)
  also have "\<dots> = first_segment hdr (?k + len) post" using l by (intro find_segment_layout) simp
  finally show ?thesis .
qed

definition slide_fields :: "u64 \<Rightarrow> u64 \<Rightarrow> nat list \<Rightarrow> phys \<Rightarrow> phys" where
  "slide_fields d hdr = fold (\<lambda>f. add64 (hdr + of_nat f) d)"

lemma slide_fields_simps [simp]:
  "slide_fields d hdr [] m = m" "slide_fields d hdr (f # fs) m = slide_fields d hdr fs (add64 (hdr + of_nat f) d m)"
  "slide_fields d hdr (fs @ gs) m = slide_fields d hdr gs (slide_fields d hdr fs m)"
  by (simp_all add: slide_fields_def)

lemma slide_fields_read32:
  "\<forall>f \<in> set fs. f < 2 ^ 62 \<and> (g + 4 \<le> f \<or> f + 8 \<le> g) \<Longrightarrow> g < 2 ^ 62 \<Longrightarrow>
   read32 (slide_fields d hdr fs m) (hdr + of_nat g) = read32 m (hdr + of_nat g)"
  by (induction fs arbitrary: m) (auto simp: add64_def read32_keeps)

lemma next_section_at:
  assumes "unat (read32 m (hdr + of_nat (k + 64))) = n" and "j < n" and "k + 72 + 80 * n < 2 ^ 61"
  shows "MachpGetNextSection64 m (hdr + of_nat k) (hdr + of_nat (k + 72 + 80 * j)) =
    (if j + 1 < n then Some (hdr + of_nat (k + 72 + 80 * (j + 1))) else None)"
proof -
  have c: "section_count m (hdr + of_nat k) = of_nat n"
    unfolding section_count_def ucast_of_nat_unat assms(1) [symmetric] by (simp add: off_SectionCount_def add.assoc)
  have "unat (of_nat n :: u64) = n" using assms by (intro unat_of_nat_small) simp
  then have n0: "(of_nat n :: u64) \<noteq> 0" using assms(2) by (metis less_nat_zero_code unat_0)
  have "hdr + of_nat (k + 72 + 80 * j) - (hdr + of_nat k + of_nat sizeof_SEGMENT_COMMAND64) = of_nat (80 * j)"
    by (simp add: sizeof_SEGMENT_COMMAND64_def)
  moreover have "of_nat (80 * j) div of_nat sizeof_SECTION64 = (of_nat j :: u64)"
  proof -
    have "unat (of_nat (80 * j) :: u64) = 80 * j" "unat (of_nat j :: u64) = j" "unat (of_nat 80 :: u64) = 80"
      using assms by (intro unat_of_nat_small, simp)+
    then show ?thesis unfolding word_unat_eq_iff unat_div sizeof_SECTION64_def by (simp del: of_nat_mult)
  qed
  moreover have "(of_nat j + 1 \<ge> (of_nat n :: u64)) = (\<not> j + 1 < n)"
  proof -
    have "unat (of_nat (j + 1) :: u64) = j + 1" "unat (of_nat n :: u64) = n" using assms by (intro unat_of_nat_small, simp)+
    then show ?thesis by (simp add: word_le_nat_alt not_less add.commute)
  qed
  moreover have "hdr + of_nat (k + 72 + 80 * j) + of_nat sizeof_SECTION64 = hdr + of_nat (k + 72 + 80 * (j + 1))"
    by (simp add: sizeof_SECTION64_def algebra_simps)
  ultimately show ?thesis using c n0 unfolding MachpGetNextSection64_def by (simp add: Let_def)
qed

lemma slide_sections_ok:
  "unat (read32 m (hdr + of_nat (k + 64))) = n \<Longrightarrow> j < n \<Longrightarrow> k + 72 + 80 * n < 2 ^ 61 \<Longrightarrow>
   slide_sections d (hdr + of_nat k) (Some (hdr + of_nat (k + 72 + 80 * j))) m =
     Some (slide_fields d hdr (map (\<lambda>j. k + 72 + 80 * j + 32) [j..<n]) m)"
proof (induction "n - j" arbitrary: j m)
  case (Suc i)
  let ?f = "k + 72 + 80 * j + 32"
  let ?m = "add64 (hdr + of_nat ?f) d m"
  have a: "hdr + of_nat (k + 72 + 80 * j) + of_nat off_Address = hdr + of_nat ?f" by (simp add: off_Address_def)
  have r: "unat (read32 ?m (hdr + of_nat (k + 64))) = n"
    using Suc.prems unfolding add64_def by (subst read32_keeps) auto
  have u: "[j..<n] = j # [j + 1..<n]" using Suc.prems(2) by (simp add: upt_conv_Cons)
  have step: "slide_sections d (hdr + of_nat k) (Some (hdr + of_nat (k + 72 + 80 * j))) m =
      slide_sections d (hdr + of_nat k) (MachpGetNextSection64 ?m (hdr + of_nat k) (hdr + of_nat (k + 72 + 80 * j))) ?m"
    by (subst slide_sections.simps) (simp only: option.case Let_def a)
  show ?case
  proof (cases "j + 1 < n")
    case True
    have "slide_sections d (hdr + of_nat k) (Some (hdr + of_nat (k + 72 + 80 * (j + 1)))) ?m =
        Some (slide_fields d hdr (map (\<lambda>j. k + 72 + 80 * j + 32) [j + 1..<n]) ?m)"
      using Suc.hyps(2) Suc.prems True by (intro Suc.hyps(1) r) auto
    then show ?thesis unfolding step next_section_at [OF r Suc.prems(2,3)] u using True by (simp only: if_True list.map slide_fields_simps)
  next
    case False
    then have "[j + 1..<n] = []" by simp
    then show ?thesis unfolding step next_section_at [OF r Suc.prems(2,3)] u using False
      by (subst slide_sections.simps) (simp only: if_False option.case list.map slide_fields_simps)
  qed
qed simp

lemma slide_segment_step:
  assumes "layout_at m hdr k ((len, Some n) # post)" and "k + layout_size ((len, Some n) # post) < 2 ^ 61"
  shows "slide_segments d hdr (Some (hdr + of_nat k)) m =
    (let m' = slide_fields d hdr ((k + 24) # map (\<lambda>j. k + 72 + 80 * j + 32) [0..<n]) m
     in slide_segments d hdr (MachpGetNextSegment64 m' hdr (hdr + of_nat k)) m')"
proof -
  let ?m = "add64 (hdr + of_nat (k + 24)) d m"
  have a: "hdr + of_nat k + of_nat off_VirtualAddress = hdr + of_nat (k + 24)" by (simp add: off_VirtualAddress_def)
  have len: "72 + 80 * n \<le> len" "unat (read32 m (hdr + of_nat (k + 64))) = n" using assms(1) by simp_all
  then have b: "k + 72 + 80 * n < 2 ^ 61" using assms(2) by simp
  have r: "unat (read32 ?m (hdr + of_nat (k + 64))) = n" using len(2) b unfolding add64_def by (subst read32_keeps) auto
  have c: "section_count ?m (hdr + of_nat k) = of_nat n"
    unfolding section_count_def ucast_of_nat_unat r [symmetric] by (simp add: off_SectionCount_def add.assoc)
  have "slide_sections d (hdr + of_nat k) (MachpGetFirstSection64 ?m (hdr + of_nat k)) ?m =
      Some (slide_fields d hdr (map (\<lambda>j. k + 72 + 80 * j + 32) [0..<n]) ?m)"
  proof (cases "n = 0")
    case True
    then show ?thesis using c by (subst slide_sections.simps) (simp add: MachpGetFirstSection64_def)
  next
    case False
    have "unat (of_nat n :: u64) = n" using b by (intro unat_of_nat_small) simp
    then have "(of_nat n :: u64) \<noteq> 0" using False by (metis unat_0)
    then have "MachpGetFirstSection64 ?m (hdr + of_nat k) = Some (hdr + of_nat (k + 72 + 80 * 0))"
      using c by (simp add: MachpGetFirstSection64_def sizeof_SEGMENT_COMMAND64_def add.assoc)
    then show ?thesis using slide_sections_ok [OF r _ b, of 0 d] False by simp
  qed
  then show ?thesis by (subst slide_segments.simps) (simp only: option.case Let_def a slide_fields_simps)
qed

lemma slide_segments_ok:
  assumes "layout_at m hdr 32 (pre @ post)" and "commands_count m hdr = length (pre @ post)" and "32 + layout_size (pre @ post) < 2 ^ 61"
  shows "slide_segments d hdr (first_segment hdr (32 + layout_size pre) post) m =
    Some (slide_fields d hdr (address_fields (32 + layout_size pre) post) m)"
  using assms
proof (induction post arbitrary: pre m)
  case Nil
  then show ?case by (subst slide_segments.simps) simp
next
  case (Cons c post)
  obtain len s where c: "c = (len, s)" by (cases c)
  let ?k = "32 + layout_size pre"
  show ?case
  proof (cases s)
    case None
    then show ?thesis using Cons.IH [of m "pre @ [c]"] Cons.prems c by (simp add: add.assoc)
  next
    case (Some n)
    let ?fs = "(?k + 24) # map (\<lambda>j. ?k + 72 + 80 * j + 32) [0..<n]"
    let ?m = "slide_fields d hdr ?fs m" and ?all = "pre @ (len, Some n) # post"
    have all: "layout_at m hdr 32 ?all" "commands_count m hdr = length ?all" "32 + layout_size ?all < 2 ^ 61"
      using Cons.prems c Some by auto
    have ok: "lens_ok ?all" by (rule layout_at_lens [OF all(1)])
    have sub: "set ?fs \<subseteq> set (address_fields 32 ?all)" by (auto simp: address_fields_append)
    have keep: "read32 ?m (hdr + of_nat g) = read32 m (hdr + of_nat g)" if "g \<in> set (layout_words 32 ?all) \<or> g = 16" for g
    proof (rule slide_fields_read32)
      show "\<forall>f \<in> set ?fs. f < 2 ^ 62 \<and> (g + 4 \<le> f \<or> f + 8 \<le> g)"
      proof
        fix f assume "f \<in> set ?fs"
        then have f: "f \<in> set (address_fields 32 ?all)" using sub by blast
        show "f < 2 ^ 62 \<and> (g + 4 \<le> f \<or> f + 8 \<le> g)"
          using fields_range [OF ok f] words_fields_apart [OF ok _ f] that all(3) by auto
      qed
      show "g < 2 ^ 62" using that words_range [OF ok, of g 32] all(3) by auto
    qed
    have l: "layout_at ?m hdr 32 ?all" using layout_at_cong [of 32 ?all ?m hdr m] keep all(1) by blast
    have n: "commands_count ?m hdr = length ?all" using keep [of 16] all(2) by (simp add: commands_count_def)
    have "slide_segments d hdr (Some (hdr + of_nat ?k)) m = slide_segments d hdr (MachpGetNextSegment64 ?m hdr (hdr + of_nat ?k)) ?m"
      using slide_segment_step [of m hdr ?k len n post d] all(1,3) unfolding layout_at_append by (simp add: Let_def)
    also have "MachpGetNextSegment64 ?m hdr (hdr + of_nat ?k) = first_segment hdr (?k + len) post"
      using all(3) by (intro next_segment_layout [OF l _ n]) simp
    also have "slide_segments d hdr (first_segment hdr (?k + len) post) ?m = Some (slide_fields d hdr (address_fields (?k + len) post) ?m)"
      using Cons.IH [of ?m "pre @ [(len, Some n)]"] l n all(3) by (simp add: add.assoc)
    finally show ?thesis using c Some by simp
  qed
qed

lemma slide_fields_other:
  "\<forall>f \<in> set fs. f < 2 ^ 61 \<and> (g < f \<or> f + 8 \<le> g) \<Longrightarrow> g < 2 ^ 61 \<Longrightarrow> slide_fields d hdr fs m (hdr + of_nat g) = m (hdr + of_nat g)"
  by (induction fs arbitrary: m) (auto simp: add64_def write64_keeps)

lemma slide_fields_apart64:
  "\<forall>f \<in> set fs. f < 2 ^ 61 \<and> (g + 8 \<le> f \<or> f + 8 \<le> g) \<Longrightarrow> g < 2 ^ 61 \<Longrightarrow>
   read64 (slide_fields d hdr fs m) (hdr + of_nat g) = read64 m (hdr + of_nat g)"
  by (induction fs arbitrary: m) (auto simp: add64_def read64_keeps)

lemma slide_fields_read64:
  "sorted_wrt (\<lambda>f g. f + 8 \<le> g) fs \<Longrightarrow> \<forall>f \<in> set fs. f < 2 ^ 61 \<Longrightarrow> g \<in> set fs \<Longrightarrow>
   read64 (slide_fields d hdr fs m) (hdr + of_nat g) = read64 m (hdr + of_nat g) + d"
proof (induction fs arbitrary: m)
  case (Cons f fs)
  let ?m = "add64 (hdr + of_nat f) d m"
  show ?case
  proof (cases "g = f")
    case True
    have "read64 (slide_fields d hdr fs ?m) (hdr + of_nat f) = read64 ?m (hdr + of_nat f)"
      using Cons.prems True by (intro slide_fields_apart64) auto
    then show ?thesis using True by (simp add: add64_def read64_write64)
  next
    case False
    then have g: "g \<in> set fs" "f + 8 \<le> g" using Cons.prems by auto
    then have "read64 ?m (hdr + of_nat g) = read64 m (hdr + of_nat g)"
      using Cons.prems by (auto simp: add64_def intro!: read64_keeps)
    then show ?thesis using Cons.IH [of ?m] Cons.prems g by simp
  qed
qed simp

text \<open>A header with one segment of one section, and the image at 4096.\<close>

definition small_image :: phys where
  "small_image = write32 0x1010 1 (write32 0x1020 0x19 (write32 0x1024 152 (write32 0x1060 1 (\<lambda>_. 0))))"

section \<open>Properties\<close>

text \<open>
  C8. When an image is moved, the walk over its load commands ends, and it adds the displacement to the
  address of every segment and of every section in a segment and changes no other byte of the image, for
  any sequence of commands whose lengths have room for what they hold.
\<close>

theorem slide_image:
  assumes "layout_at m hdr 32 cs" and "commands_count m hdr = length cs" and "32 + layout_size cs < 2 ^ 61"
  shows "\<exists>m'. slide_segments d hdr (MachpGetFirstSegment64 m hdr) m = Some m' \<and>
    (\<forall>f \<in> set (address_fields 32 cs). read64 m' (hdr + of_nat f) = read64 m (hdr + of_nat f) + d) \<and>
    (\<forall>g < 2 ^ 61. (\<forall>f \<in> set (address_fields 32 cs). g < f \<or> f + 8 \<le> g) \<longrightarrow> m' (hdr + of_nat g) = m (hdr + of_nat g))"
proof -
  let ?fs = "address_fields 32 cs"
  have ok: "lens_ok cs" by (rule layout_at_lens [OF assms(1)])
  have b: "\<forall>f \<in> set ?fs. f < 2 ^ 61" using fields_range [OF ok, of _ 32] assms(3) by fastforce
  have "MachpGetFirstSegment64 m hdr = first_segment hdr 32 cs"
    using find_segment_layout [OF assms(1)] by (simp add: MachpGetFirstSegment64_def assms(2) sizeof_MACH_HEADER64_def)
  then have "slide_segments d hdr (MachpGetFirstSegment64 m hdr) m = Some (slide_fields d hdr ?fs m)"
    using slide_segments_ok [of m hdr "[]" cs d] assms by simp
  then show ?thesis using slide_fields_read64 [OF fields_apart [OF ok] b] slide_fields_other [of ?fs _ d hdr m] b by auto
qed

theorem slide_image_witness:
  "\<exists>m'. slide_segments 0x200000 0x1000 (MachpGetFirstSegment64 small_image 0x1000) small_image = Some m' \<and>
    read64 m' 0x1038 = 0x200000 \<and> read64 m' 0x1088 = 0x200000"
proof -
  have "layout_at small_image 0x1000 32 [(152, Some 1)]" "commands_count small_image 0x1000 = length [(152 :: nat, Some (1 :: nat))]"
    "read64 small_image 0x1038 = 0" "read64 small_image 0x1088 = 0"
    by (simp_all add: small_image_def commands_count_def read64_def read32_bytes write32_def put_le32_def le32_def
        MACH_O_COMMAND_SEGMENT64_def push_bit_eq_mult drop_bit_eq_div)
  then show ?thesis using slide_image [of small_image "0x1000" "[(152, Some 1)]" "0x200000"] by auto
qed

end
