(* ===== verification/MachOProps.thy ===== *)
theory MachOProps
  imports MachOSlide
begin

text \<open>
  What the Mach-O loader promises: the image that is chosen, the memory of a loaded segment, local relocations,
  and symbols.
\<close>

section \<open>Relocations\<close>

definition apart64 :: "u64 \<Rightarrow> u64 \<Rightarrow> bool" where
  "apart64 a b \<longleftrightarrow> 8 \<le> unat (b - a) \<and> 8 \<le> unat (a - b)"

lemma apart64_byte:
  assumes "apart64 a b" and "i < 8"
  shows "8 \<le> unat (b + of_nat i - a)"
proof -
  have ne: "b - a \<noteq> 0" using assms(1) by (auto simp: apart64_def)
  have "unat (a - b) = 2 ^ 64 - unat (b - a)"
    using unat_sub_if' [of 0 "b - a"] ne by (simp add: unat_eq_0)
  then have "unat (b - a) + i < 2 ^ 64" using assms unat_bound [of "b - a"] unfolding apart64_def by simp linarith
  then have "unat (b - a + of_nat i) = unat (b - a) + i"
    using assms(2) by (subst unat_add_small) (simp_all add: unat_of_nat_small)
  moreover have "b + of_nat i - a = b - a + of_nat i" by simp
  ultimately have "unat (b + of_nat i - a) = unat (b - a) + i" by metis
  then show ?thesis using assms(1) unfolding apart64_def by linarith
qed

lemma add64_apart: "apart64 a b \<Longrightarrow> i < 8 \<Longrightarrow> add64 a d m (b + of_nat i) = m (b + of_nat i)"
  unfolding add64_def using write64_at [OF apart64_byte] by blast

lemma read32_apart: "apart64 a b \<Longrightarrow> j \<in> {0, 4} \<Longrightarrow> read32 (add64 a d m) (b + of_nat j) = read32 m (b + of_nat j)"
  using add64_apart [of a b j d m] add64_apart [of a b "j + 1" d m] add64_apart [of a b "j + 2" d m] add64_apart [of a b "j + 3" d m]
  by (auto simp: read32_bytes ac_simps)

lemma read64_apart: "apart64 a b \<Longrightarrow> read64 (add64 a d m) b = read64 m b"
  using read32_apart [of a b 0 d m] read32_apart [of a b 4 d m] by (simp add: read64_def)

lemma relocation_apart: "apart64 a r \<Longrightarrow> relocation_at (add64 a d m) r = relocation_at m r"
  using read32_apart [of a r 0 d m] read32_apart [of a r 4 d m] by (simp add: relocation_at_def)

text \<open>The entries of the table, and the places in the data segment that they name.\<close>

definition entry_at :: "u64 \<Rightarrow> nat \<Rightarrow> u64" where
  "entry_at r i = r + of_nat (8 * i)"

definition target :: "phys \<Rightarrow> u64 \<Rightarrow> u64 \<Rightarrow> nat \<Rightarrow> u64" where
  "target m r data i = data + scast (SectionOffset (relocation_at m (entry_at r i)))"

lemma entry_at_Suc: "entry_at (r + sizeof_RELOCATION_INFO) i = entry_at r (Suc i)"
  by (simp add: entry_at_def sizeof_RELOCATION_INFO_def algebra_simps)

lemma relocate_targets:
  "\<forall>i < n. relocation_ok (relocation_at m (entry_at r i)) \<Longrightarrow>
   \<forall>i < n. \<forall>j < n. apart64 (target m r data i) (entry_at r j) \<Longrightarrow>
   relocate n r data d m = (True, fold (\<lambda>i. add64 (target m r data i) d) [0..<n] m)"
proof (induction n arbitrary: r m)
  case (Suc n)
  let ?m = "add64 (target m r data 0) d m" and ?r = "r + sizeof_RELOCATION_INFO"
  have e: "relocation_at ?m (entry_at ?r i) = relocation_at m (entry_at r (Suc i))" if "i < n" for i
    unfolding entry_at_Suc using Suc.prems(2) that by (intro relocation_apart) auto
  then have t: "target ?m ?r data i = target m r data (Suc i)" if "i < n" for i using that by (simp add: target_def)
  have "relocate n ?r data d ?m = (True, fold (\<lambda>i. add64 (target ?m ?r data i) d) [0..<n] ?m)"
    using Suc.prems e t by (intro Suc.IH) (auto simp: entry_at_Suc)
  also have "fold (\<lambda>i. add64 (target ?m ?r data i) d) [0..<n] ?m = fold (\<lambda>i. add64 (target m r data (Suc i)) d) [0..<n] ?m"
    using t by (intro fold_cong) auto
  also have "\<dots> = fold (\<lambda>i. add64 (target m r data i) d) [0..<Suc n] m"
    unfolding upt_conv_Cons [OF zero_less_Suc] map_Suc_upt [symmetric] by (simp add: fold_map o_def del: upt_Suc)
  finally have rest: "relocate n ?r data d ?m = (True, fold (\<lambda>i. add64 (target m r data i) d) [0..<Suc n] m)" .
  have "entry_at r 0 = r" by (simp add: entry_at_def)
  then have "relocation_ok (relocation_at m r)" "data + scast (SectionOffset (relocation_at m r)) = target m r data 0"
    using Suc.prems(1) by (auto simp: target_def)
  then show ?case using rest by (simp only: relocate.simps Let_def if_False not_True_eq_False)
qed simp

lemma fold_add64_read:
  "distinct is \<Longrightarrow> \<forall>i \<in> set is. \<forall>j \<in> set is. i \<noteq> j \<longrightarrow> apart64 (t i) (t j) \<Longrightarrow>
   (k \<in> set is \<longrightarrow> read64 (fold (\<lambda>i. add64 (t i) d) is m) (t k) = read64 m (t k) + d) \<and>
   ((\<forall>i \<in> set is. apart64 (t i) b) \<longrightarrow> read64 (fold (\<lambda>i. add64 (t i) d) is m) b = read64 m b)"
proof (induction "is" arbitrary: m b k)
  case (Cons i "is")
  let ?m = "add64 (t i) d m"
  note IH = Cons.IH [of _ ?m]
  have "read64 (fold (\<lambda>i. add64 (t i) d) is ?m) (t k) = read64 m (t k) + d" if "k \<in> set (i # is)"
  proof (cases "k = i")
    case True
    have "read64 (fold (\<lambda>i. add64 (t i) d) is ?m) (t i) = read64 ?m (t i)" using Cons.prems IH [of k "t i"] by auto
    then show ?thesis using True by (simp add: add64_def read64_write64)
  next
    case False
    then have "read64 ?m (t k) = read64 m (t k)" using Cons.prems that by (intro read64_apart) auto
    then show ?thesis using Cons.prems IH [of k b] False that by auto
  qed
  moreover have "read64 (fold (\<lambda>i. add64 (t i) d) is ?m) b = read64 m b" if "\<forall>j \<in> set (i # is). apart64 (t j) b"
    using that Cons.prems IH [of k b] read64_apart [of "t i" b d m] by auto
  ultimately show ?case by simp
qed simp

section \<open>Symbols\<close>

lemma strcmp_fixed:
  assumes "0 \<notin> set s" and "length t = Suc (length s)"
  shows "\<exists>v. strcmp (s @ [0]) t = Some v \<and> (v = 0 \<longleftrightarrow> t = s @ [0])"
    and "\<exists>v. strcmp t (s @ [0]) = Some v \<and> (v = 0 \<longleftrightarrow> t = s @ [0])"
  using assms
proof (induction s arbitrary: t)
  case Nil
  {
    case 1
    then obtain c where "t = [c]" by (cases t) auto
    then show ?case by (auto simp: unsigned_eq_0_iff)
  next
    case 2
    then obtain c where "t = [c]" by (cases t) auto
    then show ?case by (auto simp: unsigned_eq_0_iff)
  }
next
  case (Cons a s)
  have eq: "uint a - uint c = 0 \<longleftrightarrow> c = a" "uint c - uint a = 0 \<longleftrightarrow> c = a" for c by (auto simp: word_uint_eq_iff)
  {
    case 1
    then obtain c u where t: "t = c # u" "length u = Suc (length s)" by (cases t) auto
    then show ?case using 1 Cons.IH(1) [of u] eq [of c] by (cases "c = a") auto
  next
    case 2
    then obtain c u where t: "t = c # u" "length u = Suc (length s)" by (cases t) auto
    then show ?case using 2 Cons.IH(2) [of u] eq [of c] by (cases "c = a") auto
  }
qed

lemma length_read_bytes [simp]: "length (read_bytes m a n) = n"
  by (induction n arbitrary: a) simp_all

lemma ram_string_ok: "0 \<notin> set s \<Longrightarrow> ram_string m (s @ [0]) a = Some (read_bytes m a (Suc (length s)) = s @ [0])"
  using strcmp_fixed [of s "read_bytes m a (Suc (length s))"] by (auto simp: ram_string_def same_name_def simp del: read_bytes.simps)

text \<open>The symbols of a table with the given name.\<close>

definition symbol_address :: "u64 \<Rightarrow> nat \<Rightarrow> u64" where
  "symbol_address table i = table + of_nat (16 * i)"

definition named :: "phys \<Rightarrow> u8 list \<Rightarrow> u64 \<Rightarrow> u64 \<Rightarrow> nat \<Rightarrow> bool" where
  "named m s strings table i \<longleftrightarrow>
     read_bytes m (strings + ucast (StringIndex (symbol_at m (symbol_address table i)))) (Suc (length s)) = s @ [0]"

definition symbol_value :: "phys \<Rightarrow> u8 list \<Rightarrow> u64 \<Rightarrow> u64 \<Rightarrow> nat \<Rightarrow> u64" where
  "symbol_value m s strings table n =
     (case find (named m s strings table) [0..<n] of None \<Rightarrow> 0 | Some i \<Rightarrow> Value (symbol_at m (symbol_address table i)))"

lemma symbol_address_Suc: "symbol_address (table + sizeof_SYMTAB_ENTRY64) i = symbol_address table (Suc i)"
  by (simp add: symbol_address_def sizeof_SYMTAB_ENTRY64_def algebra_simps)

lemma find_map_Suc: "find P (map Suc xs) = map_option Suc (find (\<lambda>i. P (Suc i)) xs)"
  by (induction xs) auto

lemma find_symbol_ok: "0 \<notin> set s \<Longrightarrow> find_symbol m (s @ [0]) n strings table = Some (symbol_value m s strings table n)"
proof (induction n arbitrary: table)
  case (Suc n)
  have u: "[0..<Suc n] = 0 # map Suc [0..<n]" unfolding map_Suc_upt by (simp add: upt_conv_Cons del: upt_Suc)
  have z: "symbol_address table 0 = table" by (simp add: symbol_address_def)
  have "named m s strings (table + sizeof_SYMTAB_ENTRY64) = (\<lambda>i. named m s strings table (Suc i))"
    by (simp add: fun_eq_iff named_def symbol_address_Suc)
  then have v: "symbol_value m s strings (table + sizeof_SYMTAB_ENTRY64) n =
      (case find (named m s strings table) (map Suc [0..<n]) of None \<Rightarrow> 0 | Some i \<Rightarrow> Value (symbol_at m (symbol_address table i)))"
    by (simp add: symbol_value_def find_map_Suc symbol_address_Suc split: option.splits)
  have n0: "named m s strings table 0 \<longleftrightarrow>
      read_bytes m (strings + ucast (StringIndex (symbol_at m table))) (Suc (length s)) = s @ [0]" by (simp add: named_def z)
  have rec: "find_symbol m (s @ [0]) n strings (table + sizeof_SYMTAB_ENTRY64) =
      Some (symbol_value m s strings (table + sizeof_SYMTAB_ENTRY64) n)" by (rule Suc.IH [OF Suc.prems])
  show ?case
  proof (cases "named m s strings table 0")
    case True
    then show ?thesis using ram_string_ok [OF Suc.prems] n0 z unfolding symbol_value_def u by simp
  next
    case False
    have "symbol_value m s strings table (Suc n) = symbol_value m s strings (table + sizeof_SYMTAB_ENTRY64) n"
      unfolding v unfolding symbol_value_def u using False by simp
    then show ?thesis using ram_string_ok [OF Suc.prems] n0 False rec by simp
  qed
qed (simp add: symbol_value_def)

text \<open>The load commands in memory, the link edit segments and the symbol tables among them.\<close>

fun commands_from :: "phys \<Rightarrow> nat \<Rightarrow> u64 \<Rightarrow> u64 list" where
  "commands_from m 0 a = []"
| "commands_from m (Suc n) a = a # commands_from m n (a + command_length m a)"

definition is_segment :: "phys \<Rightarrow> u64 \<Rightarrow> bool" where
  "is_segment m a \<longleftrightarrow> read32 m a = MACH_O_COMMAND_SEGMENT32 \<or> read32 m a = MACH_O_COMMAND_SEGMENT64"

definition is_linkedit :: "phys \<Rightarrow> u64 \<Rightarrow> bool" where
  "is_linkedit m a \<longleftrightarrow> is_segment m a \<and> read_bytes m (a + 8) 11 = name_LINKEDIT"

definition link_of :: "phys \<Rightarrow> u64 \<Rightarrow> u64 \<times> u64" where
  "link_of m a = (LdrStaticVirtualToPhysical (read64 m (a + 24)), read64 m (a + 40))"

definition tables_of :: "phys \<Rightarrow> u64 list \<Rightarrow> u64 \<times> u64 \<times> u64 \<Rightarrow> u64 \<times> u64 \<times> u64" where
  "tables_of m cs t =
     (let links = filter (is_linkedit m) cs; tabs = filter (\<lambda>a. read32 m a = MACH_O_COMMAND_SYMTAB) cs;
          (link, offset) = (if links = [] then (fst t, fst (snd t)) else link_of m (last links))
      in (link, offset, if tabs = [] then snd (snd t) else last tabs))"

lemma linkedit_name:
  "map_option (\<lambda>v. v = 0) (strcmp (read_bytes m (a + of_nat off_Name) (length name_LINKEDIT)) name_LINKEDIT) =
   Some (read_bytes m (a + 8) 11 = name_LINKEDIT)"
proof -
  have nm: "name_LINKEDIT = butlast name_LINKEDIT @ [0]" "0 \<notin> set (butlast name_LINKEDIT)" "length name_LINKEDIT = 11"
    by (simp_all add: name_LINKEDIT_def)
  obtain v where "strcmp (read_bytes m (a + 8) 11) name_LINKEDIT = Some v" "v = 0 \<longleftrightarrow> read_bytes m (a + 8) 11 = name_LINKEDIT"
    using strcmp_fixed(2) [OF nm(2), of "read_bytes m (a + 8) 11"] nm by (simp del: read_bytes.simps) (metis nm(1))
  then show ?thesis using nm(3) by (simp add: off_Name_def del: read_bytes.simps)
qed

lemma find_tables_ok: "find_tables m True n a t = Some (tables_of m (commands_from m n a) t)"
proof (induction n arbitrary: a t)
  case 0
  then show ?case by (cases t) (simp add: tables_of_def)
next
  case (Suc n)
  obtain link offset symtab where t: "t = (link, offset, symtab)" by (cases t)
  have ne: "MACH_O_COMMAND_SYMTAB \<noteq> MACH_O_COMMAND_SEGMENT32" "MACH_O_COMMAND_SYMTAB \<noteq> MACH_O_COMMAND_SEGMENT64"
    by (simp_all add: MACH_O_COMMAND_SYMTAB_def MACH_O_COMMAND_SEGMENT32_def MACH_O_COMMAND_SEGMENT64_def)
  show ?case
  proof (cases "is_segment m a")
    case True
    then have "read32 m a \<noteq> MACH_O_COMMAND_SYMTAB" using ne by (auto simp: is_segment_def)
    then show ?thesis using True t Suc linkedit_name [of m a]
      by (auto simp: is_segment_def is_linkedit_def tables_of_def link_of_def Let_def mach_offsets)
  next
    case False
    then show ?thesis using t Suc by (auto simp: is_segment_def is_linkedit_def tables_of_def Let_def split: prod.splits)
  qed
qed

section \<open>Concrete images\<close>

text \<open>A link edit segment and a symbol table with one symbol, for the image at 4096.\<close>

definition symbol_image :: phys where
  "symbol_image = write32 0x1000 0xfeedfacf (write32 0x1010 2
     (write32 0x1020 0x19 (write32 0x1024 72 (write_bytes 0x1028 name_LINKEDIT (write32 0x1038 0x2000 (write32 0x1048 0x100
     (write32 0x1068 2 (write32 0x106c 24 (write32 0x1070 0x100 (write32 0x1074 1 (write32 0x1078 0x110
     (write32 0x2000 1 (write32 0x2008 0x1234 (write_bytes 0x2011 [0x61, 0] (\<lambda>_. 0)))))))))))))))"

definition zero_info :: MACH_O_LOADED_INFO where
  "zero_info = \<lparr>ImageBasePhysicalAddress = 0, TextSegmentFileSize = 0, ImageBaseVirtualAddress = 0, MinPhysicalAddress = 0,
     MaxPhysicalAddress = 0, EntryPointPhysicalAddress = 0, MinVirtualAddress = 0, MaxVirtualAddress = 0,
     EntryPointVirtualAddress = 0, ArchType = 0, IdlePML4VirtualAddress = 0\<rparr>"

text \<open>A handle at the start of a file, and a buffer with one segment command: five thousand bytes of memory, three of the file.\<close>

definition start_of_file :: "nat io" where
  "start_of_file = \<lparr>handle = zero_handle\<lparr>EfiFileHandle := True\<rparr>, world = 0, memory = small_memory\<rparr>"

definition segment_command :: "u8 list" where
  "segment_command = put_le32 0x19 @ put_le32 72 @ name_DATA @ replicate 9 0 @ put_le32 0x00200000 @ put_le32 0xffffff80 @
     put_le32 5000 @ put_le32 0 @ put_le32 1 @ put_le32 0 @ put_le32 2 @ put_le32 0"

definition segment_loader :: "nat loader" where
  "segment_loader = \<lparr>fileHandle = start_of_file, ram = (\<lambda>_. 7), loadedInfo = zero_info, ASLRDisplacement = 0, aslr_mode = False\<rparr>"

definition relocation_image :: phys where
  "relocation_image = write32 0x3000 16 (write32 0x3004 0x06000000 (write32 0x4010 5 (\<lambda>_. 0)))"

definition fat_archs :: "FAT_ARCH_HEADER list" where
  "fat_archs = [\<lparr>arch_CpuType = 7, arch_CpuSubType = 3, OffsetInFile = 0x1000, arch_Size = 0x500, Align = 12\<rparr>,
     \<lparr>arch_CpuType = 0x1000007, arch_CpuSubType = 3, OffsetInFile = 0x2000, arch_Size = 0x700, Align = 12\<rparr>]"

lemma start_of_file_at: "file_at bytes id start_of_file 0"
  using small_memory_inv by (auto simp: file_at_def zero_handle_def mem_ok_def start_of_file_def)

section \<open>Properties\<close>

text \<open>
  C13. In a fat file, as it is written in big-endian order, MachLoadThinFatFile chooses the first
  image of the 64-bit processor and answers its offset and size; when there is none, or it is empty, the answer is
  EFI_NOT_FOUND. An error that the firmware answers to a read of the headers is returned instead. When the offset is
  not 0 the file is left at the start of the image, unless the firmware has refused to seek there, which goes unnoticed; for offset 0
  there is no seek.
\<close>

theorem fat_image:
  assumes "firmware_file fw (fat_bytes archs @ R) infoSize position" and "file_at (fat_bytes archs @ R) position st 0"
    and "length archs < 2 ^ 32"
  shows "\<exists>status r st' pos. MachLoadThinFatFile fw st = Some ((status, r), st') \<and> file_at (fat_bytes archs @ R) position st' pos \<and>
    (fw_error fw status \<and> r = None \<or>
     (status, r) = (case x64_arch archs of None \<Rightarrow> (EFI_NOT_FOUND, None)
        | Some a \<Rightarrow> if arch_Size a = 0 then (EFI_NOT_FOUND, None)
            else (EFI_SUCCESS, Some (ucast (OffsetInFile a), ucast (arch_Size a)))) \<and>
     (\<forall>a. x64_arch archs = Some a \<and> arch_Size a \<noteq> 0 \<and> OffsetInFile a \<noteq> 0 \<longrightarrow>
       pos = unat (OffsetInFile a) \<or> (\<exists>st2. fw_error fw (fst (IoSetFilePosition fw (ucast (OffsetInFile a)) st2)))))"
  using fat_selects [OF assms] unfolding fat_answer_def .

theorem fat_image_witness:
  "\<exists>st'. MachLoadThinFatFile (memory_file (fat_bytes fat_archs @ [1, 2, 3])) start_of_file =
      Some ((EFI_SUCCESS, Some (0x2000, 0x700)), st') \<and> file_at (fat_bytes fat_archs @ [1, 2, 3]) id st' 0x2000"
proof -
  have "length (fat_bytes fat_archs @ [1, 2, 3]) < 2 ^ 64" by (simp add: fat_archs_def fat_bytes_def)
  then have "firmware_file (memory_file (fat_bytes fat_archs @ [1, 2, 3])) (fat_bytes fat_archs @ [1, 2, 3]) 480 id" by (rule memory_file_ok)
  from fat_image [OF this start_of_file_at] show ?thesis
    by (auto simp: fat_archs_def x64_arch_def CPU_TYPE_X64_def memory_file_errors)
qed

text \<open>
  C10. Loading a segment whose kernel memory could be allocated: the allocated memory, which covers the virtual size
  rounded up to pages, holds the bytes of the file from the segment's offset on, as many as the smaller
  of the two sizes, and zeros behind them, and no other byte of memory changes; or the firmware answers an error to the seek or the
  read, loading ends with it, and some of the data at most has been written. The segment has data in the file, or
  nothing has been read before it (readLength is stale otherwise, and not all of the memory is cleared), and it is not the
  text segment of a kernel that slides, whose load commands are changed in place afterwards.
\<close>

theorem segment_contents:
  assumes "firmware_file fw bytes infoSize position" and "file_at bytes position (fileHandle st) pos"
    and "field64 buf (cmd + off_VirtualAddress) = Some va" and "field64 buf (cmd + off_VirtualSize) = Some vsize"
    and "field64 buf (cmd + off_FileSize) = Some fsize" and "field64 buf (cmd + off_FileOffset) = Some foff"
    and "0 \<in> set (drop (cmd + off_Name) buf)"
    and "same_name (drop (cmd + off_Name) buf) name_TEXT = Some True \<longrightarrow> ASLRDisplacement st = 0"
    and "vsize \<noteq> 0" and "unat vsize + 4095 < 2 ^ 64" and "fsize \<noteq> 0 \<or> readLength l = 0"
    and "MmAllocateKernelMemory (Some vsize) (Some (va + ASLRDisplacement st)) (memory (fileHandle st)) = (p, Some len, Some v, h)"
    and "p \<noteq> 0" and "data = take (unat (min vsize fsize)) (drop (unat (machOffset + foff)) bytes)"
  shows "(\<exists>l' st'. load_segment fw machOffset commandsBuffer buf cmd l st = Some (Go_on l' st') \<and>
      (\<forall>x. ram st' x = (if unat (x - p) < length data then data ! unat (x - p) else if unat (x - p) < unat len then 0 else ram st x)) \<and>
      (\<exists>pos'. file_at bytes position (fileHandle st') pos')) \<or>
    (\<exists>status st'. load_segment fw machOffset commandsBuffer buf cmd l st = Some (Leave status st') \<and> fw_error fw status \<and>
      (\<exists>k. ram st' = write_bytes p (take k data) (ram st)))"
  by (rule load_segment_ok [OF assms])

theorem segment_contents_witness:
  "\<exists>l' st'. load_segment (memory_file [1, 2, 3, 4]) 0 1 segment_command 0
      \<lparr>readLength = 72, dataSegment = 0, linkEditSegment = 0, linkEditSegmentOffset = 0\<rparr> segment_loader = Some (Go_on l' st') \<and>
    (\<forall>x. ram st' x = (if unat (x - 0x200000) < 2 then [2, 3] ! unat (x - 0x200000) else if unat (x - 0x200000) < 8192 then 0 else 7))"
proof -
  have fw: "firmware_file (memory_file [1, 2, 3, 4]) [1, 2, 3, 4] 480 id" by (rule memory_file_ok) simp
  have f: "field64 segment_command (0 + off_VirtualAddress) = Some 0xffffff8000200000" "field64 segment_command (0 + off_VirtualSize) = Some 5000"
    "field64 segment_command (0 + off_FileSize) = Some 2" "field64 segment_command (0 + off_FileOffset) = Some 1"
    "0 \<in> set (drop (0 + off_Name) segment_command)" "same_name (drop (0 + off_Name) segment_command) name_TEXT = Some False"
    by code_simp+
  obtain h where "MmAllocateKernelMemory (Some 5000) (Some 0xffffff8000200000) small_memory = (0x200000, Some 8192, Some 0xffffff8000200000, h)"
    by (simp add: MmAllocateKernelMemory_def MmAllocatePages_def allocate_pages_def small_memory_def Let_def
        EFI_SIZE_TO_PAGES_def drop_bit_eq_div push_bit_eq_mult)
  then have alloc: "MmAllocateKernelMemory (Some 5000) (Some (0xffffff8000200000 + ASLRDisplacement segment_loader))
      (memory (fileHandle segment_loader)) = (0x200000, Some 8192, Some 0xffffff8000200000, h)"
    by (simp add: segment_loader_def start_of_file_def)
  have at: "file_at [1, 2, 3, 4] id (fileHandle segment_loader) 0" using start_of_file_at by (simp add: segment_loader_def)
  have old: "ram segment_loader x = 7" for x by (simp add: segment_loader_def)
  obtain l' st' where "load_segment (memory_file [1, 2, 3, 4]) 0 1 segment_command 0
      \<lparr>readLength = 72, dataSegment = 0, linkEditSegment = 0, linkEditSegmentOffset = 0\<rparr> segment_loader = Some (Go_on l' st')"
    and "\<forall>x. ram st' x = (if unat (x - 0x200000) < length [2, 3::u8] then [2, 3] ! unat (x - 0x200000)
      else if unat (x - 0x200000) < unat (8192::u64) then 0 else ram segment_loader x)"
    using segment_contents [OF fw at f(1-5) _ _ _ _ alloc, of "\<lparr>readLength = 72, dataSegment = 0, linkEditSegment = 0, linkEditSegmentOffset = 0\<rparr>"
        "[2, 3]" 0 1] f(6) by (auto simp: min_def memory_file_errors)
  then show ?thesis by (intro exI [of _ l'] exI [of _ st']) (simp add: old)
qed

text \<open>
  C11. Local relocations: when all entries of the table are of the one kind that is supported, and no place that they
  name overlaps another one or the table, relocation succeeds, adds the displacement to the eight bytes
  of every place and keeps every other word that is apart from them.
\<close>

theorem relocate_correct:
  assumes "\<forall>i < n. relocation_ok (relocation_at m (entry_at r i))"
    and "\<forall>i < n. \<forall>j < n. apart64 (target m r data i) (entry_at r j)"
    and "\<forall>i < n. \<forall>j < n. i \<noteq> j \<longrightarrow> apart64 (target m r data i) (target m r data j)"
  shows "\<exists>m'. relocate n r data d m = (True, m') \<and>
    (\<forall>i < n. read64 m' (target m r data i) = read64 m (target m r data i) + d) \<and>
    (\<forall>b. (\<forall>i < n. apart64 (target m r data i) b) \<longrightarrow> read64 m' b = read64 m b)"
  using relocate_targets [OF assms(1,2)] fold_add64_read [of "[0..<n]" "target m r data" _ d m] assms(3) by auto

theorem relocate_correct_witness:
  "\<exists>m'. relocate 1 0x3000 0x4000 0x200000 relocation_image = (True, m') \<and> read64 m' 0x4010 = 0x200005"
proof -
  have "relocation_ok (relocation_at relocation_image 0x3000)" "read64 relocation_image 0x4010 = 5" by code_simp+
  moreover have "scast (SectionOffset (relocation_at relocation_image 0x3000)) = (16::u64)" by code_simp
  moreover have "apart64 0x4010 0x3000" by (simp add: apart64_def)
  moreover have "entry_at 0x3000 0 = 0x3000" by (simp add: entry_at_def)
  ultimately have "relocation_ok (relocation_at relocation_image (entry_at 0x3000 0))" "target relocation_image 0x3000 0x4000 0 = 0x4010"
    "apart64 0x4010 (entry_at 0x3000 0)" "read64 relocation_image 0x4010 = 5"
    by (simp_all add: target_def)
  then show ?thesis using relocate_correct [of 1 relocation_image "0x3000" "0x4000" "0x200000"] by auto
qed

text \<open>
  C12. MachFindSymbolVirtualAddressByName on a 64-bit image: the last link edit segment and the last symbol
  table command count, and the value of the first symbol of the table with the name is the answer; 0 when there is no such
  symbol, segment or table.
\<close>

theorem symbol_lookup:
  assumes "0 \<notin> set s" and "read32 m (ImageBasePhysicalAddress info) = MH_MAGIC_64"
  shows "MachFindSymbolVirtualAddressByName m info (s @ [0]) =
    (case tables_of m (commands_from m (commands_count m (ImageBasePhysicalAddress info)) (ImageBasePhysicalAddress info + 32)) (0, 0, 0) of
       (link, offset, symtab) \<Rightarrow>
         if link = 0 \<or> offset = 0 \<or> symtab = 0 then Some 0
         else Some (symbol_value m s (link + (ucast (read32 m (symtab + 16)) - offset))
           (link + (ucast (read32 m (symtab + 8)) - offset)) (unat (read32 m (symtab + 12)))))"
  using assms find_symbol_ok [OF assms(1)]
  by (simp add: MachFindSymbolVirtualAddressByName_def find_tables_ok sizeof_MACH_HEADER64_def mach_offsets Let_def split: prod.splits)

theorem symbol_lookup_witness:
  "MachFindSymbolVirtualAddressByName symbol_image (zero_info\<lparr>ImageBasePhysicalAddress := 0x1000\<rparr>) ([0x61] @ [0]) = Some 0x1234"
proof -
  have "tables_of symbol_image (commands_from symbol_image (commands_count symbol_image 0x1000) (0x1000 + 32)) (0, 0, 0) = (0x2000, 0x100, 0x1068)"
    "symbol_value symbol_image [0x61] (0x2000 + (ucast (read32 symbol_image (0x1068 + 16)) - 0x100))
      (0x2000 + (ucast (read32 symbol_image (0x1068 + 8)) - 0x100)) (unat (read32 symbol_image (0x1068 + 12))) = 0x1234"
    "read32 symbol_image 0x1000 = MH_MAGIC_64"
    by code_simp+
  then show ?thesis using symbol_lookup [of "[0x61]" symbol_image "zero_info\<lparr>ImageBasePhysicalAddress := 0x1000\<rparr>"] by simp
qed

end
