(* ===== verification/DevicePath.thy ===== *)
theory DevicePath
  imports Unicode CString FileIo "HOL-Library.Monad_Syntax"
begin

text \<open>
  DevicePath.c: the paths that the firmware gives devices and files. A pointer into a path is the
  list of the bytes from there up to the end of the object; a read or write outside of an
  object, and a walk that does not end, is None. The pool is that of the memory manager;
  \<open>fresh\<close> says what the bytes of new memory are.
\<close>

section \<open>Nodes\<close>

record EFI_DEVICE_PATH_PROTOCOL =
  dp_Type :: u8
  SubType :: u8
  Length0 :: u8
  Length1 :: u8

definition MESSAGING_DEVICE_PATH :: u8 where "MESSAGING_DEVICE_PATH = 0x03"
definition MEDIA_DEVICE_PATH :: u8 where "MEDIA_DEVICE_PATH = 0x04"
definition END_DEVICE_PATH_TYPE :: u8 where "END_DEVICE_PATH_TYPE = 0x7f"
definition MEDIA_HARDDRIVE_DP :: u8 where "MEDIA_HARDDRIVE_DP = 0x01"
definition MEDIA_FILEPATH_DP :: u8 where "MEDIA_FILEPATH_DP = 0x04"
definition MSG_MAC_ADDR_DP :: u8 where "MSG_MAC_ADDR_DP = 0x0b"
definition END_ENTIRE_DEVICE_PATH_SUBTYPE :: u8 where "END_ENTIRE_DEVICE_PATH_SUBTYPE = 0xff"
definition END_DEVICE_PATH_LENGTH :: nat where "END_DEVICE_PATH_LENGTH = 4"
definition SIZE_OF_FILEPATH_DEVICE_PATH :: nat where "SIZE_OF_FILEPATH_DEVICE_PATH = 4"
definition MBR_TYPE_EFI_PARTITION_TABLE_HEADER :: u8 where "MBR_TYPE_EFI_PARTITION_TABLE_HEADER = 0x02"
definition SIGNATURE_TYPE_GUID :: u8 where "SIGNATURE_TYPE_GUID = 0x02"

definition dp_header :: "u8 list \<Rightarrow> EFI_DEVICE_PATH_PROTOCOL option" where
  "dp_header p =
     (if length p < 4 then None
      else Some \<lparr>dp_Type = p ! 0, SubType = p ! 1, Length0 = p ! 2, Length1 = p ! 3\<rparr>)"

definition EfiDevicePathNodeLength :: "EFI_DEVICE_PATH_PROTOCOL \<Rightarrow> nat" where
  "EfiDevicePathNodeLength n = unat (ucast (Length0 n) OR push_bit 8 (ucast (Length1 n)) :: u32)"

definition EfiDevicePathType :: "EFI_DEVICE_PATH_PROTOCOL \<Rightarrow> u8" where
  "EfiDevicePathType n = dp_Type n AND 0x7f"

definition EfiIsDevicePathEnd :: "EFI_DEVICE_PATH_PROTOCOL \<Rightarrow> bool" where
  "EfiIsDevicePathEnd n \<longleftrightarrow> EfiDevicePathType n = END_DEVICE_PATH_TYPE \<and> SubType n = END_ENTIRE_DEVICE_PATH_SUBTYPE"

definition EfiNextDevicePathNode :: "u8 list \<Rightarrow> u8 list option" where
  "EfiNextDevicePathNode p = do {
     n \<leftarrow> dp_header p;
     if EfiDevicePathNodeLength n \<le> length p then Some (drop (EfiDevicePathNodeLength n) p) else None
   }"

text \<open>Reads and writes of byte ranges, in bounds.\<close>

definition fetch :: "u8 list \<Rightarrow> nat \<Rightarrow> u8 list option" where
  "fetch p n = (if n \<le> length p then Some (take n p) else None)"

definition store :: "u8 list \<Rightarrow> nat \<Rightarrow> u8 list \<Rightarrow> u8 list option" where
  "store b i d = (if i + length d \<le> length b then Some (overlay b i d) else None)"

definition SetDevicePathNodeLength :: "u8 list \<Rightarrow> nat \<Rightarrow> nat \<Rightarrow> u8 list option" where
  "SetDevicePathNodeLength b i l = store b (i + 2) [of_nat l, of_nat (l div 256)]"

definition end_node :: "u8 list" where
  "end_node = [END_DEVICE_PATH_TYPE, END_ENTIRE_DEVICE_PATH_SUBTYPE, 4, 0]"

definition SetDevicePathEndNode :: "u8 list \<Rightarrow> nat \<Rightarrow> u8 list option" where
  "SetDevicePathEndNode b i = store b i end_node"

text \<open>Characters of two bytes, low byte first.\<close>

fun chars :: "u8 list \<Rightarrow> u16 list" where
  "chars (x # y # p) = (ucast x OR push_bit 8 (ucast y)) # chars p"
| "chars _ = []"

definition char_bytes :: "u16 list \<Rightarrow> u8 list" where
  "char_bytes cs = concat (map (\<lambda>c. [ucast c, ucast (drop_bit 8 c)]) cs)"

definition char_at :: "u16 list \<Rightarrow> nat \<Rightarrow> u16 option" where
  "char_at cs i = (if i < length cs then Some (cs ! i) else None)"

text \<open>The number of characters in a file path node, in UINTN arithmetic.\<close>

definition path_chars :: "EFI_DEVICE_PATH_PROTOCOL \<Rightarrow> nat" where
  "path_chars n = unat ((of_nat (EfiDevicePathNodeLength n) :: u64) - of_nat SIZE_OF_FILEPATH_DEVICE_PATH) div 2"

definition PathName :: "u8 list \<Rightarrow> u16 list" where
  "PathName p = chars (drop SIZE_OF_FILEPATH_DEVICE_PATH p)"

definition dp_allocate :: "(nat \<Rightarrow> u8) \<Rightarrow> nat \<Rightarrow> memory \<Rightarrow> (nat \<times> u8 list) option \<times> memory" where
  "dp_allocate fresh n h =
     (let (a, h) = MmAllocatePool (of_nat n) h in (if a = 0 then None else Some (a, map fresh [a..<a + n]), h))"

section \<open>Walks\<close>

partial_function (option) find_end :: "u8 list \<Rightarrow> u8 list option" where
  "find_end p = do {
     n \<leftarrow> dp_header p;
     if EfiIsDevicePathEnd n then Some p
     else do { q \<leftarrow> EfiNextDevicePathNode p; find_end q }
   }"

declare find_end.simps [code]

definition DevPathGetSize :: "u8 list option \<Rightarrow> nat option" where
  "DevPathGetSize devicePath =
     (case devicePath of None \<Rightarrow> Some 0
      | Some p \<Rightarrow> do { q \<leftarrow> find_end p; Some (length p - length q + 4) })"

partial_function (option) count_nodes :: "u8 list \<Rightarrow> nat \<Rightarrow> nat option" where
  "count_nodes p retValue = do {
     n \<leftarrow> dp_header p;
     if EfiIsDevicePathEnd n then Some retValue
     else do { q \<leftarrow> EfiNextDevicePathNode p; count_nodes q (retValue + 1) }
   }"

declare count_nodes.simps [code]

definition DevPathGetNodeCount :: "u8 list option \<Rightarrow> nat option" where
  "DevPathGetNodeCount devicePath = (case devicePath of None \<Rightarrow> Some 0 | Some p \<Rightarrow> count_nodes p 0)"

partial_function (option) DevPathGetNode :: "u8 list \<Rightarrow> u8 \<Rightarrow> u8 \<Rightarrow> u8 list option option" where
  "DevPathGetNode p ty subType = do {
     n \<leftarrow> dp_header p;
     if EfiIsDevicePathEnd n then Some None
     else if EfiDevicePathType n = ty \<and> SubType n = subType then Some (Some p)
     else do { q \<leftarrow> EfiNextDevicePathNode p; DevPathGetNode q ty subType }
   }"

declare DevPathGetNode.simps [code]

partial_function (option) DevPathHasMacAddressNode :: "u8 list \<Rightarrow> bool option" where
  "DevPathHasMacAddressNode p = do {
     n \<leftarrow> dp_header p;
     if EfiIsDevicePathEnd n then Some False
     else if EfiDevicePathType n = MESSAGING_DEVICE_PATH \<and> SubType n = MSG_MAC_ADDR_DP then Some True
     else do { q \<leftarrow> EfiNextDevicePathNode p; DevPathHasMacAddressNode q }
   }"

declare DevPathHasMacAddressNode.simps [code]

text \<open>PartitionNumber is at offset 4 of a hard drive node, MBRType at 40, SignatureType at 41.\<close>

partial_function (option) DevPathGetPartitionNumber :: "u8 list \<Rightarrow> u32 option" where
  "DevPathGetPartitionNumber p = do {
     n \<leftarrow> dp_header p;
     if EfiIsDevicePathEnd n then Some (- 1)
     else do {
       isHere \<leftarrow>
         (if EfiDevicePathType n = MEDIA_DEVICE_PATH \<and> SubType n = MEDIA_HARDDRIVE_DP then
            if length p < 42 then None
            else Some (p ! 41 = SIGNATURE_TYPE_GUID \<and> p ! 40 = MBR_TYPE_EFI_PARTITION_TABLE_HEADER)
          else Some False);
       if isHere then Some (le32 p 4)
       else do { q \<leftarrow> EfiNextDevicePathNode p; DevPathGetPartitionNumber q }
     }
   }"

declare DevPathGetPartitionNumber.simps [code]

section \<open>New paths\<close>

text \<open>The result is NULL or the address and the bytes of the new path.\<close>

definition DevPathDuplicate :: "(nat \<Rightarrow> u8) \<Rightarrow> u8 list option \<Rightarrow> memory \<Rightarrow> ((nat \<times> u8 list) option \<times> memory) option" where
  "DevPathDuplicate fresh devicePath h =
     (case devicePath of None \<Rightarrow> Some (None, h)
      | Some p \<Rightarrow> do {
          n \<leftarrow> DevPathGetSize devicePath;
          if n = 0 then Some (None, h)
          else case dp_allocate fresh n h of
            (None, h) \<Rightarrow> Some (None, h)
          | (Some (a, b), h) \<Rightarrow> do {
              d \<leftarrow> fetch p n;
              b \<leftarrow> store b 0 d;
              Some (Some (a, b), h)
            }
        })"

definition DevPathAppendDevicePath :: "(nat \<Rightarrow> u8) \<Rightarrow> u8 list option \<Rightarrow> u8 list option \<Rightarrow> memory \<Rightarrow> ((nat \<times> u8 list) option \<times> memory) option" where
  "DevPathAppendDevicePath fresh devicePath appendPath h =
     (case devicePath of None \<Rightarrow> DevPathDuplicate fresh appendPath h
      | Some p \<Rightarrow>
          (case appendPath of None \<Rightarrow> DevPathDuplicate fresh devicePath h
           | Some q \<Rightarrow> do {
               n \<leftarrow> DevPathGetSize devicePath;
               let size1 = n - END_DEVICE_PATH_LENGTH;
               size2 \<leftarrow> DevPathGetSize appendPath;
               case dp_allocate fresh (size1 + size2) h of
                 (None, h) \<Rightarrow> Some (None, h)
               | (Some (a, b), h) \<Rightarrow> do {
                   d \<leftarrow> fetch p size1;
                   b \<leftarrow> store b 0 d;
                   d \<leftarrow> fetch q size2;
                   b \<leftarrow> store b size1 d;
                   Some (Some (a, b), h)
                 }
             }))"

definition DevPathAppendFilePath :: "(nat \<Rightarrow> u8) \<Rightarrow> u8 list option \<Rightarrow> u16 list option \<Rightarrow> memory \<Rightarrow> ((nat \<times> u8 list) option \<times> memory) option" where
  "DevPathAppendFilePath fresh devicePath fileName h =
     (case (devicePath, fileName) of (Some p, Some f) \<Rightarrow> do {
        c \<leftarrow> char_at f 0;
        if c = 0 then Some (None, h)
        else do {
          devicePathSize \<leftarrow> DevPathGetSize devicePath;
          if devicePathSize = 0 then Some (None, h)
          else do {
            len \<leftarrow> wcslen f;
            let n = (len + 1) * 2;
            case dp_allocate fresh (n + devicePathSize + SIZE_OF_FILEPATH_DEVICE_PATH) h of
              (None, h) \<Rightarrow> Some (None, h)
            | (Some (a, b), h) \<Rightarrow> do {
                let i = devicePathSize - END_DEVICE_PATH_LENGTH;
                d \<leftarrow> fetch p i;
                b \<leftarrow> store b 0 d;
                b \<leftarrow> store b i [MEDIA_DEVICE_PATH, MEDIA_FILEPATH_DP];
                b \<leftarrow> SetDevicePathNodeLength b i (n + SIZE_OF_FILEPATH_DEVICE_PATH);
                b \<leftarrow> store b (i + SIZE_OF_FILEPATH_DEVICE_PATH) (char_bytes (take (len + 1) f));
                q \<leftarrow> EfiNextDevicePathNode (drop i b);
                b \<leftarrow> SetDevicePathEndNode b (length b - length q);
                Some (Some (a, b), h)
              }
          }
        }
      }
      | _ \<Rightarrow> Some (None, h))"

section \<open>File names in paths\<close>

text \<open>All nodes but the end are copied; the last file path node is noted in the source and in the copy.\<close>

partial_function (option) copy_nodes ::
  "u8 list \<Rightarrow> u8 list \<Rightarrow> nat \<Rightarrow> (u8 list \<times> nat) option \<Rightarrow> (u8 list \<times> (u8 list \<times> nat) option) option" where
  "copy_nodes src b dst files = do {
     n \<leftarrow> dp_header src;
     if EfiIsDevicePathEnd n then Some (b, files)
     else do {
       let files = (if EfiDevicePathType n = MEDIA_DEVICE_PATH \<and> SubType n = MEDIA_FILEPATH_DP then Some (src, dst) else files);
       d \<leftarrow> fetch src (EfiDevicePathNodeLength n);
       b \<leftarrow> store b dst d;
       src \<leftarrow> EfiNextDevicePathNode src;
       q \<leftarrow> EfiNextDevicePathNode (drop dst b);
       copy_nodes src b (length b - length q) files
     }
   }"

declare copy_nodes.simps [code]

text \<open>The last separator among the characters up to a terminator.\<close>

fun last_directory :: "u16 list \<Rightarrow> nat \<Rightarrow> nat \<Rightarrow> nat option \<Rightarrow> nat option option" where
  "last_directory cs 0 i d = Some d"
| "last_directory cs (Suc n) i d = do {
     c \<leftarrow> char_at cs i;
     if c = 0 then Some d
     else last_directory cs n (Suc i) (if c = 0x5c \<or> c = 0x2f then Some i else d)
   }"

text \<open>
  Dropping terminators from the end. The source looks at the character in front of the position
  before it compares the position with 0; in front of the first character are the two bytes of
  the node's length.
\<close>

fun trim_end :: "u16 list \<Rightarrow> nat \<Rightarrow> nat option" where
  "trim_end cs 0 = Some 0"
| "trim_end cs (Suc n) = do {
     c \<leftarrow> char_at cs n;
     if c = 0 then trim_end cs n else Some (Suc n)
   }"

definition write_position :: "bool \<Rightarrow> u8 list \<Rightarrow> nat option" where
  "write_position replaceLastComponent srcFilePath = do {
     n \<leftarrow> dp_header srcFilePath;
     if replaceLastComponent then do {
       d \<leftarrow> last_directory (PathName srcFilePath) (path_chars n) 0 None;
       Some (case d of None \<Rightarrow> 0 | Some i \<Rightarrow> i + 1)
     }
     else trim_end (PathName srcFilePath) (path_chars n)
   }"

text \<open>The conversion of the name into a part of the buffer; its status is not looked at.\<close>

definition write_name :: "u8 list \<Rightarrow> u8 list \<Rightarrow> nat \<Rightarrow> nat \<Rightarrow> u8 list option" where
  "write_name fileName b usedLength room =
     (if room = 0 \<or> length b < usedLength + 2 * room then None
      else store b usedLength (char_bytes (snd (BlUtf8ToUnicode fileName (chars (take (2 * room) (drop usedLength b)))))))"

definition DevPathAppendLastComponent ::
  "(nat \<Rightarrow> u8) \<Rightarrow> u8 list \<Rightarrow> u8 list \<Rightarrow> bool \<Rightarrow> memory \<Rightarrow> ((nat \<times> u8 list) option \<times> memory) option" where
  "DevPathAppendLastComponent fresh devicePath fileName replaceLastComponent h = do {
     fileNameLength \<leftarrow> strlen fileName;
     n \<leftarrow> DevPathGetSize (Some devicePath);
     let len = n + (fileNameLength + 1) * 2;
     case dp_allocate fresh len h of
       (None, h) \<Rightarrow> Some (None, h)
     | (Some (a, b), h) \<Rightarrow> do {
         (b, files) \<leftarrow> copy_nodes devicePath b 0 None;
         case files of
           None \<Rightarrow> do { h \<leftarrow> MmFreePool a h; Some (None, h) }
         | Some (srcFilePath, dst) \<Rightarrow> do {
             b \<leftarrow> store b dst [MEDIA_DEVICE_PATH, MEDIA_FILEPATH_DP];
             writePosition \<leftarrow> write_position replaceLastComponent srcFilePath;
             let usedLength = dst + SIZE_OF_FILEPATH_DEVICE_PATH + 2 * writePosition;
             let room = unat ((of_nat len :: u64) - of_nat usedLength - of_nat END_DEVICE_PATH_LENGTH) div 2;
             b \<leftarrow> write_name (take fileNameLength fileName) b usedLength room;
             w \<leftarrow> wcslen (PathName (drop dst b));
             b \<leftarrow> SetDevicePathNodeLength b dst (SIZE_OF_FILEPATH_DEVICE_PATH + (w + 1) * 2);
             q \<leftarrow> EfiNextDevicePathNode (drop dst b);
             b \<leftarrow> SetDevicePathEndNode b (length b - length q);
             Some (Some (a, b), h)
           }
       }
   }"

text \<open>The first run of file path nodes: its first and last node, and the room for its names.\<close>

partial_function (option) find_names ::
  "u8 list \<Rightarrow> (u8 list \<times> u8 list) option \<Rightarrow> u64 \<Rightarrow> ((u8 list \<times> u8 list) option \<times> u64) option" where
  "find_names p files totalLength = do {
     n \<leftarrow> dp_header p;
     if EfiIsDevicePathEnd n then Some (files, totalLength)
     else if dp_Type n = MEDIA_DEVICE_PATH \<and> SubType n = MEDIA_FILEPATH_DP then do {
       q \<leftarrow> EfiNextDevicePathNode p;
       find_names q (Some (case files of None \<Rightarrow> p | Some (startFilePath, _) \<Rightarrow> startFilePath, p))
         (totalLength + (of_nat (EfiDevicePathNodeLength n) - of_nat SIZE_OF_FILEPATH_DEVICE_PATH + 2))
     }
     else if files \<noteq> None then Some (files, totalLength)
     else do { q \<leftarrow> EfiNextDevicePathNode p; find_names q files totalLength }
   }"

declare find_names.simps [code]

fun copy_chars :: "u16 list \<Rightarrow> nat \<Rightarrow> nat \<Rightarrow> u16 list \<Rightarrow> nat \<Rightarrow> (u16 list \<times> nat) option" where
  "copy_chars cs 0 i b k = Some (b, k)"
| "copy_chars cs (Suc n) i b k = do {
     c \<leftarrow> char_at cs i;
     if c = 0 then Some (b, k)
     else if k < length b then copy_chars cs n (Suc i) (b[k := c]) (Suc k)
     else None
   }"

text \<open>Pointers into one object are equal when as many bytes are left behind them.\<close>

partial_function (option) gather_names :: "u8 list \<Rightarrow> u8 list \<Rightarrow> u16 list \<Rightarrow> nat \<Rightarrow> (u16 list \<times> nat) option" where
  "gather_names startFilePath endFilePath b pathLength = do {
     n \<leftarrow> dp_header startFilePath;
     (b, pathLength) \<leftarrow> copy_chars (PathName startFilePath) (path_chars n) 0 b pathLength;
     if length startFilePath = length endFilePath then Some (b, pathLength)
     else do { q \<leftarrow> EfiNextDevicePathNode startFilePath; gather_names q endFilePath b pathLength }
   }"

declare gather_names.simps [code]

fun separator_loop :: "nat \<Rightarrow> nat \<Rightarrow> u8 \<Rightarrow> u8 \<Rightarrow> u8 list \<Rightarrow> u8 list" where
  "separator_loop 0 i fromChar toChar pathName = pathName"
| "separator_loop (Suc n) i fromChar toChar pathName =
     separator_loop n (Suc i) fromChar toChar (if pathName ! i = fromChar then pathName[i := toChar] else pathName)"

definition BlConvertPathSeparator :: "u8 list \<Rightarrow> u8 \<Rightarrow> u8 \<Rightarrow> u8 list option" where
  "BlConvertPathSeparator pathName fromChar toChar = do {
     pathLength \<leftarrow> strlen pathName;
     Some (separator_loop pathLength 0 fromChar toChar pathName)
   }"

text \<open>BlAllocateUtf8FromUnicode on the memory manager.\<close>

definition allocate_utf8 :: "(nat \<Rightarrow> u8) \<Rightarrow> u16 list \<Rightarrow> memory \<Rightarrow> ((nat \<times> u8 list) option \<times> memory) option" where
  "allocate_utf8 fresh s h =
     (case dp_allocate fresh (length s * 3 + 1) h of
        (None, h) \<Rightarrow> Some (None, h)
      | (Some (a, b), h) \<Rightarrow>
          (case BlAllocateUtf8FromUnicode (\<lambda>_. Some b) s of
             None \<Rightarrow> None
           | Some None \<Rightarrow> map_option (Pair None) (MmFreePool a h)
           | Some (Some r) \<Rightarrow> Some (Some (a, r), h)))"

text \<open>The name in the characters, the whole of it or what is behind the last separator.\<close>

definition extract_name :: "(nat \<Rightarrow> u8) \<Rightarrow> u16 list \<Rightarrow> nat \<Rightarrow> bool \<Rightarrow> memory \<Rightarrow> ((nat \<times> u8 list) option \<times> memory) option" where
  "extract_name fresh pathName pathLength fullPath h = do {
     d \<leftarrow> last_directory pathName pathLength 0 None;
     let start = (case d of Some i \<Rightarrow> if fullPath then 0 else i + 1 | None \<Rightarrow> 0);
     if length pathName < pathLength then None
     else do {
       (r, h) \<leftarrow> allocate_utf8 fresh (drop start (take pathLength pathName)) h;
       case r of None \<Rightarrow> Some (None, h)
       | Some (a, retValue) \<Rightarrow> do {
           retValue \<leftarrow> BlConvertPathSeparator retValue 0x2f 0x5c;
           Some (Some (a, retValue), h)
         }
     }
   }"

definition DevPathExtractFilePathName ::
  "(nat \<Rightarrow> u8) \<Rightarrow> u8 list \<Rightarrow> bool \<Rightarrow> memory \<Rightarrow> ((nat \<times> u8 list) option \<times> memory) option" where
  "DevPathExtractFilePathName fresh devicePath fullPath h = do {
     (files, totalLength) \<leftarrow> find_names devicePath None 0;
     case files of None \<Rightarrow> Some (None, h)
     | Some (startFilePath, endFilePath) \<Rightarrow>
         if length startFilePath \<noteq> length endFilePath then
           (case dp_allocate fresh (unat totalLength) h of
              (None, h) \<Rightarrow> Some (None, h)
            | (Some (allocatedPathName, b), h) \<Rightarrow> do {
                (pathName, pathLength) \<leftarrow> gather_names startFilePath endFilePath (chars b) 0;
                (r, h) \<leftarrow> extract_name fresh pathName pathLength fullPath h;
                h \<leftarrow> MmFreePool allocatedPathName h;
                Some (r, h)
              })
         else do {
           n \<leftarrow> dp_header startFilePath;
           pathLength \<leftarrow> trim_end (PathName startFilePath) (path_chars n);
           extract_name fresh (PathName startFilePath) pathLength fullPath h
         }
   }"

section \<open>Partitions\<close>

text \<open>
  The comparison of two paths. Neither pointer is advanced: every round compares the first node.
\<close>

fun same_nodes :: "nat \<Rightarrow> u8 list \<Rightarrow> u8 list \<Rightarrow> bool option" where
  "same_nodes 0 pathA pathB = Some True"
| "same_nodes (Suc n) pathA pathB = do {
     a \<leftarrow> dp_header pathA;
     if EfiIsDevicePathEnd a then Some True
     else do {
       b \<leftarrow> dp_header pathB;
       if EfiIsDevicePathEnd b then Some True
       else if EfiDevicePathNodeLength a \<noteq> EfiDevicePathNodeLength b then Some False
       else do {
         r \<leftarrow> memcmp pathA pathB (EfiDevicePathNodeLength a);
         if r \<noteq> 0 then Some False else same_nodes n pathA pathB
       }
     }
   }"

text \<open>
  The handles of block devices as the firmware lists them, 0 for NULL, each with its device path if it has
  one.
\<close>

fun find_partition :: "(nat \<times> u8 list option) list \<Rightarrow> u8 list \<Rightarrow> nat \<Rightarrow> u32 \<Rightarrow> nat option" where
  "find_partition [] referencePath nodeCount number = Some 0"
| "find_partition ((theHandle, devicePath) # handles) referencePath nodeCount number =
     (if theHandle = 0 then find_partition handles referencePath nodeCount number
      else case devicePath of None \<Rightarrow> find_partition handles referencePath nodeCount number
      | Some p \<Rightarrow> do {
          k \<leftarrow> DevPathGetNodeCount (Some p);
          if k \<noteq> nodeCount then find_partition handles referencePath nodeCount number
          else do {
            same \<leftarrow> same_nodes nodeCount referencePath p;
            if \<not> same then find_partition handles referencePath nodeCount number
            else do {
              i \<leftarrow> DevPathGetPartitionNumber p;
              if i \<noteq> number then find_partition handles referencePath nodeCount number else Some theHandle
            }
          }
        })"

definition DevPathGetPartitionHandleByNumber ::
  "u8 list option \<Rightarrow> u32 \<Rightarrow> (nat \<times> (nat \<times> u8 list option) list) option \<Rightarrow> memory \<Rightarrow> (nat \<times> memory) option" where
  "DevPathGetPartitionHandleByNumber referencePath number located h = do {
     nodeCount \<leftarrow> DevPathGetNodeCount referencePath;
     if nodeCount = 0 then Some (0, h)
     else case located of None \<Rightarrow> Some (0, h)
     | Some (handleArray, handles) \<Rightarrow> do {
         retValue \<leftarrow> find_partition handles (the referencePath) nodeCount number;
         h \<leftarrow> MmFreePool handleArray h;
         Some (retValue, h)
       }
   }"

end
