(* ===== verification/DevicePathSpec.thy ===== *)
theory DevicePathSpec
  imports DevicePath
begin

text \<open>
  Device paths as lists of nodes, and what the walks and the functions that build paths do to them.
\<close>

section \<open>Paths as lists of nodes\<close>

text \<open>A node by its type, its subtype and its data.\<close>

type_synonym dp_node = "u8 \<times> u8 \<times> u8 list"

definition node_length :: "dp_node \<Rightarrow> nat" where
  "node_length n = 4 + length (snd (snd n))"

definition node_head :: "dp_node \<Rightarrow> EFI_DEVICE_PATH_PROTOCOL" where
  "node_head n = \<lparr>dp_Type = fst n, SubType = fst (snd n), Length0 = of_nat (node_length n), Length1 = of_nat (node_length n div 256)\<rparr>"

definition node_bytes :: "dp_node \<Rightarrow> u8 list" where
  "node_bytes n = [fst n, fst (snd n), of_nat (node_length n), of_nat (node_length n div 256)] @ snd (snd n)"

definition path_bytes :: "dp_node list \<Rightarrow> u8 list" where
  "path_bytes ns = concat (map node_bytes ns) @ end_node"

definition node_ok :: "dp_node \<Rightarrow> bool" where
  "node_ok n \<longleftrightarrow> node_length n < 2 ^ 16 \<and> \<not> (fst n AND 0x7f = END_DEVICE_PATH_TYPE \<and> fst (snd n) = END_ENTIRE_DEVICE_PATH_SUBTYPE)"

definition nodes_length :: "dp_node list \<Rightarrow> nat" where
  "nodes_length ns = (\<Sum>n \<leftarrow> ns. node_length n)"

definition file_node :: "u8 list \<Rightarrow> dp_node" where
  "file_node d = (MEDIA_DEVICE_PATH, MEDIA_FILEPATH_DP, d)"

definition is_kind :: "u8 \<Rightarrow> u8 \<Rightarrow> dp_node \<Rightarrow> bool" where
  "is_kind ty subType n \<longleftrightarrow> fst n AND 0x7f = ty \<and> fst (snd n) = subType"

section \<open>Nodes in memory\<close>

lemma length_node_bytes [simp]: "length (node_bytes n) = node_length n"
  by (simp add: node_bytes_def node_length_def)

lemma length_end_node [simp]: "length end_node = 4"
  by (simp add: end_node_def)

lemma length_concat_nodes: "length (concat (map node_bytes ns)) = nodes_length ns"
  by (induction ns) (simp_all add: nodes_length_def)

lemma length_path_bytes [simp]: "length (path_bytes ns) = nodes_length ns + 4"
  by (simp add: path_bytes_def length_concat_nodes)

lemma nodes_length_simps [simp]:
  "nodes_length [] = 0" "nodes_length (n # ns) = node_length n + nodes_length ns"
  "nodes_length (ns @ ms) = nodes_length ns + nodes_length ms"
  by (simp_all add: nodes_length_def)

lemma path_bytes_simps [simp]: "path_bytes [] = end_node" "path_bytes (n # ns) = node_bytes n @ path_bytes ns"
  by (simp_all add: path_bytes_def)

lemma path_bytes_append: "path_bytes (ns @ ms) = concat (map node_bytes ns) @ path_bytes ms"
  by (simp add: path_bytes_def)

lemma split_length:
  assumes "l < 2 ^ 16"
  shows "unat (ucast (of_nat l :: u8) OR push_bit 8 (ucast (of_nat (l div 256) :: u8)) :: u32) = l"
proof -
  have lo: "ucast (of_nat l :: u8) = (of_nat (l mod 256) :: u32)"
  proof -
    have "(of_nat l :: u8) = of_nat (l mod 256)" by (simp add: word_unat_eq_iff unat_of_nat take_bit_eq_mod)
    then show ?thesis by (simp add: ucast_of_nat_small)
  qed
  have hi: "ucast (of_nat (l div 256) :: u8) = (of_nat (l div 256) :: u32)"
    using assms by (intro ucast_of_nat_small) simp
  have "ucast (of_nat l :: u8) OR push_bit 8 (ucast (of_nat (l div 256) :: u8)) = (of_nat (2 ^ 8 * (l div 256) + l mod 256) :: u32)"
    unfolding lo hi by (subst or.commute) (rule join_bits, simp)
  also have "2 ^ 8 * (l div 256) + l mod 256 = l" by simp
  finally show ?thesis using assms by (simp add: unat_of_nat_small)
qed

lemma node_head_length [simp]: "node_ok n \<Longrightarrow> EfiDevicePathNodeLength (node_head n) = node_length n"
  by (simp add: EfiDevicePathNodeLength_def node_head_def node_ok_def split_length)

lemma dp_header_node [simp]: "dp_header (node_bytes n @ r) = Some (node_head n)"
  by (simp add: dp_header_def node_bytes_def node_head_def node_length_def)

lemma dp_header_end: "dp_header (end_node @ r) = Some \<lparr>dp_Type = 0x7f, SubType = 0xff, Length0 = 4, Length1 = 0\<rparr>"
  by (simp add: dp_header_def end_node_def END_DEVICE_PATH_TYPE_def END_ENTIRE_DEVICE_PATH_SUBTYPE_def)

lemma node_head_not_end [simp]: "node_ok n \<Longrightarrow> \<not> EfiIsDevicePathEnd (node_head n)"
  by (auto simp: EfiIsDevicePathEnd_def EfiDevicePathType_def node_head_def node_ok_def)

lemma end_head [simp]: "EfiIsDevicePathEnd \<lparr>dp_Type = 0x7f, SubType = 0xff, Length0 = 4, Length1 = 0\<rparr>"
  by (simp add: EfiIsDevicePathEnd_def EfiDevicePathType_def END_DEVICE_PATH_TYPE_def END_ENTIRE_DEVICE_PATH_SUBTYPE_def)

lemma node_head_fields [simp]:
  "dp_Type (node_head n) = fst n" "EfiDevicePathType (node_head n) = fst n AND 0x7f" "SubType (node_head n) = fst (snd n)"
  by (simp_all add: node_head_def EfiDevicePathType_def)

lemma next_node [simp]: "node_ok n \<Longrightarrow> EfiNextDevicePathNode (node_bytes n @ r) = Some r"
  by (simp add: EfiNextDevicePathNode_def)

lemma node_length_pos: "4 \<le> node_length n"
  by (simp add: node_length_def)

section \<open>Walks\<close>

lemma find_end_path: "\<forall>n \<in> set ns. node_ok n \<Longrightarrow> find_end (path_bytes ns @ r) = Some (end_node @ r)"
  by (induction ns) (subst find_end.simps, simp add: dp_header_end)+

lemma size_path: "\<forall>n \<in> set ns. node_ok n \<Longrightarrow> DevPathGetSize (Some (path_bytes ns @ r)) = Some (nodes_length ns + 4)"
  by (simp add: DevPathGetSize_def find_end_path)

lemma count_nodes_path: "\<forall>n \<in> set ns. node_ok n \<Longrightarrow> count_nodes (path_bytes ns @ r) k = Some (k + length ns)"
  by (induction ns arbitrary: k) (subst count_nodes.simps, simp add: dp_header_end)+

lemma count_path: "\<forall>n \<in> set ns. node_ok n \<Longrightarrow> DevPathGetNodeCount (Some (path_bytes ns @ r)) = Some (length ns)"
  by (simp add: DevPathGetNodeCount_def count_nodes_path)

lemma get_node_path:
  "\<forall>n \<in> set ns. node_ok n \<Longrightarrow>
   DevPathGetNode (path_bytes ns @ r) ty subType =
     Some (case dropWhile (\<lambda>n. \<not> is_kind ty subType n) ns of [] \<Rightarrow> None | ms \<Rightarrow> Some (path_bytes ms @ r))"
  by (induction ns) (subst DevPathGetNode.simps, simp add: dp_header_end is_kind_def)+

lemma mac_path:
  "\<forall>n \<in> set ns. node_ok n \<Longrightarrow>
   DevPathHasMacAddressNode (path_bytes ns @ r) = Some (\<exists>n \<in> set ns. is_kind MESSAGING_DEVICE_PATH MSG_MAC_ADDR_DP n)"
  by (induction ns) (subst DevPathHasMacAddressNode.simps, auto simp: dp_header_end is_kind_def)+

section \<open>Copies\<close>

text \<open>Whether one of the allocations of the given sizes, one after the other, fails.\<close>

fun pool_fails :: "nat list \<Rightarrow> memory \<Rightarrow> bool" where
  "pool_fails [] h = False"
| "pool_fails (n # ns) h = (case MmAllocatePool (of_nat n) h of (a, h) \<Rightarrow> a = 0 \<or> pool_fails ns h)"

declare pool_fails.simps(2) [simp del]

lemma dp_allocate_cases:
  assumes "mem_ok h"
  obtains h' where "dp_allocate fresh n h = (None, h')" "mem_ok h'" "\<And>ns. pool_fails (n # ns) h"
  | a b h' where "dp_allocate fresh n h = (Some (a, b), h')" "length b = n" "mem_ok h'" "\<And>ns. pool_fails (n # ns) h = pool_fails ns h'"
proof -
  obtain a h' where run: "MmAllocatePool (of_nat n) h = (a, h')" by fastforce
  have ok: "mem_ok h'" by (rule mem_ok_allocate [OF assms run])
  show ?thesis
  proof (cases "a = 0")
    case True
    then show ?thesis using that(1) ok run by (simp add: dp_allocate_def pool_fails.simps)
  next
    case False
    then show ?thesis using that(2) [of a "map fresh [a..<a + n]" h'] ok run by (simp add: dp_allocate_def pool_fails.simps)
  qed
qed

lemma overlay_all: "length d = length b \<Longrightarrow> overlay b 0 d = d"
  by (simp add: overlay_def)

lemma overlay_append: "overlay (xs @ ys) (length xs) d = xs @ overlay ys 0 d"
  by (simp add: overlay_def)

lemma store_at: "i = length xs \<Longrightarrow> length d \<le> length ys \<Longrightarrow> store (xs @ ys) i d = Some (xs @ d @ drop (length d) ys)"
  by (simp add: store_def overlay_def)

lemma store_start: "length d \<le> length b \<Longrightarrow> store b 0 d = Some (d @ drop (length d) b)"
  by (simp add: store_def overlay_def)

lemma fetch_prefix: "n = length xs \<Longrightarrow> fetch (xs @ ys) n = Some xs"
  by (simp add: fetch_def)

lemma duplicate_path:
  assumes "\<forall>n \<in> set ns. node_ok n" and "mem_ok h"
  shows "\<exists>r' h'. DevPathDuplicate fresh (Some (path_bytes ns @ r)) h = Some (r', h') \<and> mem_ok h' \<and> (r' = None \<longleftrightarrow> pool_fails [nodes_length ns + 4] h) \<and>
    (\<forall>a b. r' = Some (a, b) \<longrightarrow> b = path_bytes ns)"
  by (cases rule: dp_allocate_cases [OF assms(2), of fresh "nodes_length ns + 4"])
    (auto simp: DevPathDuplicate_def size_path [OF assms(1)] fetch_prefix store_start)

lemma append_path:
  assumes "\<forall>n \<in> set ns. node_ok n" and "\<forall>n \<in> set ms. node_ok n" and "mem_ok h"
  shows "\<exists>r' h'. DevPathAppendDevicePath fresh (Some (path_bytes ns @ r)) (Some (path_bytes ms @ s)) h = Some (r', h') \<and> mem_ok h' \<and> (r' = None \<longleftrightarrow> pool_fails [nodes_length ns + (nodes_length ms + 4)] h) \<and>
    (\<forall>a b. r' = Some (a, b) \<longrightarrow> b = path_bytes (ns @ ms))"
proof (cases rule: dp_allocate_cases [OF assms(3), of fresh "nodes_length ns + (nodes_length ms + 4)"])
  case 1
  then show ?thesis by (simp add: DevPathAppendDevicePath_def size_path [OF assms(1)] size_path [OF assms(2)] END_DEVICE_PATH_LENGTH_def)
next
  case (2 a b h')
  have "fetch (path_bytes ns @ r) (nodes_length ns) = Some (concat (map node_bytes ns))"
    unfolding path_bytes_def append_assoc by (rule fetch_prefix) (simp add: length_concat_nodes)
  moreover have "store b 0 (concat (map node_bytes ns)) = Some (concat (map node_bytes ns) @ drop (nodes_length ns) b)"
    using 2(2) by (simp add: store_start length_concat_nodes)
  moreover have "store (concat (map node_bytes ns) @ drop (nodes_length ns) b) (nodes_length ns) (path_bytes ms) =
      Some (concat (map node_bytes ns) @ path_bytes ms)"
    using 2(2) by (simp add: store_at length_concat_nodes)
  moreover have "fetch (path_bytes ms @ s) (nodes_length ms + 4) = Some (path_bytes ms)" by (simp add: fetch_prefix)
  ultimately show ?thesis using 2
    by (simp add: DevPathAppendDevicePath_def size_path [OF assms(1)] size_path [OF assms(2)] END_DEVICE_PATH_LENGTH_def path_bytes_append)
qed

section \<open>File names\<close>

lemma length_char_bytes [simp]: "length (char_bytes cs) = 2 * length cs"
  by (induction cs) (simp_all add: char_bytes_def)

lemma char_bytes_simps [simp]:
  "char_bytes [] = []" "char_bytes (c # cs) = ucast c # ucast (drop_bit 8 c) # char_bytes cs"
  "char_bytes (cs @ ds) = char_bytes cs @ char_bytes ds"
  by (simp_all add: char_bytes_def)

lemma char_join: "ucast (ucast c :: u8) OR push_bit 8 (ucast (ucast (drop_bit 8 c) :: u8)) = (c :: u16)"
proof (rule bit_eqI)
  fix n assume "possible_bit TYPE(u16) n"
  then have "n < 8 \<or> 8 \<le> n \<and> n < 16" by auto
  then show "bit (ucast (ucast c :: u8) OR push_bit 8 (ucast (ucast (drop_bit 8 c) :: u8)) :: u16) n = bit c n"
    by (elim disjE conjE) (auto simp: bit_simps)
qed

lemma chars_char_bytes [simp]: "chars (char_bytes cs @ p) = cs @ chars p"
  by (induction cs) (simp_all add: char_join)

lemma length_chars [simp]: "length (chars p) = length p div 2"
  by (induction p rule: chars.induct) simp_all

lemma wcslen_name: "0 \<notin> set cs \<Longrightarrow> wcslen (cs @ 0 # x) = Some (length cs)"
  unfolding wcslen_def by (induction cs) auto

lemma store_append: "store (P @ Q) (length P + i) d = map_option ((@) P) (store Q i d)"
  by (simp add: store_def overlay_def)

lemma drop_four: "drop (4 + k) (a # b # c # d # q) = drop k q"
  by (simp add: numeral_eq_Suc)

lemma store_node:
  assumes "length Q = node_length n + 4"
  shows "\<exists>x y. store Q 0 [fst n, fst (snd n)] = Some x \<and>
    store x 2 [of_nat (node_length n), of_nat (node_length n div 256)] = Some y \<and>
    store y 4 (snd (snd n)) = Some (node_bytes n @ drop (node_length n) Q)"
proof -
  obtain q0 q1 q2 q3 Q' where "Q = q0 # q1 # q2 # q3 # Q'"
  proof -
    have "Suc (Suc (Suc (Suc 0))) \<le> length Q" using assms node_length_pos [of n] by simp
    then show ?thesis using that by (auto simp: Suc_le_length_iff)
  qed
  moreover have "length Q' = length (snd (snd n)) + 4" using assms calculation by (simp add: node_length_def)
  ultimately show ?thesis
    by (simp add: store_def overlay_def node_bytes_def) (simp add: node_length_def drop_four)
qed

lemma append_file_path:
  assumes "\<forall>n \<in> set ns. node_ok n" and "mem_ok h" and "0 \<notin> set cs" and "cs \<noteq> []" and "2 * length cs + 6 < 2 ^ 16"
  shows "\<exists>r' h'. DevPathAppendFilePath fresh (Some (path_bytes ns @ r)) (Some (cs @ 0 # x)) h = Some (r', h') \<and> mem_ok h' \<and> (r' = None \<longleftrightarrow> pool_fails [(length cs + 1) * 2 + (nodes_length ns + 4) + 4] h) \<and>
    (\<forall>a b. r' = Some (a, b) \<longrightarrow> b = path_bytes (ns @ [file_node (char_bytes (cs @ [0]))]))"
proof -
  let ?N = "nodes_length ns" and ?P = "concat (map node_bytes ns)"
  define n where "n = file_node (char_bytes (cs @ [0]))"
  have len: "node_length n = 2 * length cs + 6" by (simp add: node_length_def file_node_def n_def)
  have ok: "node_ok n" using assms(5) len by (simp add: node_ok_def) (simp add: file_node_def n_def MEDIA_DEVICE_PATH_def END_DEVICE_PATH_TYPE_def)
  have c: "char_at (cs @ 0 # x) 0 = Some (hd cs)" "hd cs \<noteq> 0" using assms(3,4) by (cases cs; simp add: char_at_def)+
  have "\<exists>r' h'. DevPathAppendFilePath fresh (Some (path_bytes ns @ r)) (Some (cs @ 0 # x)) h = Some (r', h') \<and> mem_ok h' \<and> (r' = None \<longleftrightarrow> pool_fails [(length cs + 1) * 2 + (nodes_length ns + 4) + 4] h) \<and>
    (\<forall>a b. r' = Some (a, b) \<longrightarrow> b = path_bytes (ns @ [n]))" (is ?goal)
  proof (cases rule: dp_allocate_cases [OF assms(2), of fresh "(length cs + 1) * 2 + (?N + 4) + 4"])
    case 1
    then show ?goal using c
      by (simp add: DevPathAppendFilePath_def size_path [OF assms(1)] wcslen_name [OF assms(3)] SIZE_OF_FILEPATH_DEVICE_PATH_def Let_def)
  next
    case (2 a b h')
    have P: "?N = length ?P" by (simp add: length_concat_nodes)
    have fields: "fst n = MEDIA_DEVICE_PATH" "fst (snd n) = MEDIA_FILEPATH_DP" "snd (snd n) = char_bytes (cs @ [0])"
      by (simp_all add: file_node_def n_def)
    have Q: "length (drop ?N b) = node_length n + 4" using 2(2) len by simp
    obtain y z where yz: "store (drop ?N b) 0 [MEDIA_DEVICE_PATH, MEDIA_FILEPATH_DP] = Some y"
      "store y 2 [of_nat (node_length n), of_nat (node_length n div 256)] = Some z"
      "store z 4 (char_bytes (cs @ [0])) = Some (node_bytes n @ drop (node_length n) (drop ?N b))"
      using store_node [OF Q] unfolding fields by blast
    have "fetch (path_bytes ns @ r) ?N = Some ?P" by (simp add: path_bytes_def fetch_prefix length_concat_nodes)
    moreover have "store b 0 ?P = Some (?P @ drop ?N b)" using 2(2) by (simp add: store_start length_concat_nodes)
    moreover have "store (?P @ drop ?N b) ?N [MEDIA_DEVICE_PATH, MEDIA_FILEPATH_DP] = Some (?P @ y)"
      using store_append [of ?P _ 0] yz(1) by (simp add: P)
    moreover have "SetDevicePathNodeLength (?P @ y) ?N (node_length n) = Some (?P @ z)"
      using store_append [of ?P y 2] yz(2) by (simp add: P SetDevicePathNodeLength_def)
    moreover have "store (?P @ z) (?N + 4) (char_bytes (cs @ [0])) = Some (?P @ node_bytes n @ drop (?N + node_length n) b)"
      using store_append [of ?P z 4] yz(3) by (simp add: P ac_simps)
    moreover have "EfiNextDevicePathNode (drop ?N (?P @ node_bytes n @ drop (?N + node_length n) b)) = Some (drop (?N + node_length n) b)"
      using ok by (simp add: P)
    moreover have "SetDevicePathEndNode (?P @ node_bytes n @ drop (?N + node_length n) b) (?N + node_length n) =
        Some (?P @ node_bytes n @ end_node)"
      using store_at [of "?N + node_length n" "?P @ node_bytes n" end_node "drop (?N + node_length n) b"] 2(2) len
      by (simp add: SetDevicePathEndNode_def length_concat_nodes)
    moreover have "node_length n = (length cs + 1) * 2 + 4" using len by simp
    ultimately show ?goal using c 2(1,3,4) unfolding DevPathAppendFilePath_def
      by (simp only: size_path [OF assms(1)] wcslen_name [OF assms(3)] SIZE_OF_FILEPATH_DEVICE_PATH_def END_DEVICE_PATH_LENGTH_def
          Let_def option.case prod.case bind.bind_lunit if_False)
        (simp add: path_bytes_append length_concat_nodes)
  qed
  then show ?thesis by (simp add: n_def)
qed

end
