(* ===== verification/DevicePathNames.thy ===== *)
theory DevicePathNames
  imports DevicePathSpec
begin

text \<open>File names in device paths: replacing the last component, and reading the name back.\<close>

section \<open>Characters\<close>

lemma char_split:
  "ucast (ucast x OR push_bit 8 (ucast y) :: u16) = (x :: u8)" "ucast (drop_bit 8 (ucast x OR push_bit 8 (ucast y) :: u16)) = (y :: u8)"
  by (rule bit_eqI, auto simp: bit_simps dest: bit_imp_le_length)+

lemma char_bytes_chars: "even (length x) \<Longrightarrow> char_bytes (chars x) = x"
  by (induction x rule: chars.induct) (simp_all add: char_split del: drop_bit_or)

lemma chars_append: "even (length x) \<Longrightarrow> chars (x @ y) = chars x @ chars y"
  by (induction x rule: chars.induct) simp_all

lemma take_chars: "take k (chars x) = chars (take (2 * k) x)"
  by (induction x arbitrary: k rule: chars.induct) (simp_all add: take_Cons' diff_mult_distrib2 numeral_2_eq_2)

lemma chars_prefix: "k \<le> length x div 2 \<Longrightarrow> take k (chars (x @ y)) = take k (chars x)"
  by (simp add: take_chars)

lemma utf8_bytes_nonzero: "c \<noteq> 0 \<Longrightarrow> 0 \<notin> set (utf8_bytes c)"
proof -
  assume c: "c \<noteq> 0"
  have tagged: "ucast (x OR 0x80) \<noteq> (0 :: u8)" "ucast (x OR 0xc0) \<noteq> (0 :: u8)" "ucast (x OR 0xe0) \<noteq> (0 :: u8)" for x :: u16
    by (auto simp: bit_eq_iff bit_simps intro!: exI [of _ 7])
  show ?thesis
  proof (cases "c < 0x80")
    case True
    have "unat (ucast c :: u8) = unat c" using True by (simp add: unsigned_ucast_eq take_bit_nat_eq_self word_less_nat_alt)
    then have "(ucast c :: u8) \<noteq> 0" using c by (metis unat_0 unsigned_eq_0_iff)
    then show ?thesis using True by (simp add: utf8_bytes_def)
  next
    case False
    then show ?thesis using tagged by (simp add: utf8_bytes_def tagged [symmetric])
  qed
qed

section \<open>The directory part of a name\<close>

definition separator :: "u16 \<Rightarrow> bool" where
  "separator c \<longleftrightarrow> c = 0x5c \<or> c = 0x2f"

fun dir_part :: "u16 list \<Rightarrow> u16 list" where
  "dir_part [] = []"
| "dir_part (c # w) = (if dir_part w \<noteq> [] \<or> separator c then c # dir_part w else [])"

definition until_zero :: "u16 list \<Rightarrow> u16 list" where
  "until_zero w = takeWhile (\<lambda>c. c \<noteq> 0) w"

lemma last_directory_ok:
  "i + n \<le> length cs \<Longrightarrow> last_directory cs n i d =
     Some (let w = until_zero (take n (drop i cs)) in if dir_part w = [] then d else Some (i + length (dir_part w) - 1))"
proof (induction n arbitrary: i d)
  case (Suc n)
  then have "take (Suc n) (drop i cs) = cs ! i # take n (drop (Suc i) cs)"
    by (metis Cons_nth_drop_Suc Suc_le_eq add_Suc_right le_add1 order_le_less_trans take_Suc_Cons)
  then show ?case using Suc by (auto simp: char_at_def until_zero_def separator_def Let_def neq_Nil_conv)
qed (simp add: until_zero_def)

lemma dir_part_prefix: "\<exists>x. w = dir_part w @ x"
  by (induction w) auto

lemma length_dir_part: "length (dir_part w) \<le> length w"
  using dir_part_prefix [of w] by (metis length_append le_add1)

lemma take_dir_part: "take (length (dir_part w)) w = dir_part w"
  using dir_part_prefix [of w] by (metis append_eq_conv_conj)

lemma until_zero_take: "take (length (until_zero w)) w = until_zero w"
  unfolding until_zero_def by (rule takeWhile_eq_take [symmetric])

lemma until_zero_nonzero: "0 \<notin> set (until_zero w)"
  by (auto simp: until_zero_def dest: set_takeWhileD)

text \<open>Where a new name goes: behind the directory part, or behind the whole name.\<close>

definition kept_part :: "bool \<Rightarrow> u8 list \<Rightarrow> u16 list" where
  "kept_part replace d = (if replace then dir_part (until_zero (chars d)) else rev (dropWhile (\<lambda>c. c = 0) (rev (chars d))))"

lemma trim_end_ok: "n \<le> length cs \<Longrightarrow> trim_end cs n = Some (length (dropWhile (\<lambda>c. c = 0) (rev (take n cs))))"
  by (induction n) (auto simp: char_at_def take_Suc_conv_app_nth)

lemma take_trim: "take (length (dropWhile P (rev w))) w = rev (dropWhile P (rev w))"
proof -
  have "rev w = takeWhile P (rev w) @ dropWhile P (rev w)" by simp
  then have "w = rev (dropWhile P (rev w)) @ rev (takeWhile P (rev w))" by (metis rev_append rev_rev_ident)
  then show ?thesis by (metis append_eq_conv_conj length_rev)
qed

lemma path_chars_node: "node_ok n \<Longrightarrow> path_chars (node_head n) = length (snd (snd n)) div 2"
proof -
  assume n: "node_ok n"
  then have "node_length n < 2 ^ 64" by (simp add: node_ok_def)
  then have "unat ((of_nat (node_length n) :: u64) - 4) = node_length n - 4"
    using node_length_pos [of n] by (simp add: unat_sub word_le_nat_alt unat_of_nat_small)
  then show ?thesis using n by (simp add: path_chars_def SIZE_OF_FILEPATH_DEVICE_PATH_def) (simp add: node_length_def)
qed

lemma PathName_node: "PathName (node_bytes n @ r) = chars (snd (snd n) @ r)"
  by (simp add: PathName_def node_bytes_def SIZE_OF_FILEPATH_DEVICE_PATH_def)

lemma node_name: "take (length d div 2) (chars (d @ r)) = chars d"
  by (simp add: take_chars) (metis length_chars order_refl take_all take_chars)

lemma write_position_node:
  assumes "node_ok n"
  shows "write_position rep (node_bytes n @ r) = Some (length (kept_part rep (snd (snd n))))"
    and "kept_part rep (snd (snd n)) = take (length (kept_part rep (snd (snd n)))) (chars (snd (snd n)))"
proof -
  let ?d = "snd (snd n)"
  have len: "length ?d div 2 \<le> length (chars (?d @ r))" by simp
  have "last_directory (chars (?d @ r)) (length ?d div 2) 0 None =
      Some (if dir_part (until_zero (chars ?d)) = [] then None else Some (length (dir_part (until_zero (chars ?d))) - 1))"
    using last_directory_ok [of 0 "length ?d div 2" "chars (?d @ r)" None] len by (simp add: node_name Let_def)
  moreover have "trim_end (chars (?d @ r)) (length ?d div 2) = Some (length (dropWhile (\<lambda>c. c = 0) (rev (chars ?d))))"
    using trim_end_ok [OF len] by (simp add: node_name)
  ultimately show "write_position rep (node_bytes n @ r) = Some (length (kept_part rep ?d))"
    by (simp add: write_position_def PathName_node path_chars_node [OF assms] kept_part_def)
  show "kept_part rep ?d = take (length (kept_part rep ?d)) (chars ?d)"
  proof (cases rep)
    case True
    let ?u = "until_zero (chars ?d)"
    have "take (length (dir_part ?u)) (chars ?d) = take (length (dir_part ?u)) (take (length ?u) (chars ?d))"
      using length_dir_part [of ?u] by simp
    then have "take (length (dir_part ?u)) (chars ?d) = dir_part ?u" by (simp only: until_zero_take take_dir_part)
    then show ?thesis using True by (simp add: kept_part_def)
  qed (simp add: kept_part_def take_trim)
qed

section \<open>Writing a name\<close>

definition name_ok :: "u16 list \<Rightarrow> bool" where
  "name_ok cs \<longleftrightarrow> (\<forall>c \<in> set cs. c \<noteq> 0 \<and> utf8_exact c)"

lemma name_ok_bytes: "name_ok cs \<Longrightarrow> 0 \<notin> set (concat (map utf8_bytes cs))"
  using utf8_bytes_nonzero by (fastforce simp: name_ok_def)

lemma name_length: "length cs \<le> length (concat (map utf8_bytes cs))"
proof (induction cs)
  case (Cons c cs)
  have "utf8_bytes c \<noteq> []" by (rule utf8.enc_nonempty)
  then show ?case using Cons by (cases "utf8_bytes c") auto
qed simp

lemma utf8_name:
  assumes "name_ok cs" and "length cs < length b"
  shows "snd (BlUtf8ToUnicode (concat (map utf8_bytes cs)) b) = cs @ 0 # drop (length cs + 1) (b[length b - 1 := 0])"
proof -
  have "map utf8_fold cs = cs" using assms(1) by (intro map_idI) (simp add: name_ok_def utf8_exact_def utf8_fold_ok)
  then show ?thesis using write_end_all [of cs b 0] assms(2)
    by (simp add: BlUtf8ToUnicode_def BlUtf8ToUnicode_loop_enc overlay_def)
qed

lemma write_name_ok:
  assumes "name_ok cs" and "length cs < room" and "2 * room + 4 \<le> length T"
  shows "\<exists>R. write_name (concat (map utf8_bytes cs)) (P @ T) (length P) room = Some (P @ char_bytes (cs @ [0]) @ R) \<and>
    length (char_bytes (cs @ [0]) @ R) = length T"
proof -
  let ?b = "chars (take (2 * room) T)"
  have len: "length ?b = room" using assms(3) by simp
  have "snd (BlUtf8ToUnicode (concat (map utf8_bytes cs)) ?b) = cs @ 0 # drop (length cs + 1) (?b[length ?b - 1 := 0])"
    using utf8_name [OF assms(1), of ?b] assms(2) len by simp
  moreover from this have "write_name (concat (map utf8_bytes cs)) (P @ T) (length P) room =
      Some (P @ char_bytes (cs @ [0]) @ char_bytes (drop (length cs + 1) (?b[length ?b - 1 := 0])) @ drop (2 * room) T)"
  proof -
    have "Suc (Suc (2 * length cs + 2 * (room - Suc (length cs)))) = 2 * room" using assms(2) by simp
    with calculation show ?thesis using assms(2,3) len by (simp add: write_name_def store_at)
  qed
  moreover have "length (char_bytes (drop (length cs + 1) (?b[length ?b - 1 := 0])) @ drop (2 * room) T) = length T - 2 * (length cs + 1)"
    using assms(2,3) len by simp
  ultimately show ?thesis using assms(2,3) by (intro exI conjI) (assumption, simp)
qed

text \<open>The last steps: a node becomes a file node with the kept part of its name and a new name.\<close>

lemma finish_component:
  assumes "b = P @ [MEDIA_DEVICE_PATH, MEDIA_FILEPATH_DP, l0, l1] @ char_bytes pre @ char_bytes (cs @ [0]) @ R" and "4 \<le> length R"
    and "0 \<notin> set pre" and "0 \<notin> set cs" and "n = file_node (char_bytes (pre @ cs @ [0]))" and "node_length n < 2 ^ 16"
  shows "\<exists>b'. wcslen (PathName (drop (length P) b)) = Some (length pre + length cs) \<and>
    SetDevicePathNodeLength b (length P) (4 + (length pre + length cs + 1) * 2) = Some b' \<and>
    EfiNextDevicePathNode (drop (length P) b') = Some R \<and>
    SetDevicePathEndNode b' (length b' - length R) = Some (P @ node_bytes n @ end_node @ drop 4 R)"
proof -
  have len: "node_length n = 4 + (length pre + length cs + 1) * 2" by (simp add: assms(5) node_length_def file_node_def)
  have ok: "node_ok n" using assms(6) by (simp add: node_ok_def) (simp add: assms(5) file_node_def MEDIA_DEVICE_PATH_def END_DEVICE_PATH_TYPE_def)
  have "PathName (drop (length P) b) = (pre @ cs) @ 0 # chars R"
    by (simp add: assms(1) PathName_def SIZE_OF_FILEPATH_DEVICE_PATH_def del: char_bytes_simps(2))
  then have 1: "wcslen (PathName (drop (length P) b)) = Some (length pre + length cs)"
    using wcslen_name [of "pre @ cs"] assms(3,4) by simp
  have "SetDevicePathNodeLength b (length P) (node_length n) =
      Some (P @ [MEDIA_DEVICE_PATH, MEDIA_FILEPATH_DP] @ [of_nat (node_length n), of_nat (node_length n div 256)] @
        char_bytes pre @ char_bytes (cs @ [0]) @ R)"
    using store_append [of P "[MEDIA_DEVICE_PATH, MEDIA_FILEPATH_DP, l0, l1] @ char_bytes pre @ char_bytes (cs @ [0]) @ R" 2]
    by (simp add: SetDevicePathNodeLength_def assms(1) store_def overlay_def)
  also have "P @ [MEDIA_DEVICE_PATH, MEDIA_FILEPATH_DP] @ [of_nat (node_length n), of_nat (node_length n div 256)] @
        char_bytes pre @ char_bytes (cs @ [0]) @ R = P @ node_bytes n @ R"
    by (simp add: node_bytes_def) (simp add: assms(5) file_node_def)
  finally have 2: "SetDevicePathNodeLength b (length P) (node_length n) = Some (P @ node_bytes n @ R)" .
  have 3: "EfiNextDevicePathNode (drop (length P) (P @ node_bytes n @ R)) = Some R" using ok by simp
  have 4: "SetDevicePathEndNode (P @ node_bytes n @ R) (length (P @ node_bytes n @ R) - length R) = Some (P @ node_bytes n @ end_node @ drop 4 R)"
    using store_at [of "length P + node_length n" "P @ node_bytes n" end_node R] assms(2) by (simp add: SetDevicePathEndNode_def)
  show ?thesis using 1 2 3 4 unfolding len by blast
qed

section \<open>Replacing the last component\<close>

abbreviation "is_file \<equiv> is_kind MEDIA_DEVICE_PATH MEDIA_FILEPATH_DP"

fun last_file :: "dp_node list \<Rightarrow> nat \<Rightarrow> u8 list \<Rightarrow> (u8 list \<times> nat) option \<Rightarrow> (u8 list \<times> nat) option" where
  "last_file [] i r f = f"
| "last_file (n # ns) i r f = last_file ns (i + node_length n) r (if is_file n then Some (path_bytes (n # ns) @ r, i) else f)"

lemma last_file_none: "\<forall>n \<in> set ns. \<not> is_file n \<Longrightarrow> last_file ns i r f = f"
  by (induction ns arbitrary: i) auto

lemma last_file_split:
  "is_file n \<Longrightarrow> \<forall>n \<in> set ms. \<not> is_file n \<Longrightarrow>
   last_file (ns @ n # ms) i r f = Some (path_bytes (n # ms) @ r, i + nodes_length ns)"
  by (induction ns arbitrary: i f) (simp_all add: last_file_none)

lemma copy_nodes_path:
  "\<forall>n \<in> set ns. node_ok n \<Longrightarrow> nodes_length ns \<le> length Q \<Longrightarrow>
   copy_nodes (path_bytes ns @ r) (P @ Q) (length P) f =
     Some (P @ concat (map node_bytes ns) @ drop (nodes_length ns) Q, last_file ns (length P) r f)"
proof (induction ns arbitrary: P Q f)
  case Nil
  then show ?case by (subst copy_nodes.simps) (simp add: dp_header_end)
next
  case (Cons n ns)
  let ?P = "P @ node_bytes n" and ?Q = "drop (node_length n) Q"
  let ?f = "if is_file n then Some (path_bytes (n # ns) @ r, length P) else f"
  have "store (P @ Q) (length P) (node_bytes n) = Some (?P @ ?Q)"
    using store_at [of "length P" P "node_bytes n" Q] Cons.prems(2) by simp
  moreover have "EfiNextDevicePathNode (drop (length P) (?P @ ?Q)) = Some ?Q" using Cons.prems(1) by simp
  moreover have "fetch (path_bytes (n # ns) @ r) (node_length n) = Some (node_bytes n)" by (simp add: fetch_prefix)
  moreover have "length (?P @ ?Q) - length ?Q = length ?P" by simp
  ultimately have "copy_nodes (path_bytes (n # ns) @ r) (P @ Q) (length P) f = copy_nodes (path_bytes ns @ r) (?P @ ?Q) (length ?P) ?f"
    using Cons.prems(1) by (subst copy_nodes.simps) (simp add: is_kind_def)
  also have "\<dots> = Some (?P @ concat (map node_bytes ns) @ drop (nodes_length ns) ?Q, last_file ns (length ?P) r ?f)"
    using Cons.prems by (intro Cons.IH) simp_all
  finally show ?case by (simp add: ac_simps)
qed

lemma strlen_name: "0 \<notin> set b \<Longrightarrow> strlen (b @ 0 # x) = Some (length b)"
  by (induction b) auto

lemma append_last_component:
  fixes cs h ns m ms rep r
  defines "u \<equiv> concat (map utf8_bytes cs)" and "path \<equiv> path_bytes (ns @ m # ms) @ r" and "pre \<equiv> kept_part rep (snd (snd m))"
  assumes ok: "\<forall>n \<in> set (ns @ m # ms). node_ok n" and fm: "is_file m" "\<forall>n \<in> set ms. \<not> is_file n"
    and name: "name_ok cs" and mem: "mem_ok h" and small: "nodes_length (ns @ m # ms) + 2 * length u + 10 < 2 ^ 16" and pre: "0 \<notin> set pre"
  shows "\<exists>r' h'. DevPathAppendLastComponent fresh path (u @ 0 # y) rep h = Some (r', h') \<and> mem_ok h' \<and> (r' = None \<longleftrightarrow> pool_fails [nodes_length (ns @ m # ms) + 4 + (length u + 1) * 2] h) \<and>
    (\<forall>a b. r' = Some (a, b) \<longrightarrow> (\<exists>t. b = path_bytes (ns @ [file_node (char_bytes (pre @ cs @ [0]))]) @ t))"
proof -
  define N where "N = nodes_length (ns @ m # ms)"
  let ?len = "N + 4 + (length u + 1) * 2"
  have sz: "DevPathGetSize (Some path) = Some (N + 4)" using ok by (simp add: path_def N_def size_path del: nodes_length_simps)
  have sl: "strlen (u @ 0 # y) = Some (length u)" using name_ok_bytes [OF name] by (simp add: u_def strlen_name)
  show ?thesis
  proof (cases rule: dp_allocate_cases [OF mem, of fresh ?len])
    case 1
    then show ?thesis by (simp add: DevPathAppendLastComponent_def sz sl Let_def N_def [symmetric] del: nodes_length_simps)
  next
    case (2 a b h')
    let ?P = "concat (map node_bytes ns)" and ?wp = "length pre"
    let ?dst = "nodes_length ns" and ?d = "snd (snd m)"
    let ?rest = "concat (map node_bytes ms) @ drop N b"
    have m: "node_ok m" using ok by simp
    have cp: "copy_nodes path b 0 None = Some (?P @ node_bytes m @ ?rest, Some (path_bytes (m # ms) @ r, ?dst))"
      using copy_nodes_path [of "ns @ m # ms" b r "[]" None] ok 2(2) last_file_split [OF fm, of ns 0 r None]
      by (simp add: path_def N_def)
    let ?T = "?d @ ?rest"
    have st: "store (?P @ node_bytes m @ ?rest) ?dst [MEDIA_DEVICE_PATH, MEDIA_FILEPATH_DP] =
        Some (?P @ [MEDIA_DEVICE_PATH, MEDIA_FILEPATH_DP, of_nat (node_length m), of_nat (node_length m div 256)] @ ?T)"
      using store_append [of ?P "node_bytes m @ ?rest" 0] by (simp add: length_concat_nodes store_def overlay_def node_bytes_def)
    have wp: "write_position rep (path_bytes (m # ms) @ r) = Some ?wp" "pre = take ?wp (chars ?d)"
      using write_position_node [OF m] by (simp_all add: pre_def)
    have le: "2 * ?wp \<le> length ?d" using arg_cong [OF wp(2), of length] by simp
    have kept: "char_bytes pre = take (2 * ?wp) ?d"
      using wp(2) le char_bytes_chars [of "take (2 * ?wp) ?d"] by (simp add: take_chars)
    define room where "room = unat ((of_nat ?len :: u64) - of_nat (?dst + SIZE_OF_FILEPATH_DEVICE_PATH + 2 * ?wp) - of_nat END_DEVICE_PATH_LENGTH) div 2"
    have used: "?dst + 4 + 2 * ?wp \<le> N" using le by (simp add: N_def node_length_def)
    have "unat ((of_nat ?len :: u64) - of_nat (?dst + 4 + 2 * ?wp) - of_nat 4) = ?len - (?dst + 4 + 2 * ?wp) - 4"
    proof -
      have "(of_nat ?len :: u64) - of_nat (?dst + 4 + 2 * ?wp) - of_nat 4 = of_nat (?len - (?dst + 4 + 2 * ?wp) - 4)"
        using used by (simp add: of_nat_diff)
      then show ?thesis using small by (simp only: N_def [symmetric]) (simp add: unat_of_nat_small)
    qed
    then have room: "room = (?len - (?dst + 4 + 2 * ?wp) - 4) div 2"
      by (simp only: room_def SIZE_OF_FILEPATH_DEVICE_PATH_def END_DEVICE_PATH_LENGTH_def)
    let ?Q = "?P @ [MEDIA_DEVICE_PATH, MEDIA_FILEPATH_DP, of_nat (node_length m), of_nat (node_length m div 256)] @ char_bytes pre"
    have T: "?T = char_bytes pre @ drop (2 * ?wp) ?T" using kept le by simp
    have lT: "length (drop (2 * ?wp) ?T) = ?len - (?dst + 4 + 2 * ?wp)"
      using 2(2) le by (simp add: N_def node_length_def length_concat_nodes)
    have lQ: "length ?Q = ?dst + 4 + 2 * ?wp" by (simp add: length_concat_nodes)
    have r1: "length cs < room" using room used name_length [of cs] by (simp add: u_def)
    have r2: "2 * room + 4 \<le> length (drop (2 * ?wp) ?T)" unfolding lT using room used by simp
    obtain R where R: "write_name u (?Q @ drop (2 * ?wp) ?T) (length ?Q) room = Some (?Q @ char_bytes (cs @ [0]) @ R)"
      "length (char_bytes (cs @ [0]) @ R) = length (drop (2 * ?wp) ?T)"
      using write_name_ok [OF name r1 r2, of ?Q] unfolding u_def by blast
    have lR: "4 \<le> length R" using R(2) r1 r2 by simp
    define n where "n = file_node (char_bytes (pre @ cs @ [0]))"
    have nl: "node_length n < 2 ^ 16"
      using small le name_length [of cs] by (simp add: n_def node_length_def file_node_def u_def [symmetric])
    have nz: "0 \<notin> set cs" using name by (auto simp: name_ok_def)
    have Qa: "?Q @ char_bytes (cs @ [0]) @ R = ?P @ [MEDIA_DEVICE_PATH, MEDIA_FILEPATH_DP, of_nat (node_length m), of_nat (node_length m div 256)] @
        char_bytes pre @ char_bytes (cs @ [0]) @ R" by (simp only: append_assoc)
    obtain b' where fin: "wcslen (PathName (drop ?dst (?Q @ char_bytes (cs @ [0]) @ R))) = Some (?wp + length cs)"
      "SetDevicePathNodeLength (?Q @ char_bytes (cs @ [0]) @ R) ?dst (4 + (?wp + length cs + 1) * 2) = Some b'"
      "EfiNextDevicePathNode (drop ?dst b') = Some R"
      "SetDevicePathEndNode b' (length b' - length R) = Some (?P @ node_bytes n @ end_node @ drop 4 R)"
      using finish_component [OF Qa lR pre nz n_def nl] unfolding length_concat_nodes by blast
    have st': "store (?P @ node_bytes m @ ?rest) ?dst [MEDIA_DEVICE_PATH, MEDIA_FILEPATH_DP] = Some (?Q @ drop (2 * ?wp) ?T)"
      using st by (simp only: append_assoc T [symmetric])
    have R': "write_name u (?Q @ drop (2 * ?wp) ?T) (?dst + SIZE_OF_FILEPATH_DEVICE_PATH + 2 * ?wp) room = Some (?Q @ char_bytes (cs @ [0]) @ R)"
      using R(1) by (simp only: lQ SIZE_OF_FILEPATH_DEVICE_PATH_def)
    have fin2: "SetDevicePathNodeLength (?Q @ char_bytes (cs @ [0]) @ R) ?dst (SIZE_OF_FILEPATH_DEVICE_PATH + (?wp + length cs + 1) * 2) = Some b'"
      using fin(2) by (simp only: SIZE_OF_FILEPATH_DEVICE_PATH_def)
    have tk: "take (length u) (u @ 0 # y) = u" by simp
    have "DevPathAppendLastComponent fresh path (u @ 0 # y) rep h = Some (Some (a, ?P @ node_bytes n @ end_node @ drop 4 R), h')"
      unfolding DevPathAppendLastComponent_def
      by (simp only: sl sz bind.bind_lunit Let_def 2(1) cp prod.case option.case st' wp(1) room_def [symmetric] tk R' fin(1) fin2 fin(3,4))
    then show ?thesis using 2(3,4) by (simp add: n_def path_bytes_append N_def del: nodes_length_simps)
  qed
qed

end
