(* ===== verification/DevicePathExtract.thy ===== *)
theory DevicePathExtract
  imports DevicePathNames
begin

text \<open>Reading the name of the file back from a device path.\<close>

section \<open>The nodes with names\<close>

definition name_node :: "u16 list \<Rightarrow> dp_node" where
  "name_node nm = file_node (char_bytes (nm @ [0]))"

definition raw_file :: "dp_node \<Rightarrow> bool" where
  "raw_file n \<longleftrightarrow> fst n = MEDIA_DEVICE_PATH \<and> fst (snd n) = MEDIA_FILEPATH_DP"

definition names_total :: "u16 list list \<Rightarrow> u64" where
  "names_total nms = (\<Sum>nm \<leftarrow> nms. of_nat (node_length (name_node nm)) - 4 + 2)"

lemma name_node_simps [simp]:
  "raw_file (name_node nm)" "snd (snd (name_node nm)) = char_bytes (nm @ [0])" "node_length (name_node nm) = 2 * length nm + 6"
  by (simp_all add: name_node_def raw_file_def file_node_def node_length_def)

lemma find_names_rest:
  assumes "\<forall>n \<in> set bs. node_ok n" and "bs = [] \<or> \<not> raw_file (hd bs)"
  shows "find_names (path_bytes bs @ r) (Some f) t = Some (Some f, t)"
proof (cases bs)
  case Nil
  then show ?thesis by (subst find_names.simps) (simp add: dp_header_end)
next
  case (Cons n ms)
  then show ?thesis using assms by (subst find_names.simps) (auto simp: raw_file_def)
qed

lemma find_names_run:
  assumes "\<forall>n \<in> set bs. node_ok n" and "bs = [] \<or> \<not> raw_file (hd bs)"
  shows "\<forall>nm \<in> set nms. node_ok (name_node nm) \<Longrightarrow>
    find_names (path_bytes (map name_node nms @ bs) @ r) (Some (s, e)) t =
      Some (Some (s, if nms = [] then e else path_bytes (name_node (last nms) # bs) @ r), t + names_total nms)"
proof (induction nms arbitrary: e t)
  case Nil
  then show ?case using find_names_rest [OF assms] by (simp add: names_total_def)
next
  case (Cons nm nms)
  have "find_names (path_bytes (map name_node (nm # nms) @ bs) @ r) (Some (s, e)) t =
      find_names (path_bytes (map name_node nms @ bs) @ r) (Some (s, path_bytes (map name_node (nm # nms) @ bs) @ r))
        (t + (of_nat (node_length (name_node nm)) - 4 + 2))"
    using Cons.prems name_node_simps(1) [of nm]
    by (subst find_names.simps) (simp add: raw_file_def SIZE_OF_FILEPATH_DEVICE_PATH_def)
  then show ?case using Cons by (simp add: names_total_def ac_simps)
qed

lemma find_names_path:
  assumes "\<forall>n \<in> set bs. node_ok n" and "bs = [] \<or> \<not> raw_file (hd bs)" and "\<forall>nm \<in> set nms. node_ok (name_node nm)" and "nms \<noteq> []"
  shows "\<forall>n \<in> set ns. node_ok n \<and> \<not> raw_file n \<Longrightarrow>
    find_names (path_bytes (ns @ map name_node nms @ bs) @ r) None 0 =
      Some (Some (path_bytes (map name_node nms @ bs) @ r, path_bytes (name_node (last nms) # bs) @ r), names_total nms)"
proof (induction ns)
  case Nil
  obtain nm nms' where nms: "nms = nm # nms'" using assms(4) by (cases nms) auto
  then have "find_names (path_bytes (map name_node nms @ bs) @ r) None 0 =
      find_names (path_bytes (map name_node nms' @ bs) @ r)
        (Some (path_bytes (map name_node nms @ bs) @ r, path_bytes (map name_node nms @ bs) @ r)) (of_nat (node_length (name_node nm)) - 4 + 2)"
    using assms(3) name_node_simps(1) [of nm]
    by (subst find_names.simps) (simp add: raw_file_def SIZE_OF_FILEPATH_DEVICE_PATH_def)
  then show ?case using find_names_run [OF assms(1,2), of nms'] assms(3) nms by (simp add: names_total_def)
next
  case (Cons n ns)
  then show ?case by (subst find_names.simps) (auto simp: raw_file_def)
qed

section \<open>Joining the names\<close>

lemma copy_chars_ok:
  "i + n \<le> length cs \<Longrightarrow> k + length (until_zero (take n (drop i cs))) \<le> length b \<Longrightarrow>
   copy_chars cs n i b k = Some (overlay b k (until_zero (take n (drop i cs))), k + length (until_zero (take n (drop i cs))))"
proof (induction n arbitrary: i b k)
  case (Suc n)
  then have "take (Suc n) (drop i cs) = cs ! i # take n (drop (Suc i) cs)"
    by (metis Cons_nth_drop_Suc Suc_le_eq add_Suc_right le_add1 order_le_less_trans take_Suc_Cons)
  then show ?case using Suc by (auto simp: char_at_def until_zero_def overlay_Cons split: if_splits)
qed (simp add: until_zero_def)

lemma until_zero_name: "0 \<notin> set nm \<Longrightarrow> until_zero (nm @ [0]) = nm"
  by (induction nm) (auto simp: until_zero_def)

lemma chars_name: "chars (char_bytes (nm @ [0])) = nm @ [0]"
  using chars_char_bytes [of "nm @ [0]" "[]"] by simp

lemma overlay_next: "k \<le> length b \<Longrightarrow> overlay (overlay b k x) (k + length x) y = overlay b k (x @ y)"
  by (simp add: overlay_def ac_simps)

lemma last_name_length: "nms \<noteq> [] \<Longrightarrow> 2 * length (last nms) + 6 \<le> nodes_length (map name_node nms)"
  by (induction nms) auto

lemma gather_names_path:
  assumes "nms \<noteq> []" and "\<forall>nm \<in> set nms. node_ok (name_node nm) \<and> 0 \<notin> set nm" and "k + length (concat nms) \<le> length b"
  shows "gather_names (path_bytes (map name_node nms @ bs) @ r) (path_bytes (name_node (last nms) # bs) @ r) b k =
    Some (overlay b k (concat nms), k + length (concat nms))"
  using assms
proof (induction nms arbitrary: b k)
  case (Cons nm nms)
  let ?d = "char_bytes (nm @ [0])"
  have "take (length ?d div 2) (chars (?d @ path_bytes (map name_node nms @ bs) @ r)) = nm @ [0]"
    using node_name [of ?d] by (simp only: chars_name)
  then have copy: "copy_chars (PathName (path_bytes (map name_node (nm # nms) @ bs) @ r)) (path_chars (node_head (name_node nm))) 0 b k =
      Some (overlay b k nm, k + length nm)"
    using copy_chars_ok [of 0 "length ?d div 2" "chars (?d @ path_bytes (map name_node nms @ bs) @ r)" k b] Cons.prems
    by (simp add: PathName_node path_chars_node until_zero_name del: char_bytes_simps)
  have step: "gather_names (path_bytes (map name_node (nm # nms) @ bs) @ r) (path_bytes (name_node (last (nm # nms)) # bs) @ r) b k =
      (if nms = [] then Some (overlay b k nm, k + length nm)
       else gather_names (path_bytes (map name_node nms @ bs) @ r) (path_bytes (name_node (last nms) # bs) @ r) (overlay b k nm) (k + length nm))"
  proof -
    have "length (path_bytes (map name_node (nm # nms) @ bs) @ r) = length (path_bytes (name_node (last (nm # nms)) # bs) @ r) \<longleftrightarrow> nms = []"
      using last_name_length [of nms] by auto
    with copy show ?thesis using Cons.prems(2) by (subst gather_names.simps) simp
  qed
  show ?case
  proof (cases "nms = []")
    case False
    then show ?thesis using step Cons.IH [of "k + length nm" "overlay b k nm"] Cons.prems by (simp add: overlay_next add.assoc)
  qed (use step in simp)
qed simp

section \<open>The name as a string\<close>

definition with_backslashes :: "u8 list \<Rightarrow> u8 list" where
  "with_backslashes = map (\<lambda>c. if c = 0x2f then 0x5c else c)"

lemma separator_loop_ok:
  "i + n \<le> length b \<Longrightarrow>
   separator_loop n i x y b = take i b @ map (\<lambda>c. if c = x then y else c) (take n (drop i b)) @ drop (i + n) b"
proof (induction n arbitrary: i b)
  case (Suc n)
  let ?b = "if b ! i = x then b[i := y] else b"
  have b: "b = take i b @ b ! i # drop (Suc i) b" using Suc.prems by (simp add: id_take_nth_drop)
  have "?b = take i b @ (if b ! i = x then y else b ! i) # drop (Suc i) b"
    using Suc.prems b by (auto simp: upd_conv_take_nth_drop)
  moreover have "drop i b = b ! i # drop (Suc i) b" using Suc.prems by (simp add: Cons_nth_drop_Suc)
  ultimately show ?case using Suc by (simp add: ac_simps)
qed simp

lemma BlConvertPathSeparator_ok:
  assumes "take (length s + 1) b = s @ [0]" and "0 \<notin> set s"
  shows "\<exists>b'. BlConvertPathSeparator b 0x2f 0x5c = Some b' \<and> take (length s + 1) b' = with_backslashes s @ [0]"
proof -
  obtain x where b: "b = s @ 0 # x" using assms(1) by (metis append.assoc append_Cons append_Nil append_take_drop_id)
  then have "BlConvertPathSeparator b 0x2f 0x5c = Some (with_backslashes s @ 0 # x)"
    using strlen_name [OF assms(2)] separator_loop_ok [of 0 "length s" b] by (simp add: BlConvertPathSeparator_def with_backslashes_def)
  then show ?thesis by (simp add: with_backslashes_def)
qed

lemma allocate_utf8_ok:
  assumes "mem_ok h" and "length s * 3 + 1 \<le> 2 ^ 32"
  shows "\<exists>r h'. allocate_utf8 fresh s h = Some (r, h') \<and> mem_ok h' \<and> (r = None \<longleftrightarrow> pool_fails [length s * 3 + 1] h) \<and>
    (\<forall>a b. r = Some (a, b) \<longrightarrow> take (length (concat (map utf8_bytes s)) + 1) b = concat (map utf8_bytes s) @ [0])"
proof (cases rule: dp_allocate_cases [OF assms(1), of fresh "length s * 3 + 1"])
  case 1
  then show ?thesis by (simp add: allocate_utf8_def)
next
  case (2 a b h')
  have "b \<noteq> []" "3 * length s < length b" "utf8_counts s b" using 2(2) assms(2) by (auto simp: utf8_counts_def)
  then obtain b' where "BlUnicodeToUtf8 s b = Some (EFI_SUCCESS, b')"
    "take (length (concat (map utf8_bytes s)) + 1) b' = concat (map utf8_bytes s) @ [0]"
    using BlUnicodeToUtf8_facts [of b s] by blast
  then show ?thesis using 2(1,3,4) by (simp add: allocate_utf8_def BlAllocateUtf8FromUnicode_def)
qed

definition file_part :: "bool \<Rightarrow> u16 list \<Rightarrow> u16 list" where
  "file_part fullPath nm = (if fullPath then nm else drop (length (dir_part nm)) nm)"

lemma extract_name_ok:
  assumes "take k p = nm" and "k = length nm" and "k \<le> length p" and "0 \<notin> set nm" and "mem_ok h" and "length nm * 3 + 1 \<le> 2 ^ 32"
  shows "\<exists>r h'. extract_name fresh p k fullPath h = Some (r, h') \<and> mem_ok h' \<and>
    (r = None \<longleftrightarrow> pool_fails [length (file_part fullPath nm) * 3 + 1] h) \<and>
    (\<forall>a b. r = Some (a, b) \<longrightarrow> take (length (concat (map utf8_bytes (file_part fullPath nm))) + 1) b =
      with_backslashes (concat (map utf8_bytes (file_part fullPath nm))) @ [0])"
proof -
  let ?u = "concat (map utf8_bytes (file_part fullPath nm))"
  have "until_zero nm = nm" using assms(4) by (auto simp: until_zero_def takeWhile_eq_all_conv)
  then have d: "last_directory p k 0 None = Some (if dir_part nm = [] then None else Some (length (dir_part nm) - 1))"
    using last_directory_ok [of 0 k p None] assms(1-3) by (simp add: Let_def)
  have "set (file_part fullPath nm) \<subseteq> set nm" by (simp add: file_part_def set_drop_subset)
  then have "\<forall>c \<in> set (file_part fullPath nm). 0 \<notin> set (utf8_bytes c)" using assms(4) by (metis subsetD utf8_bytes_nonzero)
  then have nz: "0 \<notin> set ?u" by auto
  have short: "length (file_part fullPath nm) * 3 + 1 \<le> 2 ^ 32" using assms(6) by (auto simp: file_part_def)
  obtain r h' where al: "allocate_utf8 fresh (file_part fullPath nm) h = Some (r, h')" "mem_ok h'" "r = None \<longleftrightarrow> pool_fails [length (file_part fullPath nm) * 3 + 1] h"
    "\<forall>a b. r = Some (a, b) \<longrightarrow> take (length ?u + 1) b = ?u @ [0]"
    using allocate_utf8_ok [OF assms(5) short] by blast
  have "extract_name fresh p k fullPath h = do {
       (r, h) \<leftarrow> allocate_utf8 fresh (file_part fullPath nm) h;
       case r of None \<Rightarrow> Some (None, h)
       | Some (a, retValue) \<Rightarrow> do {
           retValue \<leftarrow> BlConvertPathSeparator retValue 0x2f 0x5c;
           Some (Some (a, retValue), h)
         }
     }"
    using assms(1,3) by (cases fullPath) (simp_all add: extract_name_def d file_part_def Let_def)
  also have "\<dots> = (case r of None \<Rightarrow> Some (None, h')
      | Some (a, retValue) \<Rightarrow> do { retValue \<leftarrow> BlConvertPathSeparator retValue 0x2f 0x5c; Some (Some (a, retValue), h') })"
    by (simp add: al(1))
  finally show ?thesis using al(2-4) BlConvertPathSeparator_ok [OF _ nz] by (cases r) fastforce+
qed

lemma names_total_nat:
  assumes "nodes_length (map name_node nms) < 2 ^ 64"
  shows "2 * length (concat nms) \<le> unat (names_total nms)"
proof -
  have "names_total nms = of_nat (\<Sum>nm \<leftarrow> nms. 2 * length nm + 4)"
    by (induction nms) (simp_all add: names_total_def)
  moreover have "(\<Sum>nm \<leftarrow> nms. 2 * length nm + 4) \<le> nodes_length (map name_node nms)"
    by (induction nms) (simp_all add: nodes_length_def)
  moreover have "2 * length (concat nms) \<le> (\<Sum>nm \<leftarrow> nms. 2 * length nm + 4)" by (induction nms) simp_all
  ultimately show ?thesis using assms by (simp add: unat_of_nat_small)
qed

lemma trim_name: "0 \<notin> set nm \<Longrightarrow> dropWhile (\<lambda>c. c = 0) (rev (nm @ [0])) = rev nm"
  by (cases nm rule: rev_cases) auto

lemma extract_path:
  fixes ns nms bs h full r
  defines "path \<equiv> path_bytes (ns @ map name_node nms @ bs) @ r" and "u \<equiv> concat (map utf8_bytes (file_part full (concat nms)))"
  assumes "\<forall>n \<in> set ns. node_ok n \<and> \<not> raw_file n" and "\<forall>nm \<in> set nms. node_ok (name_node nm) \<and> 0 \<notin> set nm" and "nms \<noteq> []"
    and "\<forall>n \<in> set bs. node_ok n" and "bs = [] \<or> \<not> raw_file (hd bs)" and "mem_ok h" and "nodes_length (map name_node nms) < 2 ^ 32 div 3"
  shows "\<exists>r' h'. DevPathExtractFilePathName fresh path full h = Some (r', h') \<and> mem_ok h' \<and>
    (r' = None \<longleftrightarrow> pool_fails ((if length nms = 1 then [] else [unat (names_total nms)]) @ [length (file_part full (concat nms)) * 3 + 1]) h) \<and>
    (\<forall>a b. r' = Some (a, b) \<longrightarrow> take (length u + 1) b = with_backslashes u @ [0])"
proof -
  let ?s = "path_bytes (map name_node nms @ bs) @ r" and ?e = "path_bytes (name_node (last nms) # bs) @ r"
  have nz: "0 \<notin> set (concat nms)" using assms(4) by auto
  have "2 * length (concat nms) \<le> (\<Sum>nm \<leftarrow> nms. 2 * length nm + 4)" by (induction nms) simp_all
  moreover have "(\<Sum>nm \<leftarrow> nms. 2 * length nm + 4) \<le> nodes_length (map name_node nms)"
    by (induction nms) (simp_all add: nodes_length_def)
  ultimately have short: "length (concat nms) * 3 + 1 \<le> 2 ^ 32" using assms(9) by simp
  have fn: "find_names path None 0 = Some (Some (?s, ?e), names_total nms)"
    unfolding path_def using assms(3-7) by (intro find_names_path) auto
  obtain nm nms' where nms: "nms = nm # nms'" using assms(5) by (cases nms) auto
  have eq: "length ?s = length ?e \<longleftrightarrow> nms' = []" using last_name_length [of nms'] nms by auto
  show ?thesis
  proof (cases "nms' = []")
    case True
    let ?d = "char_bytes (nm @ [0])"
    let ?c = "nm @ 0 # chars (path_bytes bs @ r)"
    have c: "chars (?d @ path_bytes bs @ r) = ?c" using chars_char_bytes [of "nm @ [0]"] by simp
    have nm: "node_ok (name_node nm)" "0 \<notin> set nm" using assms(4) nms by simp_all
    have "trim_end ?c (length nm + 1) = Some (length nm)"
      using trim_end_ok [of "length nm + 1" ?c] trim_name [OF nm(2)] by simp
    then have *: "DevPathExtractFilePathName fresh path full h = extract_name fresh ?c (length nm) full h"
      using True nm(1) c by (simp add: DevPathExtractFilePathName_def fn nms PathName_node path_chars_node)
    have "length nm * 3 + 1 \<le> 2 ^ 32" using short nms by simp
    with * show ?thesis using extract_name_ok [of "length nm" ?c nm h fresh full] nm(2) assms(8) True by (simp add: u_def nms)
  next
    case False
    show ?thesis
    proof (cases rule: dp_allocate_cases [OF assms(8), of fresh "unat (names_total nms)"])
      case 1
      then show ?thesis using False eq nms by (simp add: DevPathExtractFilePathName_def fn)
    next
      case (2 a b h')
      let ?p = "overlay (chars b) 0 (concat nms)" and ?k = "length (concat nms)"
      have len: "?k \<le> length (chars b)" using names_total_nat [of nms] assms(9) 2(2) by simp
      have g: "gather_names ?s ?e (chars b) 0 = Some (?p, ?k)"
        using gather_names_path [of nms 0 "chars b"] assms(4,5) len by simp
      have "take ?k ?p = concat nms" "?k \<le> length ?p" using len by (simp_all add: overlay_def)
      then obtain r' h1 where e: "extract_name fresh ?p ?k full h' = Some (r', h1)" "mem_ok h1"
        "r' = None \<longleftrightarrow> pool_fails [length (file_part full (concat nms)) * 3 + 1] h'"
        "\<forall>a b. r' = Some (a, b) \<longrightarrow> take (length u + 1) b = with_backslashes u @ [0]"
        using extract_name_ok [of ?k ?p "concat nms" h' fresh full] nz 2(3) short unfolding u_def by blast
      moreover obtain h2 where "MmFreePool a h1 = Some h2" "mem_ok h2" using mem_ok_free [OF e(2)] by blast
      ultimately show ?thesis using False eq 2(1,4) g nms by (simp add: DevPathExtractFilePathName_def fn)
    qed
  qed
qed

end
