(* ===== verification/DevicePathProps.thy ===== *)
theory DevicePathProps
  imports DevicePathExtract
begin

text \<open>Partitions among the block devices, and the properties of the device path functions.\<close>

section \<open>Partitions\<close>

definition gpt_node :: "dp_node \<Rightarrow> bool" where
  "gpt_node n \<longleftrightarrow> is_kind MEDIA_DEVICE_PATH MEDIA_HARDDRIVE_DP n \<and>
     snd (snd n) ! 37 = SIGNATURE_TYPE_GUID \<and> snd (snd n) ! 36 = MBR_TYPE_EFI_PARTITION_TABLE_HEADER"

definition partition_of :: "dp_node list \<Rightarrow> u32" where
  "partition_of ns = (case filter gpt_node ns of [] \<Rightarrow> - 1 | n # _ \<Rightarrow> le32 (snd (snd n)) 0)"

text \<open>Nodes that are whole: a node of a hard drive has all its fields.\<close>

definition drive_ok :: "dp_node \<Rightarrow> bool" where
  "drive_ok n \<longleftrightarrow> node_ok n \<and> (is_kind MEDIA_DEVICE_PATH MEDIA_HARDDRIVE_DP n \<longrightarrow> 38 \<le> length (snd (snd n)))"

definition matches :: "dp_node list \<Rightarrow> u32 \<Rightarrow> nat \<times> dp_node list option \<Rightarrow> bool" where
  "matches ns number d \<longleftrightarrow> fst d \<noteq> 0 \<and>
     (\<exists>ms. snd d = Some ms \<and> length ms = length ns \<and> hd ms = hd ns \<and> partition_of ms = number)"

definition in_memory :: "nat \<times> dp_node list option \<Rightarrow> nat \<times> u8 list option" where
  "in_memory d = (fst d, map_option path_bytes (snd d))"

lemma device_pair [simp]:
  "in_memory (a, p) = (a, map_option path_bytes p)"
  "matches ns number (a, p) \<longleftrightarrow> a \<noteq> 0 \<and> (\<exists>ms. p = Some ms \<and> length ms = length ns \<and> hd ms = hd ns \<and> partition_of ms = number)"
  by (simp_all add: in_memory_def matches_def)

lemma nth_node: "4 \<le> i \<Longrightarrow> i < node_length n \<Longrightarrow> (node_bytes n @ r) ! i = snd (snd n) ! (i - 4)"
proof -
  assume i: "4 \<le> i" "i < node_length n"
  define x where "x = [fst n, fst (snd n), of_nat (node_length n), of_nat (node_length n div 256)]"
  have x: "length x = 4" by (simp add: x_def)
  have "(node_bytes n @ r) ! i = (x @ snd (snd n) @ r) ! i" by (simp add: node_bytes_def x_def)
  also have "\<dots> = (snd (snd n) @ r) ! (i - 4)" using i(1) x by (simp add: nth_append)
  also have "\<dots> = snd (snd n) ! (i - 4)" using i unfolding node_length_def by (subst nth_append) (simp add: less_diff_conv2)
  finally show ?thesis .
qed

lemma partition_number_path:
  "\<forall>n \<in> set ns. drive_ok n \<Longrightarrow> DevPathGetPartitionNumber (path_bytes ns @ r) = Some (partition_of ns)"
proof (induction ns)
  case Nil
  then show ?case by (subst DevPathGetPartitionNumber.simps) (simp add: dp_header_end partition_of_def)
next
  case (Cons n ns)
  have ok: "node_ok n" using Cons.prems by (simp add: drive_ok_def)
  show ?case
  proof (cases "is_kind MEDIA_DEVICE_PATH MEDIA_HARDDRIVE_DP n")
    case True
    then have len: "42 \<le> node_length n" using Cons.prems by (simp add: drive_ok_def node_length_def)
    have "(node_bytes n @ path_bytes ns @ r) ! 41 = snd (snd n) ! 37" "(node_bytes n @ path_bytes ns @ r) ! 40 = snd (snd n) ! 36"
      "le32 (node_bytes n @ path_bytes ns @ r) 4 = le32 (snd (snd n)) 0"
      using len by (simp_all add: nth_node le32_def numeral_2_eq_2)
    then show ?thesis using True ok len Cons
      by (subst DevPathGetPartitionNumber.simps) (auto simp: is_kind_def gpt_node_def partition_of_def)
  next
    case False
    then have "partition_of (n # ns) = partition_of ns" by (simp add: partition_of_def gpt_node_def)
    then show ?thesis using False ok Cons by (subst DevPathGetPartitionNumber.simps) (auto simp: is_kind_def)
  qed
qed

lemma node_bytes_eq: "node_length n = node_length m \<Longrightarrow> node_bytes n = node_bytes m \<longleftrightarrow> n = m"
  by (cases n; cases m) (auto simp: node_bytes_def)

lemma same_nodes_step:
  assumes "node_ok n" and "node_ok m"
  shows "same_nodes (Suc k) (path_bytes (n # ns) @ r) (path_bytes (m # ms) @ s) =
    (if n = m then same_nodes k (path_bytes (n # ns) @ r) (path_bytes (m # ms) @ s) else Some False)"
proof (cases "node_length n = node_length m")
  case True
  then have "memcmp (path_bytes (n # ns) @ r) (path_bytes (m # ms) @ s) (node_length n) =
      Some (if node_bytes n < node_bytes m then - 1 else if n = m then 0 else 1)"
    using memcmp_eq [of "node_length n" "path_bytes (n # ns) @ r" "path_bytes (m # ms) @ s"] node_bytes_eq [OF True] by simp
  then show ?thesis using assms True by auto
qed (use assms in auto)

lemma same_nodes_first:
  "node_ok n \<Longrightarrow> node_ok m \<Longrightarrow> same_nodes (Suc k) (path_bytes (n # ns) @ r) (path_bytes (m # ms) @ s) = Some (n = m)"
proof (induction k)
  case 0
  then show ?case by (simp only: same_nodes_step) simp
next
  case (Suc k)
  then show ?case by (simp only: same_nodes_step [where k = "Suc k"]) simp
qed

lemma find_partition_ok:
  assumes "\<forall>n \<in> set ns. node_ok n" and "ns \<noteq> []"
  shows "\<forall>(a, p) \<in> set ds. \<forall>ms. p = Some ms \<longrightarrow> (\<forall>m \<in> set ms. drive_ok m) \<Longrightarrow>
    find_partition (map in_memory ds) (path_bytes ns @ r) (length ns) number =
      Some (case filter (matches ns number) ds of [] \<Rightarrow> 0 | d # _ \<Rightarrow> fst d)"
proof (induction ds)
  case (Cons d ds)
  obtain a p where d: "d = (a, p)" by fastforce
  have IH: "find_partition (map in_memory ds) (path_bytes ns @ r) (length ns) number =
      Some (case filter (matches ns number) ds of [] \<Rightarrow> 0 | d # _ \<Rightarrow> fst d)" using Cons by auto
  show ?case
  proof (cases p)
    case None
    then show ?thesis using IH d by simp
  next
    case (Some ms)
    have ms: "\<forall>m \<in> set ms. drive_ok m" using Cons.prems d Some by auto
    then have ok: "\<forall>m \<in> set ms. node_ok m" by (simp add: drive_ok_def)
    have cnt: "DevPathGetNodeCount (Some (path_bytes ms)) = Some (length ms)" using count_path [OF ok, of "[]"] by simp
    have num: "DevPathGetPartitionNumber (path_bytes ms) = Some (partition_of ms)" using partition_number_path [OF ms, of "[]"] by simp
    have same: "length ms = length ns \<Longrightarrow> same_nodes (length ns) (path_bytes ns @ r) (path_bytes ms) = Some (hd ms = hd ns)"
      using same_nodes_first [of "hd ns" "hd ms" "length ns - 1" "tl ns" r "tl ms" "[]"] assms ok
      by (cases ns; cases ms) auto
    show ?thesis using d Some IH cnt num same by auto
  qed
qed simp

lemma small_memory_mem_ok: "mem_ok small_memory"
  using small_memory_inv by (auto simp: mem_ok_def)

definition is_path :: "u8 list \<Rightarrow> bool" where
  "is_path b \<longleftrightarrow> (\<exists>ns t. (\<forall>n \<in> set ns. node_ok n) \<and> b = path_bytes ns @ t)"

section \<open>Properties\<close>

text \<open>
  C20. Device paths are lists of nodes: DevPathGetSize and DevPathGetNodeCount measure the list,
  DevPathGetNode finds the first node of a kind in it, and DevPathAppendDevicePath answers, in memory of
  exactly the right size, the path of both lists one after the other, or NULL when the pool has no memory.
  What follows a path in memory does not matter.
\<close>

theorem device_path_append:
  assumes "\<forall>n \<in> set ns. node_ok n" and "\<forall>n \<in> set ms. node_ok n" and "mem_ok h"
  shows "DevPathGetSize (Some (path_bytes ns @ r)) = Some (nodes_length ns + 4) \<and>
    DevPathGetNodeCount (Some (path_bytes ns @ r)) = Some (length ns) \<and>
    DevPathGetNode (path_bytes ns @ r) ty subType =
      Some (case dropWhile (\<lambda>n. \<not> is_kind ty subType n) ns of [] \<Rightarrow> None | n # ks \<Rightarrow> Some (path_bytes (n # ks) @ r)) \<and>
    (\<exists>r' h'. DevPathAppendDevicePath fresh (Some (path_bytes ns @ r)) (Some (path_bytes ms @ s)) h = Some (r', h') \<and> mem_ok h' \<and>
      (r' = None \<longleftrightarrow> pool_fails [nodes_length ns + (nodes_length ms + 4)] h) \<and>
      (\<forall>a b. r' = Some (a, b) \<longrightarrow> b = path_bytes (ns @ ms)))"
  using size_path [OF assms(1)] count_path [OF assms(1)] get_node_path [OF assms(1)] append_path [OF assms] by blast

theorem device_path_append_witness:
  "\<exists>r' h'. DevPathAppendDevicePath (\<lambda>_. 0) (Some (path_bytes [(2, 1, [7])] @ [])) (Some (path_bytes [(1, 1, [5, 6])] @ [9])) small_memory =
      Some (r', h') \<and> mem_ok h' \<and> (\<forall>a b. r' = Some (a, b) \<longrightarrow> b = path_bytes ([(2, 1, [7])] @ [(1, 1, [5, 6])]))"
proof -
  have "\<forall>n \<in> set [(2, 1, [7 :: u8])]. node_ok n" "\<forall>n \<in> set [(1, 1, [5, 6 :: u8])]. node_ok n"
    by (simp_all add: node_ok_def node_length_def END_DEVICE_PATH_TYPE_def)
  from device_path_append [OF this small_memory_mem_ok] show ?thesis by blast
qed

text \<open>
  C21. DevPathDuplicate, DevPathAppendDevicePath and DevPathAppendFilePath give back a path, that is, well-formed nodes up to an end node inside
  the new memory: whatever paths they are given, and whatever name without a terminator inside, as
  long as the lengths fit in a node.
\<close>

theorem device_path_type:
  assumes "is_path p" and "is_path q" and "mem_ok h" and "0 \<notin> set cs" and "cs \<noteq> []" and "2 * length cs + 6 < 2 ^ 16"
  shows "(\<exists>r h'. DevPathDuplicate fresh (Some p) h = Some (r, h') \<and> (\<forall>a b. r = Some (a, b) \<longrightarrow> is_path b)) \<and>
    (\<exists>r h'. DevPathAppendDevicePath fresh (Some p) (Some q) h = Some (r, h') \<and> (\<forall>a b. r = Some (a, b) \<longrightarrow> is_path b)) \<and>
    (\<exists>r h'. DevPathAppendFilePath fresh (Some p) (Some (cs @ 0 # x)) h = Some (r, h') \<and> (\<forall>a b. r = Some (a, b) \<longrightarrow> is_path b))"
proof -
  obtain ns t ms u where p: "\<forall>n \<in> set ns. node_ok n" "p = path_bytes ns @ t" and q: "\<forall>n \<in> set ms. node_ok n" "q = path_bytes ms @ u"
    using assms(1,2) by (auto simp: is_path_def)
  have path: "\<forall>n \<in> set ks. node_ok n \<Longrightarrow> is_path (path_bytes ks)" for ks
    by (auto simp: is_path_def intro: exI [of _ ks] exI [of _ "[]"])
  have f: "node_ok (file_node (char_bytes (cs @ [0])))"
    using assms(6) by (simp add: node_ok_def node_length_def file_node_def MEDIA_DEVICE_PATH_def END_DEVICE_PATH_TYPE_def)
  have "is_path (path_bytes ns)" "is_path (path_bytes (ns @ ms))" "is_path (path_bytes (ns @ [file_node (char_bytes (cs @ [0]))]))"
    using p(1) q(1) f by (auto intro!: path)
  then show ?thesis
    using duplicate_path [OF p(1) assms(3), of fresh t] append_path [OF p(1) q(1) assms(3), of fresh t u]
      append_file_path [OF p(1) assms(3-6), of fresh t x]
    unfolding p(2) q(2) by fast
qed

theorem device_path_type_witness:
  "\<exists>r h'. DevPathAppendFilePath (\<lambda>_. 0) (Some end_node) (Some ([0x41] @ 0 # [])) small_memory = Some (r, h') \<and> (\<forall>a b. r = Some (a, b) \<longrightarrow> is_path b)"
proof -
  have "is_path end_node" unfolding is_path_def by (rule exI [of _ "[]"], rule exI [of _ "[]"]) simp
  from device_path_type [OF this this small_memory_mem_ok, of "[0x41]" "\<lambda>_. 0" "[]"] show ?thesis by simp
qed

text \<open>
  C22. A file name that DevPathAppendFilePath puts at the end of a device path without a file path node is read
  back by DevPathExtractFilePathName as UTF-8 (RFC 3629) with backslashes, the whole name or what is behind its last
  separator; NULL is the answer only when the pool has no memory. The pool has memory for the longer path, the name fits
  a node of less than 64 KiB, and it has no surrogates and no character of
  U+0400..U+07FF, which BlUnicodeToUtf8 does not encode as UTF-8.
\<close>

theorem file_path_roundtrip:
  assumes "\<forall>n \<in> set ns. node_ok n \<and> \<not> raw_file n" and "mem_ok h" and "0 \<notin> set cs" and "cs \<noteq> []" and "2 * length cs + 6 < 2 ^ 16"
    and "\<not> pool_fails [(length cs + 1) * 2 + (nodes_length ns + 4) + 4] h" and "\<forall>c \<in> set cs. utf8_exact c"
  shows "\<exists>a b h1 r' h2. DevPathAppendFilePath fresh (Some (path_bytes ns @ r)) (Some (cs @ 0 # x)) h = Some (Some (a, b), h1) \<and>
    DevPathExtractFilePathName fresh b full h1 = Some (r', h2) \<and> mem_ok h2 \<and>
    (r' = None \<longleftrightarrow> pool_fails [length (file_part full cs) * 3 + 1] h1) \<and>
    (\<forall>a' s. r' = Some (a', s) \<longrightarrow> take (length (utf8_string (file_part full cs)) + 1) s =
      with_backslashes (utf8_string (file_part full cs)) @ [0])"
proof -
  have ns: "\<forall>n \<in> set ns. node_ok n" using assms(1) by blast
  obtain a b h1 where 1: "DevPathAppendFilePath fresh (Some (path_bytes ns @ r)) (Some (cs @ 0 # x)) h = Some (Some (a, b), h1)"
    "mem_ok h1" "b = path_bytes (ns @ [name_node cs])"
    using append_file_path [OF ns assms(2-5), of fresh r x] assms(6) unfolding name_node_def by fastforce
  have "node_ok (name_node cs)" using assms(5)
    by (simp add: node_ok_def) (simp add: name_node_def file_node_def MEDIA_DEVICE_PATH_def END_DEVICE_PATH_TYPE_def)
  moreover have "set (file_part full cs) \<subseteq> set cs" by (simp add: file_part_def set_drop_subset)
  then have "concat (map utf8_bytes (file_part full cs)) = utf8_string (file_part full cs)"
    using assms(7) by (intro utf8_string_bytes) blast
  ultimately show ?thesis using 1 extract_path [of ns "[cs]" "[]" h1 fresh "[]" full] assms(1,3,5) by (simp del: append_Nil2) auto
qed

theorem file_path_roundtrip_witness:
  "\<exists>a b h1 r' h2. DevPathAppendFilePath (\<lambda>_. 0) (Some (path_bytes [] @ [])) (Some ([0x61, 0x2f, 0x62] @ 0 # [])) small_memory = Some (Some (a, b), h1) \<and>
    DevPathExtractFilePathName (\<lambda>_. 0) b False h1 = Some (r', h2) \<and> (\<forall>a' s. r' = Some (a', s) \<longrightarrow> take (Suc 1) s = [0x62, 0])"
proof -
  let ?cs = "[0x61, 0x2f, 0x62 :: u16]"
  have p: "\<not> pool_fails [(length ?cs + 1) * 2 + (nodes_length [] + 4) + 4] small_memory"
    by (simp add: pool_fails.simps MmAllocatePool_def allocate_pool_def small_memory_def split: prod.splits)
  have u: "utf8_string (file_part False ?cs) = [0x62]" by (simp add: file_part_def separator_def utf8_string_def rfc3629_def)
  have e: "\<forall>c \<in> set ?cs. utf8_exact c" by (simp add: utf8_exact_def utf8_ok_def)
  have "\<forall>n \<in> set []. node_ok n \<and> \<not> raw_file n" "0 \<notin> set ?cs" "?cs \<noteq> []" "2 * length ?cs + 6 < 2 ^ 16" by simp_all
  from file_path_roundtrip [OF this(1) small_memory_mem_ok this(2-4) p e, of "\<lambda>_. 0" "[]" "[]" False]
  obtain a b h1 r' h2 where
    "DevPathAppendFilePath (\<lambda>_. 0) (Some (path_bytes [] @ [])) (Some (?cs @ 0 # [])) small_memory = Some (Some (a, b), h1)"
    "DevPathExtractFilePathName (\<lambda>_. 0) b False h1 = Some (r', h2)"
    "\<forall>a' s. r' = Some (a', s) \<longrightarrow> take (length [0x62 :: u8] + 1) s = with_backslashes [0x62] @ [0]"
    unfolding u by blast
  then show ?thesis by (intro exI conjI) (assumption, assumption, simp add: with_backslashes_def)
qed



text \<open>
  C25. DevPathGetPartitionHandleByNumber answers the first block device with a device path of as many
  nodes as the reference path, with the same first node, and with the given partition number; 0 when there
  is none. (The other nodes are not compared.)
\<close>

theorem partition_handle:
  assumes "\<forall>n \<in> set ns. node_ok n" and "ns \<noteq> []" and "\<forall>(a, p) \<in> set ds. \<forall>ms. p = Some ms \<longrightarrow> (\<forall>m \<in> set ms. drive_ok m)" and "mem_ok h"
  shows "\<exists>h'. DevPathGetPartitionHandleByNumber (Some (path_bytes ns @ r)) number (Some (array, map in_memory ds)) h =
    Some (case filter (matches ns number) ds of [] \<Rightarrow> 0 | d # _ \<Rightarrow> fst d, h') \<and> mem_ok h'"
proof -
  obtain h' where "MmFreePool array h = Some h'" "mem_ok h'" using mem_ok_free [OF assms(4)] by blast
  then show ?thesis using count_path [OF assms(1), of r] find_partition_ok [OF assms(1-3), of r number] assms(2)
    by (simp add: DevPathGetPartitionHandleByNumber_def)
qed

theorem partition_handle_witness:
  "\<exists>h'. DevPathGetPartitionHandleByNumber (Some (path_bytes [(4, 1, replicate 36 0 @ [2, 2])] @ [])) 0
      (Some (0, map in_memory [(0, None), (5, Some [(4, 1, replicate 36 0 @ [2, 2])])])) small_memory = Some (5, h')"
proof -
  have n: "node_ok (4, 1, replicate 36 0 @ [2, 2])" by (simp add: node_ok_def node_length_def END_DEVICE_PATH_TYPE_def)
  have "drive_ok (4, 1, replicate 36 0 @ [2, 2])" using n by (simp add: drive_ok_def)
  moreover have "partition_of [(4, 1, replicate 36 0 @ [2, 2])] = 0"
    by (simp add: partition_of_def gpt_node_def is_kind_def MEDIA_DEVICE_PATH_def MEDIA_HARDDRIVE_DP_def SIGNATURE_TYPE_GUID_def
        MBR_TYPE_EFI_PARTITION_TABLE_HEADER_def nth_append le32_def)
  moreover note n
  ultimately show ?thesis
    using partition_handle [of "[(4, 1, replicate 36 0 @ [2, 2])]" "[(0, None), (5, Some [(4, 1, replicate 36 0 @ [2, 2])])]" small_memory "[]" 0 0]
      small_memory_mem_ok by fastforce
qed

end
