(* ===== verification/Lzvn.thy ===== *)
theory Lzvn
  imports Prelude "HOL-Library.Monad_Syntax"
begin

text \<open>
  BlDecompressLZVN of MiscUtils.c, a routine that jumps between labels as the assembly code does
  that it was made from. The two buffers are byte lists at the given addresses, pointers are
  64-bit addresses, and a read or write outside of a buffer is None. One step is one round of the outer
  loop; the loops inside of a label are functions of their own.
\<close>

section \<open>Words of eight bytes\<close>

definition word_of :: "u8 list \<Rightarrow> u64" where
  "word_of xs = foldr (\<lambda>x w. ucast x OR push_bit 8 w) xs 0"

definition bytes_of :: "u64 \<Rightarrow> u8 list" where
  "bytes_of w = map (\<lambda>k. ucast (drop_bit (8 * k) w)) [0..<8]"

definition OSSwapInt64 :: "u64 \<Rightarrow> u64" where
  "OSSwapInt64 x =
     drop_bit 56 (x AND 0xff00000000000000) OR drop_bit 40 (x AND 0x00ff000000000000) OR
     drop_bit 24 (x AND 0x0000ff0000000000) OR drop_bit 8 (x AND 0x000000ff00000000) OR
     push_bit 8 (x AND 0x00000000ff000000) OR push_bit 24 (x AND 0x0000000000ff0000) OR
     push_bit 40 (x AND 0x000000000000ff00) OR push_bit 56 (x AND 0x00000000000000ff)"

section \<open>State\<close>

datatype label = CASE_TABLE | LZVN_0 | LZVN_1 | LZVN_2 | LZVN_3 | LZVN_4 | LZVN_5 | LZVN_6 | LZVN_7 | LZVN_8
  | LZVN_9 | LZVN_10 | LZVN_11

text \<open>What the routine does not change: the buffers' addresses, the input and the two limits.\<close>

record lzvn_env =
  inputBase :: u64
  inputBytes :: "u8 list"
  decompBuffer :: u64
  decompressedSize :: u64
  compressedSize :: u64

record lzvn =
  len :: u64
  compBuffer :: u64
  compBufferPointer :: u64
  caseTableIndex :: u64
  byteCount :: u64
  currentLength :: u64
  negativeOffset :: u64
  dst :: "u8 list"

datatype lzvn_result = Jump label lzvn | Return EFI_STATUS "u64 option" "u8 list"

definition load64 :: "u64 \<Rightarrow> u8 list \<Rightarrow> u64 \<Rightarrow> u64 option" where
  "load64 base b a = (if unat (a - base) + 8 \<le> length b then Some (word_of (take 8 (drop (unat (a - base)) b))) else None)"

definition load8 :: "u64 \<Rightarrow> u8 list \<Rightarrow> u64 \<Rightarrow> u8 option" where
  "load8 base b a = (if unat (a - base) < length b then Some (b ! unat (a - base)) else None)"

definition put64 :: "u64 \<Rightarrow> u64 \<Rightarrow> u64 \<Rightarrow> u8 list \<Rightarrow> u8 list option" where
  "put64 base a w b = (if unat (a - base) + 8 \<le> length b then Some (overlay b (unat (a - base)) (bytes_of w)) else None)"

definition put8 :: "u64 \<Rightarrow> u64 \<Rightarrow> u8 \<Rightarrow> u8 list \<Rightarrow> u8 list option" where
  "put8 base a x b = (if unat (a - base) < length b then Some (b[unat (a - base) := x]) else None)"

definition caseTable :: "nat list" where
  "caseTable =
    [1, 1, 1, 1, 1, 1, 2, 3, 1, 1, 1, 1, 1, 1, 4, 3,
     1, 1, 1, 1, 1, 1, 4, 3, 1, 1, 1, 1, 1, 1, 5, 3,
     1, 1, 1, 1, 1, 1, 5, 3, 1, 1, 1, 1, 1, 1, 5, 3,
     1, 1, 1, 1, 1, 1, 5, 3, 1, 1, 1, 1, 1, 1, 5, 3,
     1, 1, 1, 1, 1, 1, 0, 3, 1, 1, 1, 1, 1, 1, 0, 3,
     1, 1, 1, 1, 1, 1, 0, 3, 1, 1, 1, 1, 1, 1, 0, 3,
     1, 1, 1, 1, 1, 1, 0, 3, 1, 1, 1, 1, 1, 1, 0, 3,
     5, 5, 5, 5, 5, 5, 5, 5, 5, 5, 5, 5, 5, 5, 5, 5,
     1, 1, 1, 1, 1, 1, 0, 3, 1, 1, 1, 1, 1, 1, 0, 3,
     1, 1, 1, 1, 1, 1, 0, 3, 1, 1, 1, 1, 1, 1, 0, 3,
     6, 6, 6, 6, 6, 6, 6, 6, 6, 6, 6, 6, 6, 6, 6, 6,
     6, 6, 6, 6, 6, 6, 6, 6, 6, 6, 6, 6, 6, 6, 6, 6,
     1, 1, 1, 1, 1, 1, 0, 3, 1, 1, 1, 1, 1, 1, 0, 3,
     5, 5, 5, 5, 5, 5, 5, 5, 5, 5, 5, 5, 5, 5, 5, 5,
     7, 8, 8, 8, 8, 8, 8, 8, 8, 8, 8, 8, 8, 8, 8, 8,
     9, 10, 10, 10, 10, 10, 10, 10, 10, 10, 10, 10, 10, 10, 10, 10]"

definition lzvn_error :: "lzvn \<Rightarrow> lzvn_result" where
  "lzvn_error st = Return EFI_LOAD_ERROR None (dst st)"

definition lzvn_done :: "lzvn \<Rightarrow> lzvn_result" where
  "lzvn_done st = Return EFI_SUCCESS (Some (len st AND 0xffffffffffffffff)) (dst st)"

text \<open>The common end of most labels: the next eight bytes of the input, and the jump by the first of them.\<close>

definition next_op :: "lzvn_env \<Rightarrow> lzvn \<Rightarrow> lzvn_result option" where
  "next_op e st = do {
     w \<leftarrow> load64 (inputBase e) (inputBytes e) (compBuffer st);
     Some (Jump CASE_TABLE (st\<lparr>compBufferPointer := w, caseTableIndex := w AND 255\<rparr>))
   }"

section \<open>Opcodes\<close>

definition lzvn_table :: "lzvn_env \<Rightarrow> lzvn \<Rightarrow> lzvn_result option" where
  "lzvn_table e st =
     (let k = caseTable ! unat (ucast (caseTableIndex st) :: u8); w = compBufferPointer st in
      if k = 0 then
        (let i = drop_bit 6 (caseTableIndex st); st = st\<lparr>caseTableIndex := i, compBuffer := compBuffer st + i + 1\<rparr> in
         if compBuffer st > compressedSize e then Some (lzvn_error st)
         else Some (Jump LZVN_10 (st\<lparr>byteCount := drop_bit 3 (56 AND w) + 3, compBufferPointer := drop_bit 8 w\<rparr>)))
      else if k = 1 then
        (let i = drop_bit 6 (caseTableIndex st); st = st\<lparr>caseTableIndex := i, compBuffer := compBuffer st + i + 2\<rparr> in
         if compBuffer st > compressedSize e then Some (lzvn_error st)
         else
           let s = OSSwapInt64 w in
           Some (Jump LZVN_10 (st\<lparr>negativeOffset := drop_bit 53 (push_bit 5 s), byteCount := drop_bit 61 (push_bit 2 s) + 3,
             compBufferPointer := drop_bit 16 w\<rparr>)))
      else if k = 2 then Some (lzvn_done st)
      else if k = 3 then
        (let i = drop_bit 6 (caseTableIndex st); st = st\<lparr>caseTableIndex := i, compBuffer := compBuffer st + i + 3\<rparr> in
         if compBuffer st > compressedSize e then Some (lzvn_error st)
         else
           let w1 = drop_bit 8 w in
           Some (Jump LZVN_10 (st\<lparr>byteCount := drop_bit 3 (56 AND w) + 3, negativeOffset := 65535 AND w1,
             compBufferPointer := drop_bit 16 w1\<rparr>)))
      else if k = 4 then
        (let st = st\<lparr>compBuffer := compBuffer st + 1\<rparr> in
         if compBuffer st > compressedSize e then Some (lzvn_error st) else next_op e st)
      else if k = 6 then
        (let i = drop_bit 3 (caseTableIndex st) AND 3; st = st\<lparr>caseTableIndex := i, compBuffer := compBuffer st + i + 3\<rparr> in
         if compBuffer st > compressedSize e then Some (lzvn_error st)
         else
           let b = w AND 775; w1 = drop_bit 10 w in
           Some (Jump LZVN_10 (st\<lparr>byteCount := (drop_bit 8 b OR push_bit 2 (b AND 255)) + 3, negativeOffset := 16383 AND w1,
             compBufferPointer := drop_bit 14 w1\<rparr>)))
      else if k = 7 then
        (let n = (drop_bit 8 w AND 255) + 16 in
         Some (Jump LZVN_0 (st\<lparr>compBufferPointer := n, compBuffer := compBuffer st + n + 2\<rparr>)))
      else if k = 8 then
        (let n = w AND 15 in
         Some (Jump LZVN_0 (st\<lparr>compBufferPointer := n, compBuffer := compBuffer st + n + 1\<rparr>)))
      else if k = 9 then
        (let st = st\<lparr>compBuffer := compBuffer st + 2\<rparr> in
         if compBuffer st > compressedSize e then Some (lzvn_error st)
         else Some (Jump LZVN_11 (st\<lparr>byteCount := (drop_bit 8 w AND 255) + 16\<rparr>)))
      else if k = 10 then
        (let st = st\<lparr>compBuffer := compBuffer st + 1\<rparr> in
         if compBuffer st > compressedSize e then Some (lzvn_error st)
         else Some (Jump LZVN_11 (st\<lparr>byteCount := w AND 15\<rparr>)))
      else Some (lzvn_error st))"

section \<open>Copy loops\<close>

text \<open>LZVN_1: words from the input, up to the end given by currentLength.\<close>

partial_function (option) copy_words_in :: "lzvn_env \<Rightarrow> lzvn \<Rightarrow> lzvn option" where
  "copy_words_in e st = do {
     w \<leftarrow> load64 (inputBase e) (inputBytes e) (compBuffer st + compBufferPointer st);
     d \<leftarrow> put64 (decompBuffer e) (currentLength st + compBufferPointer st) w (dst st);
     let st = st\<lparr>caseTableIndex := w, dst := d, compBufferPointer := compBufferPointer st + 8\<rparr>;
     if 0xFFFFFFFFFFFFFFFF - (compBufferPointer st - 8) \<ge> 8 then copy_words_in e st else Some st
   }"

declare copy_words_in.simps [code]

text \<open>LZVN_3: bytes from the input; the source reads eight bytes and keeps the first. True when the output is full.\<close>

partial_function (option) copy_bytes_in :: "lzvn_env \<Rightarrow> lzvn \<Rightarrow> (bool \<times> lzvn) option" where
  "copy_bytes_in e st = do {
     w \<leftarrow> load64 (inputBase e) (inputBytes e) (compBuffer st + compBufferPointer st);
     let i = w AND 255;
     d \<leftarrow> put8 (decompBuffer e) (decompBuffer e + len st) (ucast i) (dst st);
     let st = st\<lparr>caseTableIndex := i, dst := d, len := len st + 1\<rparr>;
     if currentLength st = len st then Some (True, st)
     else do {
       let st = st\<lparr>compBufferPointer := compBufferPointer st + 1\<rparr>;
       if compBufferPointer st \<noteq> 0 then copy_bytes_in e st else Some (False, st)
     }
   }"

declare copy_bytes_in.simps [code]

text \<open>LZVN_9: bytes from the output.\<close>

partial_function (option) copy_bytes_back :: "lzvn_env \<Rightarrow> lzvn \<Rightarrow> (bool \<times> lzvn) option" where
  "copy_bytes_back e st = do {
     x \<leftarrow> load8 (decompBuffer e) (dst st) (decompBuffer e + compBufferPointer st);
     let st = st\<lparr>caseTableIndex := ucast x, compBufferPointer := compBufferPointer st + 1\<rparr>;
     d \<leftarrow> put8 (decompBuffer e) (decompBuffer e + len st) (ucast (caseTableIndex st)) (dst st);
     let st = st\<lparr>dst := d, len := len st + 1\<rparr>;
     if len st = currentLength st then Some (True, st)
     else do {
       let st = st\<lparr>byteCount := byteCount st - 1\<rparr>;
       if byteCount st \<noteq> 0 then copy_bytes_back e st else Some (False, st)
     }
   }"

declare copy_bytes_back.simps [code]

text \<open>LZVN_5: words from the output.\<close>

partial_function (option) copy_words_back :: "lzvn_env \<Rightarrow> lzvn \<Rightarrow> lzvn option" where
  "copy_words_back e st = do {
     w \<leftarrow> load64 (decompBuffer e) (dst st) (decompBuffer e + compBufferPointer st);
     let st = st\<lparr>caseTableIndex := w, compBufferPointer := compBufferPointer st + 8\<rparr>;
     d \<leftarrow> put64 (decompBuffer e) (decompBuffer e + len st) w (dst st);
     let st = st\<lparr>dst := d, len := len st + 8, byteCount := byteCount st - 8\<rparr>;
     if byteCount st + 8 > 8 then copy_words_back e st else Some st
   }"

declare copy_words_back.simps [code]

text \<open>LZVN_6: literals from the word, near the end of the output.\<close>

partial_function (option) copy_literals :: "lzvn_env \<Rightarrow> lzvn \<Rightarrow> (bool \<times> lzvn) option" where
  "copy_literals e st = do {
     d \<leftarrow> put8 (decompBuffer e) (decompBuffer e + len st) (ucast (compBufferPointer st AND 255)) (dst st);
     let st = st\<lparr>dst := d, len := len st + 1\<rparr>;
     if len st = currentLength st then Some (True, st)
     else do {
       let st = st\<lparr>compBufferPointer := drop_bit 8 (compBufferPointer st), caseTableIndex := caseTableIndex st - 1\<rparr>;
       if caseTableIndex st \<noteq> 1 then copy_literals e st else Some (False, st)
     }
   }"

declare copy_literals.simps [code]

section \<open>Labels\<close>

definition lzvn_1 :: "lzvn_env \<Rightarrow> lzvn \<Rightarrow> lzvn_result option" where
  "lzvn_1 e st = do {
     st \<leftarrow> copy_words_in e st;
     next_op e (st\<lparr>len := currentLength st - decompBuffer e\<rparr>)
   }"

definition lzvn_0 :: "lzvn_env \<Rightarrow> lzvn \<Rightarrow> lzvn_result option" where
  "lzvn_0 e st =
     (if compBuffer st > compressedSize e then Some (lzvn_error st)
      else
        let st = st\<lparr>currentLength := len st + compBufferPointer st, compBufferPointer := 0 - compBufferPointer st\<rparr> in
        if currentLength st > decompressedSize e then Some (Jump LZVN_2 st)
        else lzvn_1 e (st\<lparr>currentLength := decompBuffer e + currentLength st\<rparr>))"

definition lzvn_3 :: "lzvn_env \<Rightarrow> lzvn \<Rightarrow> lzvn_result option" where
  "lzvn_3 e st = do {
     (full, st) \<leftarrow> copy_bytes_in e st;
     if full then Some (lzvn_done st) else next_op e st
   }"

definition lzvn_2 :: "lzvn_env \<Rightarrow> lzvn \<Rightarrow> lzvn_result option" where
  "lzvn_2 e st = lzvn_3 e (st\<lparr>currentLength := decompressedSize e + 8\<rparr>)"

definition lzvn_9 :: "lzvn_env \<Rightarrow> lzvn \<Rightarrow> lzvn_result option" where
  "lzvn_9 e st = do {
     (full, st) \<leftarrow> copy_bytes_back e st;
     if full then Some (lzvn_done st) else next_op e st
   }"

definition lzvn_4 :: "lzvn_env \<Rightarrow> lzvn \<Rightarrow> lzvn_result option" where
  "lzvn_4 e st = lzvn_9 e (st\<lparr>currentLength := decompressedSize e + 8\<rparr>)"

definition lzvn_5 :: "lzvn_env \<Rightarrow> lzvn \<Rightarrow> lzvn_result option" where
  "lzvn_5 e st = do {
     st \<leftarrow> copy_words_back e st;
     next_op e (st\<lparr>len := len st + byteCount st\<rparr>)
   }"

definition lzvn_7 :: "lzvn_env \<Rightarrow> lzvn \<Rightarrow> lzvn_result option" where
  "lzvn_7 e st =
     (let st = st\<lparr>compBufferPointer := len st - negativeOffset st\<rparr> in
      if compBufferPointer st < negativeOffset st then Some (lzvn_error st) else Some (Jump LZVN_4 st))"

definition lzvn_6 :: "lzvn_env \<Rightarrow> lzvn \<Rightarrow> lzvn_result option" where
  "lzvn_6 e st = do {
     (full, st) \<leftarrow> copy_literals e st;
     if full then Some (lzvn_done st) else lzvn_7 e st
   }"

definition lzvn_8 :: "lzvn_env \<Rightarrow> lzvn \<Rightarrow> lzvn_result option" where
  "lzvn_8 e st =
     (if caseTableIndex st = 0 then Some (Jump LZVN_7 st)
      else lzvn_6 e (st\<lparr>currentLength := decompressedSize e + 8\<rparr>))"

definition lzvn_10 :: "lzvn_env \<Rightarrow> lzvn \<Rightarrow> lzvn_result option" where
  "lzvn_10 e st =
     (let st = st\<lparr>currentLength := len st + caseTableIndex st + byteCount st\<rparr> in
      if currentLength st < decompressedSize e then do {
        d \<leftarrow> put64 (decompBuffer e) (decompBuffer e + len st) (compBufferPointer st) (dst st);
        let st = st\<lparr>dst := d, len := len st + caseTableIndex st\<rparr>;
        let st = st\<lparr>compBufferPointer := len st\<rparr>;
        if compBufferPointer st < negativeOffset st then Some (lzvn_error st)
        else do {
          let st = st\<lparr>compBufferPointer := compBufferPointer st - negativeOffset st\<rparr>;
          Some (Jump (if negativeOffset st < 8 then LZVN_4 else LZVN_5) st)
        }
      }
      else lzvn_8 e st)"

definition lzvn_11 :: "lzvn_env \<Rightarrow> lzvn \<Rightarrow> lzvn_result option" where
  "lzvn_11 e st =
     (let st = st\<lparr>compBufferPointer := len st - negativeOffset st, currentLength := len st + byteCount st\<rparr> in
      Some (Jump (if currentLength st < decompressedSize e \<and> negativeOffset st \<ge> 8 then LZVN_5 else LZVN_4) st))"

fun lzvn_step :: "lzvn_env \<Rightarrow> label \<Rightarrow> lzvn \<Rightarrow> lzvn_result option" where
  "lzvn_step e CASE_TABLE st = lzvn_table e st"
| "lzvn_step e LZVN_0 st = lzvn_0 e st"
| "lzvn_step e LZVN_1 st = lzvn_1 e st"
| "lzvn_step e LZVN_2 st = lzvn_2 e st"
| "lzvn_step e LZVN_3 st = lzvn_3 e st"
| "lzvn_step e LZVN_4 st = lzvn_4 e st"
| "lzvn_step e LZVN_5 st = lzvn_5 e st"
| "lzvn_step e LZVN_6 st = lzvn_6 e st"
| "lzvn_step e LZVN_7 st = lzvn_7 e st"
| "lzvn_step e LZVN_8 st = lzvn_8 e st"
| "lzvn_step e LZVN_9 st = lzvn_9 e st"
| "lzvn_step e LZVN_10 st = lzvn_10 e st"
| "lzvn_step e LZVN_11 st = lzvn_11 e st"

partial_function (option) lzvn_run :: "lzvn_env \<Rightarrow> label \<Rightarrow> lzvn \<Rightarrow> (EFI_STATUS \<times> u64 option \<times> u8 list) option" where
  "lzvn_run e jmpTo st = do {
     r \<leftarrow> lzvn_step e jmpTo st;
     case r of Return status n d \<Rightarrow> Some (status, n, d)
     | Jump l st \<Rightarrow> lzvn_run e l st
   }"

declare lzvn_run.simps [code]

definition BlDecompressLZVN :: "u64 \<Rightarrow> u8 list \<Rightarrow> u64 \<Rightarrow> u8 list \<Rightarrow> (EFI_STATUS \<times> u64 option \<times> u8 list) option" where
  "BlDecompressLZVN compressedBuffer input uncompressedBuffer outBytes =
     (let n = of_nat (length outBytes) - 8;
          e = \<lparr>inputBase = compressedBuffer, inputBytes = input, decompBuffer = uncompressedBuffer, decompressedSize = n,
               compressedSize = compressedBuffer + of_nat (length input) - 8\<rparr>;
          st = \<lparr>len = 0, compBuffer = compressedBuffer, compBufferPointer = 0, caseTableIndex = 0, byteCount = 0,
                currentLength = 0, negativeOffset = 0, dst = outBytes\<rparr>
      in if n < 8 then Some (EFI_LOAD_ERROR, None, outBytes)
         else if compBuffer st > compressedSize e then Some (EFI_LOAD_ERROR, None, outBytes)
         else do {
           w \<leftarrow> load64 compressedBuffer input compressedBuffer;
           lzvn_run e CASE_TABLE (st\<lparr>compBufferPointer := w, caseTableIndex := w AND 255\<rparr>)
         })"

end
