(* ===== verification/LzvnCopy.thy ===== *)
theory LzvnCopy
  imports Lzvn
begin

text \<open>Words as eight bytes, and what the copy loops of the LZVN decompressor do.\<close>

section \<open>Words and bytes\<close>

lemma word_of_simps [simp]: "word_of [] = 0" "word_of (x # xs) = ucast x OR push_bit 8 (word_of xs)"
  by (simp_all add: word_of_def)

lemma next_byte: "(m + 8) div 8 = Suc (m div 8)" "(8 + m) div 8 = Suc (m div 8)" for m :: nat
  by simp_all

lemma bit_word_of: "bit (word_of xs) n \<longleftrightarrow> n < 64 \<and> n div 8 < length xs \<and> bit (xs ! (n div 8)) (n mod 8)"
proof (induction xs arbitrary: n)
  case (Cons x xs)
  show ?case
  proof (cases "n < 8")
    case True
    then show ?thesis by (simp add: bit_simps)
  next
    case False
    then obtain m where m: "n = m + 8" by (metis add.commute le_Suc_ex not_less)
    then show ?thesis using Cons [of m] by (auto simp: bit_simps next_byte dest: bit_imp_le_length)
  qed
qed simp

lemma drop_byte: "length xs \<le> 7 \<Longrightarrow> drop_bit 8 (word_of (x # xs)) = word_of xs"
  by (rule bit_eqI) (auto simp: bit_drop_bit_eq bit_word_of next_byte simp del: word_of_simps(2))

lemma drop_bytes: "length xs \<le> 8 \<Longrightarrow> drop_bit (8 * k) (word_of xs) = word_of (drop k xs)"
proof (induction k arbitrary: xs)
  case (Suc k)
  show ?case
  proof (cases xs)
    case (Cons x ys)
    have "drop_bit (8 * Suc k) (word_of xs) = drop_bit (8 * k) (drop_bit 8 (word_of xs))" by (simp add: ac_simps)
    also have "\<dots> = word_of (drop k ys)" using Suc.IH [of ys] Suc.prems Cons drop_byte [of ys x] by (simp del: word_of_simps(2))
    finally show ?thesis by (simp add: Cons)
  qed simp
qed simp

lemma low_byte: "(ucast (word_of (x # xs)) :: u8) = x"
  by (rule bit_eqI) (auto simp: bit_simps dest: bit_imp_le_length)

lemma bytes_of_word_of:
  assumes "length xs = 8"
  shows "bytes_of (word_of xs) = xs"
proof (rule nth_equalityI)
  show "length (bytes_of (word_of xs)) = length xs" using assms by (simp add: bytes_of_def)
next
  fix i assume i: "i < length (bytes_of (word_of xs))"
  then have "bytes_of (word_of xs) ! i = ucast (drop_bit (8 * i) (word_of xs))" by (simp add: bytes_of_def)
  also have "\<dots> = ucast (word_of (drop i xs))" using assms by (simp add: drop_bytes)
  also have "drop i xs = xs ! i # drop (Suc i) xs" using i assms by (simp add: bytes_of_def Cons_nth_drop_Suc)
  finally show "bytes_of (word_of xs) ! i = xs ! i" by (simp only: low_byte)
qed

lemma length_bytes_of [simp]: "length (bytes_of w) = 8"
  by (simp add: bytes_of_def)

lemma bytes_of_prefix:
  assumes "length xs \<le> 8"
  shows "take (length xs) (bytes_of (word_of xs)) = xs"
proof (rule nth_equalityI)
  show "length (take (length xs) (bytes_of (word_of xs))) = length xs" using assms by simp
next
  fix i assume i: "i < length (take (length xs) (bytes_of (word_of xs)))"
  then have "take (length xs) (bytes_of (word_of xs)) ! i = ucast (drop_bit (8 * i) (word_of xs))" by (simp add: bytes_of_def)
  also have "\<dots> = ucast (word_of (drop i xs))" using assms by (simp add: drop_bytes)
  also have "drop i xs = xs ! i # drop (Suc i) xs" using i by (simp add: Cons_nth_drop_Suc)
  finally show "take (length xs) (bytes_of (word_of xs)) ! i = xs ! i" by (simp only: low_byte)
qed

lemma word_low_byte: "word_of (x # xs) AND 255 = ucast x"
proof -
  have "word_of (x # xs) AND mask 8 = ucast x" by (rule bit_eqI) (auto simp: bit_simps dest: bit_imp_le_length)
  then show ?thesis by (simp add: mask_eq_exp_minus_1)
qed

section \<open>Access to the buffers\<close>

lemma unat_offset: "i < 2 ^ 64 \<Longrightarrow> unat ((base :: u64) + of_nat i - base) = i"
  by (simp add: unat_of_nat_small)

lemma load64_at: "i + 8 \<le> length b \<Longrightarrow> length b < 2 ^ 64 \<Longrightarrow> load64 base b (base + of_nat i) = Some (word_of (take 8 (drop i b)))"
  by (simp add: load64_def unat_of_nat_small)

lemma put64_at: "i + 8 \<le> length b \<Longrightarrow> length b < 2 ^ 64 \<Longrightarrow> put64 base (base + of_nat i) w b = Some (overlay b i (bytes_of w))"
  by (simp add: put64_def unat_of_nat_small)

lemma load8_at: "i < length b \<Longrightarrow> length b < 2 ^ 64 \<Longrightarrow> load8 base b (base + of_nat i) = Some (b ! i)"
  by (simp add: load8_def unat_of_nat_small)

lemma put8_at: "i < length b \<Longrightarrow> length b < 2 ^ 64 \<Longrightarrow> put8 base (base + of_nat i) x b = Some (b[i := x])"
  by (simp add: put8_def unat_of_nat_small)

section \<open>Matches\<close>

text \<open>A match of n bytes at the given distance.\<close>

fun copy_match :: "nat \<Rightarrow> nat \<Rightarrow> u8 list \<Rightarrow> u8 list" where
  "copy_match 0 d t = t"
| "copy_match (Suc n) d t = copy_match n d (t @ [t ! (length t - d)])"

lemma length_copy_match [simp]: "length (copy_match n d t) = length t + n"
  by (induction n arbitrary: t) simp_all

lemma copy_match_add: "copy_match (n + m) d t = copy_match m d (copy_match n d t)"
  by (induction n arbitrary: t) simp_all

lemma copy_match_block:
  assumes "n \<le> d" and "d \<le> length t"
  shows "copy_match n d t = t @ take n (drop (length t - d) t)"
  using assms
proof (induction n)
  case (Suc n)
  have "copy_match (Suc n) d t = copy_match 1 d (copy_match n d t)" using copy_match_add [of n 1] by simp
  also have "\<dots> = copy_match n d t @ [t ! (length t - d + n)]"
    using Suc by (simp add: nth_append)
  also have "\<dots> = t @ take (Suc n) (drop (length t - d) t)" using Suc by (simp add: take_Suc_conv_app_nth)
  finally show ?case .
qed simp

section \<open>The loops\<close>

text \<open>What a loop leaves alone.\<close>

definition same_regs :: "lzvn \<Rightarrow> lzvn \<Rightarrow> bool" where
  "same_regs st st' \<longleftrightarrow> compBuffer st' = compBuffer st \<and> negativeOffset st' = negativeOffset st \<and> length (dst st') = length (dst st)"

lemma same_regs_trans: "same_regs st st1 \<Longrightarrow> same_regs st1 st2 \<Longrightarrow> same_regs st st2"
  by (simp add: same_regs_def)

lemma of_nat_less_64: "n < 2 ^ 64 \<Longrightarrow> m < 2 ^ 64 \<Longrightarrow> (of_nat n :: u64) < of_nat m \<longleftrightarrow> n < m"
  by (simp add: word_less_nat_alt unat_of_nat_small)

lemma byte_word: "ucast (ucast (x :: u8) :: u64) = x"
  by (rule bit_eqI) (auto simp: bit_simps dest: bit_imp_le_length)

lemma block_copy:
  assumes "8 \<le> d" and "d \<le> l" and "l + 8 \<le> length b"
  shows "take (l + 8) (overlay b l (take 8 (drop (l - d) b))) = copy_match 8 d (take l b)"
proof -
  have "take 8 (drop (l - d) b) = take 8 (drop (l - d) (take l b))" using assms by (simp add: drop_take)
  then have "copy_match 8 d (take l b) = take l b @ take 8 (drop (l - d) b)"
    using copy_match_block [of 8 d "take l b"] assms by simp
  then show ?thesis using take_overlay [of l b "take 8 (drop (l - d) b)"] assms by simp
qed

lemma copy_words_back_ok:
  assumes "len st = of_nat l" and "compBufferPointer st = of_nat (l - d)" and "byteCount st = of_nat m" and "8 \<le> d" and "d \<le> l" and "1 \<le> m"
    and "l + m + 8 \<le> length (dst st)" and "length (dst st) < 2 ^ 64"
  shows "\<exists>st'. copy_words_back e st = Some st' \<and> len st' + byteCount st' = of_nat (l + m) \<and>
    take (l + m) (dst st') = copy_match m d (take l (dst st)) \<and> same_regs st st'"
  using assms
proof (induction m arbitrary: st l rule: less_induct)
  case (less m)
  let ?x = "take 8 (drop (l - d) (dst st))"
  define st1 where "st1 = st\<lparr>caseTableIndex := word_of ?x, compBufferPointer := of_nat (l - d) + 8, dst := overlay (dst st) l ?x,
    len := of_nat l + 8, byteCount := of_nat m - 8\<rparr>"
  have x: "length ?x = 8" using less.prems by simp
  have "copy_words_back e st = (if byteCount st1 + 8 > 8 then copy_words_back e st1 else Some st1)"
    using less.prems x load64_at [of "l - d" "dst st" "decompBuffer e"] put64_at [of l "dst st" "decompBuffer e"]
    by (subst copy_words_back.simps) (simp add: Let_def st1_def bytes_of_word_of)
  also have "byteCount st1 + 8 > 8 \<longleftrightarrow> m > 8"
    using of_nat_less_64 [of 8 m] less.prems by (simp add: st1_def)
  finally have run: "copy_words_back e st = (if m > 8 then copy_words_back e st1 else Some st1)" .
  have blk: "take (l + 8) (dst st1) = copy_match 8 d (take l (dst st))"
    using block_copy [of d l "dst st"] less.prems by (simp add: st1_def)
  have regs: "same_regs st st1" using less.prems x by (simp add: same_regs_def st1_def)
  show ?case
  proof (cases "m > 8")
    case True
    have "\<exists>st'. copy_words_back e st1 = Some st' \<and> len st' + byteCount st' = of_nat ((l + 8) + (m - 8)) \<and>
        take ((l + 8) + (m - 8)) (dst st') = copy_match (m - 8) d (take (l + 8) (dst st1)) \<and> same_regs st1 st'"
      using True less.prems x by (intro less.IH) (simp_all add: st1_def of_nat_diff)
    moreover have "copy_match m d (take l (dst st)) = copy_match (m - 8) d (take (l + 8) (dst st1))"
      using True copy_match_add [of 8 "m - 8" d "take l (dst st)"] blk by simp
    ultimately show ?thesis using True run regs same_regs_trans by auto
  next
    case False
    have "take (l + m) (dst st1) = take (l + m) (copy_match 8 d (take l (dst st)))"
      using False blk [symmetric] by simp
    also have "\<dots> = copy_match m d (take l (dst st))"
      using False less.prems copy_match_block [of 8 d "take l (dst st)"] copy_match_block [of m d "take l (dst st)"] by simp
    finally show ?thesis using False run regs by (simp add: st1_def)
  qed
qed

lemma copy_bytes_back_ok:
  assumes "len st = of_nat l" and "compBufferPointer st = of_nat (l - d)" and "byteCount st = of_nat m" and "1 \<le> d" and "d \<le> l" and "1 \<le> m"
    and "currentLength st = of_nat c" and "l + m < c" and "c \<le> length (dst st)" and "length (dst st) < 2 ^ 64"
  shows "\<exists>st'. copy_bytes_back e st = Some (False, st') \<and> len st' = of_nat (l + m) \<and>
    take (l + m) (dst st') = copy_match m d (take l (dst st)) \<and> same_regs st st'"
  using assms
proof (induction m arbitrary: st l)
  case (Suc m)
  let ?x = "dst st ! (l - d)"
  define st1 where "st1 = st\<lparr>caseTableIndex := ucast ?x, compBufferPointer := of_nat (l - d) + 1, dst := (dst st)[l := ?x],
    len := of_nat l + 1, byteCount := of_nat m\<rparr>"
  have "(of_nat (Suc l) :: u64) \<noteq> of_nat c" using Suc.prems by (simp add: word_unat_eq_iff unat_of_nat_small del: of_nat_Suc)
  then have "(of_nat l + 1 :: u64) \<noteq> of_nat c" by (simp add: add.commute)
  moreover have "(of_nat m :: u64) = 0 \<longleftrightarrow> m = 0" using Suc.prems by (simp add: word_unat_eq_iff unat_of_nat_small)
  ultimately have run: "copy_bytes_back e st = (if m \<noteq> 0 then copy_bytes_back e st1 else Some (False, st1))"
    using Suc.prems load8_at [of "l - d" "dst st" "decompBuffer e"] put8_at [of l "dst st" "decompBuffer e"]
    by (subst copy_bytes_back.simps) (simp add: Let_def st1_def byte_word)
  have "take (Suc l) (dst st1) = take l (dst st) @ [take l (dst st) ! (length (take l (dst st)) - d)]"
    using Suc.prems by (simp add: st1_def take_Suc_conv_app_nth)
  then have step: "copy_match (Suc m) d (take l (dst st)) = copy_match m d (take (Suc l) (dst st1))" by simp
  have regs: "same_regs st st1" by (simp add: same_regs_def st1_def)
  show ?case
  proof (cases "m = 0")
    case True
    then show ?thesis using run step regs by (simp add: st1_def)
  next
    case False
    have "\<exists>st'. copy_bytes_back e st1 = Some (False, st') \<and> len st' = of_nat (Suc l + m) \<and>
        take (Suc l + m) (dst st') = copy_match m d (take (Suc l) (dst st1)) \<and> same_regs st1 st'"
      using False Suc.prems by (intro Suc.IH) (simp_all add: st1_def Suc_diff_le)
    then show ?thesis using False run step regs same_regs_trans by auto
  qed
qed simp

lemma copy_words_in_ok:
  assumes "compBufferPointer st = - of_nat n" and "compBuffer st = inputBase e + of_nat c" and "c + 8 \<le> length (inputBytes e)" and "n \<le> c" and "1 \<le> n"
    and "currentLength st = decompBuffer e + of_nat l" and "n \<le> l" and "l + 8 \<le> length (dst st)"
    and "length (dst st) < 2 ^ 64" and "length (inputBytes e) < 2 ^ 64"
  shows "\<exists>st'. copy_words_in e st = Some st' \<and> take l (dst st') = take (l - n) (dst st) @ take n (drop (c - n) (inputBytes e)) \<and>
    same_regs st st' \<and> currentLength st' = currentLength st"
  using assms
proof (induction n arbitrary: st rule: less_induct)
  case (less n)
  let ?x = "take 8 (drop (c - n) (inputBytes e))"
  define st1 where "st1 = st\<lparr>caseTableIndex := word_of ?x, dst := overlay (dst st) (l - n) ?x, compBufferPointer := - of_nat n + 8\<rparr>"
  have x: "length ?x = 8" using less.prems by simp
  have a: "compBuffer st + compBufferPointer st = inputBase e + of_nat (c - n)" "currentLength st + compBufferPointer st = decompBuffer e + of_nat (l - n)"
    using less.prems by (simp_all add: of_nat_diff)
  have ld: "load64 (inputBase e) (inputBytes e) (compBuffer st + compBufferPointer st) = Some (word_of ?x)"
    unfolding a using less.prems by (intro load64_at) simp_all
  have pt: "put64 (decompBuffer e) (currentLength st + compBufferPointer st) (word_of ?x) (dst st) = Some (overlay (dst st) (l - n) ?x)"
    unfolding a using less.prems x by (subst put64_at) (simp_all add: bytes_of_word_of)
  have "copy_words_in e st = (if 0xFFFFFFFFFFFFFFFF - (compBufferPointer st1 - 8) \<ge> 8 then copy_words_in e st1 else Some st1)"
    by (subst copy_words_in.simps) (simp only: ld pt bind.bind_lunit, simp add: Let_def st1_def less.prems(1))
  also have "0xFFFFFFFFFFFFFFFF - (compBufferPointer st1 - 8) = of_nat (n - 1)"
    using less.prems(5) by (simp add: st1_def of_nat_diff)
  also have "(8 :: u64) \<le> of_nat (n - 1) \<longleftrightarrow> n > 8"
    using less.prems unat_of_nat_small [where 'a = 64, of "n - 1"] by (auto simp: word_le_nat_alt)
  finally have run: "copy_words_in e st = (if n > 8 then copy_words_in e st1 else Some st1)" .
  have blk: "take (l - n + 8) (dst st1) = take (l - n) (dst st) @ ?x"
    using take_overlay [of "l - n" "dst st" ?x] less.prems x by (simp add: st1_def)
  have regs: "same_regs st st1" "currentLength st1 = currentLength st" using less.prems x by (simp_all add: same_regs_def st1_def)
  show ?case
  proof (cases "n > 8")
    case True
    have "\<exists>st'. copy_words_in e st1 = Some st' \<and>
        take l (dst st') = take (l - (n - 8)) (dst st1) @ take (n - 8) (drop (c - (n - 8)) (inputBytes e)) \<and>
        same_regs st1 st' \<and> currentLength st' = currentLength st1"
      using True less.prems x by (intro less.IH) (simp_all add: st1_def of_nat_diff)
    moreover have "take (l - (n - 8)) (dst st1) @ take (n - 8) (drop (c - (n - 8)) (inputBytes e)) =
        take (l - n) (dst st) @ take n (drop (c - n) (inputBytes e))"
    proof -
      have e: "l - (n - 8) = l - n + 8" "c - (n - 8) = 8 + (c - n)" "8 + (n - 8) = n" using True less.prems by simp_all
      have "take n (drop (c - n) (inputBytes e)) = ?x @ take (n - 8) (drop (8 + (c - n)) (inputBytes e))"
        using take_add [of 8 "n - 8" "drop (c - n) (inputBytes e)"] unfolding e drop_drop by simp
      then show ?thesis by (simp only: e blk append_assoc)
    qed
    ultimately show ?thesis using True run regs same_regs_trans by auto
  next
    case False
    have lim: "l - n + n = l" "n \<le> 8" using False less.prems by simp_all
    have "take l (dst st1) = take (l - n + n) (take (l - n + 8) (dst st1))"
      using lim by (simp only: take_take min.absorb1 add_left_mono)
    also have "\<dots> = take (l - n) (dst st) @ take n ?x" unfolding blk using less.prems by simp
    also have "take n ?x = take n (drop (c - n) (inputBytes e))" using lim(2) by (simp only: take_take min.absorb1)
    finally show ?thesis using False run regs by simp
  qed
qed

end
