(* ===== verification/LzvnOps.thy ===== *)
theory LzvnOps
  imports LzvnCopy
begin

text \<open>The opcodes of LZVN: their bytes, what they mean, and the fields that the decompressor takes from them.\<close>

section \<open>Words as numbers\<close>

lemma unat_word_of_Cons: "length xs \<le> 7 \<Longrightarrow> unat (word_of (x # xs)) = unat x + 256 * unat (word_of xs)"
proof -
  assume xs: "length xs \<le> 7"
  have "unat (word_of (x # xs)) = 256 * (unat (word_of (x # xs)) div 256) + unat (word_of (x # xs)) mod 256" by simp
  also have "unat (word_of (x # xs)) div 256 = unat (word_of xs)"
    using unat_drop_bit [of 8 "word_of (x # xs)"] drop_byte [OF xs, of x] by simp
  also have "unat (word_of (x # xs)) mod 256 = unat (word_of (x # xs) AND 255)"
    using unat_and_mask [of "word_of (x # xs)" 8] by (simp add: mask_eq_exp_minus_1)
  also have "\<dots> = unat x" by (simp only: word_low_byte) (simp add: unat_ucast_up)
  finally show ?thesis by simp
qed

lemma word_field: "drop_bit k w AND mask m = (of_nat (unat w div 2 ^ k mod 2 ^ m) :: u64)"
proof -
  have "drop_bit k w AND mask m = (of_nat (unat (drop_bit k w AND mask m)) :: u64)" by simp
  also have "unat (drop_bit k w AND mask m) = unat w div 2 ^ k mod 2 ^ m" by (simp only: unat_and_mask unat_drop_bit)
  finally show ?thesis .
qed

lemma word_low_field: "w AND mask m = (of_nat (unat w mod 2 ^ m) :: u64)"
  using word_field [of 0 w m] by simp

lemma mask_numerals: "(7 :: u64) = mask 3" "(3 :: u64) = mask 2" "(15 :: u64) = mask 4" "(255 :: u64) = mask 8" "(65535 :: u64) = mask 16"
  "(16383 :: u64) = mask 14"
  by (simp_all add: mask_eq_exp_minus_1)

lemma match_field: "drop_bit 3 (56 AND w) = (drop_bit 3 w AND mask 3 :: u64)"
proof (rule bit_eqI)
  fix n assume "possible_bit TYPE(u64) n"
  show "bit (drop_bit 3 (56 AND w)) n = bit (drop_bit 3 w AND mask 3) n"
  proof (cases "n < 3")
    case True
    then have "n = 0 \<or> n = 1 \<or> n = 2" by auto
    then show ?thesis by (elim disjE) (simp_all add: bit_simps)
  next
    case False
    have c: "(56 :: u64) = push_bit 3 (mask 3)" by (simp add: mask_eq_exp_minus_1)
    show ?thesis using False unfolding c by (simp add: bit_simps)
  qed
qed

lemma less_11: "k < (11 :: nat) \<Longrightarrow> k \<in> {10, 9, 8, 7, 6, 5, 4, 3, 2, 1, 0}"
  by simp presburger

lemma swap_match: "drop_bit 61 (push_bit 2 (OSSwapInt64 w)) = (drop_bit 3 w AND mask 3)"
proof (rule bit_eqI)
  fix n assume "possible_bit TYPE(u64) n"
  show "bit (drop_bit 61 (push_bit 2 (OSSwapInt64 w))) n = bit (drop_bit 3 w AND mask 3) n"
  proof (cases "n < 3")
    case True
    then have "n = 0 \<or> n = 1 \<or> n = 2" by auto
    then show ?thesis by (elim disjE) (simp_all add: OSSwapInt64_def bit_simps)
  qed (simp add: bit_simps)
qed

lemma swap_distance: "drop_bit 53 (push_bit 5 (OSSwapInt64 w)) = (push_bit 8 (w AND mask 3) OR (drop_bit 8 w AND mask 8))"
proof (rule bit_eqI)
  fix n assume "possible_bit TYPE(u64) n"
  show "bit (drop_bit 53 (push_bit 5 (OSSwapInt64 w))) n = bit (push_bit 8 (w AND mask 3) OR (drop_bit 8 w AND mask 8)) n"
  proof (cases "n < 11")
    case True
    then show ?thesis by (auto dest!: less_11 simp: OSSwapInt64_def bit_simps)
  next
    case False
    then have "\<not> n - 8 < 3" by linarith
    then show ?thesis using False by (simp add: bit_simps)
  qed
qed

lemma medium_match:
  "drop_bit 8 (w AND 775) OR push_bit 2 ((w AND 775) AND 255) = (push_bit 2 (w AND mask 3) OR (drop_bit 8 w AND mask 2) :: u64)"
proof (rule bit_eqI)
  fix n assume "possible_bit TYPE(u64) n"
  have c: "(775 :: u64) = mask 3 OR push_bit 8 (mask 2)" "(255 :: u64) = mask 8" by (simp_all add: mask_eq_exp_minus_1)
  show "bit (drop_bit 8 (w AND 775) OR push_bit 2 ((w AND 775) AND 255)) n = bit (push_bit 2 (w AND mask 3) OR (drop_bit 8 w AND mask 2)) n"
    unfolding c by (auto simp: bit_simps)
qed

section \<open>Opcodes\<close>

text \<open>
  Literals, a match at the last distance, and literals with a match, at the last distance or with a
  distance of 11, 14 or 16 bits.
\<close>

datatype lzvn_op = Nop bool | Literals "u8 list" | Again nat | Previous "u8 list" nat
  | Small "u8 list" nat nat | Medium "u8 list" nat nat | Large "u8 list" nat nat

fun op_bytes :: "lzvn_op \<Rightarrow> u8 list" where
  "op_bytes (Nop b) = [if b then 0x0e else 0x16]"
| "op_bytes (Literals bs) = (if length bs < 16 then [of_nat (0xe0 + length bs)] else [0xe0, of_nat (length bs - 16)]) @ bs"
| "op_bytes (Again m) = (if m < 16 then [of_nat (0xf0 + m)] else [0xf0, of_nat (m - 16)])"
| "op_bytes (Previous ls m) = of_nat (64 * length ls + 8 * (m - 3) + 6) # ls"
| "op_bytes (Small ls m d) = [of_nat (64 * length ls + 8 * (m - 3) + d div 256), of_nat (d mod 256)] @ ls"
| "op_bytes (Medium ls m d) = [of_nat (0xa0 + 8 * length ls + (m - 3) div 4), of_nat (4 * (d mod 64) + (m - 3) mod 4), of_nat (d div 64)] @ ls"
| "op_bytes (Large ls m d) = [of_nat (64 * length ls + 8 * (m - 3) + 7), of_nat (d mod 256), of_nat (d div 256)] @ ls"

text \<open>Which numbers of literals and match lengths the two fields of the first byte can have.\<close>

definition short_ok :: "nat \<Rightarrow> nat \<Rightarrow> bool" where
  "short_ok l c \<longleftrightarrow> c < 8 \<and> (l = 0 \<or> l = 1 \<and> c < 6 \<or> l = 2 \<and> c < 4 \<or> l = 3 \<and> c < 2)"

fun op_ok :: "lzvn_op \<Rightarrow> bool" where
  "op_ok (Nop b) = True"
| "op_ok (Literals bs) = (1 \<le> length bs \<and> length bs \<le> 271)"
| "op_ok (Again m) = (1 \<le> m \<and> m \<le> 271)"
| "op_ok (Previous ls m) = (3 \<le> m \<and> short_ok (length ls) (m - 3) \<and> ls \<noteq> [])"
| "op_ok (Small ls m d) = (3 \<le> m \<and> short_ok (length ls) (m - 3) \<and> d < 1536)"
| "op_ok (Medium ls m d) = (3 \<le> m \<and> m \<le> 34 \<and> length ls \<le> 3 \<and> d < 2 ^ 14)"
| "op_ok (Large ls m d) = (3 \<le> m \<and> short_ok (length ls) (m - 3) \<and> d < 2 ^ 16)"

text \<open>What an opcode means: the text and the last distance after it.\<close>

fun op_distance :: "lzvn_op \<Rightarrow> nat \<Rightarrow> nat" where
  "op_distance (Small ls m d') d = d'"
| "op_distance (Medium ls m d') d = d'"
| "op_distance (Large ls m d') d = d'"
| "op_distance _ d = d"

fun op_literals :: "lzvn_op \<Rightarrow> u8 list" where
  "op_literals (Literals bs) = bs"
| "op_literals (Previous ls m) = ls"
| "op_literals (Small ls m d) = ls"
| "op_literals (Medium ls m d) = ls"
| "op_literals (Large ls m d) = ls"
| "op_literals _ = []"

fun op_match :: "lzvn_op \<Rightarrow> nat" where
  "op_match (Again m) = m"
| "op_match (Previous ls m) = m"
| "op_match (Small ls m d) = m"
| "op_match (Medium ls m d) = m"
| "op_match (Large ls m d) = m"
| "op_match _ = 0"

fun expand :: "lzvn_op list \<Rightarrow> nat \<Rightarrow> u8 list \<Rightarrow> u8 list" where
  "expand [] d t = t"
| "expand (x # xs) d t = expand xs (op_distance x d) (copy_match (op_match x) (op_distance x d) (t @ op_literals x))"

fun ops_ok :: "lzvn_op list \<Rightarrow> nat \<Rightarrow> nat \<Rightarrow> bool" where
  "ops_ok [] d n = True"
| "ops_ok (x # xs) d n \<longleftrightarrow> op_ok x \<and>
     (op_match x \<noteq> 0 \<longrightarrow> 1 \<le> op_distance x d \<and> op_distance x d \<le> n + length (op_literals x)) \<and>
     ops_ok xs (op_distance x d) (n + length (op_literals x) + op_match x)"

section \<open>The table\<close>

lemma table_short:
  "\<forall>l \<in> set [0..<4]. \<forall>c \<in> set [0..<8]. short_ok l c \<longrightarrow>
     (\<forall>x \<in> set [0..<6]. caseTable ! (64 * l + 8 * c + x) = 1) \<and> caseTable ! (64 * l + 8 * c + 7) = 3 \<and>
     (l \<noteq> 0 \<longrightarrow> caseTable ! (64 * l + 8 * c + 6) = 0)"
  by code_simp

lemma table_runs:
  "\<forall>k \<in> set [1..<16]. caseTable ! (0xe0 + k) = 8 \<and> caseTable ! (0xf0 + k) = 10" "\<forall>k \<in> set [0..<32]. caseTable ! (0xa0 + k) = 6"
  "caseTable ! 0xe0 = 7" "caseTable ! 0xf0 = 9" "caseTable ! 0x0e = 4" "caseTable ! 0x16 = 4" "caseTable ! 6 = 2"
  by code_simp+

lemma short_bound: "short_ok l c \<Longrightarrow> x < 8 \<Longrightarrow> l < 4 \<and> c < 8 \<and> 64 * l + 8 * c + x < 224"
  by (auto simp: short_ok_def)

end
