(* ===== verification/LzvnRun.thy ===== *)
theory LzvnRun
  imports LzvnOps
begin

text \<open>The decompressor on well-formed opcodes: each of them takes it from one opcode to the next.\<close>

section \<open>States between opcodes\<close>

definition env_ok :: "lzvn_env \<Rightarrow> nat \<Rightarrow> bool" where
  "env_ok e N \<longleftrightarrow> 16 \<le> N \<and> N < 2 ^ 63 \<and> decompressedSize e = of_nat (N - 8) \<and> 8 \<le> length (inputBytes e) \<and>
     unat (inputBase e) + length (inputBytes e) < 2 ^ 64 \<and> compressedSize e = inputBase e + of_nat (length (inputBytes e) - 8)"

definition at_input :: "lzvn_env \<Rightarrow> nat \<Rightarrow> lzvn \<Rightarrow> bool" where
  "at_input e i st \<longleftrightarrow> i + 8 \<le> length (inputBytes e) \<and> compBuffer st = inputBase e + of_nat i"

definition holds :: "nat \<Rightarrow> u8 list \<Rightarrow> nat \<Rightarrow> lzvn \<Rightarrow> bool" where
  "holds N t d st \<longleftrightarrow> len st = of_nat (length t) \<and> negativeOffset st = of_nat d \<and> length (dst st) = N \<and> length t \<le> N \<and>
     take (length t) (dst st) = t"

definition at_op :: "lzvn_env \<Rightarrow> nat \<Rightarrow> u8 list \<Rightarrow> nat \<Rightarrow> nat \<Rightarrow> lzvn \<Rightarrow> bool" where
  "at_op e N t d i st \<longleftrightarrow> holds N t d st \<and> at_input e i st \<and> compBufferPointer st = word_of (take 8 (drop i (inputBytes e))) \<and>
     caseTableIndex st = ucast (inputBytes e ! i)"

lemma env_limits:
  assumes "env_ok e N"
  shows "unat (decompressedSize e) = N - 8" and "unat (compressedSize e) = unat (inputBase e) + (length (inputBytes e) - 8)"
proof -
  have b: "N - 8 < 2 ^ 64" "length (inputBytes e) - 8 < 2 ^ 64" using assms by (auto simp: env_ok_def)
  have n: "unat (of_nat (N - 8) :: u64) = N - 8" "unat (of_nat (length (inputBytes e) - 8) :: u64) = length (inputBytes e) - 8"
    using unat_of_nat_small [where 'a = 64] b by (simp_all del: of_nat_diff)
  show "unat (decompressedSize e) = N - 8" using assms n(1) by (simp only: env_ok_def)
  have "unat (inputBase e) + unat (of_nat (length (inputBytes e) - 8) :: u64) < 2 ^ 64" unfolding n(2) using assms by (auto simp: env_ok_def)
  then show "unat (compressedSize e) = unat (inputBase e) + (length (inputBytes e) - 8)"
    using assms n(2) unat_add_small [of "inputBase e" "of_nat (length (inputBytes e) - 8)"] by (simp only: env_ok_def) simp
qed

lemma not_beyond: "env_ok e N \<Longrightarrow> i + 8 \<le> length (inputBytes e) \<Longrightarrow> \<not> compressedSize e < inputBase e + of_nat i"
proof -
  assume e: "env_ok e N" and i: "i + 8 \<le> length (inputBytes e)"
  have "unat (inputBase e + of_nat i) = unat (inputBase e) + i"
    using e i by (subst unat_add_small) (simp_all add: env_ok_def unat_of_nat_small)
  then show ?thesis using i env_limits(2) [OF e] by (simp add: word_less_nat_alt)
qed

lemma next_op_ok:
  assumes "env_ok e N" and "holds N t d st" and "at_input e i st"
  shows "\<exists>st'. next_op e st = Some (Jump CASE_TABLE st') \<and> at_op e N t d i st'"
proof -
  have i: "i + 8 \<le> length (inputBytes e)" using assms(3) by (simp add: at_input_def)
  then have "take 8 (drop i (inputBytes e)) = inputBytes e ! i # take 7 (drop (Suc i) (inputBytes e))"
    by (simp add: Cons_nth_drop_Suc [symmetric])
  then have "word_of (take 8 (drop i (inputBytes e))) AND 255 = ucast (inputBytes e ! i)" by (simp only: word_low_byte)
  moreover have "load64 (inputBase e) (inputBytes e) (compBuffer st) = Some (word_of (take 8 (drop i (inputBytes e))))"
    using assms i by (simp add: at_input_def env_ok_def load64_at)
  ultimately show ?thesis using assms by (simp add: next_op_def at_op_def holds_def at_input_def)
qed

section \<open>Literals and matches\<close>

lemma literals_ok:
  assumes e: "env_ok e N" and st: "holds N t d st" "at_input e c st" and p: "compBufferPointer st = of_nat n" "1 \<le> n" "n \<le> c"
    and room: "length t + n + 8 \<le> N"
  shows "\<exists>st'. lzvn_0 e st = Some (Jump CASE_TABLE st') \<and> at_op e N (t @ take n (drop (c - n) (inputBytes e))) d c st'"
proof -
  let ?l = "length t + n" and ?x = "take n (drop (c - n) (inputBytes e))"
  define st1 where "st1 = st\<lparr>compBufferPointer := - of_nat n, currentLength := decompBuffer e + of_nat ?l\<rparr>"
  have c: "c + 8 \<le> length (inputBytes e)" using st(2) by (simp add: at_input_def)
  have "\<not> decompressedSize e < of_nat ?l" using e room env_limits(1) [OF e] by (simp add: env_ok_def word_less_nat_alt unat_of_nat_small del: of_nat_add)
  then have run: "lzvn_0 e st = lzvn_1 e st1"
    using not_beyond [OF e c] st p by (simp add: lzvn_0_def Let_def st1_def holds_def at_input_def)
  obtain st2 where s2: "copy_words_in e st1 = Some st2" "take ?l (dst st2) = take (?l - n) (dst st1) @ ?x"
    "same_regs st1 st2" "currentLength st2 = currentLength st1"
    using copy_words_in_ok [of st1 n e c ?l] st p c e room by (auto simp: st1_def holds_def at_input_def env_ok_def)
  have "length ?x = n" using c p by simp
  then have "holds N (t @ ?x) d (st2\<lparr>len := currentLength st2 - decompBuffer e\<rparr>)" "at_input e c (st2\<lparr>len := currentLength st2 - decompBuffer e\<rparr>)"
    using s2 st room by (simp_all add: holds_def at_input_def same_regs_def st1_def)
  then show ?thesis using run s2(1) next_op_ok [OF e] by (simp add: lzvn_1_def)
qed

lemma match_ok:
  assumes e: "env_ok e N" and st: "holds N t d st" "at_input e c st" and p: "compBufferPointer st = of_nat (length t - d)" "byteCount st = of_nat m" "1 \<le> m"
    and d: "1 \<le> d" "d \<le> length t" "l = LZVN_4 \<or> l = LZVN_5 \<and> 8 \<le> d" and room: "length t + m + 8 \<le> N"
  shows "\<exists>st'. lzvn_step e l st = Some (Jump CASE_TABLE st') \<and> at_op e N (copy_match m d t) d c st'"
proof (cases "l = LZVN_4")
  case True
  define st1 where "st1 = st\<lparr>currentLength := of_nat N\<rparr>"
  have "decompressedSize e + 8 = of_nat N" using e by (simp add: env_ok_def of_nat_diff)
  then have run: "lzvn_step e l st = lzvn_9 e st1" using True by (simp add: lzvn_4_def st1_def)
  obtain st2 where s2: "copy_bytes_back e st1 = Some (False, st2)" "len st2 = of_nat (length t + m)"
    "take (length t + m) (dst st2) = copy_match m d (take (length t) (dst st1))" "same_regs st1 st2"
    using copy_bytes_back_ok [of st1 "length t" d m N e] st p d room e by (auto simp: st1_def holds_def env_ok_def)
  have "holds N (copy_match m d t) d st2" "at_input e c st2"
    using s2 st room by (simp_all add: holds_def at_input_def same_regs_def st1_def)
  then show ?thesis using run s2(1) next_op_ok [OF e] by (simp add: lzvn_9_def)
next
  case False
  then have l: "l = LZVN_5" "8 \<le> d" using d(3) by auto
  obtain st2 where s2: "copy_words_back e st = Some st2" "len st2 + byteCount st2 = of_nat (length t + m)"
    "take (length t + m) (dst st2) = copy_match m d (take (length t) (dst st))" "same_regs st st2"
    using copy_words_back_ok [of st "length t" d m e] st p d l room e by (auto simp: holds_def env_ok_def)
  have "holds N (copy_match m d t) d (st2\<lparr>len := len st2 + byteCount st2\<rparr>)" "at_input e c (st2\<lparr>len := len st2 + byteCount st2\<rparr>)"
    using s2 st room by (simp_all add: holds_def at_input_def same_regs_def)
  then show ?thesis using l(1) s2(1) next_op_ok [OF e] by (simp add: lzvn_5_def)
qed

lemma take_literals:
  assumes "length xs \<le> 8" and "n \<le> length xs" and "l + 8 \<le> length b"
  shows "take (l + n) (overlay b l (bytes_of (word_of xs))) = take l b @ take n xs"
proof -
  have "take (l + n) (overlay b l (bytes_of (word_of xs))) = take (l + n) (take (l + 8) (overlay b l (bytes_of (word_of xs))))"
    using assms by simp
  also have "\<dots> = take l b @ take n (bytes_of (word_of xs))"
    using take_overlay [of l b "bytes_of (word_of xs)"] assms by simp
  also have "take n (bytes_of (word_of xs)) = take n (take (length xs) (bytes_of (word_of xs)))" using assms(2) by (simp only: take_take min.absorb1)
  also have "\<dots> = take n xs" using bytes_of_prefix [OF assms(1)] by simp
  finally show ?thesis .
qed

lemma pair_ok:
  assumes e: "env_ok e N" and st: "holds N t d st" "at_input e c st"
    and r: "caseTableIndex st = of_nat (length ls)" "byteCount st = of_nat m" "compBufferPointer st = word_of xs" "1 \<le> m"
    and xs: "length xs \<le> 8" "length ls \<le> length xs" "take (length ls) xs = ls"
    and d: "1 \<le> d" "d \<le> length t + length ls" and room: "length t + length ls + m + 8 < N"
  shows "\<exists>l st1 st'. lzvn_10 e st = Some (Jump l st1) \<and> lzvn_step e l st1 = Some (Jump CASE_TABLE st') \<and>
    at_op e N (copy_match m d (t @ ls)) d c st'"
proof -
  let ?k = "length t + length ls"
  let ?l = "if d < 8 then LZVN_4 else LZVN_5"
  define st1 where "st1 = st\<lparr>currentLength := of_nat (?k + m), dst := overlay (dst st) (length t) (bytes_of (word_of xs)),
    len := of_nat ?k, compBufferPointer := of_nat (?k - d)\<rparr>"
  have N: "N < 2 ^ 63" "length (dst st) = N" using e st by (simp_all add: env_ok_def holds_def)
  have cur: "len st + caseTableIndex st + byteCount st = of_nat (?k + m)" using st r by (simp add: holds_def)
  have less: "(of_nat (?k + m) :: u64) < decompressedSize e"
    using env_limits(1) [OF e] room N by (simp add: word_less_nat_alt unat_of_nat_small del: of_nat_add)
  have put: "put64 (decompBuffer e) (decompBuffer e + len st) (word_of xs) (dst st) = Some (overlay (dst st) (length t) (bytes_of (word_of xs)))"
    using st room N put64_at [of "length t" "dst st"] by (simp add: holds_def)
  have far: "\<not> (of_nat ?k :: u64) < of_nat d" "(of_nat d :: u64) < 8 \<longleftrightarrow> d < 8" "(of_nat ?k :: u64) - of_nat d = of_nat (?k - d)"
    using d room N of_nat_less_64 [of ?k d] of_nat_less_64 [of d 8] by (simp_all add: of_nat_diff del: of_nat_add)
  have "lzvn_10 e st = Some (Jump ?l st1)"
    using st cur less put far r by (simp add: lzvn_10_def Let_def st1_def holds_def)
  moreover have "holds N (t @ ls) d st1" "at_input e c st1"
    using st room xs N take_literals [of xs "length ls" "length t" "dst st"] by (simp_all add: holds_def at_input_def st1_def)
  then have "\<exists>st'. lzvn_step e ?l st1 = Some (Jump CASE_TABLE st') \<and> at_op e N (copy_match m d (t @ ls)) d c st'"
    using d room r by (intro match_ok [OF e]) (simp_all add: st1_def)
  ultimately show ?thesis by blast
qed

section \<open>One opcode\<close>

text \<open>From one opcode to the next.\<close>

definition advances :: "lzvn_env \<Rightarrow> nat \<Rightarrow> lzvn_op \<Rightarrow> u8 list \<Rightarrow> nat \<Rightarrow> nat \<Rightarrow> lzvn \<Rightarrow> bool" where
  "advances e N x t d i st \<longleftrightarrow> (\<exists>st'. lzvn_run e CASE_TABLE st = lzvn_run e CASE_TABLE st' \<and>
     at_op e N (copy_match (op_match x) (op_distance x d) (t @ op_literals x)) (op_distance x d) (i + length (op_bytes x)) st')"

lemma run_step: "lzvn_step e l st = Some (Jump l' st') \<Longrightarrow> lzvn_run e l st = lzvn_run e l' st'"
  by (subst lzvn_run.simps) simp

lemma pair_advances:
  assumes "lzvn_table e st = Some (Jump LZVN_10 st1)" and "env_ok e N" and "holds N t (op_distance x d) st1"
    and "at_input e (i + length (op_bytes x)) st1"
    and "caseTableIndex st1 = of_nat (length (op_literals x))" "byteCount st1 = of_nat (op_match x)" "compBufferPointer st1 = word_of xs" "1 \<le> op_match x"
    and "length xs \<le> 8" "length (op_literals x) \<le> length xs" "take (length (op_literals x)) xs = op_literals x"
    and "1 \<le> op_distance x d" "op_distance x d \<le> length t + length (op_literals x)" and "length t + length (op_literals x) + op_match x + 8 < N"
  shows "advances e N x t d i st"
proof -
  obtain l st2 st3 where "lzvn_10 e st1 = Some (Jump l st2)" "lzvn_step e l st2 = Some (Jump CASE_TABLE st3)"
    "at_op e N (copy_match (op_match x) (op_distance x d) (t @ op_literals x)) (op_distance x d) (i + length (op_bytes x)) st3"
    using pair_ok [OF assms(2-14)] by blast
  moreover from this have "lzvn_run e CASE_TABLE st = lzvn_run e CASE_TABLE st3"
    using run_step [of e CASE_TABLE st LZVN_10 st1] run_step [of e LZVN_10 st1 l st2] run_step [of e l st2] assms(1) by simp
  ultimately show ?thesis by (auto simp: advances_def)
qed

end
