(* ===== verification/LzvnFields.thy ===== *)
theory LzvnFields
  imports LzvnRun
begin

text \<open>The fields of each opcode, as the decompressor takes them from a word.\<close>

section \<open>Fields\<close>

lemma unat_byte: "v < 256 \<Longrightarrow> unat (of_nat v :: u8) = v"
  by (simp add: unat_of_nat_small)

lemma split_first:
  fixes l c x z :: nat
  assumes "x < 8"
  shows "(64 * l + 8 * c + x + 256 * z) mod 8 = x" and "c < 8 \<Longrightarrow> (64 * l + 8 * c + x + 256 * z) div 8 mod 8 = c"
proof -
  have e: "64 * l + 8 * c + x + 256 * z = x + 8 * (c + 8 * (l + 4 * z))" by simp
  show "(64 * l + 8 * c + x + 256 * z) mod 8 = x" unfolding e by (simp only: mod_mult_self2 mod_less [OF assms])
  have "(x + 8 * (c + 8 * (l + 4 * z))) div 8 = c + 8 * (l + 4 * z)"
    using assms div_mult_self2 [of 8 x "c + 8 * (l + 4 * z)"] by simp
  then show "c < 8 \<Longrightarrow> (64 * l + 8 * c + x + 256 * z) div 8 mod 8 = c" unfolding e by (simp only: mod_mult_self2 mod_less)
qed

lemma split_byte: "b < 256 \<Longrightarrow> (b + 256 * z) div 256 = z" for b z :: nat
  by simp

lemma join_mod: "d mod k + k * (d div k) = d" for d k :: nat
  by simp

lemma short_fields:
  assumes "short_ok l c" and "x < 8" and "length ys \<le> 7" and "b = (of_nat (64 * l + 8 * c + x) :: u8)"
  shows "unat b = 64 * l + 8 * c + x" and "drop_bit 6 (ucast b :: u64) = of_nat l"
    and "drop_bit 3 (56 AND word_of (b # ys)) = of_nat c" and "drop_bit 61 (push_bit 2 (OSSwapInt64 (word_of (b # ys)))) = of_nat c"
proof -
  have v: "l < 4" "c < 8" "64 * l + 8 * c + x < 224" using short_bound [OF assms(1,2)] by simp_all
  then show b: "unat b = 64 * l + 8 * c + x" unfolding assms(4) by (intro unat_byte) simp
  have "unat (drop_bit 6 (ucast b :: u64)) = l"
  proof -
    have "unat (ucast b :: u64) = 8 * c + x + 64 * l" using b by (simp add: unat_ucast_up)
    moreover have "8 * c + x < 64" using v assms(2) by simp
    ultimately show ?thesis by (simp only: unat_drop_bit) simp
  qed
  then show "drop_bit 6 (ucast b :: u64) = of_nat l" using v by (simp add: word_unat_eq_iff unat_of_nat_small)
  have "unat (word_of (b # ys)) div 2 ^ 3 mod 2 ^ 3 = (64 * l + 8 * c + x + 256 * unat (word_of ys)) div 8 mod 8"
    by (simp only: unat_word_of_Cons [OF assms(3)] b) simp
  also have "\<dots> = c" by (rule split_first(2) [OF assms(2) v(2)])
  finally have c: "unat (word_of (b # ys)) div 2 ^ 3 mod 2 ^ 3 = c" .
  show "drop_bit 3 (56 AND word_of (b # ys)) = of_nat c" unfolding match_field word_field c ..
  show "drop_bit 61 (push_bit 2 (OSSwapInt64 (word_of (b # ys)))) = of_nat c" unfolding swap_match word_field c ..
qed

lemma small_distance:
  assumes "short_ok l c" and "d < 1536" and "length ys \<le> 6"
    and "b = (of_nat (64 * l + 8 * c + d div 256) :: u8)" and "b' = (of_nat (d mod 256) :: u8)"
  shows "drop_bit 53 (push_bit 5 (OSSwapInt64 (word_of (b # b' # ys)))) = of_nat d"
proof -
  let ?W = "unat (word_of (b # b' # ys))"
  have v: "64 * l + 8 * c + d div 256 < 224" using short_bound [OF assms(1), of "d div 256"] assms(2) by simp
  have u: "unat b = 64 * l + 8 * c + d div 256" "unat b' = d mod 256" unfolding assms(4,5) using v by (intro unat_byte, simp)+
  have W: "?W = 64 * l + 8 * c + d div 256 + 256 * (d mod 256 + 256 * unat (word_of ys))"
    using assms(3) by (simp only: unat_word_of_Cons list.size u)
  have "?W mod 8 = d div 256" unfolding W using assms(2) by (intro split_first(1)) simp
  then have "?W mod 2 ^ 3 = d div 256" by simp
  moreover have "?W div 256 = d mod 256 + 256 * unat (word_of ys)" unfolding W using v by (intro split_byte) simp
  then have "?W div 256 mod 256 = d mod 256" by (simp only: mod_mult_self2 mod_mod_trivial)
  then have "?W div 2 ^ 8 mod 2 ^ 8 = d mod 256" by simp
  ultimately have "drop_bit 53 (push_bit 5 (OSSwapInt64 (word_of (b # b' # ys)))) = push_bit 8 (of_nat (d div 256)) OR of_nat (d mod 256)"
    unfolding swap_distance word_field word_low_field by (simp only: unat_drop_bit)
  also have "\<dots> = of_nat (2 ^ 8 * (d div 256) + d mod 256)" by (rule join_bits) simp
  finally show ?thesis by simp
qed

lemma large_distance:
  assumes "d < 2 ^ 16" and "length ys \<le> 5" and "b' = (of_nat (d mod 256) :: u8)" and "b'' = (of_nat (d div 256) :: u8)"
  shows "65535 AND drop_bit 8 (word_of (b # b' # b'' # ys)) = of_nat d"
proof -
  have u: "unat b' = d mod 256" "unat b'' = d div 256" unfolding assms(3,4) using assms(1) by (intro unat_byte, simp)+
  have "unat (word_of (b # b' # b'' # ys)) = unat b + 256 * (d mod 256 + 256 * (d div 256 + 256 * unat (word_of ys)))"
    using assms(2) by (simp only: unat_word_of_Cons list.size u)
  also have "d mod 256 + 256 * (d div 256 + 256 * unat (word_of ys)) = d + 65536 * unat (word_of ys)"
    using join_mod [of d 256] by simp
  finally have "unat (word_of (b # b' # b'' # ys)) div 256 = d + 65536 * unat (word_of ys)"
    using split_byte [of "unat b"] unat_u8_le [of b] by simp
  then have "unat (word_of (b # b' # b'' # ys)) div 2 ^ 8 mod 2 ^ 16 = d" using assms(1) by simp
  then show ?thesis by (simp only: mask_numerals(5) and.commute [of "mask 16"] word_field)
qed

lemma medium_fields:
  assumes "l \<le> 3" and "c < 32" and "d < 2 ^ 14" and "length ys \<le> 5" and "b = (of_nat (0xa0 + 8 * l + c div 4) :: u8)"
    and "b' = (of_nat (4 * (d mod 64) + c mod 4) :: u8)" and "b'' = (of_nat (d div 64) :: u8)"
  defines "w \<equiv> word_of (b # b' # b'' # ys)"
  shows "unat b = 0xa0 + (8 * l + c div 4)" and "drop_bit 3 (ucast b :: u64) AND 3 = of_nat l"
    and "drop_bit 8 (w AND 775) OR push_bit 2 ((w AND 775) AND 255) = of_nat c" and "16383 AND drop_bit 10 w = of_nat d"
proof -
  have u: "unat b = 0xa0 + 8 * l + c div 4" "unat b' = 4 * (d mod 64) + c mod 4" "unat b'' = d div 64"
    unfolding assms(5-7) using assms(1-3) by (intro unat_byte, simp)+
  then show "unat b = 0xa0 + (8 * l + c div 4)" by simp
  have "unat (ucast b :: u64) div 2 ^ 3 mod 2 ^ 2 = l"
  proof -
    have "unat (ucast b :: u64) = c div 4 + 8 * (20 + l)" using u(1) by (simp add: unat_ucast_up)
    moreover have "c div 4 < 8" using assms(2) by simp
    ultimately have "unat (ucast b :: u64) div 8 = 20 + l" by simp
    moreover have "(20 + l) mod 4 = l" using assms(1) by presburger
    ultimately show ?thesis by simp
  qed
  then show "drop_bit 3 (ucast b :: u64) AND 3 = of_nat l" by (simp only: mask_numerals(2) word_field)
  have W: "unat w = 0xa0 + 8 * l + c div 4 + 256 * (4 * (d mod 64) + c mod 4 + 256 * (d div 64 + 256 * unat (word_of ys)))"
    using assms(4) by (simp only: w_def unat_word_of_Cons list.size u)
  have "unat w = 64 * 2 + 8 * (4 + l) + c div 4 + 256 * (4 * (d mod 64) + c mod 4 + 256 * (d div 64 + 256 * unat (word_of ys)))"
    unfolding W by simp
  then have "unat w mod 8 = c div 4" using assms(2) by (simp only:) (rule split_first(1), simp)
  then have m3: "unat w mod 2 ^ 3 = c div 4" by simp
  have div: "unat w div 2 ^ 8 = 4 * (d mod 64) + c mod 4 + 256 * (d div 64 + 256 * unat (word_of ys))"
    unfolding W using split_byte [of "160 + 8 * l + c div 4"] assms(1,2) by simp
  have "unat w div 2 ^ 8 mod 2 ^ 2 = c mod 4"
  proof -
    have "4 * p + r + 256 * y = r + 4 * (p + 64 * y)" for p r y :: nat by simp
    then have "unat w div 2 ^ 8 mod 4 = c mod 4" by (simp only: div mod_mult_self2 mod_mod_trivial)
    then show ?thesis by simp
  qed
  with m3 have "drop_bit 8 (w AND 775) OR push_bit 2 ((w AND 775) AND 255) = push_bit 2 (of_nat (c div 4)) OR of_nat (c mod 4)"
    unfolding medium_match word_field word_low_field by (simp only: unat_drop_bit)
  also have "\<dots> = of_nat (2 ^ 2 * (c div 4) + c mod 4)" by (rule join_bits) simp
  finally show "drop_bit 8 (w AND 775) OR push_bit 2 ((w AND 775) AND 255) = of_nat c" by simp
  have "unat w div 2 ^ 10 = unat w div 2 ^ 8 div 4" by (simp add: div_mult2_eq [symmetric])
  also have "\<dots> = d mod 64 + 64 * (d div 64) + 16384 * unat (word_of ys)"
  proof -
    have "4 * p + r + 256 * (q + 256 * y) = r + 4 * (p + 64 * q + 16384 * y)" for p q r y :: nat by simp
    moreover have "(r + 4 * z) div 4 = z" if "r < 4" for r z :: nat using that by simp
    ultimately show ?thesis unfolding div by (simp only: mod_less_divisor zero_less_numeral)
  qed
  also have "\<dots> = d + 16384 * unat (word_of ys)" by (simp only: join_mod)
  finally have "unat w div 2 ^ 10 mod 2 ^ 14 = d" using assms(3) by simp
  then show "16383 AND drop_bit 10 w = of_nat d" by (simp only: mask_numerals(6) and.commute [of "mask 14"] word_field)
qed

end
