(* ===== verification/LzvnProps.thy ===== *)
theory LzvnProps
  imports LzvnFields
begin

text \<open>Each opcode, the whole of a stream, and the properties of the LZVN decompressor.\<close>

section \<open>One opcode\<close>

text \<open>The decompressor stands in front of an opcode, with eight bytes behind it.\<close>

definition in_front :: "lzvn_env \<Rightarrow> nat \<Rightarrow> lzvn_op \<Rightarrow> u8 list \<Rightarrow> nat \<Rightarrow> nat \<Rightarrow> u8 list \<Rightarrow> lzvn \<Rightarrow> bool" where
  "in_front e N x t d i rest st \<longleftrightarrow> env_ok e N \<and> at_op e N t d i st \<and> op_ok x \<and> 8 \<le> length rest \<and>
     (\<exists>pre. inputBytes e = pre @ op_bytes x @ rest \<and> length pre = i) \<and>
     (op_match x \<noteq> 0 \<longrightarrow> 1 \<le> op_distance x d \<and> op_distance x d \<le> length t + length (op_literals x)) \<and>
     length t + length (op_literals x) + op_match x + 8 < N"

lemma op_bytes_nonempty: "op_bytes x \<noteq> []"
  by (cases x) simp_all

lemma in_front_regs:
  assumes "in_front e N x t d i rest st"
  shows "compBufferPointer st = word_of (take 8 (op_bytes x @ rest))" and "caseTableIndex st = ucast (hd (op_bytes x))"
    and "compBuffer st = inputBase e + of_nat i" and "i + length (op_bytes x) + 8 \<le> length (inputBytes e)"
    and "holds N t d st" and "env_ok e N" and "\<not> compressedSize e < inputBase e + of_nat (i + length (op_bytes x))"
proof -
  obtain pre where pre: "inputBytes e = pre @ op_bytes x @ rest" "length pre = i" using assms by (auto simp: in_front_def)
  have op: "at_op e N t d i st" and e: "env_ok e N" using assms by (simp_all add: in_front_def)
  show "compBufferPointer st = word_of (take 8 (op_bytes x @ rest))" using op pre by (simp add: at_op_def)
  show "caseTableIndex st = ucast (hd (op_bytes x))"
    using op pre op_bytes_nonempty [of x] by (simp add: at_op_def nth_append hd_conv_nth)
  show "compBuffer st = inputBase e + of_nat i" "holds N t d st" using op by (simp_all add: at_op_def at_input_def)
  show len: "i + length (op_bytes x) + 8 \<le> length (inputBytes e)" using pre assms by (simp add: in_front_def)
  show "env_ok e N" by (rule e)
  show "\<not> compressedSize e < inputBase e + of_nat (i + length (op_bytes x))" using not_beyond [OF e len] .
qed

lemma table_index: "unat (ucast (ucast (b :: u8) :: u64) :: u8) = unat b"
  by (simp add: byte_word)

lemma take_seven: "8 \<le> length rest \<Longrightarrow> take 8 (b # ls @ rest) = b # take 7 (ls @ rest)"
  by simp

lemma literals_prefix: "length ls \<le> n \<Longrightarrow> take (length ls) (take n (ls @ rest)) = ls"
  by simp

lemma previous_ok:
  assumes "in_front e N (Previous ls m) t d i rest st"
  shows "advances e N (Previous ls m) t d i st"
proof -
  let ?x = "Previous ls m"
  let ?b = "of_nat (64 * length ls + 8 * (m - 3) + 6) :: u8" and ?ys = "take 7 (ls @ rest)"
  note regs = in_front_regs [OF assms]
  have ok: "3 \<le> m" "short_ok (length ls) (m - 3)" "ls \<noteq> []" and rest: "8 \<le> length rest" using assms by (simp_all add: in_front_def)
  have l: "length ls < 4" "m - 3 < 8" using short_bound [OF ok(2), of 0] by simp_all
  have ys: "length ?ys \<le> 7" by simp
  note f = short_fields [OF ok(2) _ ys refl, of 6]
  have k: "caseTable ! unat ?b = 0" using f(1) table_short ok l by simp
  have w: "compBufferPointer st = word_of (?b # ?ys)" using regs(1) rest by simp
  define st1 where "st1 = st\<lparr>caseTableIndex := of_nat (length ls), compBuffer := inputBase e + of_nat (i + length (op_bytes ?x)),
    byteCount := of_nat (m - 3) + 3, compBufferPointer := word_of ?ys\<rparr>"
  have "lzvn_table e st = Some (Jump LZVN_10 st1)"
    using regs(2,3,7) f(2,3) k drop_byte [OF ys, of ?b]
    by (simp add: lzvn_table_def Let_def st1_def w byte_word ac_simps del: word_of_simps)
  then show ?thesis
  proof (rule pair_advances [where xs = ?ys])
    show "take (length (op_literals ?x)) ?ys = op_literals ?x" using l by simp
  qed (use regs ok rest l assms in \<open>simp_all add: st1_def holds_def at_input_def in_front_def\<close>)
qed

lemma small_ok:
  assumes "in_front e N (Small ls m d') t d i rest st"
  shows "advances e N (Small ls m d') t d i st"
proof -
  let ?x = "Small ls m d'"
  let ?b = "of_nat (64 * length ls + 8 * (m - 3) + d' div 256) :: u8" and ?b' = "of_nat (d' mod 256) :: u8" and ?ys = "take 6 (ls @ rest)"
  note regs = in_front_regs [OF assms]
  have ok: "3 \<le> m" "short_ok (length ls) (m - 3)" "d' < 1536" and rest: "8 \<le> length rest" using assms by (simp_all add: in_front_def)
  have l: "length ls < 4" "m - 3 < 8" using short_bound [OF ok(2), of 0] by simp_all
  have q: "d' div 256 < 6" using ok(3) by simp
  have ys: "length ?ys \<le> 6" "length (?b' # ?ys) \<le> 7" by simp_all
  note f = short_fields [OF ok(2) _ ys(2) refl, of "d' div 256"]
  have k: "caseTable ! unat ?b = 1" using f(1) table_short ok(2) l q by simp
  have w: "compBufferPointer st = word_of (?b # ?b' # ?ys)" using regs(1) rest by simp
  have dr: "drop_bit 16 (word_of (?b # ?b' # ?ys)) = word_of ?ys" using drop_bytes [of "?b # ?b' # ?ys" 2] by (simp del: word_of_simps)
  define st1 where "st1 = st\<lparr>caseTableIndex := of_nat (length ls), compBuffer := inputBase e + of_nat (i + length (op_bytes ?x)),
    negativeOffset := of_nat d', byteCount := of_nat (m - 3) + 3, compBufferPointer := word_of ?ys\<rparr>"
  have "lzvn_table e st = Some (Jump LZVN_10 st1)"
    using regs(2,3,7) f(2,4) q k dr small_distance [OF ok(2,3) ys(1) refl refl]
    by (simp add: lzvn_table_def Let_def st1_def w byte_word ac_simps del: word_of_simps)
  then show ?thesis
  proof (rule pair_advances [where xs = ?ys])
    show "take (length (op_literals ?x)) ?ys = op_literals ?x" using l by simp
  qed (use regs ok rest l assms in \<open>simp_all add: st1_def holds_def at_input_def in_front_def\<close>)
qed

lemma large_ok:
  assumes "in_front e N (Large ls m d') t d i rest st"
  shows "advances e N (Large ls m d') t d i st"
proof -
  let ?x = "Large ls m d'"
  let ?b = "of_nat (64 * length ls + 8 * (m - 3) + 7) :: u8" and ?b' = "of_nat (d' mod 256) :: u8" and ?b'' = "of_nat (d' div 256) :: u8"
    and ?ys = "take 5 (ls @ rest)"
  note regs = in_front_regs [OF assms]
  have ok: "3 \<le> m" "short_ok (length ls) (m - 3)" "d' < 2 ^ 16" and rest: "8 \<le> length rest" using assms by (simp_all add: in_front_def)
  have l: "length ls < 4" "m - 3 < 8" using short_bound [OF ok(2), of 0] by simp_all
  have ys: "length ?ys \<le> 5" "length (?b' # ?b'' # ?ys) \<le> 7" by simp_all
  note f = short_fields [OF ok(2) _ ys(2) refl, of 7]
  have k: "caseTable ! unat ?b = 3" using f(1) table_short ok(2) l by simp
  have w: "compBufferPointer st = word_of (?b # ?b' # ?b'' # ?ys)" using regs(1) rest by simp
  have dr: "drop_bit 16 (drop_bit 8 (word_of (?b # ?b' # ?b'' # ?ys))) = word_of ?ys"
    using drop_bytes [of "?b # ?b' # ?b'' # ?ys" 3] by (simp del: word_of_simps)
  define st1 where "st1 = st\<lparr>caseTableIndex := of_nat (length ls), compBuffer := inputBase e + of_nat (i + length (op_bytes ?x)),
    byteCount := of_nat (m - 3) + 3, negativeOffset := of_nat d', compBufferPointer := word_of ?ys\<rparr>"
  have "lzvn_table e st = Some (Jump LZVN_10 st1)"
    using regs(2,3,7) f(2,3) k dr large_distance [OF ok(3) ys(1) refl refl, of ?b]
    by (simp add: lzvn_table_def Let_def st1_def w byte_word ac_simps del: word_of_simps drop_bit_drop_bit)
  then show ?thesis
  proof (rule pair_advances [where xs = ?ys])
    show "take (length (op_literals ?x)) ?ys = op_literals ?x" using l by simp
  qed (use regs ok rest l assms in \<open>simp_all add: st1_def holds_def at_input_def in_front_def\<close>)
qed

lemma medium_ok:
  assumes "in_front e N (Medium ls m d') t d i rest st"
  shows "advances e N (Medium ls m d') t d i st"
proof -
  let ?x = "Medium ls m d'"
  let ?b = "of_nat (0xa0 + 8 * length ls + (m - 3) div 4) :: u8" and ?b' = "of_nat (4 * (d' mod 64) + (m - 3) mod 4) :: u8"
    and ?b'' = "of_nat (d' div 64) :: u8" and ?ys = "take 5 (ls @ rest)"
  note regs = in_front_regs [OF assms]
  have ok: "3 \<le> m" "m - 3 < 32" "length ls \<le> 3" "d' < 2 ^ 14" and rest: "8 \<le> length rest" using assms by (auto simp: in_front_def)
  have ys: "length ?ys \<le> 5" by simp
  note f = medium_fields [OF ok(3,2,4) ys refl refl refl]
  have "8 * length ls + (m - 3) div 4 < 32" using ok by simp
  then have k: "caseTable ! unat ?b = 6" using f(1) table_runs(2) by simp
  have w: "compBufferPointer st = word_of (?b # ?b' # ?b'' # ?ys)" using regs(1) rest by simp
  have dr: "drop_bit 14 (drop_bit 10 (word_of (?b # ?b' # ?b'' # ?ys))) = word_of ?ys"
    using drop_bytes [of "?b # ?b' # ?b'' # ?ys" 3] by (simp del: word_of_simps)
  define st1 where "st1 = st\<lparr>caseTableIndex := of_nat (length ls), compBuffer := inputBase e + of_nat (i + length (op_bytes ?x)),
    byteCount := of_nat (m - 3) + 3, negativeOffset := of_nat d', compBufferPointer := word_of ?ys\<rparr>"
  have "lzvn_table e st = Some (Jump LZVN_10 st1)"
    using regs(2,3,7) f(2-4) k dr
    by (simp add: lzvn_table_def Let_def st1_def w byte_word ac_simps del: word_of_simps drop_bit_drop_bit)
  then show ?thesis
  proof (rule pair_advances [where xs = ?ys])
    show "take (length (op_literals ?x)) ?ys = op_literals ?x" using ok by simp
  qed (use regs ok rest assms in \<open>simp_all add: st1_def holds_def at_input_def in_front_def\<close>)
qed

lemma nop_ok:
  assumes "in_front e N (Nop b) t d i rest st"
  shows "advances e N (Nop b) t d i st"
proof -
  note regs = in_front_regs [OF assms]
  define st1 where "st1 = st\<lparr>compBuffer := inputBase e + of_nat (i + 1)\<rparr>"
  have "caseTable ! unat (ucast (caseTableIndex st) :: u8) = 4" using regs(2) table_runs by (simp add: byte_word)
  then have run: "lzvn_table e st = next_op e st1"
    using regs(3,7) by (simp add: lzvn_table_def Let_def st1_def ac_simps)
  have "holds N t d st1" "at_input e (i + 1) st1" using regs(4,5) by (simp_all add: st1_def holds_def at_input_def)
  then obtain st2 where "next_op e st1 = Some (Jump CASE_TABLE st2)" "at_op e N t d (i + 1) st2" using next_op_ok [OF regs(6)] by blast
  then show ?thesis using run run_step [of e CASE_TABLE st] by (auto simp: advances_def)
qed

text \<open>The two forms of a count: in the low half of the first byte, or in the second byte and from sixteen on.\<close>

lemma count_short: "1 \<le> k \<Longrightarrow> k < 16 \<Longrightarrow> 16 dvd b \<Longrightarrow> b + k < 256 \<Longrightarrow> length ys \<le> 7 \<Longrightarrow>
  unat (of_nat (b + k) :: u8) = b + k \<and> word_of (of_nat (b + k) # ys) AND 15 = of_nat k"
proof -
  assume a: "1 \<le> k" "k < 16" "16 dvd b" "b + k < 256" "length ys \<le> 7"
  have u: "unat (of_nat (b + k) :: u8) = b + k" using a by (intro unat_byte)
  obtain q where q: "b = 16 * q" using a(3) by (elim dvdE)
  have "unat (word_of (of_nat (b + k) # ys)) = b + k + 256 * unat (word_of ys)" using unat_word_of_Cons [OF a(5), of "of_nat (b + k)"] u by simp
  also have "\<dots> = k + 16 * (q + 16 * unat (word_of ys))" unfolding q by simp
  finally have "unat (word_of (of_nat (b + k) # ys)) mod 16 = k" using a(2) by (simp only: mod_mult_self2 mod_less)
  then have "unat (word_of (of_nat (b + k) # ys)) mod 2 ^ 4 = k" by simp
  then show ?thesis using u by (simp only: mask_numerals(3) word_low_field)
qed

lemma count_long: "16 \<le> k \<Longrightarrow> k \<le> 271 \<Longrightarrow> length ys \<le> 6 \<Longrightarrow> (drop_bit 8 (word_of (b # of_nat (k - 16) # ys)) AND 255) + 16 = of_nat k"
proof -
  assume a: "16 \<le> k" "k \<le> 271" "length ys \<le> 6"
  have u: "unat (of_nat (k - 16) :: u8) = k - 16" using a by (intro unat_byte) simp
  have "drop_bit 8 (word_of (b # of_nat (k - 16) # ys)) AND 255 = word_of (of_nat (k - 16) # ys) AND 255"
    using a by (subst drop_byte) simp_all
  also have "\<dots> = ucast (of_nat (k - 16) :: u8)" by (simp only: word_low_byte)
  also have "\<dots> = of_nat (k - 16)" using u a by (simp add: word_unat_eq_iff unat_ucast_up unat_of_nat_small del: of_nat_diff)
  finally show ?thesis using a(1) by (simp add: of_nat_diff)
qed

lemma literals_op_ok:
  assumes "in_front e N (Literals bs) t d i rest st"
  shows "advances e N (Literals bs) t d i st"
proof -
  let ?x = "Literals bs" and ?n = "length bs"
  let ?c = "i + length (op_bytes ?x)"
  note regs = in_front_regs [OF assms]
  have n: "1 \<le> ?n" "?n \<le> 271" and rest: "8 \<le> length rest" using assms by (simp_all add: in_front_def)
  define st1 where "st1 = st\<lparr>compBufferPointer := of_nat ?n, compBuffer := inputBase e + of_nat ?c\<rparr>"
  have "lzvn_table e st = Some (Jump LZVN_0 st1)"
  proof (cases "?n < 16")
    case True
    let ?ys = "take 7 (bs @ rest)"
    have f: "unat (of_nat (0xe0 + ?n) :: u8) = 0xe0 + ?n \<and> word_of (of_nat (0xe0 + ?n) # ?ys) AND 15 = of_nat ?n"
      using True n by (intro count_short) simp_all
    then have k: "caseTable ! unat (of_nat (0xe0 + ?n) :: u8) = 8" using table_runs(1) True n by simp
    have w: "compBufferPointer st = word_of (of_nat (0xe0 + ?n) # ?ys)" using regs(1) True by simp
    have i: "caseTableIndex st = ucast (of_nat (0xe0 + ?n) :: u8)" using regs(2) True by simp
    show ?thesis using regs(3) True unfolding lzvn_table_def Let_def w i byte_word k f [THEN conjunct2] by (simp add: st1_def ac_simps)
  next
    case False
    let ?ys = "take 6 (bs @ rest)"
    have f: "(drop_bit 8 (word_of (0xe0 # of_nat (?n - 16) # ?ys)) AND 255) + 16 = of_nat ?n" using False n by (intro count_long) simp_all
    have k: "caseTable ! unat (0xe0 :: u8) = 7" using table_runs by simp
    have w: "compBufferPointer st = word_of (0xe0 # of_nat (?n - 16) # ?ys)" using regs(1) False by simp
    have i: "caseTableIndex st = ucast (0xe0 :: u8)" using regs(2) False by simp
    show ?thesis using k regs(3) False unfolding lzvn_table_def Let_def w i byte_word f by (simp add: st1_def ac_simps del: word_of_simps)
  qed
  moreover obtain st2 where "lzvn_0 e st1 = Some (Jump CASE_TABLE st2)"
    "at_op e N (t @ take ?n (drop (?c - ?n) (inputBytes e))) d ?c st2"
  proof -
    have "holds N t d st1" "at_input e ?c st1" using regs(4,5) by (simp_all add: st1_def holds_def at_input_def)
    then show ?thesis using literals_ok [OF regs(6), of t d st1 ?c ?n] n assms that by (auto simp: st1_def in_front_def)
  qed
  moreover have "take ?n (drop (?c - ?n) (inputBytes e)) = bs"
    using assms by (auto simp: in_front_def)
  ultimately show ?thesis using run_step [of e CASE_TABLE st] run_step [of e LZVN_0 st1] by (auto simp: advances_def)
qed

lemma again_ok:
  assumes "in_front e N (Again m) t d i rest st"
  shows "advances e N (Again m) t d i st"
proof -
  let ?x = "Again m"
  let ?c = "i + length (op_bytes ?x)"
  note regs = in_front_regs [OF assms]
  have m: "1 \<le> m" "m \<le> 271" and rest: "8 \<le> length rest" and d: "1 \<le> d" "d \<le> length t" and room: "length t + m + 8 < N"
    using assms by (simp_all add: in_front_def)
  have N: "N < 2 ^ 63" using regs(6) by (simp add: env_ok_def)
  define st1 where "st1 = st\<lparr>compBuffer := inputBase e + of_nat ?c, byteCount := of_nat m\<rparr>"
  have table: "lzvn_table e st = Some (Jump LZVN_11 st1)"
  proof (cases "m < 16")
    case True
    let ?ys = "take 7 rest"
    have f: "unat (of_nat (0xf0 + m) :: u8) = 0xf0 + m \<and> word_of (of_nat (0xf0 + m) # ?ys) AND 15 = of_nat m"
      using True m by (intro count_short) simp_all
    then have k: "caseTable ! unat (of_nat (0xf0 + m) :: u8) = 10" using table_runs(1) True m by simp
    have w: "compBufferPointer st = word_of (of_nat (0xf0 + m) # ?ys)" using regs(1) True by simp
    have i: "caseTableIndex st = ucast (of_nat (0xf0 + m) :: u8)" using regs(2) True by simp
    show ?thesis using regs(3,7) True unfolding lzvn_table_def Let_def w i byte_word k f [THEN conjunct2] by (simp add: st1_def ac_simps)
  next
    case False
    let ?ys = "take 6 rest"
    have f: "(drop_bit 8 (word_of (0xf0 # of_nat (m - 16) # ?ys)) AND 255) + 16 = of_nat m" using False m by (intro count_long) simp_all
    have k: "caseTable ! unat (0xf0 :: u8) = 9" using table_runs by simp
    have w: "compBufferPointer st = word_of (0xf0 # of_nat (m - 16) # ?ys)" using regs(1) False by simp
    have i: "caseTableIndex st = ucast (0xf0 :: u8)" using regs(2) False by simp
    show ?thesis using k regs(3,7) False unfolding lzvn_table_def Let_def w i byte_word f by (simp add: st1_def ac_simps del: word_of_simps)
  qed
  define l where "l = (if (of_nat (length t + m) :: u64) < decompressedSize e \<and> (8 :: u64) \<le> of_nat d then LZVN_5 else LZVN_4)"
  define st2 where "st2 = st1\<lparr>compBufferPointer := of_nat (length t - d), currentLength := of_nat (length t + m)\<rparr>"
  have j: "lzvn_11 e st1 = Some (Jump l st2)"
    using regs(5) d by (simp add: lzvn_11_def Let_def l_def st2_def st1_def holds_def of_nat_diff)
  have "(of_nat d :: u64) < 8 \<longleftrightarrow> d < 8" using d room N of_nat_less_64 [of d 8] by simp
  then have l: "l = LZVN_4 \<or> l = LZVN_5 \<and> 8 \<le> d" by (simp add: l_def not_less [symmetric])
  have s: "holds N t d st2" "at_input e ?c st2" using regs(4,5) by (simp_all add: st2_def st1_def holds_def at_input_def)
  obtain st3 where "lzvn_step e l st2 = Some (Jump CASE_TABLE st3)" "at_op e N (copy_match m d t) d ?c st3"
    using match_ok [OF regs(6) s _ _ m(1) d l] room by (auto simp: st2_def st1_def)
  then show ?thesis using j table run_step [of e CASE_TABLE st] run_step [of e LZVN_11 st1] run_step [of e l st2] by (auto simp: advances_def)
qed

lemma op_advances: "in_front e N x t d i rest st \<Longrightarrow> advances e N x t d i st"
  by (cases x) (simp_all add: nop_ok literals_op_ok again_ok previous_ok small_ok medium_ok large_ok)

section \<open>A stream\<close>

lemma and_all: "w AND 0xffffffffffffffff = (w :: u64)"
proof -
  have ones: "(0xffffffffffffffff :: u64) = - 1" by simp
  show ?thesis unfolding ones by simp
qed

lemma expand_length: "length t \<le> length (expand xs d t)"
  by (induction xs d t rule: expand.induct) auto

lemma stream_run:
  assumes "env_ok e N" and "at_op e N t d i st" and "ops_ok ops d (length t)"
    and "inputBytes e = pre @ concat (map op_bytes ops) @ 6 # pad" "length pre = i" "7 \<le> length pad" and "length (expand ops d t) + 8 < N"
  shows "\<exists>out. lzvn_run e CASE_TABLE st = Some (EFI_SUCCESS, Some (of_nat (length (expand ops d t))), out) \<and>
    length out = N \<and> take (length (expand ops d t)) out = expand ops d t"
  using assms
proof (induction ops arbitrary: t d i st pre)
  case Nil
  have "inputBytes e ! i = 6" using Nil.prems(4,5) by auto
  then have "caseTableIndex st = 6" using Nil.prems(2) by (simp add: at_op_def)
  then have "lzvn_table e st = Some (lzvn_done st)" using table_runs by (simp add: lzvn_table_def)
  then show ?case using Nil.prems(2) by (subst lzvn_run.simps) (simp add: lzvn_done_def at_op_def holds_def and_all)
next
  case (Cons x ops)
  let ?t = "copy_match (op_match x) (op_distance x d) (t @ op_literals x)" and ?d = "op_distance x d"
  have len: "length ?t = length t + length (op_literals x) + op_match x" using Cons.prems(3) by simp
  then have "length t + length (op_literals x) + op_match x + 8 < N" using Cons.prems(7) expand_length [of ?t ops ?d] by simp
  then have "in_front e N x t d i (concat (map op_bytes ops) @ 6 # pad) st" using Cons.prems by (auto simp: in_front_def)
  then obtain st' where st': "lzvn_run e CASE_TABLE st = lzvn_run e CASE_TABLE st'" "at_op e N ?t ?d (i + length (op_bytes x)) st'"
    using op_advances unfolding advances_def by blast
  have "\<exists>out. lzvn_run e CASE_TABLE st' = Some (EFI_SUCCESS, Some (of_nat (length (expand ops ?d ?t))), out) \<and>
    length out = N \<and> take (length (expand ops ?d ?t)) out = expand ops ?d ?t"
    using Cons.prems(3-7) len by (intro Cons.IH [OF Cons.prems(1) st'(2), of "pre @ op_bytes x"]) simp_all
  then show ?case using st'(1) by simp
qed

section \<open>Properties\<close>

text \<open>
  C24. A stream of well-formed opcodes, closed by the end opcode and its padding, expands to the text that
  the opcodes mean, when the output has more than eight bytes of room behind it: the call returns success
  with the number of bytes, and the output starts with them.
\<close>

theorem lzvn_decompresses:
  assumes "ops_ok ops 0 0" and "input = concat (map op_bytes ops) @ 6 # pad" and "7 \<le> length pad" and "unexpanded = expand ops 0 []"
    and "length unexpanded + 8 < length outBytes" and "16 \<le> length outBytes" and "length outBytes < 2 ^ 63"
    and "unat compressedBuffer + length input < 2 ^ 64"
  shows "\<exists>out. BlDecompressLZVN compressedBuffer input uncompressedBuffer outBytes =
      Some (EFI_SUCCESS, Some (of_nat (length unexpanded)), out) \<and>
    length out = length outBytes \<and> take (length unexpanded) out = unexpanded"
proof -
  let ?N = "length outBytes" and ?w = "word_of (take 8 input)"
  define e where "e = \<lparr>inputBase = compressedBuffer, inputBytes = input, decompBuffer = uncompressedBuffer,
    decompressedSize = of_nat ?N - 8, compressedSize = compressedBuffer + of_nat (length input) - 8\<rparr>"
  define st where "st = \<lparr>len = 0, compBuffer = compressedBuffer, compBufferPointer = ?w, caseTableIndex = ?w AND 255, byteCount = 0,
    currentLength = 0, negativeOffset = 0, dst = outBytes\<rparr>"
  have len: "8 \<le> length input" using assms(2,3) by simp
  have e: "env_ok e ?N" using assms(6-8) len by (simp add: env_ok_def e_def of_nat_diff)
  have start: "\<not> compressedSize e < compressedBuffer" using not_beyond [OF e, of 0] len by (simp add: e_def)
  have room: "\<not> decompressedSize e < 8" using env_limits(1) [OF e] assms(6) by (simp add: word_less_nat_alt)
  have "load64 compressedBuffer input compressedBuffer = Some ?w" using load64_at [of 0 input compressedBuffer] len assms(8) by simp
  then have run: "BlDecompressLZVN compressedBuffer input uncompressedBuffer outBytes = lzvn_run e CASE_TABLE st"
    using start room by (simp add: BlDecompressLZVN_def Let_def e_def st_def)
  have "take 8 input = input ! 0 # take 7 (drop 1 input)" using len by (cases input) simp_all
  then have "?w AND 255 = ucast (input ! 0)" by (simp only: word_low_byte)
  then have "at_op e ?N [] 0 0 st" using len by (simp add: at_op_def holds_def at_input_def e_def st_def)
  then show ?thesis unfolding run assms(4)
    using stream_run [OF e, of "[]" 0 0 st ops "[]" pad] assms by (simp add: e_def)
qed

theorem lzvn_decompresses_witness:
  "\<exists>out. BlDecompressLZVN 0x1000 [0xe3, 1, 2, 3, 0x50, 2, 9, 0xf2, 6, 0, 0, 0, 0, 0, 0, 0] 0x2000 (replicate 24 0) =
      Some (EFI_SUCCESS, Some 11, out) \<and> length out = 24 \<and> take 11 out = [1, 2, 3, 9, 3, 9, 3, 9, 3, 9, 3]"
proof -
  let ?ops = "[Literals [1, 2, 3], Small [9] 5 2, Again 2]"
  have "ops_ok ?ops 0 0" by (simp add: short_ok_def)
  moreover have "[0xe3, 1, 2, 3, 0x50, 2, 9, 0xf2, 6, 0, 0, 0, 0, 0, 0, 0] = concat (map op_bytes ?ops) @ 6 # replicate 7 0"
    by code_simp
  moreover have "[1, 2, 3, 9, 3, 9, 3, 9, 3, 9, 3] = expand ?ops 0 []" by code_simp
  ultimately show ?thesis using lzvn_decompresses [of ?ops _ "replicate 7 0" _ "replicate 24 0" "0x1000" "0x2000"] by simp
qed

section \<open>Where the code departs from the format\<close>

text \<open>
  Near the end of the output the literals of an opcode are copied one by one, and the last of them is left
  out: two literals, 9 and 8, with a match of three bytes at distance 1 give 9 9 9 9 instead of 9 8 8 8 8.
\<close>

lemma lzvn_last_literal_lost:
  "BlDecompressLZVN 0x1000 [0xe3, 1, 2, 3, 0x80, 1, 9, 8, 6, 0, 0, 0, 0, 0, 0, 0] 0x2000 (replicate 16 0) =
     Some (EFI_SUCCESS, Some 7, [1, 2, 3, 9, 9, 9, 9, 6, 0, 0, 0, 0, 0, 0, 0, 0])"
  by code_simp

text \<open>An output of seven bytes passes the test of the size, which is made after eight has been subtracted from it.\<close>

lemma lzvn_short_output:
  "BlDecompressLZVN 0x1000 [0xe3, 1, 2, 3, 6, 0, 0, 0, 0, 0, 0, 0] 0x2000 (replicate 7 0) = None"
  by code_simp

text \<open>Near the end of the output a match is refused when its distance is more than half of what has been written.\<close>

lemma lzvn_far_match_refused:
  "BlDecompressLZVN 0x1000 [0xe3, 1, 2, 3, 0x10, 2, 6, 0, 0, 0, 0, 0, 0, 0] 0x2000 (replicate 16 0) = Some (EFI_LOAD_ERROR, None, [1, 2, 3, 16, 2, 6, 0, 0, 0, 0, 0, 0, 0, 0, 0, 0])"
  by code_simp

end
