(* ===== verification/FileVault.thy ===== *)
theory FileVault
  imports Checksums Digest Config
begin

text \<open>
  FileVault.c: the checksum of the volume header, the keys (HMAC, PBKDF2, AES key unwrapping, signatures),
  the users and keys of the encrypted root property list, and the key store for the kernel. A pointer
  is the list of the bytes up to the end of the object; a read or a write outside of an object is None.
  The block cipher of the AES library is a parameter, a function of the key and a block of 16 bytes.
\<close>

section \<open>Reads and writes\<close>

definition get32 :: "u8 list \<Rightarrow> nat \<Rightarrow> u32 option" where
  "get32 d i = (if i + 4 \<le> length d then Some (le32 d i) else None)"

definition get_bytes :: "u8 list \<Rightarrow> nat \<Rightarrow> nat \<Rightarrow> u8 list option" where
  "get_bytes d i n = (if i + n \<le> length d then Some (take n (drop i d)) else None)"

definition put_bytes :: "u8 list \<Rightarrow> nat \<Rightarrow> u8 list \<Rightarrow> u8 list option" where
  "put_bytes b i d = (if i + length d \<le> length b then Some (overlay b i d) else None)"

section \<open>Volume header\<close>

definition crcTable :: "u32 list" where
  "crcTable = [
   0x00000000, 0xf26b8303, 0xe13b70f7, 0x1350f3f4, 0xc79a971f, 0x35f1141c,
   0x26a1e7e8, 0xd4ca64eb, 0x8ad958cf, 0x78b2dbcc, 0x6be22838, 0x9989ab3b,
   0x4d43cfd0, 0xbf284cd3, 0xac78bf27, 0x5e133c24, 0x105ec76f, 0xe235446c,
   0xf165b798, 0x030e349b, 0xd7c45070, 0x25afd373, 0x36ff2087, 0xc494a384,
   0x9a879fa0, 0x68ec1ca3, 0x7bbcef57, 0x89d76c54, 0x5d1d08bf, 0xaf768bbc,
   0xbc267848, 0x4e4dfb4b, 0x20bd8ede, 0xd2d60ddd, 0xc186fe29, 0x33ed7d2a,
   0xe72719c1, 0x154c9ac2, 0x061c6936, 0xf477ea35, 0xaa64d611, 0x580f5512,
   0x4b5fa6e6, 0xb93425e5, 0x6dfe410e, 0x9f95c20d, 0x8cc531f9, 0x7eaeb2fa,
   0x30e349b1, 0xc288cab2, 0xd1d83946, 0x23b3ba45, 0xf779deae, 0x05125dad,
   0x1642ae59, 0xe4292d5a, 0xba3a117e, 0x4851927d, 0x5b016189, 0xa96ae28a,
   0x7da08661, 0x8fcb0562, 0x9c9bf696, 0x6ef07595, 0x417b1dbc, 0xb3109ebf,
   0xa0406d4b, 0x522bee48, 0x86e18aa3, 0x748a09a0, 0x67dafa54, 0x95b17957,
   0xcba24573, 0x39c9c670, 0x2a993584, 0xd8f2b687, 0x0c38d26c, 0xfe53516f,
   0xed03a29b, 0x1f682198, 0x5125dad3, 0xa34e59d0, 0xb01eaa24, 0x42752927,
   0x96bf4dcc, 0x64d4cecf, 0x77843d3b, 0x85efbe38, 0xdbfc821c, 0x2997011f,
   0x3ac7f2eb, 0xc8ac71e8, 0x1c661503, 0xee0d9600, 0xfd5d65f4, 0x0f36e6f7,
   0x61c69362, 0x93ad1061, 0x80fde395, 0x72966096, 0xa65c047d, 0x5437877e,
   0x4767748a, 0xb50cf789, 0xeb1fcbad, 0x197448ae, 0x0a24bb5a, 0xf84f3859,
   0x2c855cb2, 0xdeeedfb1, 0xcdbe2c45, 0x3fd5af46, 0x7198540d, 0x83f3d70e,
   0x90a324fa, 0x62c8a7f9, 0xb602c312, 0x44694011, 0x5739b3e5, 0xa55230e6,
   0xfb410cc2, 0x092a8fc1, 0x1a7a7c35, 0xe811ff36, 0x3cdb9bdd, 0xceb018de,
   0xdde0eb2a, 0x2f8b6829, 0x82f63b78, 0x709db87b, 0x63cd4b8f, 0x91a6c88c,
   0x456cac67, 0xb7072f64, 0xa457dc90, 0x563c5f93, 0x082f63b7, 0xfa44e0b4,
   0xe9141340, 0x1b7f9043, 0xcfb5f4a8, 0x3dde77ab, 0x2e8e845f, 0xdce5075c,
   0x92a8fc17, 0x60c37f14, 0x73938ce0, 0x81f80fe3, 0x55326b08, 0xa759e80b,
   0xb4091bff, 0x466298fc, 0x1871a4d8, 0xea1a27db, 0xf94ad42f, 0x0b21572c,
   0xdfeb33c7, 0x2d80b0c4, 0x3ed04330, 0xccbbc033, 0xa24bb5a6, 0x502036a5,
   0x4370c551, 0xb11b4652, 0x65d122b9, 0x97baa1ba, 0x84ea524e, 0x7681d14d,
   0x2892ed69, 0xdaf96e6a, 0xc9a99d9e, 0x3bc21e9d, 0xef087a76, 0x1d63f975,
   0x0e330a81, 0xfc588982, 0xb21572c9, 0x407ef1ca, 0x532e023e, 0xa145813d,
   0x758fe5d6, 0x87e466d5, 0x94b49521, 0x66df1622, 0x38cc2a06, 0xcaa7a905,
   0xd9f75af1, 0x2b9cd9f2, 0xff56bd19, 0x0d3d3e1a, 0x1e6dcdee, 0xec064eed,
   0xc38d26c4, 0x31e6a5c7, 0x22b65633, 0xd0ddd530, 0x0417b1db, 0xf67c32d8,
   0xe52cc12c, 0x1747422f, 0x49547e0b, 0xbb3ffd08, 0xa86f0efc, 0x5a048dff,
   0x8ecee914, 0x7ca56a17, 0x6ff599e3, 0x9d9e1ae0, 0xd3d3e1ab, 0x21b862a8,
   0x32e8915c, 0xc083125f, 0x144976b4, 0xe622f5b7, 0xf5720643, 0x07198540,
   0x590ab964, 0xab613a67, 0xb831c993, 0x4a5a4a90, 0x9e902e7b, 0x6cfbad78,
   0x7fab5e8c, 0x8dc0dd8f, 0xe330a81a, 0x115b2b19, 0x020bd8ed, 0xf0605bee,
   0x24aa3f05, 0xd6c1bc06, 0xc5914ff2, 0x37faccf1, 0x69e9f0d5, 0x9b8273d6,
   0x88d28022, 0x7ab90321, 0xae7367ca, 0x5c18e4c9, 0x4f48173d, 0xbd23943e,
   0xf36e6f75, 0x0105ec76, 0x12551f82, 0xe03e9c81, 0x34f4f86a, 0xc69f7b69,
   0xd5cf889d, 0x27a40b9e, 0x79b737ba, 0x8bdcb4b9, 0x988c474d, 0x6ae7c44e,
   0xbe2da0a5, 0x4c4623a6, 0x5f16d052, 0xad7d5351
   ]"

fun FvpChecksum_loop :: "u8 list \<Rightarrow> u32 \<Rightarrow> u32" where
  "FvpChecksum_loop [] temp = temp"
| "FvpChecksum_loop (b # byteBuffer) temp =
     FvpChecksum_loop byteBuffer (crcTable ! unat (b XOR ucast temp) XOR drop_bit 8 temp)"

definition FvpChecksum :: "u8 list \<Rightarrow> u64 \<Rightarrow> u64" where
  "FvpChecksum inputBuffer checksum =
     (checksum AND 0xffffffff00000000) OR ucast (FvpChecksum_loop inputBuffer (ucast checksum))"

text \<open>The header of 512 bytes, of which these fields are used.\<close>

definition header_Checksum :: "u8 list \<Rightarrow> u64" where
  "header_Checksum h = ucast (le32 h 0) OR push_bit 32 (ucast (le32 h 4))"

definition header_MajorVersion :: "u8 list \<Rightarrow> u8" where "header_MajorVersion h = h ! 0x0a"
definition header_MinorVersion :: "u8 list \<Rightarrow> u8" where "header_MinorVersion h = h ! 0x0b"
definition header_Signature :: "u8 list \<Rightarrow> u32" where "header_Signature h = le32 h 0x58"

definition FvpValidateVolumeHeader :: "u8 list \<Rightarrow> bool option" where
  "FvpValidateVolumeHeader volumeHeader =
     (if length volumeHeader \<noteq> 0x200 then None
      else if header_MajorVersion volumeHeader \<noteq> 0x10 \<or> header_MinorVersion volumeHeader \<noteq> 0 then Some False
      else if header_Signature volumeHeader = 0x5343 then Some True
      else if header_Signature volumeHeader \<noteq> 0x00015343 then Some False
      else Some (FvpChecksum (drop 8 volumeHeader) (- 1) = header_Checksum volumeHeader))"

section \<open>Unwrapping keys\<close>

text \<open>
  One block of the inner loop: the register A and the buffer of the plaintext. The counter goes into the last byte
  of A only.
\<close>

definition unwrap_block :: "(u8 list \<Rightarrow> u8 list) \<Rightarrow> nat \<Rightarrow> nat \<Rightarrow> nat \<Rightarrow> u8 list \<times> u8 list \<Rightarrow> u8 list \<times> u8 list" where
  "unwrap_block aes_decrypt n j i = (\<lambda>(A, plaintext).
     let B = A[7 := A ! 7 XOR of_nat (n * j + i)] @ take 8 (drop (8 * (i - 1)) plaintext);
         B = aes_decrypt B
     in (take 8 B, overlay plaintext (8 * (i - 1)) (take 8 (drop 8 B))))"

text \<open>i from n down to 1, and j from 5 down to 0.\<close>

fun unwrap_blocks :: "(u8 list \<Rightarrow> u8 list) \<Rightarrow> nat \<Rightarrow> nat \<Rightarrow> nat \<Rightarrow> u8 list \<times> u8 list \<Rightarrow> u8 list \<times> u8 list" where
  "unwrap_blocks aes_decrypt n j 0 s = s"
| "unwrap_blocks aes_decrypt n j (Suc i) s = unwrap_blocks aes_decrypt n j i (unwrap_block aes_decrypt n j (Suc i) s)"

fun unwrap_rounds :: "(u8 list \<Rightarrow> u8 list) \<Rightarrow> nat \<Rightarrow> nat \<Rightarrow> u8 list \<times> u8 list \<Rightarrow> u8 list \<times> u8 list" where
  "unwrap_rounds aes_decrypt n 0 s = s"
| "unwrap_rounds aes_decrypt n (Suc j) s = unwrap_rounds aes_decrypt n j (unwrap_blocks aes_decrypt n j n s)"

text \<open>With less than eight bytes of ciphertext the number of blocks wraps around and the copy leaves every object.\<close>

definition FvpAESUnwrap ::
  "(u8 list \<Rightarrow> u8 list \<Rightarrow> u8 list) \<Rightarrow> u8 list \<Rightarrow> nat \<Rightarrow> u64 \<Rightarrow> u8 list \<Rightarrow> nat \<Rightarrow> u8 list \<Rightarrow> (bool \<times> u8 list) option" where
  "FvpAESUnwrap aes_decrypt kekBuffer kekLength initValue ciphertext ciphertextLength plaintext = do {
     A \<leftarrow> get_bytes ciphertext 0 8;
     if ciphertextLength < 8 then None
     else do {
       let n = ciphertextLength div 8 - 1;
       r \<leftarrow> get_bytes ciphertext 8 (8 * n);
       plaintext \<leftarrow> put_bytes plaintext 0 r;
       key \<leftarrow> get_bytes kekBuffer 0 kekLength;
       let (A, plaintext) = unwrap_rounds (aes_decrypt key) n 6 (A, plaintext);
       Some (A = put_le32 (ucast initValue) @ put_le32 (ucast (drop_bit 32 initValue)), plaintext)
     }
   }"

text \<open>The context of a digest that has been set to zero.\<close>

definition zero_context :: SHA256_CONTEXT where
  "zero_context = \<lparr>TotalLength_0 = 0, TotalLength_1 = 0, State = replicate 8 0, Buffer = replicate 64 0\<rparr>"

text \<open>
  A KEY_SIGN_DATA starts at the head of the list. The local buffer is static; the byte between the first part
  and the message is never written, and the digest covers all but the last byte of the third part.
\<close>

definition FvpVerifyKeyData :: "u8 list \<Rightarrow> u8 list \<Rightarrow> nat \<Rightarrow> u8 list \<Rightarrow> (bool \<times> u8 list) option" where
  "FvpVerifyKeyData keySignData messageBuffer messageLength localBuffer = do {
     SignPart1 \<leftarrow> get_bytes keySignData 0x2c 0x20;
     localBuffer \<leftarrow> put_bytes localBuffer 0 SignPart1;
     m \<leftarrow> get_bytes messageBuffer 0 messageLength;
     localBuffer \<leftarrow> put_bytes localBuffer (0x20 + 1) m;
     SignPart3 \<leftarrow> get_bytes keySignData 0x4c 0x20;
     localBuffer \<leftarrow> put_bytes localBuffer (0x20 + 1 + messageLength) SignPart3;
     d \<leftarrow> get_bytes localBuffer 0 (0x20 + messageLength + 0x20);
     HashRound \<leftarrow> get32 keySignData 8;
     let d1 = (SHA256 zero_context ^^ (unat HashRound - 1)) (SHA256 zero_context d);
     SignResult \<leftarrow> get_bytes keySignData 0x0c 0x20;
     Some (d1 = SignResult, localBuffer)
   }"

text \<open>KEY_UNWRAPPED_DATA: the cryptor method, the length and the buffer of 128 bytes.\<close>

record KEY_UNWRAPPED_DATA =
  CryptorMethod :: u32
  DataLength :: u32
  DataBuffer :: "u8 list"

definition FvpKeyUnwrapData ::
  "(u8 list \<Rightarrow> u8 list \<Rightarrow> u8 list) \<Rightarrow> u8 list \<Rightarrow> nat \<Rightarrow> u8 list \<Rightarrow> KEY_UNWRAPPED_DATA \<Rightarrow> u8 list \<Rightarrow> (bool \<times> KEY_UNWRAPPED_DATA \<times> u8 list) option" where
  "FvpKeyUnwrapData aes_decrypt kekBuffer kekLength keyWrappedData keyUnwrappedData localBuffer = do {
     CiphertextLength \<leftarrow> get32 keyWrappedData 4;
     let plaintextLength = CiphertextLength - 8;
     (ok, plaintext) \<leftarrow> FvpAESUnwrap aes_decrypt kekBuffer kekLength 0xa6a6a6a6a6a6a6a6 (drop 8 keyWrappedData) (unat CiphertextLength)
       (DataBuffer keyUnwrappedData);
     let keyUnwrappedData = keyUnwrappedData\<lparr>DataBuffer := plaintext\<rparr>;
     if \<not> ok then Some (False, keyUnwrappedData, localBuffer)
     else do {
       m \<leftarrow> get32 keyWrappedData 0;
       let keyUnwrappedData = keyUnwrappedData\<lparr>DataLength := plaintextLength, CryptorMethod := m\<rparr>;
       (ok, localBuffer) \<leftarrow> FvpVerifyKeyData (drop 0x90 keyWrappedData) (DataBuffer keyUnwrappedData) (unat (DataLength keyUnwrappedData)) localBuffer;
       Some (ok, keyUnwrappedData, localBuffer)
     }
   }"

section \<open>Keys from passwords\<close>

text \<open>The context is cleared once and used for up to three digests.\<close>

definition FvpHMACSHA256 :: "u8 list \<Rightarrow> u8 list \<Rightarrow> u8 list" where
  "FvpHMACSHA256 messageBuffer keyBuffer =
     (let (keyBuffer, sha256Context) =
            (if 0x40 < length keyBuffer then SHA256_Final (SHA256_Update keyBuffer (SHA256_Init zero_context))
             else (keyBuffer, zero_context));
          kPad = map (\<lambda>x. x XOR 0x36) (overlay (replicate 0x40 0) 0 keyBuffer);
          (resultBuffer, sha256Context) = SHA256_Final (SHA256_Update messageBuffer (SHA256_Update kPad (SHA256_Init sha256Context)));
          kPad = map (\<lambda>x. x XOR 0x5c) (overlay (replicate 0x40 0) 0 keyBuffer)
      in fst (SHA256_Final (SHA256_Update resultBuffer (SHA256_Update kPad (SHA256_Init sha256Context)))))"

fun pbkdf2_rounds :: "nat \<Rightarrow> u8 list \<Rightarrow> u8 list \<Rightarrow> u8 list \<Rightarrow> u8 list" where
  "pbkdf2_rounds 0 password d1 result = result"
| "pbkdf2_rounds (Suc n) password d1 result =
     (let d1 = FvpHMACSHA256 d1 password in pbkdf2_rounds n password d1 (map2 (\<lambda>x y. x XOR y) result d1))"

function pbkdf2_blocks ::
  "u8 list \<Rightarrow> u8 list \<Rightarrow> nat \<Rightarrow> u32 \<Rightarrow> u32 \<Rightarrow> u8 list \<Rightarrow> nat \<Rightarrow> nat \<Rightarrow> u8 list option" where
  "pbkdf2_blocks password localSalt saltLength roundCount count keyBuffer i keyLength =
     (if keyLength = 0 then Some keyBuffer
      else do {
        localSalt \<leftarrow> put_bytes localSalt saltLength (put_be32 count);
        m \<leftarrow> get_bytes localSalt 0 (saltLength + 4);
        let d1 = FvpHMACSHA256 m password;
        let result = pbkdf2_rounds (unat roundCount - 1) password d1 d1;
        let len = (if keyLength < 0x20 then keyLength else 0x20);
        keyBuffer \<leftarrow> put_bytes keyBuffer i (take len result);
        pbkdf2_blocks password localSalt saltLength roundCount (count + 1) keyBuffer (i + len) (keyLength - len)
      })"
  by pat_completeness auto

termination
  by (relation "measure (\<lambda>(_, _, _, _, _, _, _, keyLength). keyLength)") auto

text \<open>The salt and the buffer of the key are NULL or pointers.\<close>

definition FvpPBKDF2 ::
  "u8 list \<Rightarrow> u8 list option \<Rightarrow> nat \<Rightarrow> u32 \<Rightarrow> u32 \<Rightarrow> u8 list option \<Rightarrow> nat \<Rightarrow> (bool \<times> u8 list option) option" where
  "FvpPBKDF2 password salt saltLength hmacMethod roundCount keyBuffer keyLength =
     (case (salt, keyBuffer) of (Some s, Some k) \<Rightarrow>
        if saltLength = 0 \<or> hmacMethod \<noteq> 3 \<or> roundCount = 0 \<or> keyLength = 0 then Some (False, keyBuffer)
        else do {
          d \<leftarrow> get_bytes s 0 saltLength;
          localSalt \<leftarrow> put_bytes (replicate 0x100 0) 0 d;
          k \<leftarrow> pbkdf2_blocks password localSalt saltLength roundCount 1 k 0 keyLength;
          Some (True, Some k)
        }
      | _ \<Rightarrow> Some (False, keyBuffer))"

record PASSPHASE_UNWRAPPED_DATA =
  pDataLength :: u32
  pDataBuffer :: "u8 list"

text \<open>Two static buffers: of the key and of the signature.\<close>

definition FvpPassphaseUnwrapData ::
  "(u8 list \<Rightarrow> u8 list \<Rightarrow> u8 list) \<Rightarrow> u8 list \<Rightarrow> u8 list \<Rightarrow> PASSPHASE_UNWRAPPED_DATA \<Rightarrow> u8 list \<times> u8 list \<Rightarrow>
   (bool \<times> PASSPHASE_UNWRAPPED_DATA \<times> u8 list \<times> u8 list) option" where
  "FvpPassphaseUnwrapData aes_decrypt password passphaseWrappedData passphaseUnwrappedData = (\<lambda>(keyBuffer, localBuffer). do {
     HMACMethod \<leftarrow> get32 passphaseWrappedData 0;
     SaltLength \<leftarrow> get32 passphaseWrappedData 4;
     KeyLength \<leftarrow> get32 passphaseWrappedData 0x18;
     RoundCount \<leftarrow> get32 passphaseWrappedData 0xa8;
     (ok, k) \<leftarrow> FvpPBKDF2 password (Some (drop 8 passphaseWrappedData)) (unat SaltLength) HMACMethod RoundCount (Some keyBuffer) (unat KeyLength);
     let keyBuffer = the k;
     if \<not> ok then Some (False, passphaseUnwrappedData, keyBuffer, localBuffer)
     else do {
       CiphertextLength \<leftarrow> get32 passphaseWrappedData 0x1c;
       let plaintextLength = CiphertextLength - 8;
       (ok, plaintext) \<leftarrow> FvpAESUnwrap aes_decrypt keyBuffer (unat KeyLength) 0xa6a6a6a6a6a6a6a6 (drop 0x20 passphaseWrappedData)
         (unat CiphertextLength) (pDataBuffer passphaseUnwrappedData);
       let passphaseUnwrappedData = passphaseUnwrappedData\<lparr>pDataBuffer := plaintext\<rparr>;
       if \<not> ok then Some (False, passphaseUnwrappedData, keyBuffer, localBuffer)
       else do {
         let passphaseUnwrappedData = passphaseUnwrappedData\<lparr>pDataLength := plaintextLength\<rparr>;
         (ok, localBuffer) \<leftarrow> FvpVerifyKeyData (drop 0xb0 passphaseWrappedData) (pDataBuffer passphaseUnwrappedData)
           (unat (pDataLength passphaseUnwrappedData)) localBuffer;
         Some (ok, passphaseUnwrappedData, keyBuffer, localBuffer)
       }
     }
   })"

end
