(* ===== verification/FileVaultWrap.thy ===== *)
theory FileVaultWrap
  imports FileVaultSpec
begin

text \<open>AES key wrap as RFC 3394 has it, and that FvpAESUnwrap accepts exactly what it makes.\<close>

section \<open>Wrapping\<close>

definition counter_bytes :: "nat \<Rightarrow> u8 list" where
  "counter_bytes t = map (\<lambda>k. of_nat (t div 256 ^ k)) [7, 6, 5, 4, 3, 2, 1, 0]"

definition wrap_block :: "(u8 list \<Rightarrow> u8 list) \<Rightarrow> nat \<Rightarrow> nat \<Rightarrow> nat \<Rightarrow> u8 list \<times> u8 list \<Rightarrow> u8 list \<times> u8 list" where
  "wrap_block encrypt n j i = (\<lambda>(A, R).
     let B = encrypt (A @ take 8 (drop (8 * (i - 1)) R))
     in (xor_bytes (take 8 B) (counter_bytes (n * j + i)), overlay R (8 * (i - 1)) (drop 8 B)))"

fun wrap_blocks :: "(u8 list \<Rightarrow> u8 list) \<Rightarrow> nat \<Rightarrow> nat \<Rightarrow> nat \<Rightarrow> u8 list \<times> u8 list \<Rightarrow> u8 list \<times> u8 list" where
  "wrap_blocks encrypt n j 0 s = s"
| "wrap_blocks encrypt n j (Suc i) s = wrap_block encrypt n j (Suc i) (wrap_blocks encrypt n j i s)"

fun wrap_rounds :: "(u8 list \<Rightarrow> u8 list) \<Rightarrow> nat \<Rightarrow> nat \<Rightarrow> u8 list \<times> u8 list \<Rightarrow> u8 list \<times> u8 list" where
  "wrap_rounds encrypt n 0 s = s"
| "wrap_rounds encrypt n (Suc j) s = wrap_blocks encrypt n j n (wrap_rounds encrypt n j s)"

definition key_wrap :: "(u8 list \<Rightarrow> u8 list) \<Rightarrow> u8 list \<Rightarrow> u8 list \<Rightarrow> u8 list" where
  "key_wrap encrypt iv P = (let (A, R) = wrap_rounds encrypt (length P div 8) 6 (iv, P) in A @ R)"

text \<open>What is used of a block cipher: the two directions undo each other on blocks of 16 bytes.\<close>

definition cipher_pair :: "(u8 list \<Rightarrow> u8 list) \<Rightarrow> (u8 list \<Rightarrow> u8 list) \<Rightarrow> bool" where
  "cipher_pair encrypt decrypt \<longleftrightarrow> (\<forall>b. length b = 16 \<longrightarrow>
     length (encrypt b) = 16 \<and> length (decrypt b) = 16 \<and> decrypt (encrypt b) = b \<and> encrypt (decrypt b) = b)"

section \<open>The two directions\<close>

lemma length_8: "length A = 8 \<Longrightarrow> \<exists>a b c d e f g h. A = [a, b, c, d, e, f, g, h]"
  by (auto simp: numeral_eq_Suc length_Suc_conv)

lemma counter_xor:
  assumes "length A = 8" and "t < 256"
  shows "xor_bytes A (counter_bytes t) = A[7 := A ! 7 XOR of_nat t]"
proof -
  obtain a b c d e f g h where A: "A = [a, b, c, d, e, f, g, h]" using length_8 [OF assms(1)] by blast
  have "t div 256 = 0" "t div 65536 = 0" "t div 16777216 = 0" "t div 4294967296 = 0" "t div 1099511627776 = 0"
    "t div 281474976710656 = 0" "t div 72057594037927936 = 0"
    using assms(2) by simp_all
  then show ?thesis using A by (simp add: xor_bytes_def counter_bytes_def)
qed

lemma xor_twice: "A[7 := (A ! 7 XOR x), 7 := ((A[7 := A ! 7 XOR x]) ! 7 XOR x)] = A" if "length A = 8" for A :: "u8 list"
  using that by (simp add: xor.assoc)

text \<open>States: a register of eight bytes and n blocks.\<close>

definition wrap_ok :: "nat \<Rightarrow> u8 list \<times> u8 list \<Rightarrow> bool" where
  "wrap_ok n s \<longleftrightarrow> length (fst s) = 8 \<and> length (snd s) = 8 * n"

lemma overlay_id: "i + 8 \<le> length R \<Longrightarrow> overlay (overlay R i x) i (take 8 (drop i R)) = R" if "length x = 8" for R x :: "u8 list"
  using that by (simp add: overlay_def min.absorb1) (metis add.commute append_take_drop_id drop_drop take_drop)

lemma take_drop_overlay: "i + 8 \<le> length R \<Longrightarrow> length x = 8 \<Longrightarrow> take 8 (drop i (overlay R i x)) = x"
  by (simp add: overlay_def)

lemma block_inverse:
  assumes "cipher_pair encrypt decrypt" and "wrap_ok n s" and "1 \<le> i" "i \<le> n" and "n * j + i < 256"
  shows "unwrap_block decrypt n j i (wrap_block encrypt n j i s) = s" and "wrap_block encrypt n j i (unwrap_block decrypt n j i s) = s"
    and "wrap_ok n (wrap_block encrypt n j i s)" and "wrap_ok n (unwrap_block decrypt n j i s)"
proof -
  obtain A R where s: "s = (A, R)" by (cases s)
  let ?k = "8 * (i - 1)" and ?t = "n * j + i"
  have A: "length A = 8" and R: "length R = 8 * n" using assms(2) s by (simp_all add: wrap_ok_def)
  have k: "?k + 8 \<le> length R"
  proof -
    have "?k + 8 = 8 * i" using assms(3) by simp
    also have "\<dots> \<le> 8 * n" using assms(4) by simp
    finally show ?thesis using R by simp
  qed
  let ?B = "take 8 (drop ?k R)" and ?A = "A[7 := A ! 7 XOR of_nat ?t]"
  have b: "length (A @ ?B) = 16" "length (?A @ ?B) = 16" using A k by simp_all
  let ?E = "encrypt (A @ ?B)" and ?D = "decrypt (?A @ ?B)"
  have ED: "length ?E = 16" "decrypt ?E = A @ ?B" "length ?D = 16" "encrypt ?D = ?A @ ?B" using assms(1) b by (simp_all add: cipher_pair_def)
  have xt: "xor_bytes (take 8 ?E) (counter_bytes ?t) = (take 8 ?E)[7 := take 8 ?E ! 7 XOR of_nat ?t]"
    "xor_bytes ?A (counter_bytes ?t) = A"
    using counter_xor [of "take 8 ?E" ?t] counter_xor [of ?A ?t] assms(5) ED A xor_twice [OF A, of "of_nat ?t"] by simp_all
  have W: "wrap_block encrypt n j i s = ((take 8 ?E)[7 := take 8 ?E ! 7 XOR of_nat ?t], overlay R ?k (drop 8 ?E))"
    using xt s by (simp add: wrap_block_def Let_def)
  have U: "unwrap_block decrypt n j i s = (take 8 ?D, overlay R ?k (drop 8 ?D))"
    using s ED by (simp add: unwrap_block_def Let_def)
  show "unwrap_block decrypt n j i (wrap_block encrypt n j i s) = s"
    using W s ED k xor_twice [of "take 8 ?E" "of_nat ?t"] A overlay_id [of "drop 8 ?E" ?k R]
    by (simp add: unwrap_block_def Let_def take_drop_overlay)
  show "wrap_block encrypt n j i (unwrap_block decrypt n j i s) = s"
    using U s ED k xt A overlay_id [of "drop 8 ?D" ?k R] by (simp add: wrap_block_def Let_def take_drop_overlay)
  show "wrap_ok n (wrap_block encrypt n j i s)" "wrap_ok n (unwrap_block decrypt n j i s)"
    using W U ED k R by (simp_all add: wrap_ok_def)
qed

lemma blocks_inverse:
  assumes "cipher_pair encrypt decrypt" and "wrap_ok n s" and "i \<le> n" and "n * j + n < 256"
  shows "unwrap_blocks decrypt n j i (wrap_blocks encrypt n j i s) = s" and "wrap_blocks encrypt n j i (unwrap_blocks decrypt n j i s) = s"
    and "wrap_ok n (wrap_blocks encrypt n j i s)" and "wrap_ok n (unwrap_blocks decrypt n j i s)"
proof -
  have "wrap_ok n s \<longrightarrow> unwrap_blocks decrypt n j i (wrap_blocks encrypt n j i s) = s \<and> wrap_blocks encrypt n j i (unwrap_blocks decrypt n j i s) = s \<and>
    wrap_ok n (wrap_blocks encrypt n j i s) \<and> wrap_ok n (unwrap_blocks decrypt n j i s)"
    using assms(3)
  proof (induction i arbitrary: s)
    case (Suc i)
    have i: "1 \<le> Suc i" "n * j + Suc i < 256" using Suc.prems assms(4) by simp_all
    show ?case
    proof
      assume s: "wrap_ok n s"
      note here = block_inverse [OF assms(1) _ i(1) Suc.prems i(2)]
      have IH: "wrap_ok n u \<Longrightarrow> unwrap_blocks decrypt n j i (wrap_blocks encrypt n j i u) = u \<and> wrap_blocks encrypt n j i (unwrap_blocks decrypt n j i u) = u \<and>
        wrap_ok n (wrap_blocks encrypt n j i u) \<and> wrap_ok n (unwrap_blocks decrypt n j i u)" for u
        using Suc.IH Suc.prems by simp
      show "unwrap_blocks decrypt n j (Suc i) (wrap_blocks encrypt n j (Suc i) s) = s \<and>
        wrap_blocks encrypt n j (Suc i) (unwrap_blocks decrypt n j (Suc i) s) = s \<and>
        wrap_ok n (wrap_blocks encrypt n j (Suc i) s) \<and> wrap_ok n (unwrap_blocks decrypt n j (Suc i) s)"
        using here [of "wrap_blocks encrypt n j i s"] here [OF s] IH [OF s] IH [of "unwrap_block decrypt n j (Suc i) s"] by simp
    qed
  qed simp
  then show "unwrap_blocks decrypt n j i (wrap_blocks encrypt n j i s) = s" "wrap_blocks encrypt n j i (unwrap_blocks decrypt n j i s) = s"
    "wrap_ok n (wrap_blocks encrypt n j i s)" "wrap_ok n (unwrap_blocks decrypt n j i s)" using assms(2) by simp_all
qed

lemma rounds_inverse:
  assumes "cipher_pair encrypt decrypt" and "n * j < 256" and "wrap_ok n s"
  shows "unwrap_rounds decrypt n j (wrap_rounds encrypt n j s) = s \<and> wrap_rounds encrypt n j (unwrap_rounds decrypt n j s) = s \<and>
    wrap_ok n (wrap_rounds encrypt n j s) \<and> wrap_ok n (unwrap_rounds decrypt n j s)"
  using assms(2,3)
proof (induction j arbitrary: s)
  case (Suc j)
  have j: "n * j + n < 256" "n * j < 256" using Suc.prems(1) by (simp_all add: add.commute)
  note here = blocks_inverse [OF assms(1) _ order.refl j(1)]
  show ?case
    using here [of "wrap_rounds encrypt n j s"] here [OF Suc.prems(2)] Suc.IH [OF j(2) Suc.prems(2)] Suc.IH [OF j(2), of "unwrap_blocks decrypt n j n s"]
    by simp
qed simp

text \<open>What is behind the blocks stays.\<close>

lemma unwrap_block_append:
  "8 * i \<le> length R \<Longrightarrow> 1 \<le> i \<Longrightarrow>
   unwrap_block decrypt n j i (A, R @ z) = (fst (unwrap_block decrypt n j i (A, R)), snd (unwrap_block decrypt n j i (A, R)) @ z)"
  if "\<And>b. length b = 16 \<Longrightarrow> length (decrypt b) = 16" "length A = 8"
proof -
  assume i: "8 * i \<le> length R" "1 \<le> i"
  let ?k = "8 * (i - 1)"
  have "?k + 8 = 8 * i" using i(2) by simp
  then have k: "?k + 8 \<le> length R" using i(1) by simp
  let ?D = "decrypt (A[7 := A ! 7 XOR of_nat (n * j + i)] @ take 8 (drop ?k R))"
  have "length ?D = 16" using that k by simp
  then show ?thesis using k by (simp add: unwrap_block_def Let_def overlay_def)
qed

definition behind :: "u8 list \<Rightarrow> u8 list \<times> u8 list \<Rightarrow> u8 list \<times> u8 list" where
  "behind z s = (fst s, snd s @ z)"

lemma unwrap_blocks_behind:
  assumes "cipher_pair encrypt decrypt" and "wrap_ok n s" and "i \<le> n" and "n * j + n < 256"
  shows "unwrap_blocks decrypt n j i (behind z s) = behind z (unwrap_blocks decrypt n j i s)"
  using assms(2,3)
proof (induction i arbitrary: s)
  case (Suc i)
  have "unwrap_block decrypt n j (Suc i) (behind z s) = behind z (unwrap_block decrypt n j (Suc i) s)"
    using assms(1) Suc.prems unwrap_block_append [of decrypt "fst s" "Suc i" "snd s" n j z] by (simp add: cipher_pair_def wrap_ok_def behind_def)
  then show ?case using Suc block_inverse(4) [OF assms(1) Suc.prems(1) _ Suc.prems(2), of j] assms(4) by simp
qed simp

lemma unwrap_rounds_behind:
  assumes "cipher_pair encrypt decrypt" and "wrap_ok n s" and "n * j < 256"
  shows "unwrap_rounds decrypt n j (behind z s) = behind z (unwrap_rounds decrypt n j s)"
  using assms(2,3)
proof (induction j arbitrary: s)
  case (Suc j)
  have j: "n * j + n < 256" "n * j < 256" using Suc.prems(2) by (simp_all add: add.commute)
  show ?case using unwrap_blocks_behind [OF assms(1) Suc.prems(1) order.refl j(1)] blocks_inverse(4) [OF assms(1) Suc.prems(1) order.refl j(1)] Suc.IH j(2)
    by simp
qed simp

section \<open>FvpAESUnwrap\<close>

definition iv_bytes :: "u64 \<Rightarrow> u8 list" where
  "iv_bytes v = put_le32 (ucast v) @ put_le32 (ucast (drop_bit 32 v))"

lemma unwrap_exact:
  assumes "cipher_pair encrypt (aes_decrypt (take kekLength kek))" and "kekLength \<le> length kek"
    and "length C = 8 * n + 8" and "n < 43" and "8 * n \<le> length buffer"
  shows "\<exists>ok P. FvpAESUnwrap aes_decrypt kek kekLength v (C @ z) (length C) buffer = Some (ok, P @ drop (8 * n) buffer) \<and> length P = 8 * n \<and>
    (ok \<longleftrightarrow> key_wrap encrypt (iv_bytes v) P = C) \<and>
    (\<forall>Q. length Q = 8 * n \<and> key_wrap encrypt (iv_bytes v) Q = C \<longrightarrow> Q = P)"
proof -
  let ?decrypt = "aes_decrypt (take kekLength kek)" and ?s = "(take 8 C, drop 8 C)"
  have s: "wrap_ok n ?s" using assms(3) by (simp add: wrap_ok_def)
  have n: "n * 6 < 256" using assms(4) by simp
  obtain A P where AP: "unwrap_rounds ?decrypt n 6 ?s = (A, P)" by (meson surj_pair)
  have again: "wrap_rounds encrypt n 6 (A, P) = ?s" and ok: "length A = 8" "length P = 8 * n"
    using rounds_inverse [OF assms(1) n s] AP by (auto simp: wrap_ok_def)
  have "unwrap_rounds ?decrypt n 6 (behind (drop (8 * n) buffer) ?s) = (A, P @ drop (8 * n) buffer)"
    using unwrap_rounds_behind [OF assms(1) s n] AP by (simp add: behind_def)
  then have run: "FvpAESUnwrap aes_decrypt kek kekLength v (C @ z) (length C) buffer = Some (A = iv_bytes v, P @ drop (8 * n) buffer)"
    using assms(2,3,5) by (simp add: FvpAESUnwrap_def get_bytes_def put_bytes_def behind_def overlay_def iv_bytes_def)
  have len: "length (iv_bytes v) = 8" by (simp add: iv_bytes_def)
  have found: "A = iv_bytes v \<and> Q = P" if Q: "length Q = 8 * n" and w: "key_wrap encrypt (iv_bytes v) Q = C" for Q
  proof -
    obtain A' R where AR: "wrap_rounds encrypt n 6 (iv_bytes v, Q) = (A', R)" by (meson surj_pair)
    have i: "wrap_ok n (iv_bytes v, Q)" using len Q by (simp add: wrap_ok_def)
    have "length A' = 8" using rounds_inverse [OF assms(1) n i] AR by (simp add: wrap_ok_def)
    moreover have "A' @ R = C" using w AR Q by (simp add: key_wrap_def)
    ultimately have "(A', R) = ?s" by auto
    then show ?thesis using rounds_inverse [OF assms(1) n i] AR AP by simp
  qed
  have "A = iv_bytes v \<Longrightarrow> key_wrap encrypt (iv_bytes v) P = C" using again ok by (simp add: key_wrap_def)
  then have "A = iv_bytes v \<longleftrightarrow> key_wrap encrypt (iv_bytes v) P = C" using found [OF ok(2)] by blast
  then show ?thesis using run ok found by blast
qed

end
