(* ===== verification/FileVaultKeys.thy ===== *)
theory FileVaultKeys
  imports FileVault DeviceTree
begin

text \<open>
  The rest of FileVault.c: the users and wrapped keys of the property list, the login, the volume keys and the
  key store. What is typed at the login is a list of attempts; console output is left out.
\<close>

section \<open>State\<close>

record VOLUME_KEY_INFO =
  WrappedVolumeKeyDictTag :: "XML_TAG option"
  UnwrappedVolumeKeyData :: KEY_UNWRAPPED_DATA

record file_vault =
  FvpEncryptedRootPlistTag :: "XML_TAG option"
  FvpWrappedVolumeKeyCount :: nat
  FvpWrappedVolumeKeysListTag :: "XML_TAG option"
  FvpMasterKeyUserDictTag :: "XML_TAG option"
  FvpRecoveryKeyUserDictTag :: "XML_TAG option"
  FvpResetIdent :: "u8 list option"
  FvpLoginUnlockIdent :: "u8 list option"
  FvpUserPassword :: "u8 list option"
  FvpKeyEncryptingKeyIdent :: "u8 list option"
  FvpVolumeKeyKEKLength :: nat
  FvpVolumeKeyKEK :: "u8 list"
  FvpVolumeKeyCount :: nat
  FvpVolumeKeyList :: "VOLUME_KEY_INFO list"
  fv_localBuffer :: "u8 list"
  fv_keyBuffer :: "u8 list"

definition cstr :: "string \<Rightarrow> u8 list" where
  "cstr s = map (of_nat \<circ> of_char) s @ [0]"

text \<open>The value of a key, if there is one of the type.\<close>

definition typed_value :: "XML_TAG option \<Rightarrow> string \<Rightarrow> nat \<Rightarrow> XML_TAG option option" where
  "typed_value dictTag keyName ty = do {
     ts \<leftarrow> CmGetTagValueForKey dictTag (cstr keyName);
     Some (case ts of [] \<Rightarrow> None | t # _ \<Rightarrow> if XML_TAG.Type t \<noteq> ty then None else Some t)
   }"

definition if_found :: "XML_TAG option option \<Rightarrow> file_vault \<Rightarrow> (XML_TAG \<Rightarrow> (EFI_STATUS \<times> file_vault) option) \<Rightarrow> (EFI_STATUS \<times> file_vault) option" where
  "if_found x v f = (case x of None \<Rightarrow> None | Some None \<Rightarrow> Some (EFI_NOT_FOUND, v) | Some (Some t) \<Rightarrow> f t)"

section \<open>Loading the configuration\<close>

definition get16 :: "u8 list \<Rightarrow> nat \<Rightarrow> nat" where
  "get16 d i = unat (d ! i) + 256 * unat (d ! (i + 1))"

text \<open>The users with a master key and with the recovery key; the search ends at a user without a type.\<close>

fun find_special_users :: "XML_TAG option \<Rightarrow> nat \<Rightarrow> nat \<Rightarrow> file_vault \<Rightarrow> file_vault option" where
  "find_special_users cryptoUserListTag i 0 v = Some v"
| "find_special_users cryptoUserListTag i (Suc n) v =
     (case CmGetListTagElementByIndex cryptoUserListTag i of [] \<Rightarrow> Some v
      | cryptoUserDictTag # _ \<Rightarrow>
          if XML_TAG.Type cryptoUserDictTag \<noteq> XML_TAG_DICT then Some v
          else do {
            t \<leftarrow> typed_value (Some cryptoUserDictTag) ''UserType'' XML_TAG_INTEGER;
            (case t of None \<Rightarrow> Some v
             | Some userTypeTag \<Rightarrow>
                 find_special_users cryptoUserListTag (i + 1) n
                   (if IntegerValue userTypeTag = 0x20080007 then v\<lparr>FvpMasterKeyUserDictTag := Some cryptoUserDictTag\<rparr>
                    else if IntegerValue userTypeTag = 0x10010005 then v\<lparr>FvpRecoveryKeyUserDictTag := Some cryptoUserDictTag\<rparr>
                    else v))
          })"

definition use_root_plist :: "file_vault \<Rightarrow> (EFI_STATUS \<times> file_vault) option" where
  "use_root_plist v = do {
     ts \<leftarrow> CmGetTagValueForKey (FvpEncryptedRootPlistTag v) (cstr ''WrappedVolumeKeys'');
     let v = v\<lparr>FvpWrappedVolumeKeysListTag := (case ts of [] \<Rightarrow> None | t # _ \<Rightarrow> Some t)\<rparr>;
     (case FvpWrappedVolumeKeysListTag v of None \<Rightarrow> Some (EFI_VOLUME_CORRUPTED, v)
      | Some t \<Rightarrow>
          if XML_TAG.Type t \<noteq> XML_TAG_ARRAY then Some (EFI_VOLUME_CORRUPTED, v)
          else
            let v = v\<lparr>FvpWrappedVolumeKeyCount := CmGetListTagElementsCount (Some t)\<rparr> in
            if FvpWrappedVolumeKeyCount v = 0 then Some (EFI_VOLUME_CORRUPTED, v)
            else if_found (typed_value (FvpEncryptedRootPlistTag v) ''CryptoUsers'' XML_TAG_ARRAY) v (\<lambda>cryptoUserListTag.
              let count = CmGetListTagElementsCount (Some cryptoUserListTag) in
              if count = 0 then Some (EFI_NOT_FOUND, v)
              else map_option (Pair EFI_SUCCESS) (find_special_users (Some cryptoUserListTag) 0 count v)))
   }"

text \<open>
  What the firmware and the libraries answer is given: whether the machine boots from the net, the bytes of a
  file, the two protocols, the header from the last and from the first block, and the decryption in XTS mode
  with the key that starts at the head of the list.
\<close>

definition wipekey_path :: string where
  "wipekey_path = concat (map (\<lambda>d. d @ [CHR 0x5C]) [''System'', ''Library'', ''Caches'', ''com.apple.corestorage'']) @ ''EncryptedRoot.plist.wipekey''"

record fv_source =
  bootingFromNet :: bool
  readFile :: "u8 list \<Rightarrow> EFI_STATUS \<times> u8 list"
  blockIo :: EFI_STATUS
  diskIo :: EFI_STATUS
  lastBlock :: "EFI_STATUS \<times> u8 list"
  firstBlock :: "EFI_STATUS \<times> u8 list"
  xts :: "u8 list \<Rightarrow> nat \<Rightarrow> u8 list \<Rightarrow> u8 list"

definition FvpLoadCoreStorageConfig :: "fv_source \<Rightarrow> config \<times> file_vault \<Rightarrow> (EFI_STATUS \<times> config \<times> file_vault) option" where
  "FvpLoadCoreStorageConfig src = (\<lambda>(c, v).
     if bootingFromNet src then Some (EFI_NOT_FOUND, c, v)
     else
       let (status, bytes) = readFile src (cstr wipekey_path);
           (status, bytes) = (if EFI_ERROR status then readFile src (cstr ''EncryptedRoot.plist.wipekey'') else (status, bytes))
       in if EFI_ERROR status then Some (status, c, v)
          else if bytes = [] then Some (EFI_NOT_FOUND, c, v)
          else if EFI_ERROR (blockIo src) then Some (blockIo src, c, v)
          else if EFI_ERROR (diskIo src) then Some (diskIo src, c, v)
          else
            let (status, localHeader) = (if EFI_ERROR (fst (lastBlock src)) then firstBlock src else lastBlock src) in
            if EFI_ERROR status then Some (status, c, v)
            else do {
              valid \<leftarrow> FvpValidateVolumeHeader localHeader;
              if \<not> valid \<or> get16 localHeader 0xac \<noteq> 2 then Some (EFI_VOLUME_CORRUPTED, c, v)
              else do {
                let fileBuffer = xts src (drop 0xb0 localHeader) (get16 localHeader 0xa8) bytes @ [0];
                ((status, tag), c) \<leftarrow> CmParseXmlFile fileBuffer True c;
                if EFI_ERROR status then Some (status, c, v)
                else do {
                  (status, v) \<leftarrow> use_root_plist (v\<lparr>FvpEncryptedRootPlistTag := tag\<rparr>);
                  Some (status, c, v)
                }
              }
            })"

section \<open>The volume's key encrypting key\<close>

definition zero_unwrapped :: KEY_UNWRAPPED_DATA where
  "zero_unwrapped = \<lparr>CryptorMethod = 0, DataLength = 0, DataBuffer = replicate 0x80 0\<rparr>"

definition zero_passphase :: PASSPHASE_UNWRAPPED_DATA where
  "zero_passphase = \<lparr>pDataLength = 0, pDataBuffer = replicate 0x80 0\<rparr>"

definition set_kek :: "nat \<Rightarrow> u8 list \<Rightarrow> file_vault \<Rightarrow> (EFI_STATUS \<times> file_vault) option" where
  "set_kek n buffer v = do {
     d \<leftarrow> get_bytes buffer 0 n;
     k \<leftarrow> put_bytes (FvpVolumeKeyKEK v) 0 d;
     Some (EFI_SUCCESS, v\<lparr>FvpVolumeKeyKEKLength := n, FvpVolumeKeyKEK := k\<rparr>)
   }"

definition FvpDecryptVolumeKEKWithMasterKeyUser :: "(u8 list \<Rightarrow> u8 list \<Rightarrow> u8 list) \<Rightarrow> file_vault \<Rightarrow> (EFI_STATUS \<times> file_vault) option" where
  "FvpDecryptVolumeKEKWithMasterKeyUser aes_decrypt v =
     (case FvpMasterKeyUserDictTag v of None \<Rightarrow> Some (EFI_NOT_FOUND, v)
      | Some user \<Rightarrow>
          if XML_TAG.Type user \<noteq> XML_TAG_DICT then Some (EFI_NOT_FOUND, v)
          else if_found (typed_value (Some user) ''ExternalKeyProps'' XML_TAG_DICT) v (\<lambda>externalKeyPropsDictTag.
            if_found (typed_value (Some externalKeyPropsDictTag) ''revert-user-version'' XML_TAG_INTEGER) v (\<lambda>revertUserVersion.
            if IntegerValue revertUserVersion \<noteq> 1 then Some (EFI_NOT_FOUND, v)
            else if_found (typed_value (Some user) ''KeyWrappedKEKStruct'' XML_TAG_DATA) v (\<lambda>keyWrappedKEKStructTag.
            if_found (typed_value (Some user) ''WrapperVersion'' XML_TAG_INTEGER) v (\<lambda>wrapperVersionTag.
            if IntegerValue wrapperVersionTag \<noteq> 1 then Some (EFI_NOT_FOUND, v)
            else if_found (typed_value (Some user) ''KeyEncryptingKeyIdent'' XML_TAG_STRING) v (\<lambda>keyEncryptingKeyIdentTag. do {
              let v = v\<lparr>FvpKeyEncryptingKeyIdent := StringValue keyEncryptingKeyIdentTag\<rparr>;
              d \<leftarrow> DataValue keyWrappedKEKStructTag;
              (ok, keyUnwrappedData, b) \<leftarrow> FvpKeyUnwrapData aes_decrypt (replicate 16 0) 16 d zero_unwrapped (fv_localBuffer v);
              let v = v\<lparr>fv_localBuffer := b\<rparr>;
              if \<not> ok then Some (EFI_NOT_FOUND, v)
              else set_kek (unat (DataLength keyUnwrappedData)) (DataBuffer keyUnwrappedData) v
            }))))))"

definition FvpDecryptVolumeKEKWithUserPassword ::
  "(u8 list \<Rightarrow> u8 list \<Rightarrow> u8 list) \<Rightarrow> XML_TAG option \<Rightarrow> XML_TAG option \<Rightarrow> u8 list \<Rightarrow> file_vault \<Rightarrow> (EFI_STATUS \<times> file_vault) option" where
  "FvpDecryptVolumeKEKWithUserPassword aes_decrypt cryptoUserDictTag resetUserDictTag password v =
     (case cryptoUserDictTag of None \<Rightarrow> Some (EFI_NOT_FOUND, v)
      | Some user \<Rightarrow>
          if XML_TAG.Type user \<noteq> XML_TAG_DICT then Some (EFI_NOT_FOUND, v)
          else if_found (typed_value (Some user) ''PassphraseWrappedKEKStruct'' XML_TAG_DATA) v (\<lambda>passphraseWrappedKEKStruct.
            if_found (typed_value (Some user) ''WrapVersion'' XML_TAG_INTEGER) v (\<lambda>wrapperVersionTag.
            if IntegerValue wrapperVersionTag \<noteq> 1 then Some (EFI_NOT_FOUND, v)
            else if_found (typed_value (Some user) ''KeyEncryptingKeyIdent'' XML_TAG_STRING) v (\<lambda>keyEncryptingKeyIdentTag.
            if_found (typed_value (Some user) ''UserIdent'' XML_TAG_STRING) v (\<lambda>userIdentTag. do {
              d \<leftarrow> DataValue passphraseWrappedKEKStruct;
              n \<leftarrow> strlen password;
              (ok, p, k, b) \<leftarrow> FvpPassphaseUnwrapData aes_decrypt (take n password) d zero_passphase (fv_keyBuffer v, fv_localBuffer v);
              let v = v\<lparr>fv_keyBuffer := k, fv_localBuffer := b\<rparr>;
              if \<not> ok then Some (EFI_NOT_FOUND, v)
              else do {
                let finish = (\<lambda>v. set_kek (unat (pDataLength p)) (pDataBuffer p)
                  (v\<lparr>FvpLoginUnlockIdent := StringValue userIdentTag, FvpUserPassword := Some password,
                     FvpKeyEncryptingKeyIdent := StringValue keyEncryptingKeyIdentTag\<rparr>));
                (case resetUserDictTag of None \<Rightarrow> finish v
                 | Some reset \<Rightarrow> if_found (typed_value (Some reset) ''UserIdent'' XML_TAG_STRING) v (\<lambda>resetUserIdentTag.
                     finish (v\<lparr>FvpResetIdent := StringValue resetUserIdentTag\<rparr>)))
              }
            })))))"

section \<open>Users\<close>

text \<open>
  A name as data has no terminator: the comparison looks at the byte behind it, which is inside the larger buffer and
  of no consequence.
\<close>

fun name_in_list :: "u8 list \<Rightarrow> XML_TAG option \<Rightarrow> nat \<Rightarrow> nat \<Rightarrow> bool option" where
  "name_in_list userName userNameDataListTag j 0 = Some False"
| "name_in_list userName userNameDataListTag j (Suc n) =
     (case CmGetListTagElementByIndex userNameDataListTag j of [] \<Rightarrow> name_in_list userName userNameDataListTag (j + 1) n
      | t # _ \<Rightarrow>
          if XML_TAG.Type t \<noteq> XML_TAG_DATA then name_in_list userName userNameDataListTag (j + 1) n
          else do {
            d \<leftarrow> DataValue t;
            c \<leftarrow> strnicmp (d @ [0]) userName (length d);
            if c = 0 then Some True else name_in_list userName userNameDataListTag (j + 1) n
          })"

definition user_has_name :: "u8 list \<Rightarrow> XML_TAG \<Rightarrow> bool option" where
  "user_has_name userName cryptoUserDictTag = do {
     ts \<leftarrow> CmGetTagValueForKey (Some cryptoUserDictTag) (cstr ''UserNamesData'');
     (case ts of [] \<Rightarrow> Some False
      | t # _ \<Rightarrow>
          if XML_TAG.Type t = XML_TAG_STRING then do {
            s \<leftarrow> StringValue t;
            n \<leftarrow> strlen userName;
            c \<leftarrow> strnicmp s userName n;
            Some (c = 0)
          }
          else if XML_TAG.Type t = XML_TAG_ARRAY then name_in_list userName (Some t) 0 (CmGetListTagElementsCount (Some t))
          else Some False)
   }"

fun find_user :: "u8 list \<Rightarrow> XML_TAG option \<Rightarrow> nat \<Rightarrow> nat \<Rightarrow> XML_TAG option option" where
  "find_user userName cryptoUserListTag i 0 = Some None"
| "find_user userName cryptoUserListTag i (Suc n) =
     (case CmGetListTagElementByIndex cryptoUserListTag i of [] \<Rightarrow> find_user userName cryptoUserListTag (i + 1) n
      | t # _ \<Rightarrow>
          if XML_TAG.Type t \<noteq> XML_TAG_DICT then find_user userName cryptoUserListTag (i + 1) n
          else do {
            found \<leftarrow> user_has_name userName t;
            if found then Some (Some t) else find_user userName cryptoUserListTag (i + 1) n
          })"

definition FvpFindCryptoUserDictTypeByName :: "u8 list \<Rightarrow> file_vault \<Rightarrow> XML_TAG option option" where
  "FvpFindCryptoUserDictTypeByName userName v = do {
     t \<leftarrow> typed_value (FvpEncryptedRootPlistTag v) ''CryptoUsers'' XML_TAG_ARRAY;
     (case t of None \<Rightarrow> Some None
      | Some cryptoUserListTag \<Rightarrow> find_user userName (Some cryptoUserListTag) 0 (CmGetListTagElementsCount (Some cryptoUserListTag)))
   }"

section \<open>Login\<close>

text \<open>
  An attempt is what is typed: a name, a choice from the menu and a password, each with its terminator. The name
  alone is asked for when the user is not found. The substitution of letters in a recovery key changes a
  local variable only, so it is not here. The choices 2 and 3 restart or stop the machine.
\<close>

type_synonym attempt = "u8 list \<times> nat \<times> u8 list"

fun login_loop :: "(u8 list \<Rightarrow> u8 list \<Rightarrow> u8 list) \<Rightarrow> attempt list \<Rightarrow> file_vault \<Rightarrow> file_vault option" where
  "login_loop aes_decrypt [] v = None"
| "login_loop aes_decrypt ((userName, selection, password) # attempts) v = do {
     user \<leftarrow> FvpFindCryptoUserDictTypeByName userName v;
     (case user of None \<Rightarrow> login_loop aes_decrypt attempts v
      | Some cryptoUserDictTag \<Rightarrow>
          if selection = 0 then do {
            (status, v) \<leftarrow> FvpDecryptVolumeKEKWithUserPassword aes_decrypt (Some cryptoUserDictTag) None password v;
            if \<not> EFI_ERROR status then Some v else login_loop aes_decrypt attempts v
          }
          else if selection = 1 then do {
            (status, v) \<leftarrow> FvpDecryptVolumeKEKWithUserPassword aes_decrypt (FvpRecoveryKeyUserDictTag v) (Some cryptoUserDictTag) password v;
            if \<not> EFI_ERROR status then Some v else login_loop aes_decrypt attempts v
          }
          else None)
   }"

text \<open>One wrapped key, which goes into the list when it can be unwrapped.\<close>

definition unwrap_volume_key :: "(u8 list \<Rightarrow> u8 list \<Rightarrow> u8 list) \<Rightarrow> XML_TAG \<Rightarrow> file_vault \<Rightarrow> file_vault option" where
  "unwrap_volume_key aes_decrypt wrappedVolumeKeyDictTag v = do {
     ident \<leftarrow> typed_value (Some wrappedVolumeKeyDictTag) ''KeyEncryptingKeyIdent'' XML_TAG_STRING;
     (case ident of None \<Rightarrow> Some v
      | Some identTag \<Rightarrow> do {
          s \<leftarrow> StringValue identTag;
          k \<leftarrow> FvpKeyEncryptingKeyIdent v;
          c \<leftarrow> strcmp s k;
          if c \<noteq> 0 then Some v
          else do {
            dt \<leftarrow> typed_value (Some wrappedVolumeKeyDictTag) ''KEKWrappedVolumeKeyStruct'' XML_TAG_DATA;
            ver \<leftarrow> (case dt of None \<Rightarrow> Some None | Some _ \<Rightarrow> typed_value (Some wrappedVolumeKeyDictTag) ''WrapVersion'' XML_TAG_INTEGER);
            (case (dt, ver) of (Some kekWrappedVolumeKeyStructTag, Some wrapVersionTag) \<Rightarrow>
               if IntegerValue wrapVersionTag \<noteq> 1 then Some v
               else do {
                 d \<leftarrow> DataValue kekWrappedVolumeKeyStructTag;
                 let i = FvpVolumeKeyCount v;
                 if length (FvpVolumeKeyList v) \<le> i then None
                 else do {
                   let info = FvpVolumeKeyList v ! i;
                   (ok, u, b) \<leftarrow> FvpKeyUnwrapData aes_decrypt (FvpVolumeKeyKEK v) (FvpVolumeKeyKEKLength v) d
                     (UnwrappedVolumeKeyData info) (fv_localBuffer v);
                   let info = info\<lparr>UnwrappedVolumeKeyData := u\<rparr>;
                   let v = v\<lparr>fv_localBuffer := b\<rparr>;
                   if \<not> ok then Some (v\<lparr>FvpVolumeKeyList := (FvpVolumeKeyList v)[i := info]\<rparr>)
                   else Some (v\<lparr>FvpVolumeKeyList := (FvpVolumeKeyList v)[i := info\<lparr>WrappedVolumeKeyDictTag := Some wrappedVolumeKeyDictTag\<rparr>],
                     FvpVolumeKeyCount := i + 1\<rparr>)
                 }
               }
             | _ \<Rightarrow> Some v)
          }
        })
   }"

fun unwrap_volume_keys :: "(u8 list \<Rightarrow> u8 list \<Rightarrow> u8 list) \<Rightarrow> nat \<Rightarrow> nat \<Rightarrow> file_vault \<Rightarrow> file_vault option" where
  "unwrap_volume_keys aes_decrypt i 0 v = Some v"
| "unwrap_volume_keys aes_decrypt i (Suc n) v =
     (case CmGetListTagElementByIndex (FvpWrappedVolumeKeysListTag v) i of [] \<Rightarrow> unwrap_volume_keys aes_decrypt (i + 1) n v
      | t # _ \<Rightarrow>
          if XML_TAG.Type t \<noteq> XML_TAG_DICT then unwrap_volume_keys aes_decrypt (i + 1) n v
          else do {
            v \<leftarrow> unwrap_volume_key aes_decrypt t v;
            unwrap_volume_keys aes_decrypt (i + 1) n v
          })"

text \<open>The array of keys is what the pool gives for it, with whatever it contains, or None.\<close>

definition FvpUnlockCoreVolumeKey ::
  "(u8 list \<Rightarrow> u8 list \<Rightarrow> u8 list) \<Rightarrow> attempt list \<Rightarrow> VOLUME_KEY_INFO list option \<Rightarrow> file_vault \<Rightarrow> (EFI_STATUS \<times> file_vault) option" where
  "FvpUnlockCoreVolumeKey aes_decrypt attempts allocated v = do {
     (status, v) \<leftarrow> FvpDecryptVolumeKEKWithMasterKeyUser aes_decrypt v;
     v \<leftarrow> (if EFI_ERROR status then login_loop aes_decrypt attempts v else Some v);
     let v = v\<lparr>FvpVolumeKeyCount := 0\<rparr>;
     (case allocated of None \<Rightarrow> Some (EFI_OUT_OF_RESOURCES, v\<lparr>FvpVolumeKeyList := []\<rparr>)
      | Some list \<Rightarrow> do {
          v \<leftarrow> unwrap_volume_keys aes_decrypt 0 (FvpWrappedVolumeKeyCount v) (v\<lparr>FvpVolumeKeyList := list\<rparr>);
          Some (EFI_SUCCESS, v)
        })
   }"

section \<open>Identifiers\<close>

definition CHAR_TO_NIBBLE :: "u8 \<Rightarrow> u8" where
  "CHAR_TO_NIBBLE c =
     (if 0x30 \<le> c \<and> c \<le> 0x39 then c - 0x30
      else if 0x61 \<le> c \<and> c \<le> 0x66 then c - 0x61 + 10
      else if 0x41 \<le> c \<and> c \<le> 0x46 then c - 0x41 + 10
      else 0)"

definition uuid_positions :: "nat list" where
  "uuid_positions = [0, 2, 4, 6, 9, 11, 14, 16, 19, 21, 24, 26, 28, 30, 32, 34]"

text \<open>The bytes, or None for FALSE, in which case the buffer keeps its contents.\<close>

definition BlUUIDStringToBuffer :: "u8 list \<Rightarrow> u8 list option option" where
  "BlUUIDStringToBuffer uuidString = do {
     n \<leftarrow> strlen uuidString;
     if n \<noteq> 36 \<or> uuidString ! 8 \<noteq> 0x2d \<or> uuidString ! 13 \<noteq> 0x2d \<or> uuidString ! 18 \<noteq> 0x2d \<or> uuidString ! 23 \<noteq> 0x2d then Some None
     else Some (Some (map (\<lambda>i. push_bit 4 (CHAR_TO_NIBBLE (uuidString ! i)) + CHAR_TO_NIBBLE (uuidString ! (i + 1))) uuid_positions))
   }"

section \<open>Volume keys\<close>

fun find_volume_key :: "u8 list \<Rightarrow> u8 list \<Rightarrow> nat \<Rightarrow> VOLUME_KEY_INFO list \<Rightarrow> (bool \<times> u8 list) option" where
  "find_volume_key volumeIdent volumeKey volumeKeyLength [] = Some (False, volumeKey)"
| "find_volume_key volumeIdent volumeKey volumeKeyLength (info # infos) = do {
     t \<leftarrow> typed_value (WrappedVolumeKeyDictTag info) ''VolumeKeyIdent'' XML_TAG_STRING;
     (case t of None \<Rightarrow> find_volume_key volumeIdent volumeKey volumeKeyLength infos
      | Some volumeIdentTag \<Rightarrow> do {
          s \<leftarrow> StringValue volumeIdentTag;
          u \<leftarrow> BlUUIDStringToBuffer s;
          (case u of None \<Rightarrow> find_volume_key volumeIdent volumeKey volumeKeyLength infos
           | Some theVolumeIdent \<Rightarrow> do {
               c \<leftarrow> memcmp volumeIdent theVolumeIdent 0x10;
               if c \<noteq> 0 then find_volume_key volumeIdent volumeKey volumeKeyLength infos
               else do {
                 let n = min volumeKeyLength (unat (DataLength (UnwrappedVolumeKeyData info)));
                 d \<leftarrow> get_bytes (DataBuffer (UnwrappedVolumeKeyData info)) 0 n;
                 volumeKey \<leftarrow> put_bytes volumeKey 0 d;
                 Some (True, volumeKey)
               }
             })
        })
   }"

definition FvFindCoreVolumeKey :: "u8 list \<Rightarrow> u8 list \<Rightarrow> nat \<Rightarrow> file_vault \<Rightarrow> (bool \<times> u8 list) option" where
  "FvFindCoreVolumeKey volumeIdent volumeKey volumeKeyLength v =
     find_volume_key volumeIdent volumeKey volumeKeyLength (take (FvpVolumeKeyCount v) (FvpVolumeKeyList v))"

section \<open>Key store\<close>

definition sizeof_KEY_STORE_DATA_HEADER :: nat where "sizeof_KEY_STORE_DATA_HEADER = 0x30"

definition entry_size :: "nat \<Rightarrow> nat" where
  "entry_size n = (sizeof_KEY_STORE_DATA_HEADER + n + 7) div 8 * 8"

definition put_ident :: "u8 list \<Rightarrow> nat \<Rightarrow> u8 list \<Rightarrow> u8 list option" where
  "put_ident b i uuidString = do {
     u \<leftarrow> BlUUIDStringToBuffer uuidString;
     case u of None \<Rightarrow> Some b | Some ident \<Rightarrow> put_bytes b i ident
   }"

definition put_entry :: "u8 list \<Rightarrow> nat \<Rightarrow> u32 \<Rightarrow> u32 \<Rightarrow> u8 list \<Rightarrow> u8 list \<Rightarrow> (u8 list \<times> nat) option" where
  "put_entry b i ty subType uuidString d = do {
     b \<leftarrow> put_bytes b (i + 4) (put_le32 ty);
     b \<leftarrow> put_bytes b (i + 8) (put_le32 subType);
     b \<leftarrow> put_bytes b (i + 44) (put_le32 (of_nat (length d)));
     let nextOffset = i + entry_size (length d);
     b \<leftarrow> put_bytes b i (put_le32 (of_nat nextOffset));
     b \<leftarrow> put_ident b (i + 12) uuidString;
     b \<leftarrow> put_bytes b (i + 28) (replicate 16 0);
     b \<leftarrow> put_bytes b (i + sizeof_KEY_STORE_DATA_HEADER) d;
     Some (b, nextOffset)
   }"

definition add_ident :: "(u8 list \<Rightarrow> nat) \<Rightarrow> nat \<Rightarrow> string \<Rightarrow> u8 list \<Rightarrow> dev_tree \<Rightarrow> dev_tree option" where
  "add_ident locate chosenNode name s h = do {
     n \<leftarrow> strlen s;
     (_, h) \<leftarrow> DevTreeAddProperty chosenNode (cstr name) (Refer (locate s)) (of_nat (n + 1)) h;
     Some h
   }"

definition login_properties :: "(u8 list \<Rightarrow> nat) \<Rightarrow> bool \<Rightarrow> file_vault \<Rightarrow> dev_tree \<Rightarrow> dev_tree option" where
  "login_properties locate setupDeviceTree v h =
     (case FvpLoginUnlockIdent v of None \<Rightarrow> Some h
      | Some ident \<Rightarrow>
          if \<not> setupDeviceTree then Some h
          else do {
            (chosenNode, h) \<leftarrow> DevTreeFindNode (cstr ''/chosen'') True h;
            if chosenNode = 0 then Some h
            else do {
              h \<leftarrow> (case FvpResetIdent v of None \<Rightarrow> Some h | Some r \<Rightarrow> add_ident locate chosenNode ''efilogin-reset-ident'' r h);
              h \<leftarrow> add_ident locate chosenNode ''efilogin-unlock-ident'' ident h;
              add_ident locate chosenNode ''efilogin-user-ident'' ident h
            }
          })"

text \<open>
  The entries at their places; the length of the last one is overwritten at the end. When there is a password
  and no key, that write is behind the entries.
\<close>

definition put_key_store :: "file_vault \<Rightarrow> u8 list \<Rightarrow> u8 list option" where
  "put_key_store v b = do {
     (b, header) \<leftarrow> (case FvpUserPassword v of None \<Rightarrow> Some (b, 0)
       | Some p \<Rightarrow> do {
           n \<leftarrow> strlen p;
           ident \<leftarrow> FvpLoginUnlockIdent v;
           put_entry b 0 2 0 ident (take n p)
         });
     b \<leftarrow> (case FvpKeyEncryptingKeyIdent v of None \<Rightarrow> Some b
       | Some ident \<Rightarrow> do {
           k \<leftarrow> get_bytes (FvpVolumeKeyKEK v) 0 (FvpVolumeKeyKEKLength v);
           (b, _) \<leftarrow> put_entry b header 1 2 ident k;
           Some b
         });
     put_bytes b header (put_le32 0)
   }"

text \<open>
  The address of the store, what the allocation of kernel memory answers when there is none yet, and the memory
  there as a list of bytes. The result has the status, the address, the size and the contents.
\<close>

definition FvSetupDeviceTree ::
  "(u8 list \<Rightarrow> nat) \<Rightarrow> u64 \<Rightarrow> u64 option \<Rightarrow> bool \<Rightarrow> u8 list \<Rightarrow> file_vault \<Rightarrow> dev_tree \<Rightarrow> (EFI_STATUS \<times> u64 option \<times> nat \<times> u8 list \<times> dev_tree) option" where
  "FvSetupDeviceTree locate kernelMemory keyStorePhysicalAddress setupDeviceTree b v h = do {
     h \<leftarrow> login_properties locate setupDeviceTree v h;
     n \<leftarrow> (case FvpUserPassword v of None \<Rightarrow> Some 0 | Some p \<Rightarrow> map_option entry_size (strlen p));
     let totalLength = n + (if FvpKeyEncryptingKeyIdent v \<noteq> None then entry_size (FvpVolumeKeyKEKLength v) else 0);
     (case keyStorePhysicalAddress of None \<Rightarrow> Some (EFI_SUCCESS, None, totalLength, b, h)
      | Some a \<Rightarrow>
          if totalLength = 0 then Some (EFI_SUCCESS, Some a, totalLength, b, h)
          else
            let a = (if a = 0 then kernelMemory else a) in
            if a = 0 then Some (EFI_OUT_OF_RESOURCES, Some a, totalLength, b, h)
            else do {
              b \<leftarrow> put_key_store v b;
              Some (EFI_SUCCESS, Some a, totalLength, b, h)
            })
   }"

end
