(* ===== verification/FileVaultStore.thy ===== *)
theory FileVaultStore
  imports FileVaultKeys
begin

text \<open>Reading the key store back: fields of entries, and what the writes leave there.\<close>

definition field :: "u8 list \<Rightarrow> nat \<Rightarrow> nat \<Rightarrow> u8 list" where
  "field b i n = take n (drop i b)"

lemma field_same: "i + length d \<le> length b \<Longrightarrow> n = length d \<Longrightarrow> field (overlay b i d) i n = d"
  by (simp add: field_def overlay_def)

lemma field_before: "j + n \<le> i \<Longrightarrow> i \<le> length b \<Longrightarrow> field (overlay b i d) j n = field b j n"
  by (simp add: field_def overlay_def take_drop)

lemma field_after: "i + length d \<le> j \<Longrightarrow> i \<le> length b \<Longrightarrow> field (overlay b i d) j n = field b j n"
  by (simp add: field_def overlay_def)

lemmas field_simps' = field_same field_before field_after

lemma le32_field: "i + 4 \<le> length b \<Longrightarrow> le32 b i = le32 (field b i 4) 0"
  by (simp add: le32_def field_def)

lemma le32_put_alone [simp]: "le32 (put_le32 w) 0 = w"
  using le32_put [of "[]" w "[]"] by simp

text \<open>An entry: the next offset, the two types, the identifier and the data.\<close>

definition entry_at :: "u8 list \<Rightarrow> nat \<Rightarrow> u32 \<times> u32 \<times> u32 \<times> u8 list \<times> u8 list" where
  "entry_at b i = (le32 b i, le32 b (i + 4), le32 b (i + 8), field b (i + 12) 16,
     field b (i + sizeof_KEY_STORE_DATA_HEADER) (unat (le32 b (i + 44))))"

lemma entry_size_room: "sizeof_KEY_STORE_DATA_HEADER + n \<le> entry_size n"
  unfolding entry_size_def by linarith

lemma put_entry_ok:
  assumes "BlUUIDStringToBuffer s = Some (Some ident)" and "length ident = 16" and "i + entry_size (length d) \<le> length b" and "length b < 2 ^ 32"
  shows "\<exists>b'. put_entry b i ty subType s d = Some (b', i + entry_size (length d)) \<and> length b' = length b \<and>
    entry_at b' i = (of_nat (i + entry_size (length d)), ty, subType, ident, d) \<and>
    unat (le32 b' (i + 44)) = length d \<and> (\<forall>j n. j + n \<le> i \<longrightarrow> field b' j n = field b j n)"
proof -
  have room: "i + (48 + length d) \<le> length b" using entry_size_room [of "length d"] assms(3) by (simp add: sizeof_KEY_STORE_DATA_HEADER_def)
  define b1 where "b1 = overlay b (i + 4) (put_le32 ty)"
  define b2 where "b2 = overlay b1 (i + 8) (put_le32 subType)"
  define b3 where "b3 = overlay b2 (i + 44) (put_le32 (of_nat (length d)))"
  define b4 where "b4 = overlay b3 i (put_le32 (of_nat (i + entry_size (length d))))"
  define b5 where "b5 = overlay b4 (i + 12) ident"
  define b6 where "b6 = overlay b5 (i + 28) (replicate 16 0)"
  define b7 where "b7 = overlay b6 (i + 48) d"
  have l1: "length b1 = length b" using room by (simp add: b1_def)
  have l2: "length b2 = length b" using room l1 by (simp add: b2_def)
  have l3: "length b3 = length b" using room l2 by (simp add: b3_def)
  have l4: "length b4 = length b" using room l3 by (simp add: b4_def)
  have l5: "length b5 = length b" using room l4 assms(2) by (simp add: b5_def)
  have l6: "length b6 = length b" using room l5 by (simp add: b6_def)
  have l7: "length b7 = length b" using room l6 by (simp add: b7_def)
  note l = l1 l2 l3 l4 l5 l6 l7
  have run: "put_entry b i ty subType s d = Some (b7, i + entry_size (length d))"
    using room l assms(1,2)
    by (simp add: put_entry_def put_bytes_def put_ident_def sizeof_KEY_STORE_DATA_HEADER_def
        b1_def [symmetric] b2_def [symmetric] b3_def [symmetric] b4_def [symmetric] b5_def [symmetric] b6_def [symmetric] b7_def [symmetric] del: of_nat_add)
  have f: "field b7 i 4 = put_le32 (of_nat (i + entry_size (length d)))" "field b7 (i + 4) 4 = put_le32 ty" "field b7 (i + 8) 4 = put_le32 subType"
    "field b7 (i + 12) 16 = ident" "field b7 (i + 44) 4 = put_le32 (of_nat (length d))" "field b7 (i + 48) (length d) = d"
    using room l assms(2)
    by (simp_all add: b7_def b6_def b5_def b4_def b3_def b2_def b1_def field_simps' del: of_nat_add)
  have "unat (of_nat (length d) :: u32) = length d" using room assms(4) by (simp add: unat_of_nat_small)
  then have n: "unat (le32 b7 (i + 44)) = length d" using room l7 f(5) by (simp add: le32_field)
  then have "entry_at b7 i = (of_nat (i + entry_size (length d)), ty, subType, ident, d)"
    using room l7 f by (simp add: entry_at_def le32_field sizeof_KEY_STORE_DATA_HEADER_def del: of_nat_add)
  moreover have "field b7 j n = field b j n" if "j + n \<le> i" for j n
    using that room l assms(2) by (simp add: b7_def b6_def b5_def b4_def b3_def b2_def b1_def field_before)
  ultimately show ?thesis using run l7 n by blast
qed

text \<open>What leaves the bytes of an entry alone leaves the entry alone.\<close>

lemma entry_frame:
  assumes "\<And>j n. j + n \<le> k \<Longrightarrow> field b' j n = field b j n" and "entry_at b i = (nx, ty, st, u, d)" and "length d = unat (le32 b (i + 44))"
    and "i + 48 + length d \<le> k" and "k \<le> length b" and "length b' = length b"
  shows "entry_at b' i = entry_at b i"
proof -
  have "le32 b' j = le32 b j" if "j + 4 \<le> i + 48" for j
    using assms(1) [of j 4] that assms(4-6) by (simp add: le32_field)
  then show ?thesis using assms(1) [of "i + 12" 16] assms(1) [of "i + 48" "length d"] assms(3,4)
    by (simp add: entry_at_def sizeof_KEY_STORE_DATA_HEADER_def)
qed

text \<open>The last write: the next offset of the last entry.\<close>

lemma entry_last:
  assumes "entry_at b i = (nx, ty, st, u, d)" and "i + 48 \<le> length b"
  shows "entry_at (overlay b i (put_le32 0)) i = (0, ty, st, u, d)"
proof -
  let ?b = "overlay b i (put_le32 0)"
  have l: "length ?b = length b" using assms(2) by simp
  have "le32 ?b i = 0" using assms(2) l by (simp add: le32_field field_simps')
  moreover have "le32 ?b (i + 4) = le32 b (i + 4)" "le32 ?b (i + 8) = le32 b (i + 8)" "le32 ?b (i + 44) = le32 b (i + 44)"
    using assms(2) l by (simp_all add: le32_field field_after)
  moreover have "field ?b (i + 12) 16 = field b (i + 12) 16" "field ?b (i + 48) n = field b (i + 48) n" for n
    using assms(2) by (simp_all add: field_after)
  ultimately show ?thesis using assms(1) by (simp add: entry_at_def sizeof_KEY_STORE_DATA_HEADER_def)
qed

lemma uuid_length: "BlUUIDStringToBuffer s = Some (Some u) \<Longrightarrow> length u = 16"
  by (auto simp: BlUUIDStringToBuffer_def uuid_positions_def bind_eq_Some_conv split: if_splits)

text \<open>Both entries of a key store.\<close>

lemma key_store_entries:
  assumes "FvpUserPassword v = Some (p @ 0 # x)" and "0 \<notin> set p" and "FvpLoginUnlockIdent v = Some ident" and "FvpKeyEncryptingKeyIdent v = Some kekIdent"
    and "BlUUIDStringToBuffer ident = Some (Some u)" and "BlUUIDStringToBuffer kekIdent = Some (Some w)"
    and "FvpVolumeKeyKEKLength v \<le> length (FvpVolumeKeyKEK v)"
    and "entry_size (length p) + entry_size (FvpVolumeKeyKEKLength v) \<le> length b" and "length b < 2 ^ 32"
  shows "\<exists>b'. put_key_store v b = Some b' \<and> length b' = length b \<and>
    entry_at b' 0 = (of_nat (entry_size (length p)), 2, 0, u, p) \<and>
    entry_at b' (entry_size (length p)) = (0, 1, 2, w, take (FvpVolumeKeyKEKLength v) (FvpVolumeKeyKEK v))"
proof -
  let ?k = "take (FvpVolumeKeyKEKLength v) (FvpVolumeKeyKEK v)" and ?i = "entry_size (length p)"
  have k: "length ?k = FvpVolumeKeyKEKLength v" using assms(7) by simp
  have p: "strlen (p @ 0 # x) = Some (length p)" using assms(2) by (induction p) auto
  obtain b1 where b1: "put_entry b 0 2 0 ident p = Some (b1, ?i)" "length b1 = length b" "entry_at b1 0 = (of_nat ?i, 2, 0, u, p)"
    "unat (le32 b1 44) = length p"
    using put_entry_ok [OF assms(5) uuid_length [OF assms(5)], of 0 p b 2 0] assms(8,9) by auto
  obtain b2 where b2: "put_entry b1 ?i 1 2 kekIdent ?k = Some (b2, ?i + entry_size (length ?k))" "length b2 = length b"
    "entry_at b2 ?i = (of_nat (?i + entry_size (length ?k)), 1, 2, w, ?k)" "\<And>j n. j + n \<le> ?i \<Longrightarrow> field b2 j n = field b1 j n"
    using put_entry_ok [OF assms(6) uuid_length [OF assms(6)], of ?i ?k b1 1 2] assms(8,9) b1(2) k by auto
  let ?b3 = "overlay b2 ?i (put_le32 0)"
  have room: "?i + 48 \<le> length b" "48 + length p \<le> ?i"
    using entry_size_room [of "FvpVolumeKeyKEKLength v"] entry_size_room [of "length p"] assms(8) by (simp_all add: sizeof_KEY_STORE_DATA_HEADER_def)
  have run: "put_key_store v b = Some ?b3"
    using b1(1) b2(1,2) assms(1,3,4,7) p room by (simp add: put_key_store_def get_bytes_def put_bytes_def)
  have "field ?b3 j n = field b1 j n" if "j + n \<le> ?i" for j n using that b2(2,4) room by (simp add: field_before)
  then have "entry_at ?b3 0 = entry_at b1 0"
    using b1 b2(2) room by (intro entry_frame [of ?i ?b3 b1 0 _ 2 0 u p]) simp_all
  moreover have "entry_at ?b3 ?i = (0, 1, 2, w, ?k)" using entry_last [OF b2(3)] b2(2) room by simp
  ultimately show ?thesis using run b1(3) b2(2) room by simp
qed

end
