(* ===== verification/FileVaultProps.thy ===== *)
theory FileVaultProps
  imports FileVaultWrap FileVaultStore DevicePath
begin

text \<open>The unlocking of a volume as a whole, and the properties of FileVault.c.\<close>

section \<open>Unlocking\<close>

definition BOOT_MODE_HAS_FILE_VAULT2_CONFIG :: u32 where "BOOT_MODE_HAS_FILE_VAULT2_CONFIG = 0x000200"

definition BlSetBootMode :: "u32 \<Rightarrow> u32 \<Rightarrow> u32 \<Rightarrow> u32" where
  "BlSetBootMode setValue clearValue bootMode = (bootMode OR setValue) AND NOT clearValue"

record fv_state =
  fs_config :: config
  fs_vault :: file_vault
  fs_memory :: memory
  fs_bootMode :: u32

definition FvLookupUnlockCoreVolumeKey ::
  "(u8 list \<Rightarrow> u8 list \<Rightarrow> u8 list) \<Rightarrow> attempt list \<Rightarrow> VOLUME_KEY_INFO list option \<Rightarrow> (nat \<Rightarrow> fv_source) \<Rightarrow>
   (nat \<times> (nat \<times> u8 list option) list) option \<Rightarrow> u8 list \<Rightarrow> fv_state \<Rightarrow> (EFI_STATUS \<times> fv_state) option" where
  "FvLookupUnlockCoreVolumeKey aes_decrypt attempts allocated src located bootDevicePath st = do {
     partionNumber \<leftarrow> DevPathGetPartitionNumber bootDevicePath;
     if partionNumber = - 1 then Some (EFI_INVALID_PARAMETER, st)
     else do {
       (coreStoragePartitionHandle, h) \<leftarrow> DevPathGetPartitionHandleByNumber (Some bootDevicePath) (partionNumber - 1) located (fs_memory st);
       let st = st\<lparr>fs_memory := h\<rparr>;
       if coreStoragePartitionHandle = 0 then Some (EFI_INVALID_PARAMETER, st)
       else do {
         (status, c, v) \<leftarrow> FvpLoadCoreStorageConfig (src coreStoragePartitionHandle) (fs_config st, fs_vault st);
         let st = st\<lparr>fs_config := c, fs_vault := v\<rparr>;
         if EFI_ERROR status then Some (status, st)
         else do {
           let st = st\<lparr>fs_bootMode := BlSetBootMode BOOT_MODE_HAS_FILE_VAULT2_CONFIG 0 (fs_bootMode st)\<rparr>;
           (status, v) \<leftarrow> FvpUnlockCoreVolumeKey aes_decrypt attempts allocated (fs_vault st);
           Some (status, st\<lparr>fs_vault := v\<rparr>)
         }
       }
     }
   }"

section \<open>Checksums and keys\<close>

text \<open>
  C19. A volume header is accepted exactly when its version is 16.0 and its signature is the one without a
  checksum, or the one with a checksum and the CRC-32C of the bytes behind the checksum, computed bit by bit, is in its
  low half, its high half being all ones.
\<close>

theorem volume_header_valid:
  assumes "length h = 0x200"
  shows "FvpValidateVolumeHeader h = Some (h ! 0x0a = 0x10 \<and> h ! 0x0b = 0 \<and>
    (le32 h 0x58 = 0x5343 \<or> le32 h 0x58 = 0x00015343 \<and>
      header_Checksum h = 0xffffffff00000000 OR ucast (foldl (crc_byte 0x82f63b78) 0xffffffff (drop 8 h))))"
proof -
  have "ucast (- 1 :: u64) = (0xffffffff :: u32)" "(- 1 :: u64) AND 0xffffffff00000000 = 0xffffffff00000000" by (code_simp, simp)
  then have "FvpChecksum (drop 8 h) (- 1) = 0xffffffff00000000 OR ucast (foldl (crc_byte 0x82f63b78) 0xffffffff (drop 8 h))"
    by (simp add: FvpChecksum_def checksum_loop_spec)
  then show ?thesis using assms
    by (auto simp: FvpValidateVolumeHeader_def header_MajorVersion_def header_MinorVersion_def header_Signature_def)
qed

theorem volume_header_valid_witness:
  "FvpValidateVolumeHeader (replicate 10 0 @ [0x10, 0] @ replicate 0x4c 0 @ [0x43, 0x53, 0, 0] @ replicate 0x1a4 0) = Some True"
  (is "FvpValidateVolumeHeader ?h = _")
  using volume_header_valid [of ?h] by (simp add: le32_def nth_append)

lemma length_pbkdf2 [simp]: "length (pbkdf2 P S c n) = n"
proof -
  have "n \<le> (n + 31) div 32 * 32" by linarith
  then show ?thesis by (simp add: pbkdf2_def length_concat comp_def sum_list_triv)
qed

lemma pbkdf2_run:
  assumes "length password < 2 ^ 32" and "1 \<le> saltLength" and "saltLength \<le> length salt" and "saltLength \<le> 252" and "roundCount \<noteq> 0"
    and "1 \<le> keyLength" and "keyLength \<le> length keyBuffer"
  shows "FvpPBKDF2 password (Some salt) saltLength 3 roundCount (Some keyBuffer) keyLength =
    Some (True, Some (pbkdf2 password (take saltLength salt) (unat roundCount) keyLength @ drop keyLength keyBuffer))"
proof -
  let ?localSalt = "overlay (replicate 0x100 0) 0 (take saltLength salt)"
  have len: "length ?localSalt = 0x100" using assms(4) by (simp add: length_overlay)
  have salt: "take saltLength ?localSalt = take saltLength salt" using assms(3) by (simp add: overlay_def)
  have "pbkdf2_blocks password ?localSalt saltLength roundCount (of_nat 1) keyBuffer 0 keyLength =
    Some (overlay keyBuffer 0 (pbkdf2 password (take saltLength salt) (unat roundCount) keyLength))"
    unfolding pbkdf2_def using blocks_spec [OF assms(1) _ _ salt, of 0 keyLength keyBuffer roundCount 1] len assms by simp
  then show ?thesis using assms by (simp add: FvpPBKDF2_def get_bytes_def put_bytes_def overlay_def)
qed

text \<open>
  C16. FvpPBKDF2 derives exactly the key of RFC 8018 with HMAC-SHA-256, and writes it over the first bytes of the
  buffer: for every password, every salt of at most 252 bytes, every number of rounds and every length of the key
  that the buffer has room for.
\<close>

theorem pbkdf2_correct:
  assumes "length password < 2 ^ 32" and "1 \<le> saltLength" and "saltLength \<le> length salt" and "saltLength \<le> 252" and "roundCount \<noteq> 0"
    and "1 \<le> keyLength" and "keyLength \<le> length keyBuffer"
  shows "FvpPBKDF2 password (Some salt) saltLength 3 roundCount (Some keyBuffer) keyLength =
    Some (True, Some (pbkdf2 password (take saltLength salt) (unat roundCount) keyLength @ drop keyLength keyBuffer))"
  using assms by (rule pbkdf2_run)

theorem pbkdf2_correct_witness:
  "FvpPBKDF2 [0x70] (Some [0x73, 0x61]) 2 3 4096 (Some (replicate 48 0)) 40 =
    Some (True, Some (pbkdf2 [0x70] [0x73, 0x61] 4096 40 @ replicate 8 0))"
  using pbkdf2_correct [of "[0x70]" 2 "[0x73, 0x61]" 4096 40 "replicate 48 0"] by simp

text \<open>
  C17. FvpAESUnwrap accepts exactly the ciphertexts that the key wrap of RFC 3394 makes of the plaintext it
  leaves in the buffer, over any block cipher, for up to 42 blocks; what is behind the plaintext in the buffer stays.
  (From 43 blocks on the counter no longer fits the byte it goes into.)
\<close>

theorem key_unwrap_exact:
  assumes "cipher_pair encrypt (aes_decrypt (take kekLength kek))" and "kekLength \<le> length kek"
    and "length C = 8 * n + 8" and "n \<le> 42" and "8 * n \<le> length buffer"
  shows "\<exists>ok P. FvpAESUnwrap aes_decrypt kek kekLength v (C @ z) (length C) buffer = Some (ok, P @ drop (8 * n) buffer) \<and> length P = 8 * n \<and>
    (ok \<longleftrightarrow> key_wrap encrypt (iv_bytes v) P = C)"
  using unwrap_exact [of encrypt aes_decrypt kekLength kek C n buffer v z] assms by auto

theorem key_unwrap_exact_witness:
  "\<exists>ok P. FvpAESUnwrap (\<lambda>key. rev) (replicate 16 1) 16 0xa6a6a6a6a6a6a6a6 (replicate 24 7 @ []) 24 (replicate 20 0) =
      Some (ok, P @ replicate 4 0) \<and> length P = 16 \<and>
    (ok \<longleftrightarrow> key_wrap rev (iv_bytes 0xa6a6a6a6a6a6a6a6) P = replicate 24 7)"
  using key_unwrap_exact [of rev "\<lambda>key. rev" 16 "replicate 16 1" "replicate 24 7" 2 "replicate 20 0" "0xa6a6a6a6a6a6a6a6" "[]"]
  by (simp add: cipher_pair_def)

section \<open>Signatures\<close>

text \<open>What a signature signs: both parts around the message, with a zero before it, without the last byte.\<close>

definition signature_ok :: "u8 list \<Rightarrow> u8 list \<Rightarrow> bool" where
  "signature_ok sd m \<longleftrightarrow> (sha256_spec ^^ (unat (le32 sd 8) - 1))
     (sha256_spec (take 0x20 (drop 0x2c sd) @ 0 # m @ take 0x1f (drop 0x4c sd))) = take 0x20 (drop 0x0c sd)"

lemma digest_rounds: "length d = 32 \<Longrightarrow> (SHA256 zero_context ^^ n) d = (sha256_spec ^^ n) d \<and> length ((sha256_spec ^^ n) d) = 32"
  by (induction n) (simp_all add: SHA256_spec)

text \<open>The static buffer: its length, and the byte that is never written.\<close>

definition sign_buffer :: "u8 list \<Rightarrow> bool" where
  "sign_buffer b \<longleftrightarrow> length b = 0x200 \<and> b ! 0x20 = 0"

lemma overlay_behind: "i = length x \<Longrightarrow> overlay (x @ y) i d = x @ d @ drop (length d) y"
  by (simp add: overlay_def)

lemma take_parts: "length x = k \<Longrightarrow> j \<le> length y \<Longrightarrow> take (k + j) (x @ y @ z) = x @ take j y"
  by simp

lemma verify_exact:
  assumes "0x6c \<le> length sd" and "L \<le> length m" and "L \<le> 0x1bf" and "sign_buffer b"
  shows "\<exists>b'. FvpVerifyKeyData sd m L b = Some (signature_ok sd (take L m), b') \<and> sign_buffer b'"
proof -
  let ?p1 = "take 0x20 (drop 0x2c sd)" and ?p3 = "take 0x20 (drop 0x4c sd)" and ?m = "take L m"
  have p: "length ?p1 = 0x20" "length ?p3 = 0x20" "length ?m = L" using assms(1,2) by simp_all
  have b: "length b = 0x200" "b ! 0x20 = 0" using assms(4) by (simp_all add: sign_buffer_def)
  define b1 where "b1 = overlay b 0 ?p1"
  define b2 where "b2 = overlay b1 0x21 ?m"
  define b3 where "b3 = overlay b2 (0x21 + L) ?p3"
  have b1: "b1 = ?p1 @ 0 # drop 0x21 b" using b p(1) Cons_nth_drop_Suc [of 32 b] by (simp add: b1_def overlay_def)
  have b2: "b2 = ?p1 @ 0 # ?m @ drop (0x21 + L) b" 
    using p overlay_behind [of "0x21" "?p1 @ [0]" "drop 0x21 b" ?m] by (simp add: b2_def b1 add.commute)
  have b3: "b3 = ?p1 @ 0 # ?m @ ?p3 @ drop (0x41 + L) b" 
    using p overlay_behind [of "0x21 + L" "?p1 @ 0 # ?m" "drop (0x21 + L) b" ?p3] by (simp add: b3_def b2 add.commute)
  have len: "length b1 = 0x200" "length b2 = 0x200" "length b3 = 0x200" using b1 b2 b3 b p assms(3) by simp_all
  have "take (0x40 + L) b3 = ?p1 @ 0 # ?m @ take 0x1f (drop 0x4c sd)" 
    using take_parts [of "?p1 @ 0 # ?m" "0x21 + L" 31 ?p3 "drop (0x41 + L) b"] p by (simp add: b3 add.commute)
  moreover have "length (?p1 @ 0 # ?m @ take 0x1f (drop 0x4c sd)) < 2 ^ 32" using assms(3) p by simp
  ultimately have "FvpVerifyKeyData sd m L b = Some (signature_ok sd ?m, b3)"
    using assms(1-3) b len p digest_rounds [OF length_sha256_spec]
    by (simp add: FvpVerifyKeyData_def get_bytes_def put_bytes_def get32_def b1_def [symmetric] b2_def [symmetric] b3_def [symmetric]
        SHA256_spec signature_ok_def add.commute [of L])
  moreover have "b3 ! 0x20 = 0" unfolding b3 using p by (simp add: nth_append)
  ultimately show ?thesis using len(3) by (simp add: sign_buffer_def)
qed

section \<open>Passwords\<close>

lemma pbkdf2_fills:
  assumes "length password < 2 ^ 32" and "1 \<le> saltLength" and "saltLength \<le> length salt" and "saltLength \<le> 252" and "roundCount \<noteq> 0"
    and "1 \<le> keyLength" and "keyLength \<le> length keyBuffer"
  shows "\<exists>k. FvpPBKDF2 password (Some salt) saltLength 3 roundCount (Some keyBuffer) keyLength = Some (True, Some k) \<and>
    length k = length keyBuffer \<and> take keyLength k = pbkdf2 password (take saltLength salt) (unat roundCount) keyLength"
  using pbkdf2_run [OF assms] length_pbkdf2 [of password "take saltLength salt" "unat roundCount" keyLength] assms(7) by simp

text \<open>The fields of a PASSPHASE_WRAPPED_DATA that the code can work with, n blocks of wrapped key.\<close>

definition passphase_ok :: "u8 list \<Rightarrow> nat \<Rightarrow> bool" where
  "passphase_ok d n \<longleftrightarrow> 0x11c \<le> length d \<and> le32 d 0 = 3 \<and> le32 d 4 \<noteq> 0 \<and> unat (le32 d 4) \<le> 0x10 \<and>
     le32 d 0xa8 \<noteq> 0 \<and> le32 d 0x18 \<noteq> 0 \<and> unat (le32 d 0x18) \<le> 0x100 \<and> unat (le32 d 0x1c) = 8 * n + 8 \<and> n \<le> 0x10"

definition passphase_key :: "u8 list \<Rightarrow> u8 list \<Rightarrow> u8 list" where
  "passphase_key password d =
     pbkdf2 password (take (unat (le32 d 4)) (drop 8 d)) (unat (le32 d 0xa8)) (unat (le32 d 0x18))"

definition passphase_buffers :: "u8 list \<Rightarrow> u8 list \<Rightarrow> bool" where
  "passphase_buffers k b \<longleftrightarrow> length k = 0x100 \<and> sign_buffer b"

text \<open>
  C15. A password unlocks a wrapped key exactly when there is a key whose key wrap, under the key that PBKDF2 derives from the
  password, is the stored ciphertext, and whose signature is the stored one; the answer then has
  that key, which is the only one, and its length. Otherwise the answer is FALSE. Nothing outside of the structures is touched, and the
  static buffers can be used for the next attempt. The structure has a salt of at most 16 bytes and at most 16 blocks of wrapped key (passphase_ok), and
  encryption and decryption under the derived key undo each other.
\<close>

theorem password_unlocks_exactly:
  assumes "passphase_ok d n" and "length password < 2 ^ 32" and "passphase_buffers k b" and "length (pDataBuffer u) = 0x80"
    and "cipher_pair encrypt (aes_decrypt (passphase_key password d))"
  shows "\<exists>ok u' k' b'. FvpPassphaseUnwrapData aes_decrypt password d u (k, b) = Some (ok, u', k', b') \<and> passphase_buffers k' b' \<and>
    (ok \<longleftrightarrow> (\<exists>P. length P = 8 * n \<and> key_wrap encrypt (iv_bytes 0xa6a6a6a6a6a6a6a6) P = take (8 * n + 8) (drop 0x20 d) \<and>
      signature_ok (drop 0xb0 d) P)) \<and>
    (ok \<longrightarrow> unat (pDataLength u') = 8 * n \<and>
      (\<forall>P. length P = 8 * n \<and> key_wrap encrypt (iv_bytes 0xa6a6a6a6a6a6a6a6) P = take (8 * n + 8) (drop 0x20 d) \<longleftrightarrow> P = take (8 * n) (pDataBuffer u')))"
proof -
  let ?salt = "unat (le32 d 4)" and ?len = "unat (le32 d 0x18)" and ?C = "take (8 * n + 8) (drop 0x20 d)"
  have d: "0x11c \<le> length d" "le32 d 0 = 3" "1 \<le> ?salt" "?salt \<le> 0x10" "le32 d 0xa8 \<noteq> 0" "1 \<le> ?len" "?len \<le> 0x100"
    "unat (le32 d 0x1c) = 8 * n + 8" "n \<le> 0x10"
    using assms(1) by (simp_all add: passphase_ok_def unat_gt_0 Suc_le_eq)
  have kb: "length k = 0x100" "sign_buffer b" using assms(3) by (simp_all add: passphase_buffers_def)
  have room: "?salt \<le> length (drop 8 d)" "?salt \<le> 252" "?len \<le> length k" using d kb(1) by simp_all
  obtain k' where k': "FvpPBKDF2 password (Some (drop 8 d)) ?salt 3 (le32 d 0xa8) (Some k) ?len = Some (True, Some k')"
    "length k' = 0x100" "take ?len k' = passphase_key password d"
    using pbkdf2_fills [OF assms(2) d(3) room(1,2) d(5,6) room(3)] kb(1) by (auto simp: passphase_key_def)
  have C: "length ?C = 8 * n + 8" "?C @ drop (8 * n + 0x28) d = drop 0x20 d" using d(1,9) append_take_drop_id [of "8 * n + 8" "drop 0x20 d"] by (simp_all add: add.commute)
  obtain ok P where u: "FvpAESUnwrap aes_decrypt k' ?len 0xa6a6a6a6a6a6a6a6 (drop 0x20 d) (8 * n + 8) (pDataBuffer u) =
      Some (ok, P @ drop (8 * n) (pDataBuffer u))" "length P = 8 * n" "ok \<longleftrightarrow> key_wrap encrypt (iv_bytes 0xa6a6a6a6a6a6a6a6) P = ?C"
      "\<forall>Q. length Q = 8 * n \<and> key_wrap encrypt (iv_bytes 0xa6a6a6a6a6a6a6a6) Q = ?C \<longrightarrow> Q = P"
    using unwrap_exact [of encrypt aes_decrypt ?len k' ?C n "pDataBuffer u" "0xa6a6a6a6a6a6a6a6" "drop (8 * n + 0x28) d"] assms(4,5) k' d C by auto
  have pl: "unat (le32 d 0x1c - 8) = 8 * n" using d(8) by (simp add: unat_sub_if_size word_le_nat_alt)
  have sd: "0x6c \<le> length (drop 0xb0 d)" using d(1) by simp
  obtain b' where v: "FvpVerifyKeyData (drop 0xb0 d) (P @ drop (8 * n) (pDataBuffer u)) (8 * n) b = Some (signature_ok (drop 0xb0 d) P, b')" "sign_buffer b'"
    using verify_exact [OF sd, of "8 * n" "P @ drop (8 * n) (pDataBuffer u)" b] d(9) kb(2) u(2) by auto
  have get: "get32 d 0 = Some 3" "get32 d 4 = Some (le32 d 4)" "get32 d 0x18 = Some (le32 d 0x18)" "get32 d 0xa8 = Some (le32 d 0xa8)"
    "get32 d 0x1c = Some (le32 d 0x1c)"
    using d(1,2) by (simp_all add: get32_def)
  have run: "FvpPassphaseUnwrapData aes_decrypt password d u (k, b) =
    (if ok then Some (signature_ok (drop 0xb0 d) P, u\<lparr>pDataBuffer := P @ drop (8 * n) (pDataBuffer u), pDataLength := le32 d 0x1c - 8\<rparr>, k', b')
     else Some (False, u\<lparr>pDataBuffer := P @ drop (8 * n) (pDataBuffer u)\<rparr>, k', b))"
    using get k'(1) u(1) v(1) pl d(8) by (simp add: FvpPassphaseUnwrapData_def)
  show ?thesis
  proof (cases ok)
    case True
    then have P: "length Q = 8 * n \<and> key_wrap encrypt (iv_bytes 0xa6a6a6a6a6a6a6a6) Q = ?C \<longleftrightarrow> Q = P" for Q using u(2-4) by blast
    define u' where "u' = u\<lparr>pDataBuffer := P @ drop (8 * n) (pDataBuffer u), pDataLength := le32 d 0x1c - 8\<rparr>"
    have r: "FvpPassphaseUnwrapData aes_decrypt password d u (k, b) = Some (signature_ok (drop 0xb0 d) P, u', k', b')"
      using run True by (simp add: u'_def)
    have u': "unat (pDataLength u') = 8 * n" "take (8 * n) (pDataBuffer u') = P" using pl u(2) by (simp_all add: u'_def)
    have pb: "passphase_buffers k' b'" using v(2) k'(2) by (simp add: passphase_buffers_def)
    have sig: "signature_ok (drop 0xb0 d) P \<longleftrightarrow> (\<exists>Q. length Q = 8 * n \<and> key_wrap encrypt (iv_bytes 0xa6a6a6a6a6a6a6a6) Q = ?C \<and> signature_ok (drop 0xb0 d) Q)"
      using P [of P] P by (metis (no_types))
    show ?thesis
      by (rule exI [of _ "signature_ok (drop 0xb0 d) P"], rule exI [of _ u'], rule exI [of _ k'], rule exI [of _ b'])
        (intro conjI impI r pb sig u'(1) allI, unfold u'(2), rule P)
  next
    case False
    have "\<not> (length Q = 8 * n \<and> key_wrap encrypt (iv_bytes 0xa6a6a6a6a6a6a6a6) Q = ?C)" for Q
      using False u(3,4) by blast
    then show ?thesis using run False kb(2) k'(2) by (auto simp: passphase_buffers_def)
  qed
qed

text \<open>A structure of 0x11c bytes with a salt of one byte and two blocks of wrapped key.\<close>

definition sample_passphase :: "u8 list" where
  "sample_passphase = put_le32 3 @ put_le32 1 @ replicate 16 5 @ put_le32 16 @ put_le32 24 @ replicate 0x88 7 @ put_le32 2 @ replicate 0x70 0"

theorem password_unlocks_exactly_witness:
  "\<exists>ok u' k' b'. FvpPassphaseUnwrapData (\<lambda>key. rev) [0x70] sample_passphase zero_passphase (replicate 0x100 0, replicate 0x200 0) =
      Some (ok, u', k', b') \<and> passphase_buffers k' b' \<and>
    (ok \<longleftrightarrow> (\<exists>P. length P = 16 \<and> key_wrap rev (iv_bytes 0xa6a6a6a6a6a6a6a6) P = replicate 24 7 \<and> signature_ok (drop 0xb0 sample_passphase) P))"
proof -
  have f: "le32 sample_passphase 0 = 3" "le32 sample_passphase 4 = 1" "le32 sample_passphase 0x18 = 16" "le32 sample_passphase 0x1c = 24"
    "le32 sample_passphase 0xa8 = 2" "length sample_passphase = 0x11c" "take 24 (drop 0x20 sample_passphase) = replicate 24 7"
    by code_simp+
  then have "passphase_ok sample_passphase 2" by (simp add: passphase_ok_def)
  moreover have "passphase_buffers (replicate 0x100 0) (replicate 0x200 0)" by (simp add: passphase_buffers_def sign_buffer_def)
  ultimately show ?thesis
    using password_unlocks_exactly [of sample_passphase 2 "[0x70]" "replicate 0x100 0" "replicate 0x200 0" zero_passphase rev "\<lambda>key. rev"] f(7)
    by (simp add: zero_passphase_def cipher_pair_def) blast
qed

section \<open>Key store\<close>

text \<open>
  C18. After a login the key store that is handed to the kernel has exactly two entries, which can be read back from
  it: the password under the identifier of the user, and the key encrypting key under its identifier,
  the second one being the last; the size that is answered covers both.
\<close>

theorem key_store_roundtrip:
  assumes "FvpUserPassword v = Some (p @ 0 # x)" and "0 \<notin> set p" and "FvpLoginUnlockIdent v = Some ident" and "FvpKeyEncryptingKeyIdent v = Some kekIdent"
    and "BlUUIDStringToBuffer ident = Some (Some u)" and "BlUUIDStringToBuffer kekIdent = Some (Some w)"
    and "FvpVolumeKeyKEKLength v \<le> length (FvpVolumeKeyKEK v)"
    and "entry_size (length p) + entry_size (FvpVolumeKeyKEKLength v) \<le> length b" and "length b < 2 ^ 32" and "a \<noteq> 0"
  shows "\<exists>b'. FvSetupDeviceTree locate kernelMemory (Some a) False b v h =
      Some (EFI_SUCCESS, Some a, entry_size (length p) + entry_size (FvpVolumeKeyKEKLength v), b', h) \<and> length b' = length b \<and>
    entry_at b' 0 = (of_nat (entry_size (length p)), 2, 0, u, p) \<and>
    entry_at b' (entry_size (length p)) = (0, 1, 2, w, take (FvpVolumeKeyKEKLength v) (FvpVolumeKeyKEK v))"
proof -
  have "strlen (p @ 0 # x) = Some (length p)" using assms(2) by (induction p) auto
  moreover have "0 < entry_size (length p)" by (simp add: entry_size_def sizeof_KEY_STORE_DATA_HEADER_def)
  ultimately show ?thesis
    using key_store_entries [OF assms(1-9)] assms(1,3,4,10) by (auto simp: FvSetupDeviceTree_def login_properties_def)
qed

definition sample_vault :: file_vault where
  "sample_vault = \<lparr>FvpEncryptedRootPlistTag = None, FvpWrappedVolumeKeyCount = 0, FvpWrappedVolumeKeysListTag = None,
     FvpMasterKeyUserDictTag = None, FvpRecoveryKeyUserDictTag = None, FvpResetIdent = None,
     FvpLoginUnlockIdent = Some (cstr ''00112233-4455-6677-8899-aabbccddeeff''), FvpUserPassword = Some [0x70, 0],
     FvpKeyEncryptingKeyIdent = Some (cstr ''FFEEDDCC-BBAA-9988-7766-554433221100''), FvpVolumeKeyKEKLength = 16,
     FvpVolumeKeyKEK = replicate 0x80 9, FvpVolumeKeyCount = 0, FvpVolumeKeyList = [], fv_localBuffer = replicate 0x200 0,
     fv_keyBuffer = replicate 0x100 0\<rparr>"

lemma sample_uuids:
  "BlUUIDStringToBuffer (cstr ''00112233-4455-6677-8899-aabbccddeeff'') =
     Some (Some [0, 0x11, 0x22, 0x33, 0x44, 0x55, 0x66, 0x77, 0x88, 0x99, 0xaa, 0xbb, 0xcc, 0xdd, 0xee, 0xff])"
  "BlUUIDStringToBuffer (cstr ''FFEEDDCC-BBAA-9988-7766-554433221100'') =
     Some (Some [0xff, 0xee, 0xdd, 0xcc, 0xbb, 0xaa, 0x99, 0x88, 0x77, 0x66, 0x55, 0x44, 0x33, 0x22, 0x11, 0])"
  by code_simp+

theorem key_store_roundtrip_witness:
  "\<forall>h. \<exists>b'. FvSetupDeviceTree (\<lambda>_. 0) 0 (Some 0x1000) False (replicate 128 0) sample_vault h = Some (EFI_SUCCESS, Some 0x1000, 120, b', h) \<and>
    length b' = 128 \<and>
    entry_at b' 0 = (56, 2, 0, [0, 0x11, 0x22, 0x33, 0x44, 0x55, 0x66, 0x77, 0x88, 0x99, 0xaa, 0xbb, 0xcc, 0xdd, 0xee, 0xff], [0x70]) \<and>
    entry_at b' 56 = (0, 1, 2, [0xff, 0xee, 0xdd, 0xcc, 0xbb, 0xaa, 0x99, 0x88, 0x77, 0x66, 0x55, 0x44, 0x33, 0x22, 0x11, 0], replicate 16 9)"
proof
  fix h :: dev_tree
  have e: "entry_size 1 = 56" "entry_size 16 = 64" by (simp_all add: entry_size_def sizeof_KEY_STORE_DATA_HEADER_def)
  have v: "FvpUserPassword sample_vault = Some ([0x70] @ 0 # [])" "FvpLoginUnlockIdent sample_vault = Some (cstr ''00112233-4455-6677-8899-aabbccddeeff'')"
    "FvpKeyEncryptingKeyIdent sample_vault = Some (cstr ''FFEEDDCC-BBAA-9988-7766-554433221100'')" "FvpVolumeKeyKEKLength sample_vault = 16"
    "FvpVolumeKeyKEK sample_vault = replicate 0x80 9"
    by (simp_all add: sample_vault_def)
  show "\<exists>b'. FvSetupDeviceTree (\<lambda>_. 0) 0 (Some 0x1000) False (replicate 128 0) sample_vault h = Some (EFI_SUCCESS, Some 0x1000, 120, b', h) \<and>
    length b' = 128 \<and>
    entry_at b' 0 = (56, 2, 0, [0, 0x11, 0x22, 0x33, 0x44, 0x55, 0x66, 0x77, 0x88, 0x99, 0xaa, 0xbb, 0xcc, 0xdd, 0xee, 0xff], [0x70]) \<and>
    entry_at b' 56 = (0, 1, 2, [0xff, 0xee, 0xdd, 0xcc, 0xbb, 0xaa, 0x99, 0x88, 0x77, 0x66, 0x55, 0x44, 0x33, 0x22, 0x11, 0], replicate 16 9)"
    using key_store_roundtrip [OF v(1) _ v(2,3) sample_uuids, of "replicate 128 0" "0x1000" "\<lambda>_. 0" 0 h] v(4,5) e by simp
qed

end
