(* ===== verification/FileVaultInput.thy ===== *)
theory FileVaultInput
  imports FileVaultKeys Unicode
begin

text \<open>
  The input of FileVault.c: FvpReadInput and FvpReadSelection over the keys that the firmware reports, each
  with its status. What is drawn on the screen is left out.
\<close>

definition CHAR_CARRIAGE_RETURN :: u16 where "CHAR_CARRIAGE_RETURN = 0x0d"
definition CHAR_BACKSPACE :: u16 where "CHAR_BACKSPACE = 0x08"

text \<open>
  The buffer grows when it is full. The copy takes as many bytes as there are characters, which is half of
  them; the number is even, since every buffer has an even length. The contents of a new buffer are given,
  None when there is no memory.
\<close>

definition grow_input :: "(nat \<Rightarrow> u16 list option) \<Rightarrow> u16 list \<Rightarrow> nat \<Rightarrow> nat \<Rightarrow> (u16 list \<times> nat) option" where
  "grow_input fresh inputBuffer16 inputLength16 bufferLength =
     (if inputLength16 < bufferLength then Some (inputBuffer16, bufferLength)
      else do {
        let bufferLength = (if inputLength16 * 2 < 80 then 80 else inputLength16 * 2);
        newBuffer \<leftarrow> fresh bufferLength;
        Some (overlay newBuffer 0 (take (inputLength16 div 2) inputBuffer16), bufferLength)
      })"

text \<open>The keys up to the end of the line; None when the line has no end.\<close>

fun read_keys :: "(nat \<Rightarrow> u16 list option) \<Rightarrow> nat \<Rightarrow> (EFI_STATUS \<times> u16) list \<Rightarrow> u16 list \<Rightarrow> nat \<Rightarrow> nat \<Rightarrow> (u16 list \<times> nat) option" where
  "read_keys fresh maxLength [] inputBuffer16 inputLength16 bufferLength =
     (if maxLength \<noteq> 0 \<and> maxLength \<le> inputLength16 then Some (inputBuffer16, inputLength16) else None)"
| "read_keys fresh maxLength ((status, ch) # keys) inputBuffer16 inputLength16 bufferLength =
     (if maxLength \<noteq> 0 \<and> maxLength \<le> inputLength16 then Some (inputBuffer16, inputLength16)
      else if EFI_ERROR status then read_keys fresh maxLength keys inputBuffer16 inputLength16 bufferLength
      else if ch = CHAR_CARRIAGE_RETURN then Some (inputBuffer16, inputLength16)
      else if ch = CHAR_BACKSPACE then read_keys fresh maxLength keys inputBuffer16 (inputLength16 - 1) bufferLength
      else if 0x20 \<le> ch then do {
        (inputBuffer16, bufferLength) \<leftarrow> grow_input fresh inputBuffer16 inputLength16 bufferLength;
        if length inputBuffer16 \<le> inputLength16 then None
        else read_keys fresh maxLength keys (inputBuffer16[inputLength16 := ch]) (inputLength16 + 1) bufferLength
      }
      else read_keys fresh maxLength keys inputBuffer16 inputLength16 bufferLength)"

text \<open>
  The line as UTF-8 in the caller's buffer, which is replaced when it is too short for three bytes per character; a static
  buffer holds the characters. The new byte buffer is given, too.
\<close>

definition FvpReadInput ::
  "(nat \<Rightarrow> u16 list option) \<Rightarrow> (nat \<Rightarrow> u8 list option) \<Rightarrow> nat \<Rightarrow> (EFI_STATUS \<times> u16) list \<Rightarrow> u16 list \<Rightarrow> u8 list \<Rightarrow> (u16 list \<times> u8 list) option" where
  "FvpReadInput fresh fresh8 maxLength keys inputBuffer16 inputBuffer = do {
     (inputBuffer16, inputLength16) \<leftarrow> read_keys fresh maxLength keys inputBuffer16 0 0;
     inputBuffer \<leftarrow> (if length inputBuffer < inputLength16 * 3 + 2 then fresh8 (inputLength16 * 3 + 2) else Some inputBuffer);
     if length inputBuffer16 < inputLength16 then None
     else do {
       (status, inputBuffer) \<leftarrow> BlUnicodeToUtf8 (take inputLength16 inputBuffer16) inputBuffer;
       Some (inputBuffer16, inputBuffer)
     }
   }"

fun FvpReadSelection :: "nat \<Rightarrow> (EFI_STATUS \<times> u16) list \<Rightarrow> nat option" where
  "FvpReadSelection maxCount [] = None"
| "FvpReadSelection maxCount ((status, ch) # keys) =
     (if EFI_ERROR status then FvpReadSelection maxCount keys
      else if 0x31 \<le> ch \<and> unat ch < 0x31 + maxCount then Some (unat ch - 0x31)
      else FvpReadSelection maxCount keys)"

text \<open>What a line means: backspace takes the last character back, other control characters do nothing.\<close>

fun typed :: "(EFI_STATUS \<times> u16) list \<Rightarrow> u16 list \<Rightarrow> u16 list" where
  "typed [] cs = cs"
| "typed ((status, ch) # keys) cs =
     (if EFI_ERROR status then typed keys cs
      else if ch = CHAR_CARRIAGE_RETURN then cs
      else if ch = CHAR_BACKSPACE then typed keys (butlast cs)
      else if 0x20 \<le> ch then typed keys (cs @ [ch])
      else typed keys cs)"

text \<open>A line of fewer than 80 keys is what was typed.\<close>

lemma short_line:
  assumes "(EFI_SUCCESS, CHAR_CARRIAGE_RETURN) \<in> set keys" and "length cs + length keys \<le> 81" and "\<And>n. \<exists>b. fresh n = Some b \<and> length b = n"
    and "take (length cs) b = cs" and "length cs \<le> length b" and "m = length b \<and> m = 80 \<or> m = 0 \<and> cs = []"
  shows "\<exists>b'. read_keys fresh 0 keys b (length cs) m = Some (b', length (typed keys cs)) \<and> take (length (typed keys cs)) b' = typed keys cs"
  using assms(1,2,4-6)
proof (induction keys arbitrary: cs b m)
  case (Cons key keys)
  obtain status ch where key: "key = (status, ch)" by (cases key)
  have grown: "\<exists>b1. grow_input fresh b (length cs) m = Some (b1, 80) \<and> length b1 = 80 \<and> take (length cs) b1 = cs" if "length cs < 80"
  proof (cases "m = 0")
    case True
    then have "cs = []" using Cons.prems(5) by simp
    then show ?thesis using assms(3) [of 80] True by (auto simp: grow_input_def)
  next
    case False
    then have "m = length b" "m = 80" using Cons.prems(5) by auto
    then show ?thesis using Cons.prems(3) that by (simp add: grow_input_def)
  qed
  show ?case
  proof (cases "status = EFI_SUCCESS \<and> ch \<noteq> CHAR_CARRIAGE_RETURN \<and> ch \<noteq> CHAR_BACKSPACE \<and> 0x20 \<le> ch")
    case True
    then have cr: "(EFI_SUCCESS, CHAR_CARRIAGE_RETURN) \<in> set keys" using Cons.prems(1) key by auto
    then have "1 \<le> length keys" by (cases keys) simp_all
    then have "length cs < 80" using Cons.prems(2) by simp
    then obtain b1 where b1: "grow_input fresh b (length cs) m = Some (b1, 80)" "length b1 = 80" "take (length cs) b1 = cs" using grown by blast
    have "take (length (cs @ [ch])) (b1[length cs := ch]) = cs @ [ch]" using b1 \<open>length cs < 80\<close> by (simp add: take_Suc_conv_app_nth)
    then show ?thesis using Cons.IH [of "cs @ [ch]" "b1[length cs := ch]" 80] Cons.prems(2) cr b1 True key \<open>length cs < 80\<close> by simp
  next
    case False
    have "take (length cs - 1) b = butlast cs" using Cons.prems(3) by (metis butlast_take diff_le_self length_butlast take_butlast take_take min.absorb1 butlast_conv_take)
    then show ?thesis
      using False key Cons.IH [of "butlast cs" b m] Cons.IH [of cs b m] Cons.prems
      by (cases "status = EFI_SUCCESS"; cases "ch = CHAR_CARRIAGE_RETURN"; cases "ch = CHAR_BACKSPACE") auto
  qed
qed simp

text \<open>With one more character than the first buffer holds, characters are lost.\<close>

lemma long_line_lost:
  "\<exists>b. read_keys (\<lambda>n. Some (replicate n 0)) 0 (replicate 81 (EFI_SUCCESS, 0x61) @ [(EFI_SUCCESS, CHAR_CARRIAGE_RETURN)]) [] 0 0 = Some (b, 81) \<and>
     take 81 b = replicate 40 0x61 @ replicate 40 0 @ [0x61]"
proof -
  have "map_option (\<lambda>(b, n). (take 81 b, n)) (read_keys (\<lambda>n. Some (replicate n 0)) 0
      (replicate 81 (EFI_SUCCESS, 0x61) @ [(EFI_SUCCESS, CHAR_CARRIAGE_RETURN)]) [] 0 0) = Some (replicate 40 0x61 @ replicate 40 0 @ [0x61], 81)"
    by code_simp
  then show ?thesis by auto
qed

end
